(* ===== verification/Prelude.thy ===== *)
theory Prelude
  imports Complex_Main "HOL-Library.Multiset" "HOL-Library.List_Lexorder" "HOL-Library.Char_ord"
begin

text \<open>
  Shared vocabulary of the development.  Times and other Python floats are exact rationals
  (\<open>rat\<close>), Python integers are \<open>int\<close>, strings are \<open>string\<close>.  The theory holds the value
  types of exceptions the components share, a few Python built-ins (\<open>int()\<close> on a float,
  truthiness of an optional number), generic list lemmas, and the interface of a state
  machine whose operations keep an invariant.
\<close>

named_theorems store_simps \<open>unfolding rules of the store operations\<close>

type_synonym time = rat

datatype py_error = ValueError | KeyError | TypeError | RuntimeError | AttributeError

section \<open>Python built-ins\<close>

definition py_int :: "rat \<Rightarrow> int" where
  "py_int x = (if x < 0 then - \<lfloor>- x\<rfloor> else \<lfloor>x\<rfloor>)"

lemma py_int_nonneg [simp]: "0 \<le> x \<Longrightarrow> py_int x = \<lfloor>x\<rfloor>"
  by (simp add: py_int_def)

text \<open>\<open>x or d\<close> for an optional number: None and zero are false.\<close>

definition or_default :: "rat option \<Rightarrow> rat \<Rightarrow> rat" where
  "or_default x d = (case x of None \<Rightarrow> d | Some v \<Rightarrow> if v = 0 then d else v)"

section \<open>Text\<close>

text \<open>Python strings are sequences of the bytes of their UTF-8 encoding.\<close>

definition is_space :: "char \<Rightarrow> bool" where
  "is_space c \<longleftrightarrow> of_char c \<in> {9::int, 10, 11, 12, 13, 32}"

definition strip :: "string \<Rightarrow> string" where
  "strip s = rev (dropWhile is_space (rev (dropWhile is_space s)))"

definition is_lower :: "char \<Rightarrow> bool" where
  "is_lower c \<longleftrightarrow> 97 \<le> (of_char c :: int) \<and> (of_char c :: int) \<le> 122"

definition is_upper :: "char \<Rightarrow> bool" where
  "is_upper c \<longleftrightarrow> 65 \<le> (of_char c :: int) \<and> (of_char c :: int) \<le> 90"

definition is_digit :: "char \<Rightarrow> bool" where
  "is_digit c \<longleftrightarrow> 48 \<le> (of_char c :: int) \<and> (of_char c :: int) \<le> 57"

definition is_alpha :: "char \<Rightarrow> bool" where
  "is_alpha c \<longleftrightarrow> is_lower c \<or> is_upper c"

definition is_alnum :: "char \<Rightarrow> bool" where
  "is_alnum c \<longleftrightarrow> is_alpha c \<or> is_digit c"

definition is_hex_lower :: "char \<Rightarrow> bool" where
  "is_hex_lower c \<longleftrightarrow> is_digit c \<or> (97 \<le> (of_char c :: int) \<and> (of_char c :: int) \<le> 102)"

lemmas char_class_defs = is_space_def is_lower_def is_upper_def is_digit_def is_alpha_def is_alnum_def
  is_hex_lower_def

text \<open>\<open>lower()\<close> and \<open>in\<close> on ASCII text.\<close>

definition lower_char :: "char \<Rightarrow> char" where
  "lower_char c = (if is_upper c then char_of ((of_char c :: nat) + 32) else c)"

definition lower :: "string \<Rightarrow> string" where
  "lower s = map lower_char s"

fun starts_with :: "string \<Rightarrow> string \<Rightarrow> bool" where
  "starts_with s [] = True"
| "starts_with [] (p # ps) = False"
| "starts_with (c # cs) (p # ps) = (c = p \<and> starts_with cs ps)"

fun contains_text :: "string \<Rightarrow> string \<Rightarrow> bool" where
  "contains_text [] p = (p = [])"
| "contains_text (c # cs) p = (starts_with (c # cs) p \<or> contains_text cs p)"

lemma dropWhile_hd: "dropWhile P xs = [] \<or> \<not> P (hd (dropWhile P xs))"
  by (metis hd_dropWhile)

lemma dropWhile_idem: "dropWhile P (dropWhile P xs) = dropWhile P xs"
  by (induction xs) auto

lemma strip_strip [simp]: "strip (strip s) = strip s"
proof -
  let ?d = "dropWhile is_space"
  let ?a = "?d s"
  have "?d (rev (?d (rev ?a))) = rev (?d (rev ?a))"
  proof (cases "?d (rev ?a) = []")
    case False
    let ?r = "rev (?d (rev ?a))"
    have "?a = ?r @ rev (takeWhile is_space (rev ?a))"
      by (metis rev_append rev_rev_ident takeWhile_dropWhile_id)
    moreover have "?r \<noteq> []" using False by simp
    ultimately have "hd ?a = hd ?r" "?a \<noteq> []" by (metis hd_append2, metis append_is_Nil_conv)
    then have "\<not> is_space (hd ?r)" using dropWhile_hd [of is_space s] by metis
    then show ?thesis using False by (cases ?r) auto
  next
    case True
    then show ?thesis by (simp only: rev.simps dropWhile.simps)
  qed
  then show ?thesis unfolding strip_def by (simp add: dropWhile_idem)
qed

lemma strip_clean: "list_all (\<lambda>c. \<not> is_space c) s \<Longrightarrow> strip s = s"
proof -
  have *: "dropWhile is_space t = t" if "\<forall>c \<in> set t. \<not> is_space c" for t using that by (cases t) auto
  show "list_all (\<lambda>c. \<not> is_space c) s \<Longrightarrow> ?thesis" by (simp add: strip_def list_all_iff *)
qed

lemma strip_ends: "s \<noteq> [] \<Longrightarrow> \<not> is_space (hd s) \<Longrightarrow> \<not> is_space (last s) \<Longrightarrow> strip s = s"
proof -
  assume s: "s \<noteq> []" "\<not> is_space (hd s)" "\<not> is_space (last s)"
  then have "dropWhile is_space s = s" by (cases s) auto
  moreover have "dropWhile is_space (rev s) = rev s" using s(1,3) by (cases s rule: rev_cases) auto
  ultimately show ?thesis by (simp add: strip_def)
qed

definition digit_char :: "nat \<Rightarrow> char" where
  "digit_char d = char_of (48 + d)"

fun nat_text :: "nat \<Rightarrow> string" where
  "nat_text n = (if n < 10 then [digit_char n] else nat_text (n div 10) @ [digit_char (n mod 10)])"

declare nat_text.simps [simp del]

definition int_text :: "int \<Rightarrow> string" where
  "int_text i = (if i < 0 then ''-'' @ nat_text (nat (- i)) else nat_text (nat i))"

lemma nat_text_digits: "list_all is_digit (nat_text n) \<and> nat_text n \<noteq> []"
proof (induction n rule: nat_text.induct)
  case (1 n)
  have "is_digit (digit_char d)" if "d < 10" for d
  proof -
    have "list_all (\<lambda>d. is_digit (digit_char d)) [0..<10]" by code_simp
    then show ?thesis using that by (simp only: list_all_iff) simp
  qed
  with 1 have "list_all is_digit (nat_text n)" by (subst nat_text.simps) auto
  moreover have "nat_text n \<noteq> []" by (subst nat_text.simps) simp
  ultimately show ?case by simp
qed

lemma digit_char_inj: "d < 10 \<Longrightarrow> e < 10 \<Longrightarrow> digit_char d = digit_char e \<Longrightarrow> d = e"
proof -
  assume d: "d < 10" "e < 10" "digit_char d = digit_char e"
  have "distinct (map digit_char [0..<10])" by code_simp
  then have "inj_on digit_char (set [0..<10])" by (simp only: distinct_map)
  with d show "d = e" by (simp add: inj_on_def)
qed

lemma nat_text_inj: "nat_text n = nat_text m \<Longrightarrow> n = m"
proof (induction n arbitrary: m rule: nat_text.induct)
  case (1 n)
  show ?case
  proof (cases "n < 10"; cases "m < 10")
    assume small: "n < 10" "m < 10"
    then have "digit_char n = digit_char m" using 1(2) nat_text.simps [of n] nat_text.simps [of m] by simp
    with small show ?thesis by (rule digit_char_inj)
  next
    assume big: "\<not> n < 10" "\<not> m < 10"
    then have same: "nat_text (n div 10) = nat_text (m div 10)" "digit_char (n mod 10) = digit_char (m mod 10)"
      using 1(2) nat_text.simps [of n] nat_text.simps [of m] by simp_all
    have "n div 10 = m div 10" using 1(1) [OF big(1) same(1)] .
    moreover have "n mod 10 = m mod 10" using same(2) by (intro digit_char_inj) simp_all
    ultimately show ?thesis by (metis div_mult_mod_eq)
  qed (use 1(2) nat_text.simps [of n] nat_text.simps [of m] nat_text_digits [of "n div 10"] nat_text_digits [of "m div 10"] in \<open>auto split: if_splits\<close>)
qed

section \<open>JSON values\<close>

text \<open>
  The values that cross tool, store and HTTP boundaries.  Python's \<open>None\<close> is \<open>JNull\<close>; a
  dictionary is the list of its items in insertion order.
\<close>

datatype json =
    JNull
  | JBool bool
  | JInt int
  | JFloat rat
  | JStr string
  | JArr "json list"
  | JObj "(string \<times> json) list"

type_synonym fields = "(string \<times> json) list"

fun is_dict :: "json \<Rightarrow> bool" where
  "is_dict (JObj _) = True"
| "is_dict _ = False"

text \<open>\<open>d.get(name)\<close>, and \<open>name in d\<close> as a result other than \<open>None\<close>.\<close>

fun json_get :: "json \<Rightarrow> string \<Rightarrow> json option" where
  "json_get (JObj fs) name = map_of fs name"
| "json_get _ name = None"

text \<open>\<open>d.get(name)\<close> where a missing field and a null read alike.\<close>

definition field_or_null :: "json \<Rightarrow> string \<Rightarrow> json" where
  "field_or_null payload name = (case json_get payload name of None \<Rightarrow> JNull | Some v \<Rightarrow> v)"

text \<open>\<open>isinstance(v, (int, float))\<close>, booleans included, and the number.\<close>

fun json_number :: "json \<Rightarrow> rat option" where
  "json_number (JInt i) = Some (of_int i)"
| "json_number (JFloat x) = Some x"
| "json_number (JBool b) = Some (if b then 1 else 0)"
| "json_number _ = None"

fun truthy :: "json \<Rightarrow> bool" where
  "truthy JNull = False"
| "truthy (JBool b) = b"
| "truthy (JInt i) = (i \<noteq> 0)"
| "truthy (JFloat x) = (x \<noteq> 0)"
| "truthy (JStr s) = (s \<noteq> [])"
| "truthy (JArr xs) = (xs \<noteq> [])"
| "truthy (JObj fs) = (fs \<noteq> [])"

text \<open>\<open>int(x)\<close> of a JSON value; None is the exception.\<close>

fun digits_value :: "nat \<Rightarrow> string \<Rightarrow> nat option" where
  "digits_value acc [] = Some acc"
| "digits_value acc (c # cs) = (if is_digit c then digits_value (10 * acc + (of_char c - 48)) cs else None)"

definition unsigned_value :: "string \<Rightarrow> int option" where
  "unsigned_value t = (if t = [] then None else map_option int (digits_value 0 t))"

definition text_int :: "string \<Rightarrow> int option" where
  "text_int raw =
     (case strip raw of
        [] \<Rightarrow> None
      | c # cs \<Rightarrow> if c = CHR ''-'' then map_option uminus (unsigned_value cs)
                  else if c = CHR ''+'' then unsigned_value cs else unsigned_value (c # cs))"

fun json_int :: "json \<Rightarrow> int option" where
  "json_int (JInt i) = Some i"
| "json_int (JBool b) = Some (if b then 1 else 0)"
| "json_int (JFloat x) = Some (py_int x)"
| "json_int (JStr t) = text_int t"
| "json_int _ = None"

lemma size_field: "(k, v) \<in> set fs \<Longrightarrow> size v < size (JObj fs)"
  by (induction fs) auto

lemma size_item: "v \<in> set xs \<Longrightarrow> size v < size (JArr xs)"
  by (induction xs) auto

text \<open>\<open>str()\<close>, which is the parameter \<open>pstr\<close> on values that are no strings.\<close>

fun str_of :: "(json \<Rightarrow> string) \<Rightarrow> json \<Rightarrow> string" where
  "str_of pstr (JStr s) = s"
| "str_of pstr v = pstr v"

text \<open>Dictionaries as item lists: \<open>d[name] = v\<close>, and \<open>{**d, **e}\<close>.\<close>

fun dict_set :: "(string \<times> 'v) list \<Rightarrow> string \<Rightarrow> 'v \<Rightarrow> (string \<times> 'v) list" where
  "dict_set [] name v = [(name, v)]"
| "dict_set ((n, u) # d) name v = (if n = name then (name, v) # d else (n, u) # dict_set d name v)"

definition dict_merge :: "(string \<times> 'v) list \<Rightarrow> (string \<times> 'v) list \<Rightarrow> (string \<times> 'v) list" where
  "dict_merge d e = fold (\<lambda>(n, v) acc. dict_set acc n v) e d"

definition dict_has :: "(string \<times> 'v) list \<Rightarrow> string \<Rightarrow> bool" where
  "dict_has d name \<longleftrightarrow> name \<in> set (map fst d)"

lemma map_of_dict_set [simp]: "map_of (dict_set d name v) = (map_of d)(name \<mapsto> v)"
  by (induction d) auto

lemma keys_dict_set [simp]: "fst ` set (dict_set d name v) = insert name (fst ` set d)"
  by (induction d name v rule: dict_set.induct) (simp_all add: insert_commute)

lemma distinct_dict_set: "distinct (map fst d) \<Longrightarrow> distinct (map fst (dict_set d key v))"
  by (induction d key v rule: dict_set.induct) auto

lemma map_of_dict_merge: "map_of (dict_merge d e) = map_of d ++ map_of (rev e)"
proof -
  have "map_of (fold (\<lambda>(n, v) acc. dict_set acc n v) e d) = map_of d ++ map_of (rev e)"
    by (induction e arbitrary: d) (auto simp: map_add_def fun_eq_iff split: option.splits prod.splits)
  then show ?thesis by (simp add: dict_merge_def)
qed

text \<open>\<open>x or d\<close> for an optional string: None and the empty string are false.\<close>

definition or_text :: "string option \<Rightarrow> string \<Rightarrow> string" where
  "or_text x d = (case x of None \<Rightarrow> d | Some s \<Rightarrow> if s = [] then d else s)"

section \<open>Refusals\<close>

text \<open>
  A step that may refuse: \<open>Inl\<close> the reason, \<open>Inr\<close> the value.  \<open>and_then\<close> goes on with the value,
  \<open>each\<close> runs a step on every element and stops at the first refusal.
\<close>

definition and_then :: "'e + 'a \<Rightarrow> ('a \<Rightarrow> 'e + 'b) \<Rightarrow> 'e + 'b" where
  "and_then r f = (case r of Inl e \<Rightarrow> Inl e | Inr v \<Rightarrow> f v)"

lemma and_then_simps [simp]: "and_then (Inl e) f = Inl e" "and_then (Inr v) f = f v"
  by (simp_all add: and_then_def)

fun each :: "('a \<Rightarrow> 'e + 'b) \<Rightarrow> 'a list \<Rightarrow> 'e + 'b list" where
  "each f [] = Inr []"
| "each f (x # xs) = and_then (f x) (\<lambda>y. and_then (each f xs) (\<lambda>ys. Inr (y # ys)))"

definition refused_as :: "'r \<Rightarrow> 'e + 'a \<Rightarrow> 'r + 'a" where
  "refused_as code r = (case r of Inl _ \<Rightarrow> Inl code | Inr x \<Rightarrow> Inr x)"

lemma and_then_Inr: "and_then r f = Inr y \<longleftrightarrow> (\<exists>x. r = Inr x \<and> f x = Inr y)"
  by (cases r) auto

lemma each_Inr: "each f xs = Inr ys \<longleftrightarrow> list_all2 (\<lambda>x y. f x = Inr y) xs ys"
  by (induction xs arbitrary: ys) (auto simp: and_then_Inr list_all2_Cons1)

lemma each_map: "each f (map g xs) = each (\<lambda>x. f (g x)) xs"
  by (induction xs) simp_all

lemma each_id: "(\<And>x. x \<in> set xs \<Longrightarrow> f x = Inr x) \<Longrightarrow> each f xs = Inr xs"
  by (induction xs) simp_all

lemma refused_as_Inr [simp]: "refused_as code r = Inr x \<longleftrightarrow> r = Inr x"
  by (auto simp: refused_as_def split: sum.splits)

text \<open>\<open>dict.fromkeys\<close>: the first occurrence of each element.\<close>

definition dedupe :: "'a list \<Rightarrow> 'a list" where
  "dedupe xs = rev (remdups (rev xs))"

lemma dedupe_simps [simp]: "set (dedupe xs) = set xs" "distinct (dedupe xs)"
  by (simp_all add: dedupe_def)

section \<open>Lists\<close>

lemma dropWhile_le_filter:
  "sorted xs \<Longrightarrow> dropWhile (\<lambda>t. t \<le> c) xs = filter (\<lambda>t. c < t) (xs :: 'a::linorder list)"
proof (induction xs)
  case (Cons x xs)
  show ?case
  proof (cases "x \<le> c")
    case True
    with Cons show ?thesis by auto
  next
    case False
    with Cons.prems have "\<forall>y \<in> set xs. c < y" by fastforce
    with False show ?thesis by (simp add: filter_id_conv)
  qed
qed simp

lemma sorted_snoc: "sorted xs \<Longrightarrow> \<forall>y \<in> set xs. y \<le> x \<Longrightarrow> sorted (xs @ [x :: 'a::linorder])"
  by (simp add: sorted_append)

lemma length_filter_mono:
  "(\<And>x. x \<in> set xs \<Longrightarrow> P x \<Longrightarrow> Q x) \<Longrightarrow> length (filter P xs) \<le> length (filter Q xs)"
  by (induction xs) auto

lemma sort_key_hd: "sort_key k xs = y # ys \<Longrightarrow> y \<in> set xs"
  by (metis list.set_intros(1) set_sort)

lemma find_snoc_new: "(\<forall>x \<in> set xs. \<not> P x) \<Longrightarrow> P y \<Longrightarrow> find P (xs @ [y]) = Some y"
  by (induction xs) auto

lemma find_member: "find P xs = Some x \<Longrightarrow> x \<in> set xs \<and> P x"
  by (auto simp: find_Some_iff)

lemma find_unique: "distinct (map f xs) \<Longrightarrow> x \<in> set xs \<Longrightarrow> find (\<lambda>y. f y = f x) xs = Some x"
  by (induction xs) auto

lemma filter_unique:
  "distinct (map f xs) \<Longrightarrow> x \<in> set xs \<Longrightarrow> P x \<Longrightarrow> (\<And>y. P y \<Longrightarrow> f y = f x) \<Longrightarrow> filter P xs = [x]"
proof (induction xs)
  case (Cons a xs)
  show ?case
  proof (cases "a = x")
    case True
    have "\<not> P y" if "y \<in> set xs" for y
      using that True Cons.prems(1) Cons.prems(4) [of y] by (auto simp: image_iff)
    then show ?thesis using True Cons.prems(3) by (auto simp: filter_empty_conv)
  next
    case False
    then have x: "x \<in> set xs" using Cons.prems(2) by simp
    then have "\<not> P a" using Cons.prems(1) Cons.prems(4) [of a] by (auto simp: image_iff)
    then show ?thesis using Cons.IH [OF _ x Cons.prems(3,4)] Cons.prems(1) by simp
  qed
qed simp

lemma subset_add_mset: "A \<subseteq># B \<Longrightarrow> A \<subseteq># add_mset x B"
  by (auto simp: subseteq_mset_def intro: le_SucI)

lemma distinct_sub_mset:
  assumes "mset xs \<subseteq># mset ys" "distinct ys"
  shows "distinct xs"
proof -
  from assms(1) obtain zs where "mset ys = mset (xs @ zs)" by (metis ex_mset mset_append subset_mset.le_iff_add)
  then have "distinct (xs @ zs)" using assms(2) mset_eq_imp_distinct_iff by blast
  then show ?thesis by simp
qed

lemma insort_key_map_snd:
  "insort_key fst (k, g v) (map (\<lambda>(k, v). (k, g v)) xs) = map (\<lambda>(k, v). (k, g v)) (insort_key fst (k, v) xs)"
  by (induction xs) auto

lemma sort_key_map_snd:
  "sort_key fst (map (\<lambda>(k, v). (k, g v)) xs) = map (\<lambda>(k, v). (k, g v)) (sort_key fst (xs :: (string \<times> 'v) list))"
  by (induction xs) (auto simp: insort_key_map_snd)

section \<open>State machines with an invariant\<close>

text \<open>
  The contract between a component and whoever drives it: a start state, a step per
  operation, and an invariant that holds at the start and survives each operation the
  environment may issue (\<open>ok\<close>).  Every sequence of such operations keeps the invariant.
\<close>

primrec run_ops :: "('s \<Rightarrow> 'op \<Rightarrow> 's) \<Rightarrow> 's \<Rightarrow> 'op list \<Rightarrow> 's" where
  "run_ops step s [] = s"
| "run_ops step s (a # as) = run_ops step (step s a) as"

primrec ops_ok :: "('s \<Rightarrow> 'op \<Rightarrow> bool) \<Rightarrow> ('s \<Rightarrow> 'op \<Rightarrow> 's) \<Rightarrow> 's \<Rightarrow> 'op list \<Rightarrow> bool" where
  "ops_ok ok step s [] = True"
| "ops_ok ok step s (a # as) = (ok s a \<and> ops_ok ok step (step s a) as)"

lemma run_ops_append: "run_ops step s (as @ bs) = run_ops step (run_ops step s as) bs"
  by (induction as arbitrary: s) auto

lemma ops_ok_True [simp]: "ops_ok (\<lambda>_ _. True) step s as"
  by (induction as arbitrary: s) auto

locale invariant_machine =
  fixes init :: "'s" and ok :: "'s \<Rightarrow> 'op \<Rightarrow> bool" and step :: "'s \<Rightarrow> 'op \<Rightarrow> 's"
    and inv :: "'s \<Rightarrow> bool"
  assumes inv_init: "inv init"
    and inv_step: "inv s \<Longrightarrow> ok s a \<Longrightarrow> inv (step s a)"
begin

lemma inv_run_from: "inv s \<Longrightarrow> ops_ok ok step s as \<Longrightarrow> inv (run_ops step s as)"
  by (induction as arbitrary: s) (auto intro: inv_step)

lemma inv_run: "ops_ok ok step init as \<Longrightarrow> inv (run_ops step init as)"
  using inv_init by (rule inv_run_from)

end

end
