(* ===== verification/RateLimit.thy ===== *)
theory RateLimit
  imports Prelude
begin

text \<open>
  The sliding-window request limiter of \<open>src/uk_rent_agent/web/rate_limit.py\<close>.  One class
  has two stores: a deque per key in memory, and a shared SQLite table of
  (subject hash, time) rows.  Both are modelled, with the abstract limiter they implement:
  a ledger of net charges per key, a call being admitted when fewer than \<open>limit\<close> of the
  key's charges lie in the window that ends now.  The clock reading is an argument of the
  operation, SHA-256 is the parameter \<open>digest\<close>.
\<close>

section \<open>The in-memory deques\<close>

type_synonym events = "string \<rightharpoonup> rat list"

definition bucket_of :: "events \<Rightarrow> string \<Rightarrow> rat list" where
  "bucket_of ev key = (case ev key of None \<Rightarrow> [] | Some b \<Rightarrow> b)"

definition retry_after :: "rat \<Rightarrow> int \<Rightarrow> rat \<Rightarrow> int" where
  "retry_after oldest window now = max 1 (py_int (oldest + of_int window - now) + 1)"

definition allow_memory ::
  "events \<Rightarrow> string \<Rightarrow> int \<Rightarrow> int \<Rightarrow> rat \<Rightarrow> (bool \<times> int) \<times> events" where
  "allow_memory ev key limit window now =
     (let bucket = dropWhile (\<lambda>t. t \<le> now - of_int window) (bucket_of ev key) in
      if limit \<le> int (length bucket)
      then ((False, retry_after (hd bucket) window now), ev(key \<mapsto> bucket))
      else ((True, 0), ev(key \<mapsto> bucket @ [now])))"

definition refund_memory :: "events \<Rightarrow> string \<Rightarrow> events" where
  "refund_memory ev key =
     (case ev key of None \<Rightarrow> ev
      | Some bucket \<Rightarrow> if bucket = [] then ev else ev(key \<mapsto> butlast bucket))"

section \<open>The shared table\<close>

text \<open>Rows in rowid order.\<close>

type_synonym event_rows = "(string \<times> rat) list"

definition times_of :: "event_rows \<Rightarrow> string \<Rightarrow> rat list" where
  "times_of rows h = map snd (filter (\<lambda>r. fst r = h) rows)"

definition min_time :: "rat list \<Rightarrow> rat option" where
  "min_time ts = (if ts = [] then None else Some (Min (set ts)))"

definition allow_shared ::
  "(string \<Rightarrow> string) \<Rightarrow> event_rows \<Rightarrow> string \<Rightarrow> int \<Rightarrow> int \<Rightarrow> rat
   \<Rightarrow> (bool \<times> int) \<times> event_rows" where
  "allow_shared digest rows key limit window now =
     (let cutoff = now - of_int window;
          subject_hash = digest key;
          rows = filter (\<lambda>r. \<not> snd r \<le> cutoff) rows;
          matching = filter (\<lambda>t. cutoff < t) (times_of rows subject_hash) in
      if limit \<le> int (length matching)
      then ((False, retry_after (or_default (min_time matching) now) window now), rows)
      else ((True, 0), rows @ [(subject_hash, now)]))"

text \<open>
  \<open>ORDER BY occurred DESC LIMIT 1\<close>: the row with the greatest time; of rows with the same
  time the (subject, time, rowid) index, read backwards, yields the last one.
\<close>

fun delete_latest :: "event_rows \<Rightarrow> string \<Rightarrow> event_rows" where
  "delete_latest [] h = []"
| "delete_latest (r # rows) h =
     (if fst r = h \<and> (\<forall>t \<in> set (times_of rows h). t < snd r) then rows
      else r # delete_latest rows h)"

definition refund_shared ::
  "(string \<Rightarrow> string) \<Rightarrow> event_rows \<Rightarrow> string \<Rightarrow> event_rows" where
  "refund_shared digest rows key = delete_latest rows (digest key)"

section \<open>The class\<close>

datatype limiter = InMemory events | SharedDb event_rows

fun allow ::
  "(string \<Rightarrow> string) \<Rightarrow> limiter \<Rightarrow> string \<Rightarrow> int \<Rightarrow> int \<Rightarrow> rat
   \<Rightarrow> py_error + (bool \<times> int) \<times> limiter" where
  "allow digest l key limit window now =
     (if limit < 1 \<or> window < 1 then Inl ValueError
      else case l of
        SharedDb rows \<Rightarrow>
          (case allow_shared digest rows key limit window now of (r, rows') \<Rightarrow> Inr (r, SharedDb rows'))
      | InMemory ev \<Rightarrow>
          (case allow_memory ev key limit window now of (r, ev') \<Rightarrow> Inr (r, InMemory ev')))"

fun refund :: "(string \<Rightarrow> string) \<Rightarrow> limiter \<Rightarrow> string \<Rightarrow> limiter" where
  "refund digest (InMemory ev) key = InMemory (refund_memory ev key)"
| "refund digest (SharedDb rows) key = SharedDb (refund_shared digest rows key)"

text \<open>The Flask hooks around every request: the guard and the refund of a 400 answer.\<close>

definition route_limit :: "string \<Rightarrow> int" where
  "route_limit path =
     (if path = ''/api/alex'' then 12 else if path = ''/api/search_direct'' then 20
      else if path = ''/api/generate_map'' then 6 else if path = ''/api/auth/login'' then 10
      else if path = ''/api/auth/register'' then 5 else 120)"

definition refund_on_400 :: "string \<Rightarrow> bool" where
  "refund_on_400 path \<longleftrightarrow> path \<in> {''/api/alex'', ''/api/search_direct''}"

datatype guard_outcome = Pass "string option" | TooMany int

definition limit_request ::
  "(string \<Rightarrow> string) \<Rightarrow> limiter \<Rightarrow> int \<Rightarrow> string \<Rightarrow> string \<Rightarrow> bool \<Rightarrow> string \<Rightarrow> rat
   \<Rightarrow> py_error + guard_outcome \<times> limiter" where
  "limit_request digest l window method path routing_exception subject now =
     (if method = ''OPTIONS'' \<or> take 5 path \<noteq> ''/api/'' then Inr (Pass None, l)
      else if routing_exception then Inr (Pass None, l)
      else let key = path @ '':'' @ subject in
        (case allow digest l key (route_limit path) window now of
           Inl e \<Rightarrow> Inl e
         | Inr ((allowed, retry), l') \<Rightarrow>
             if allowed then Inr (Pass (if refund_on_400 path then Some key else None), l')
             else Inr (TooMany retry, l')))"

definition refund_invalid_input ::
  "(string \<Rightarrow> string) \<Rightarrow> limiter \<Rightarrow> string option \<Rightarrow> int \<Rightarrow> limiter" where
  "refund_invalid_input digest l rate_limit_charge status =
     (case rate_limit_charge of None \<Rightarrow> l
      | Some key \<Rightarrow> if key \<noteq> [] \<and> status = 400 then refund digest l key else l)"

section \<open>The abstract limiter: a ledger of net charges\<close>

type_synonym ledger = "string \<Rightarrow> rat list"

datatype limiter_op = Charge string rat | Refund string

definition in_window :: "int \<Rightarrow> rat \<Rightarrow> rat list \<Rightarrow> rat list" where
  "in_window window now ts = filter (\<lambda>t. now - of_int window < t) ts"

definition spec_charge ::
  "(string \<Rightarrow> int) \<Rightarrow> int \<Rightarrow> ledger \<Rightarrow> string \<Rightarrow> rat \<Rightarrow> bool \<times> ledger" where
  "spec_charge limit window led key now =
     (if int (length (in_window window now (led key))) < limit key
      then (True, led(key := led key @ [now])) else (False, led))"

definition spec_refund :: "ledger \<Rightarrow> string \<Rightarrow> ledger" where
  "spec_refund led key = led(key := butlast (led key))"

text \<open>The decisions an implementation takes over a sequence of requests and refunds.\<close>

fun decisions ::
  "('s \<Rightarrow> string \<Rightarrow> rat \<Rightarrow> bool \<times> 's) \<Rightarrow> ('s \<Rightarrow> string \<Rightarrow> 's) \<Rightarrow> 's \<Rightarrow> limiter_op list \<Rightarrow> bool list" where
  "decisions charge ref s [] = []"
| "decisions charge ref s (Charge k t # ops) =
     fst (charge s k t) # decisions charge ref (snd (charge s k t)) ops"
| "decisions charge ref s (Refund k # ops) = decisions charge ref (ref s k) ops"

text \<open>The net charges a list of decisions leaves on the ledger.\<close>

fun ledger_of :: "bool list \<Rightarrow> limiter_op list \<Rightarrow> ledger \<Rightarrow> ledger" where
  "ledger_of (d # ds) (Charge k t # ops) led =
     ledger_of ds ops (if d then led(k := led k @ [t]) else led)"
| "ledger_of ds (Refund k # ops) led = ledger_of ds ops (led(k := butlast (led k)))"
| "ledger_of ds ops led = led"

text \<open>The clock never runs backwards.\<close>

fun clocked :: "rat \<Rightarrow> limiter_op list \<Rightarrow> bool" where
  "clocked now [] = True"
| "clocked now (Charge k t # ops) = (now \<le> t \<and> clocked t ops)"
| "clocked now (Refund k # ops) = clocked now ops"

definition ledger_ok :: "ledger \<Rightarrow> rat \<Rightarrow> bool" where
  "ledger_ok led now \<longleftrightarrow> (\<forall>k. sorted (led k) \<and> (\<forall>t \<in> set (led k). t \<le> now))"

definition window_bounded :: "(string \<Rightarrow> int) \<Rightarrow> int \<Rightarrow> ledger \<Rightarrow> bool" where
  "window_bounded limit window led \<longleftrightarrow>
     (\<forall>k T. int (length (filter (\<lambda>t. t \<le> T) (in_window window T (led k)))) \<le> limit k)"

fun op_key :: "limiter_op \<Rightarrow> string" where
  "op_key (Charge k t) = k"
| "op_key (Refund k) = k"

section \<open>The contract of a limiter, and what it gives\<close>

lemma in_window_append [simp]: "in_window w t (xs @ ys) = in_window w t xs @ in_window w t ys"
  by (simp add: in_window_def)

lemma in_window_Nil [simp]: "in_window w t [] = []"
  by (simp add: in_window_def)

lemma in_window_butlast:
  "sorted ts \<Longrightarrow> in_window window t (butlast ts) = butlast (in_window window t ts)"
proof (induction ts rule: rev_induct)
  case (snoc x xs)
  show ?case
  proof (cases "t - of_int window < x")
    case False
    with snoc.prems have "\<forall>y \<in> set xs. \<not> t - of_int window < y"
      by (force simp: sorted_append)
    with False show ?thesis by (simp add: in_window_def filter_empty_conv)
  qed (simp add: in_window_def)
qed (simp add: in_window_def)

lemma in_window_later:
  "now \<le> t \<Longrightarrow> in_window w t (in_window w now ts) = in_window w t ts"
  by (auto simp: in_window_def intro!: filter_cong)

text \<open>
  What the request guard relies on: decisions by the number of live charges, charges that
  appear in the key's window and in no other key's, refunds that take back the latest one.
  \<open>live\<close> lists the charges a store still holds for a key, \<open>ok s now\<close> says that the store is
  well formed and holds nothing later than \<open>now\<close>.
\<close>

locale window_limiter =
  fixes keys :: "string set" and limit :: "string \<Rightarrow> int" and window :: int
    and charge :: "'s \<Rightarrow> string \<Rightarrow> rat \<Rightarrow> bool \<times> 's"
    and give_back :: "'s \<Rightarrow> string \<Rightarrow> 's"
    and live :: "'s \<Rightarrow> string \<Rightarrow> rat list"
    and ok :: "'s \<Rightarrow> rat \<Rightarrow> bool"
  assumes admits: "ok s now \<Longrightarrow> k \<in> keys \<Longrightarrow>
      fst (charge s k now) = (int (length (in_window window now (live s k))) < limit k)"
    and charge_ok: "ok s now \<Longrightarrow> k \<in> keys \<Longrightarrow> ok (snd (charge s k now)) now"
    and charge_live: "ok s now \<Longrightarrow> k \<in> keys \<Longrightarrow> k' \<in> keys \<Longrightarrow> now \<le> t \<Longrightarrow>
      in_window window t (live (snd (charge s k now)) k') =
      in_window window t (live s k' @ (if k' = k \<and> fst (charge s k now) then [now] else []))"
    and ok_mono: "ok s now \<Longrightarrow> now \<le> t \<Longrightarrow> ok s t"
    and give_back_ok: "ok s now \<Longrightarrow> k \<in> keys \<Longrightarrow> ok (give_back s k) now"
    and give_back_live: "ok s now \<Longrightarrow> k \<in> keys \<Longrightarrow> k' \<in> keys \<Longrightarrow>
      live (give_back s k) k' = (if k' = k then butlast (live s k') else live s k')"
    and live_sorted: "ok s now \<Longrightarrow> k \<in> keys \<Longrightarrow> sorted (live s k)"
begin

definition agrees :: "'s \<Rightarrow> ledger \<Rightarrow> rat \<Rightarrow> bool" where
  "agrees s led now \<longleftrightarrow> ok s now \<and> ledger_ok led now \<and>
     (\<forall>k \<in> keys. \<forall>t \<ge> now. in_window window t (live s k) = in_window window t (led k))"

lemma agrees_mono: "agrees s led now \<Longrightarrow> now \<le> t \<Longrightarrow> agrees s led t"
  unfolding agrees_def ledger_ok_def by (meson ok_mono order_trans)

lemma agreesD:
  assumes "agrees s led now"
  shows "ok s now" and "ledger_ok led now"
    and "k \<in> keys \<Longrightarrow> now \<le> t \<Longrightarrow> in_window window t (live s k) = in_window window t (led k)"
  using assms by (auto simp: agrees_def)

lemma agrees_charge:
  assumes ag: "agrees s led now" and k: "k \<in> keys"
  shows "fst (charge s k now) = fst (spec_charge limit window led k now)"
    and "agrees (snd (charge s k now)) (snd (spec_charge limit window led k now)) now"
proof -
  note ok = agreesD(1) [OF ag] and led = agreesD(2) [OF ag]
  show dec: "fst (charge s k now) = fst (spec_charge limit window led k now)"
    using agreesD(3) [OF ag k order_refl] by (simp add: admits [OF ok k] spec_charge_def)
  have "ledger_ok (snd (spec_charge limit window led k now)) now"
    using led by (auto simp: ledger_ok_def spec_charge_def sorted_append)
  moreover have "in_window window t (live (snd (charge s k now)) k') =
      in_window window t (snd (spec_charge limit window led k now) k')"
    if "now \<le> t" "k' \<in> keys" for k' t
    unfolding charge_live [OF ok k that(2,1)] dec
    using agreesD(3) [OF ag that(2,1)] by (cases "k' = k") (auto simp: spec_charge_def)
  ultimately show "agrees (snd (charge s k now)) (snd (spec_charge limit window led k now)) now"
    by (simp add: agrees_def charge_ok [OF ok k])
qed

lemma agrees_refund:
  assumes ag: "agrees s led now" and k: "k \<in> keys"
  shows "agrees (give_back s k) (spec_refund led k) now"
proof -
  note ok = agreesD(1) [OF ag] and led = agreesD(2) [OF ag]
  have "ledger_ok (spec_refund led k) now"
    using led by (auto simp: ledger_ok_def spec_refund_def sorted_butlast dest: in_set_butlastD)
  moreover have "in_window window t (live (give_back s k) k') = in_window window t (spec_refund led k k')"
    if "now \<le> t" "k' \<in> keys" for t k'
    using agreesD(3) [OF ag that(2,1)] led live_sorted [OF ok that(2)]
    by (cases "k' = k")
       (simp_all add: give_back_live [OF ok k] k that spec_refund_def in_window_butlast ledger_ok_def)
  ultimately show ?thesis by (simp add: agrees_def give_back_ok [OF ok k])
qed

lemma decisions_spec:
  "agrees s led now \<Longrightarrow> clocked now ops \<Longrightarrow> op_key ` set ops \<subseteq> keys \<Longrightarrow>
   decisions charge give_back s ops = decisions (spec_charge limit window) spec_refund led ops"
proof (induction ops arbitrary: s led now)
  case (Cons a ops)
  show ?case
  proof (cases a)
    case (Charge k t)
    with Cons.prems have "agrees s led t" "clocked t ops" "k \<in> keys" by (auto intro: agrees_mono)
    with agrees_charge [OF this(1,3)] Cons.IH Cons.prems(3) Charge show ?thesis by simp
  next
    case (Refund k)
    with Cons show ?thesis by (auto intro: agrees_refund)
  qed
qed simp

lemma decisions_from_empty:
  assumes "ok s now" and "\<And>k. k \<in> keys \<Longrightarrow> live s k = []"
    and "clocked now ops" and "op_key ` set ops \<subseteq> keys"
  shows "decisions charge give_back s ops =
    decisions (spec_charge limit window) spec_refund (\<lambda>_. []) ops"
  by (rule decisions_spec [of _ _ now]) (use assms in \<open>simp_all add: agrees_def ledger_ok_def\<close>)

end

section \<open>Safety of the abstract limiter\<close>

lemma window_bounded_charge:
  assumes led: "ledger_ok led now" and wb: "window_bounded limit window led"
    and room: "int (length (in_window window now (led k))) < limit k"
  shows "window_bounded limit window (led(k := led k @ [now]))"
  unfolding window_bounded_def
proof (intro allI)
  fix k' T
  let ?c = "\<lambda>ts. length (filter (\<lambda>t. t \<le> T) (in_window window T ts))"
  show "int (?c ((led(k := led k @ [now])) k')) \<le> limit k'"
  proof (cases "k' = k \<and> now \<le> T \<and> T - of_int window < now")
    case True
    have "?c (led k) \<le> length (in_window window now (led k))"
      unfolding in_window_def filter_filter using True by (intro length_filter_mono) auto
    with True room show ?thesis by (simp add: in_window_def)
  next
    case False
    with wb show ?thesis by (auto simp: window_bounded_def in_window_def)
  qed
qed

lemma window_boundedD:
  "window_bounded limit window led \<Longrightarrow>
   int (length (filter (\<lambda>t. t \<le> T) (in_window window T (led k)))) \<le> limit k"
  by (simp add: window_bounded_def)

lemma window_bounded_refund:
  assumes "window_bounded limit window led"
  shows "window_bounded limit window (led(k := butlast (led k)))"
  unfolding window_bounded_def
proof (intro allI)
  fix k' T
  let ?c = "\<lambda>ts. length (filter (\<lambda>t. t \<le> T) (in_window window T ts))"
  have "int (?c (butlast ts)) \<le> int (?c ts)" for ts
    by (cases ts rule: rev_cases) (simp_all add: in_window_def)
  from order_trans [OF this window_boundedD [OF assms]] window_boundedD [OF assms]
  show "int (?c ((led(k := butlast (led k))) k')) \<le> limit k'"
    by simp
qed

lemma spec_window_bounded:
  "ledger_ok led now \<Longrightarrow> window_bounded limit window led \<Longrightarrow> clocked now ops \<Longrightarrow>
   window_bounded limit window
     (ledger_of (decisions (spec_charge limit window) spec_refund led ops) ops led)"
proof (induction ops arbitrary: led now)
  case (Cons a ops)
  show ?case
  proof (cases a)
    case (Charge k t)
    with Cons.prems have led: "ledger_ok led t" and "clocked t ops"
      by (auto simp: ledger_ok_def intro: order_trans)
    moreover have "ledger_ok (led(k := led k @ [t])) t"
      using led by (auto simp: ledger_ok_def sorted_append)
    ultimately show ?thesis
      using Charge Cons.IH Cons.prems(2) window_bounded_charge [OF led Cons.prems(2)]
      by (auto simp: spec_charge_def)
  next
    case (Refund k)
    have "ledger_ok (led(k := butlast (led k))) now"
      using Cons.prems(1) by (auto simp: ledger_ok_def sorted_butlast dest: in_set_butlastD)
    from Cons.IH [OF this window_bounded_refund [OF Cons.prems(2)]] Cons.prems(3) Refund
    show ?thesis by (simp add: spec_refund_def [of led k] del: fun_upd_apply)
  qed
qed simp

section \<open>The class meets the contract\<close>

fun live_charges :: "(string \<Rightarrow> string) \<Rightarrow> limiter \<Rightarrow> string \<Rightarrow> rat list" where
  "live_charges digest (InMemory ev) k = bucket_of ev k"
| "live_charges digest (SharedDb rows) k = times_of rows (digest k)"

definition tidy :: "rat \<Rightarrow> rat list \<Rightarrow> bool" where
  "tidy now ts \<longleftrightarrow> sorted ts \<and> (\<forall>t \<in> set ts. t \<le> now)"

text \<open>
  Well-formed at time \<open>now\<close>: every stored charge is in time order and in the past; limit and
  window are positive and the digest tells the keys in use apart.
\<close>

definition limiter_ok ::
  "string set \<Rightarrow> (string \<Rightarrow> int) \<Rightarrow> int \<Rightarrow> (string \<Rightarrow> string) \<Rightarrow> limiter \<Rightarrow> rat \<Rightarrow> bool" where
  "limiter_ok keys limit window digest l now \<longleftrightarrow>
     1 \<le> window \<and> (\<forall>k \<in> keys. 1 \<le> limit k) \<and> inj_on digest keys \<and>
     (\<forall>k \<in> keys. tidy now (live_charges digest l k))"

text \<open>One request seen through \<open>allow\<close> alone: the decision and the store it leaves.\<close>

definition charge ::
  "(string \<Rightarrow> int) \<Rightarrow> int \<Rightarrow> (string \<Rightarrow> string) \<Rightarrow> limiter \<Rightarrow> string \<Rightarrow> rat \<Rightarrow> bool \<times> limiter" where
  "charge limit window digest l key now =
     (case allow digest l key (limit key) window now of
        Inl _ \<Rightarrow> (False, l) | Inr (r, l') \<Rightarrow> (fst r, l'))"

lemma bucket_of_upd [simp]: "bucket_of (ev(k \<mapsto> b)) k' = (if k' = k then b else bucket_of ev k')"
  by (simp add: bucket_of_def)

lemma times_of_append [simp]: "times_of (rows @ rows') h = times_of rows h @ times_of rows' h"
  by (simp add: times_of_def)

lemma times_of_Cons [simp]: "times_of (r # rows) h = (if fst r = h then [snd r] else []) @ times_of rows h"
  by (simp add: times_of_def)

lemma times_of_Nil [simp]: "times_of [] h = []"
  by (simp add: times_of_def)

lemma times_of_purged:
  "times_of (filter (\<lambda>r. \<not> snd r \<le> now - of_int w) rows) h = in_window w now (times_of rows h)"
  by (induction rows) (auto simp: in_window_def)

lemma pruned_bucket:
  "sorted ts \<Longrightarrow> dropWhile (\<lambda>t. t \<le> now - of_int w) ts = in_window w now ts"
  by (simp add: dropWhile_le_filter in_window_def)

lemma in_window_idem [simp]: "in_window w now (in_window w now ts) = in_window w now ts"
  by (rule in_window_later) simp

lemma in_window_filter:
  "filter ((<) (now - of_int w)) ts = in_window w now ts"
  by (simp add: in_window_def)

lemma tidy_in_window: "tidy now ts \<Longrightarrow> tidy now (in_window w t ts)"
  by (auto simp: tidy_def in_window_def sorted_wrt_filter)

lemma tidy_snoc: "tidy now ts \<Longrightarrow> tidy now (ts @ [now])"
  by (auto simp: tidy_def sorted_append)

lemma tidy_butlast: "tidy now ts \<Longrightarrow> tidy now (butlast ts)"
  by (auto simp: tidy_def sorted_butlast dest: in_set_butlastD)

lemma charge_memory:
  assumes "1 \<le> limit k" "1 \<le> window" "sorted (bucket_of ev k)"
  shows "charge limit window digest (InMemory ev) k now =
    (let b = in_window window now (bucket_of ev k) in
     if int (length b) < limit k then (True, InMemory (ev(k \<mapsto> b @ [now])))
     else (False, InMemory (ev(k \<mapsto> b))))"
  using assms by (simp add: charge_def allow_memory_def pruned_bucket Let_def)

lemma charge_shared:
  assumes "1 \<le> limit k" "1 \<le> window"
  shows "charge limit window digest (SharedDb rows) k now =
    (let rows' = filter (\<lambda>r. \<not> snd r \<le> now - of_int window) rows in
     if int (length (in_window window now (times_of rows (digest k)))) < limit k
     then (True, SharedDb (rows' @ [(digest k, now)])) else (False, SharedDb rows'))"
  using assms by (simp add: charge_def allow_shared_def times_of_purged in_window_filter Let_def)

lemma times_of_delete_latest:
  "sorted (times_of rows h) \<Longrightarrow>
   times_of (delete_latest rows h) h' = (if h' = h then butlast (times_of rows h) else times_of rows h')"
proof (induction rows)
  case (Cons r rows)
  show ?case
  proof (cases "fst r = h \<and> (\<forall>t \<in> set (times_of rows h). t < snd r)")
    case True
    with Cons.prems have "times_of rows h = []"
      by (cases "times_of rows h") auto
    with True show ?thesis by auto
  next
    case False
    with Cons.prems have "fst r = h \<Longrightarrow> times_of rows h \<noteq> []"
      by auto
    with False Cons show ?thesis by auto
  qed
qed simp

lemma live_refund:
  assumes "sorted (live_charges digest l k)" "inj_on digest keys" "k \<in> keys" "k' \<in> keys"
  shows "live_charges digest (refund digest l k) k' =
    (if k' = k then butlast (live_charges digest l k) else live_charges digest l k')"
proof (cases l)
  case (InMemory ev)
  then show ?thesis
    by (auto simp: refund_memory_def bucket_of_def split: option.splits)
next
  case (SharedDb rows)
  with assms show ?thesis
    by (auto simp: refund_shared_def times_of_delete_latest dest: inj_onD)
qed

lemma limiter_okD:
  assumes "limiter_ok keys limit window digest l now" "k \<in> keys"
  shows "1 \<le> window" and "1 \<le> limit k" and "inj_on digest keys"
    and "tidy now (live_charges digest l k)" and "sorted (live_charges digest l k)"
  using assms by (auto simp: limiter_ok_def tidy_def)

lemma live_charge:
  assumes ok: "limiter_ok keys limit window digest l now" and k: "k \<in> keys" "k' \<in> keys"
  shows "live_charges digest (snd (charge limit window digest l k now)) k' =
     (if k' = k \<and> fst (charge limit window digest l k now)
      then in_window window now (live_charges digest l k') @ [now]
      else if k' = k \<or> (\<exists>rows. l = SharedDb rows)
      then in_window window now (live_charges digest l k') else live_charges digest l k')"
proof (cases l)
  case (InMemory ev)
  with limiter_okD [OF ok k(1)] show ?thesis by (simp add: charge_memory Let_def)
next
  case (SharedDb rows)
  have "digest k = digest k' \<longleftrightarrow> k' = k"
    using limiter_okD(3) [OF ok k(1)] k by (auto dest: inj_onD)
  with SharedDb limiter_okD [OF ok k(1)] show ?thesis
    by (simp add: charge_shared Let_def times_of_purged)
qed

lemma charge_decision:
  assumes ok: "limiter_ok keys limit window digest l now" and k: "k \<in> keys"
  shows "fst (charge limit window digest l k now) =
    (int (length (in_window window now (live_charges digest l k))) < limit k)"
  using limiter_okD [OF ok k] by (cases l) (simp_all add: charge_memory charge_shared Let_def)

lemma limiter_ok_charge:
  assumes ok: "limiter_ok keys limit window digest l now" and k: "k \<in> keys"
  shows "limiter_ok keys limit window digest (snd (charge limit window digest l k now)) now"
proof -
  have "tidy now (live_charges digest (snd (charge limit window digest l k now)) k')" if "k' \<in> keys" for k'
    using limiter_okD(4) [OF ok that]
    by (auto simp del: live_charges.simps simp: live_charge [OF ok k that] intro!: tidy_in_window tidy_snoc)
  with ok show ?thesis by (simp add: limiter_ok_def)
qed

lemma limiter_ok_refund:
  assumes ok: "limiter_ok keys limit window digest l now" and k: "k \<in> keys"
  shows "limiter_ok keys limit window digest (refund digest l k) now"
proof -
  have "tidy now (live_charges digest (refund digest l k) k')" if "k' \<in> keys" for k'
    using limiter_okD(4) [OF ok that] limiter_okD(3,5) [OF ok k] k that
    by (cases "k' = k") (simp_all add: live_refund tidy_butlast)
  with ok show ?thesis by (simp add: limiter_ok_def)
qed

interpretation request_limiter:
  window_limiter keys limit window "charge limit window digest" "refund digest"
    "live_charges digest" "limiter_ok keys limit window digest"
  for keys limit window digest
proof (unfold_locales, goal_cases)
  case (1 l now k)
  then show ?case by (rule charge_decision)
next
  case (2 l now k)
  then show ?case by (rule limiter_ok_charge)
next
  case (3 l now k k' t)
  then show ?case
    using in_window_later [OF 3(4), of window "live_charges digest l k'"]
    by (auto simp: live_charge)
next
  case (4 l now t)
  then show ?case by (auto simp: limiter_ok_def tidy_def intro: order_trans)
next
  case (5 l now k)
  then show ?case by (rule limiter_ok_refund)
next
  case (6 l now k k')
  then show ?case using limiter_okD live_refund by metis
next
  case (7 l now k)
  then show ?case by (rule limiter_okD(5))
qed

section \<open>Properties\<close>

text \<open>C1. Starting from an empty store, in memory or in SQLite, and with a clock that never
  runs backwards, the net admitted charges of any key never number more than its limit in
  any window of the configured length.\<close>

theorem admitted_within_limit:
  assumes "l = InMemory Map.empty \<or> l = SharedDb []"
    and "\<And>k. 1 \<le> limit k" and "1 \<le> window"
    and "inj_on digest (op_key ` set ops)" and "clocked start ops"
  shows "window_bounded limit window
    (ledger_of (decisions (charge limit window digest) (refund digest) l ops) ops (\<lambda>_. []))"
proof -
  have "limiter_ok (op_key ` set ops) limit window digest l start"
    using assms by (auto simp: limiter_ok_def tidy_def bucket_of_def)
  then have "decisions (charge limit window digest) (refund digest) l ops =
      decisions (spec_charge limit window) spec_refund (\<lambda>_. []) ops"
    using assms by (intro request_limiter.decisions_from_empty) (auto simp: bucket_of_def)
  moreover have "window_bounded limit window (\<lambda>_. [])"
    using assms(2) by (auto simp: window_bounded_def intro: order_trans [OF _ assms(2)])
  ultimately show ?thesis
    using spec_window_bounded [of "\<lambda>_. []"] assms(5) by (simp add: ledger_ok_def)
qed

lemma admitted_within_limit_witness:
  "window_bounded (\<lambda>_. 2) 10
    (ledger_of (decisions (charge (\<lambda>_. 2) 10 id) (refund id) (SharedDb [])
       [Charge ''a'' 1, Charge ''a'' 2, Charge ''a'' 3, Refund ''a'', Charge ''a'' 4])
       [Charge ''a'' 1, Charge ''a'' 2, Charge ''a'' 3, Refund ''a'', Charge ''a'' 4] (\<lambda>_. []))"
  by (rule admitted_within_limit [where start = 0]) simp_all



lemma retry_after_waits:
  assumes "now + of_int (retry_after oldest window now) \<le> t"
  shows "oldest \<le> t - of_int window"
proof -
  have "oldest + of_int window - now < of_int (py_int (oldest + of_int window - now) + 1)"
    unfolding py_int_def by (simp add: floor_less_iff) linarith
  also have "\<dots> \<le> of_int (retry_after oldest window now)"
    unfolding retry_after_def by (simp only: of_int_le_iff) 
  finally show ?thesis using assms by simp
qed

lemma retry_after_bounds:
  assumes "now - of_int window < oldest" "oldest \<le> now" "1 \<le> window"
  shows "1 \<le> retry_after oldest window now" "retry_after oldest window now \<le> window + 1"
proof -
  have "\<lfloor>oldest + of_int window - now\<rfloor> \<le> window"
    using assms(2) by (simp add: floor_le_iff)
  with assms show "retry_after oldest window now \<le> window + 1"
    by (simp add: retry_after_def)
qed (simp add: retry_after_def)

lemma in_window_hd:
  assumes "in_window window now ts \<noteq> []" and "tidy now ts"
  shows "now - of_int window < hd (in_window window now ts)" and "hd (in_window window now ts) \<le> now"
    and "min_time (in_window window now ts) = Some (hd (in_window window now ts))"
proof -
  let ?b = "in_window window now ts"
  have "hd ?b \<in> set ?b" using assms(1) by simp
  then show "now - of_int window < hd ?b" "hd ?b \<le> now"
    using assms(2) by (auto simp: in_window_def tidy_def)
  have "sorted ?b" using tidy_in_window [OF assms(2)] by (simp add: tidy_def)
  with assms(1) have "Min (set ?b) = hd ?b"
    by (cases ?b) (auto intro!: Min_eqI)
  with assms(1) show "min_time ?b = Some (hd ?b)"
    by (simp add: min_time_def)
qed

lemma allow_denied:
  assumes ok: "limiter_ok keys limit window digest l now" and k: "k \<in> keys"
    and deny: "allow digest l k (limit k) window now = Inr ((False, r), l')"
  shows "limit k \<le> int (length (in_window window now (live_charges digest l k)))"
    and "live_charges digest l' k = in_window window now (live_charges digest l k)"
    and "\<exists>oldest. r = retry_after oldest window now \<and> now - of_int window < oldest \<and> oldest \<le> now \<and>
      hd (in_window window now (live_charges digest l k)) \<le> oldest"
    and "limiter_ok keys limit window digest l' now"
proof -
  note okD = limiter_okD [OF ok k]
  have c: "charge limit window digest l k now = (False, l')"
    using deny by (simp add: charge_def)
  show full: "limit k \<le> int (length (in_window window now (live_charges digest l k)))"
    using charge_decision [OF ok k] c by simp
  show "limiter_ok keys limit window digest l' now"
    using limiter_ok_charge [OF ok k] c by simp
  have "in_window window now (live_charges digest l k) \<noteq> []"
    using full okD(2) by auto
  note hd = in_window_hd [OF this okD(4)]
  show "live_charges digest l' k = in_window window now (live_charges digest l k)"
  proof (cases l)
    case (InMemory ev)
    with okD deny full show ?thesis by (auto simp: allow_memory_def pruned_bucket Let_def)
  next
    case (SharedDb rows)
    with okD deny full show ?thesis
      by (auto simp: allow_shared_def times_of_purged in_window_filter Let_def)
  qed
  show "\<exists>oldest. r = retry_after oldest window now \<and> now - of_int window < oldest \<and> oldest \<le> now \<and>
      hd (in_window window now (live_charges digest l k)) \<le> oldest"
  proof (cases l)
    case (InMemory ev)
    with okD deny full hd show ?thesis by (auto simp: allow_memory_def pruned_bucket Let_def)
  next
    case (SharedDb rows)
    with okD deny full
    have "r = retry_after (or_default (min_time (in_window window now (live_charges digest l k))) now) window now"
      by (auto simp: allow_shared_def times_of_purged in_window_filter Let_def)
    with okD(1) hd show ?thesis by (auto simp: or_default_def)
  qed
qed

text \<open>A refused request is told to wait between one second and one second more than the
  window, and a request made once that long has passed is admitted.\<close>

theorem retry_after_suffices:
  assumes ok: "limiter_ok keys limit window digest l now" and k: "k \<in> keys"
    and full: "int (length (in_window window now (live_charges digest l k))) \<le> limit k"
    and deny: "allow digest l k (limit k) window now = Inr ((False, r), l')"
    and wait: "now + of_int r \<le> t"
  shows "1 \<le> r \<and> r \<le> window + 1 \<and> fst (charge limit window digest l' k t)"
proof -
  note d = allow_denied [OF ok k deny] and okD = limiter_okD [OF ok k]
  let ?b = "in_window window now (live_charges digest l k)"
  obtain oldest where o: "r = retry_after oldest window now" "now - of_int window < oldest"
      "oldest \<le> now" "hd ?b \<le> oldest"
    using d(3) by blast
  have r: "1 \<le> r" "r \<le> window + 1"
    using retry_after_bounds [OF o(2,3) okD(1)] o(1) by auto
  then have "(0::rat) \<le> of_int r" by simp
  with wait have t: "now \<le> t" by linarith
  obtain x xs where b: "?b = x # xs" using d(1) okD(2) by (cases ?b) auto
  have "x \<le> t - of_int window"
    using retry_after_waits [of now oldest window t] wait o b by simp
  then have "in_window window t (x # xs) = in_window window t xs"
    by (simp add: in_window_def)
  then have "length (in_window window t ?b) < length ?b"
    unfolding b by (simp add: in_window_def le_imp_less_Suc)
  then have "int (length (in_window window t (live_charges digest l' k))) < limit k"
    using full by (simp add: d(2))
  then have "fst (charge limit window digest l' k t)"
    using charge_decision [OF request_limiter.ok_mono [OF d(4) t] k] by simp
  with r show ?thesis by simp
qed

lemma retry_after_suffices_witness:
  "fst (charge (\<lambda>_. 1) 10 id (SharedDb [(''a'', 1)]) ''a'' 12)"
proof -
  have "allow id (SharedDb [(''a'', 1)]) ''a'' 1 10 2 = Inr ((False, 10), SharedDb [(''a'', 1)])"
    by (simp add: allow_shared_def times_of_def retry_after_def or_default_def min_time_def Let_def)
  then show ?thesis
    using retry_after_suffices [where keys = "{''a''}" and limit = "\<lambda>_. 1" and window = 10
       and digest = id and l = "SharedDb [(''a'', 1)]" and now = 2 and k = "''a''" and r = 10
       and l' = "SharedDb [(''a'', 1)]" and t = 12]
    by (simp add: limiter_ok_def tidy_def in_window_def times_of_def del: allow.simps)
qed

text \<open>A chat request that is admitted and then answered 400 gives its charge back: the key's
  live charges are what they were before the request.\<close>

theorem invalid_input_is_free:
  assumes ok: "limiter_ok {path @ '':'' @ subject} (\<lambda>_. route_limit path) window digest l now"
    and pass: "limit_request digest l window method path False subject now = Inr (Pass (Some key), l')"
  shows "key = path @ '':'' @ subject \<and>
    live_charges digest (refund_invalid_input digest l' (Some key) 400) key =
      in_window window now (live_charges digest l key)"
proof -
  let ?key = "path @ '':'' @ subject"
  from pass have key: "key = ?key" and
    allow: "\<exists>r. allow digest l ?key (route_limit path) window now = Inr ((True, r), l')"
    by (auto simp: limit_request_def Let_def split: if_splits sum.splits prod.splits)
  then have c: "charge (\<lambda>_. route_limit path) window digest l ?key now = (True, l')"
    by (auto simp: charge_def)
  have live: "live_charges digest l' ?key = in_window window now (live_charges digest l ?key) @ [now]"
    using live_charge [OF ok, of ?key ?key] c by simp
  have "sorted (live_charges digest l' ?key)"
    using limiter_okD(5) [OF limiter_ok_charge [OF ok], of ?key] c by simp
  then have "live_charges digest (refund digest l' ?key) ?key = butlast (live_charges digest l' ?key)"
    using live_refund [of digest l' ?key "{?key}" ?key] by simp
  with key live show ?thesis by (simp add: refund_invalid_input_def)
qed

lemma invalid_input_is_free_witness:
  "live_charges id (refund_invalid_input id (SharedDb [(''/api/alex:u'', 5)]) (Some ''/api/alex:u'') 400) ''/api/alex:u'' = []"
proof -
  have "limit_request id (SharedDb []) 60 ''POST'' ''/api/alex'' False ''u'' 5 =
      Inr (Pass (Some ''/api/alex:u''), SharedDb [(''/api/alex:u'', 5)])"
    by (simp add: limit_request_def route_limit_def refund_on_400_def allow_shared_def times_of_def Let_def)
  from invalid_input_is_free [OF _ this] show ?thesis
    by (simp add: limiter_ok_def tidy_def route_limit_def in_window_def)
qed

end
