(* ===== verification/IdempotencyLedger.thy ===== *)
theory IdempotencyLedger
  imports Prelude
begin

text \<open>
  The durable write ledger of \<open>src/uk_rent_agent/tools/idempotency.py\<close>: table
  \<open>tool_invocations\<close> as a map from its primary key to the row, one definition per method.
  Every method runs under the store lock inside one transaction, so it is one step.  The
  clock readings are arguments; the \<open>result\<close> column holds the JSON value its text denotes.
\<close>

datatype inv_status = Running | Complete | Failed | Unknown

record invocation =
  inv_tool :: string
  inv_status :: inv_status
  inv_result :: "json option"
  inv_error :: "string option"
  inv_updated :: time
  inv_lease :: "time option"

type_synonym invocations = "string \<rightharpoonup> invocation"

definition expired_message :: string where
  "expired_message = ''write lease expired before completion; outcome is unknown''"

text \<open>The statement \<open>claim\<close> and \<open>get_record\<close> share: an expired running lease is frozen.\<close>

definition lease_expired :: "invocation \<Rightarrow> time \<Rightarrow> bool" where
  "lease_expired r now \<longleftrightarrow>
     inv_status r = Running \<and> (case inv_lease r of None \<Rightarrow> False | Some e \<Rightarrow> e \<le> now)"

definition freeze_row :: "invocation \<Rightarrow> time \<Rightarrow> invocation" where
  "freeze_row r now = r\<lparr>inv_status := Unknown,
     inv_error := (case inv_error r of None \<Rightarrow> Some expired_message | Some e \<Rightarrow> Some e),
     inv_updated := now, inv_lease := None\<rparr>"

definition expire :: "invocations \<Rightarrow> string \<Rightarrow> time \<Rightarrow> invocations" where
  "expire tbl key now =
     (case tbl key of
        Some r \<Rightarrow> if lease_expired r now then tbl(key \<mapsto> freeze_row r now) else tbl
      | None \<Rightarrow> tbl)"

definition claim :: "invocations \<Rightarrow> string \<Rightarrow> string \<Rightarrow> rat \<Rightarrow> time \<Rightarrow> bool \<times> invocations" where
  "claim tbl key tool lease_seconds now =
     (let tbl' = expire tbl key now in
      case tbl' key of
        Some _ \<Rightarrow> (False, tbl')
      | None \<Rightarrow> (True, tbl'(key \<mapsto>
          \<lparr>inv_tool = tool, inv_status = Running, inv_result = None, inv_error = None,
           inv_updated = now, inv_lease = Some (now + max 1 lease_seconds)\<rparr>)))"

definition complete :: "invocations \<Rightarrow> string \<Rightarrow> json \<Rightarrow> time \<Rightarrow> invocations" where
  "complete tbl key result now =
     (case tbl key of
        Some r \<Rightarrow>
          if inv_status r \<in> {Running, Unknown}
          then tbl(key \<mapsto> r\<lparr>inv_status := Complete, inv_result := Some result, inv_error := None,
                 inv_updated := now, inv_lease := None\<rparr>)
          else tbl
      | None \<Rightarrow> tbl)"

definition fail :: "invocations \<Rightarrow> string \<Rightarrow> string \<Rightarrow> json \<Rightarrow> time \<Rightarrow> invocations" where
  "fail tbl key err result now =
     (case tbl key of
        Some r \<Rightarrow>
          if inv_status r = Running
          then tbl(key \<mapsto> r\<lparr>inv_status := Failed,
                 inv_result := (if result = JNull then None else Some result),
                 inv_error := Some err, inv_updated := now, inv_lease := None\<rparr>)
          else tbl
      | None \<Rightarrow> tbl)"

definition mark_unknown ::
  "invocations \<Rightarrow> string \<Rightarrow> string \<Rightarrow> string option \<Rightarrow> time \<Rightarrow> time \<Rightarrow> invocations" where
  "mark_unknown tbl key err tool now now' =
     (let tbl' =
        (case tool of
           None \<Rightarrow> tbl
         | Some t \<Rightarrow>
             if t = [] \<or> tbl key \<noteq> None then tbl
             else tbl(key \<mapsto> \<lparr>inv_tool = t, inv_status = Unknown, inv_result = None,
                        inv_error = Some err, inv_updated = now, inv_lease = None\<rparr>)) in
      case tbl' key of
        Some r \<Rightarrow>
          if inv_status r \<in> {Running, Unknown}
          then tbl'(key \<mapsto> r\<lparr>inv_status := Unknown, inv_error := Some err,
                 inv_updated := now', inv_lease := None\<rparr>)
          else tbl'
      | None \<Rightarrow> tbl')"

definition release_claim :: "invocations \<Rightarrow> string \<Rightarrow> time \<Rightarrow> time \<Rightarrow> invocations" where
  "release_claim tbl key now now' =
     mark_unknown tbl key ''write claim released without a confirmed outcome'' None now now'"

definition get_record :: "invocations \<Rightarrow> string \<Rightarrow> time \<Rightarrow> invocation option \<times> invocations" where
  "get_record tbl key now = (let tbl' = expire tbl key now in (tbl' key, tbl'))"

text \<open>\<open>record.result\<close>: an absent column parses to \<open>None\<close>.\<close>

definition record_result :: "invocation \<Rightarrow> json" where
  "record_result r = (case inv_result r of None \<Rightarrow> JNull | Some v \<Rightarrow> v)"

definition get_result :: "invocations \<Rightarrow> string \<Rightarrow> time \<Rightarrow> json \<times> invocations" where
  "get_result tbl key now =
     (case get_record tbl key now of
        (None, tbl') \<Rightarrow> (JNull, tbl')
      | (Some r, tbl') \<Rightarrow> (if inv_status r \<noteq> Complete then JNull else record_result r, tbl'))"

lemmas [store_simps] = expire_def claim_def complete_def fail_def mark_unknown_def
  release_claim_def get_record_def get_result_def freeze_row_def Let_def

section \<open>Every call the store can receive, and the status machine it runs\<close>

datatype ledger_claim = LClaim (claim_key: string) string rat time

datatype ledger_op =
    LComplete string json time
  | LFail string string json time
  | LMarkUnknown string string "string option" time time
  | LRelease string time time
  | LGetRecord string time

fun claim_step :: "invocations \<Rightarrow> ledger_claim \<Rightarrow> bool \<times> invocations" where
  "claim_step tbl (LClaim key tool lease now) = claim tbl key tool lease now"

fun ledger_step :: "invocations \<Rightarrow> ledger_op \<Rightarrow> invocations" where
  "ledger_step tbl (LComplete key res now) = complete tbl key res now"
| "ledger_step tbl (LFail key err res now) = fail tbl key err res now"
| "ledger_step tbl (LMarkUnknown key err tool now now') = mark_unknown tbl key err tool now now'"
| "ledger_step tbl (LRelease key now now') = release_claim tbl key now now'"
| "ledger_step tbl (LGetRecord key now) = snd (get_record tbl key now)"

definition any_step :: "invocations \<Rightarrow> ledger_claim + ledger_op \<Rightarrow> invocations" where
  "any_step tbl a = (case a of Inl c \<Rightarrow> snd (claim_step tbl c) | Inr b \<Rightarrow> ledger_step tbl b)"

text \<open>What may happen to the status of a row (\<open>None\<close>: no row yet).\<close>

inductive status_move :: "inv_status option \<Rightarrow> inv_status option \<Rightarrow> bool" where
  stay: "status_move s s"
| claimed: "status_move None (Some Running)"
| born_unknown: "status_move None (Some Unknown)"
| frozen: "status_move (Some Running) (Some Unknown)"
| completed: "status_move (Some Running) (Some Complete)"
| reconciled: "status_move (Some Unknown) (Some Complete)"
| failed: "status_move (Some Running) (Some Failed)"

inductive_cases from_complete: "status_move (Some Complete) s"
inductive_cases from_failed: "status_move (Some Failed) s"
inductive_cases to_running: "status_move s (Some Running)"

definition status_of :: "invocations \<Rightarrow> string \<Rightarrow> inv_status option" where
  "status_of tbl key = map_option inv_status (tbl key)"

lemma status_move_claim: "status_move (status_of tbl k) (status_of (snd (claim tbl key tool l now)) k)"
  by (auto simp: store_simps status_of_def lease_expired_def
      split: option.splits intro: status_move.intros)

lemma status_move_get: "status_move (status_of tbl k) (status_of (snd (get_record tbl key now)) k)"
  by (auto simp: store_simps status_of_def lease_expired_def
      split: option.splits intro: status_move.intros)

lemma status_move_complete: "status_move (status_of tbl k) (status_of (complete tbl key r now) k)"
  by (auto simp: store_simps status_of_def split: option.splits intro: status_move.intros)

lemma status_move_fail: "status_move (status_of tbl k) (status_of (fail tbl key e r now) k)"
  by (auto simp: store_simps status_of_def split: option.splits intro: status_move.intros)

lemma status_move_mark: "status_move (status_of tbl k) (status_of (mark_unknown tbl key e t now now') k)"
  by (auto simp: store_simps status_of_def split: option.splits if_splits intro: status_move.intros)

lemmas status_moves = status_move_claim status_move_get status_move_complete status_move_fail
  status_move_mark

section \<open>The contract a writer relies on\<close>

text \<open>
  Successful claims of one key among a sequence of claims and other store calls.
\<close>

fun claims_won ::
  "('s \<Rightarrow> 'c \<Rightarrow> bool \<times> 's) \<Rightarrow> ('c \<Rightarrow> string) \<Rightarrow> ('s \<Rightarrow> 'o \<Rightarrow> 's) \<Rightarrow> string \<Rightarrow> 's \<Rightarrow> ('c + 'o) list \<Rightarrow> nat"
where
  "claims_won attempt ckey step k s [] = 0"
| "claims_won attempt ckey step k s (Inl c # ops) =
     (if fst (attempt s c) \<and> ckey c = k then 1 else 0)
     + claims_won attempt ckey step k (snd (attempt s c)) ops"
| "claims_won attempt ckey step k s (Inr b # ops) = claims_won attempt ckey step k (step s b) ops"

text \<open>
  A key is bound from its first claim on, nothing unbinds it, and a claim of a bound key is
  refused.  That is all a writer needs to run at most once per key.
\<close>

locale write_ledger =
  fixes attempt :: "'s \<Rightarrow> 'c \<Rightarrow> bool \<times> 's" and ckey :: "'c \<Rightarrow> string"
    and step :: "'s \<Rightarrow> 'o \<Rightarrow> 's" and bound :: "'s \<Rightarrow> string set"
  assumes claim_fresh: "fst (attempt s c) = (ckey c \<notin> bound s)"
    and claim_binds: "bound (snd (attempt s c)) = insert (ckey c) (bound s)"
    and step_keeps: "bound s \<subseteq> bound (step s b)"
begin

lemma bound_never_won: "k \<in> bound s \<Longrightarrow> claims_won attempt ckey step k s ops = 0"
proof (induction ops arbitrary: s)
  case (Cons a ops)
  then show ?case
    using step_keeps by (cases a) (auto simp: claim_fresh claim_binds subset_iff)
qed simp

lemma at_most_one_claim: "claims_won attempt ckey step k s ops \<le> 1"
proof (induction ops arbitrary: s)
  case (Cons a ops)
  then show ?case
    by (cases a) (auto simp: claim_binds bound_never_won)
qed simp

end

interpretation sqlite_ledger: write_ledger claim_step claim_key ledger_step dom
proof (unfold_locales, goal_cases)
  case (1 tbl c)
  then show ?case by (cases c) (auto simp: store_simps split: option.splits)
next
  case (2 tbl c)
  then show ?case by (cases c) (auto simp: store_simps split: option.splits if_splits)
next
  case (3 tbl b)
  then show ?case by (cases b) (auto simp: store_simps split: option.splits if_splits)
qed

section \<open>Invariants of the rows\<close>

definition row_ok :: "invocation \<Rightarrow> bool" where
  "row_ok r \<longleftrightarrow>
     (inv_status r = Running \<longleftrightarrow> inv_lease r \<noteq> None) \<and>
     (inv_status r = Running \<longrightarrow> inv_result r = None) \<and>
     (inv_status r = Complete \<longrightarrow> inv_result r \<noteq> None \<and> inv_error r = None) \<and>
     (inv_status r \<in> {Failed, Unknown} \<longrightarrow> inv_error r \<noteq> None)"

definition rows_ok :: "invocations \<Rightarrow> bool" where
  "rows_ok tbl \<longleftrightarrow> (\<forall>k r. tbl k = Some r \<longrightarrow> row_ok r)"

lemma rows_okD: "rows_ok tbl \<Longrightarrow> tbl k = Some r \<Longrightarrow> row_ok r"
  by (simp add: rows_ok_def)

lemma rows_ok_upd: "rows_ok tbl \<Longrightarrow> row_ok r \<Longrightarrow> rows_ok (tbl(k \<mapsto> r))"
  by (simp add: rows_ok_def)

lemma rows_ok_expire: "rows_ok tbl \<Longrightarrow> rows_ok (expire tbl k now)"
  by (auto simp: expire_def freeze_row_def lease_expired_def row_ok_def
      split: option.splits intro!: rows_ok_upd dest: rows_okD)

lemma rows_ok_claim: "rows_ok tbl \<Longrightarrow> rows_ok (snd (claim tbl key tool l now))"
  by (auto simp: claim_def Let_def row_ok_def rows_ok_expire split: option.splits intro!: rows_ok_upd)

lemma rows_ok_complete: "rows_ok tbl \<Longrightarrow> rows_ok (complete tbl key r now)"
  by (auto simp: complete_def row_ok_def split: option.splits intro!: rows_ok_upd)

lemma rows_ok_fail: "rows_ok tbl \<Longrightarrow> rows_ok (fail tbl key e r now)"
  by (auto simp: fail_def row_ok_def split: option.splits intro!: rows_ok_upd)

lemma rows_ok_mark: "rows_ok tbl \<Longrightarrow> rows_ok (mark_unknown tbl key e t now now')"
  by (auto simp: mark_unknown_def Let_def row_ok_def split: option.splits if_splits
      intro!: rows_ok_upd dest: rows_okD)

interpretation ledger_rows:
  invariant_machine Map.empty "\<lambda>_ _. True" any_step rows_ok
proof (unfold_locales, goal_cases)
  case 1
  then show ?case by (simp add: rows_ok_def)
next
  case (2 tbl a)
  then show ?case
    by (cases a; cases "projl a"; cases "projr a")
       (auto simp: any_step_def rows_ok_claim rows_ok_complete rows_ok_fail rows_ok_mark
          release_claim_def get_record_def Let_def rows_ok_expire)
qed

lemma any_step_moves: "status_move (status_of tbl k) (status_of (any_step tbl a) k)"
proof (cases a)
  case (Inl c)
  then show ?thesis by (cases c) (simp add: any_step_def status_moves)
next
  case (Inr b)
  then show ?thesis by (cases b) (simp_all add: any_step_def status_moves release_claim_def)
qed

text \<open>A finished row is never touched again.\<close>

lemma finished_row_stays:
  "tbl k = Some r \<Longrightarrow> inv_status r \<in> {Complete, Failed} \<Longrightarrow> any_step tbl a k = Some r"
proof (cases a)
  case (Inl c)
  assume "tbl k = Some r" "inv_status r \<in> {Complete, Failed}"
  with Inl show ?thesis
    by (cases c) (auto simp: any_step_def store_simps lease_expired_def split: option.splits)
next
  case (Inr b)
  assume "tbl k = Some r" "inv_status r \<in> {Complete, Failed}"
  with Inr show ?thesis
    by (cases b) (auto simp: any_step_def store_simps lease_expired_def split: option.splits)
qed

lemma finished_row_stays_run:
  "tbl k = Some r \<Longrightarrow> inv_status r \<in> {Complete, Failed} \<Longrightarrow> run_ops any_step tbl ops k = Some r"
  by (induction ops arbitrary: tbl) (auto intro: finished_row_stays)

text \<open>The key a call is about; a call about one key leaves the rows of the others alone.\<close>

fun call_key :: "ledger_claim + ledger_op \<Rightarrow> string" where
  "call_key (Inl (LClaim k tool l now)) = k"
| "call_key (Inr (LComplete k r now)) = k"
| "call_key (Inr (LFail k e r now)) = k"
| "call_key (Inr (LMarkUnknown k e t now now')) = k"
| "call_key (Inr (LRelease k now now')) = k"
| "call_key (Inr (LGetRecord k now)) = k"

lemma any_step_other_key: "call_key a \<noteq> k \<Longrightarrow> any_step tbl a k = tbl k"
proof (cases a)
  case (Inl c)
  assume "call_key a \<noteq> k"
  with Inl show ?thesis
    by (cases c) (auto simp: any_step_def store_simps split: option.splits)
next
  case (Inr b)
  assume "call_key a \<noteq> k"
  with Inr show ?thesis
    by (cases b) (auto simp: any_step_def store_simps split: option.splits if_splits)
qed

lemma other_keys_run: "\<forall>a \<in> set ops. call_key a \<noteq> k \<Longrightarrow> run_ops any_step tbl ops k = tbl k"
  by (induction ops arbitrary: tbl) (simp_all add: any_step_other_key)

lemma any_step_bound: "dom tbl \<subseteq> dom (any_step tbl a)"
  using sqlite_ledger.step_keeps sqlite_ledger.claim_binds
  by (cases a) (auto simp: any_step_def)

lemma bound_run: "dom tbl \<subseteq> dom (run_ops any_step tbl ops)"
proof (induction ops arbitrary: tbl)
  case (Cons a ops)
  from any_step_bound [of tbl a] Cons [of "any_step tbl a"] show ?case by (simp add: subset_trans)
qed simp

section \<open>Properties\<close>

text \<open>C3. Over any interleaving of claims and other calls on the ledger, whatever their clock
  readings, at most one claim of a key succeeds: an expired lease is frozen, never re-issued.\<close>

theorem at_most_one_claim_per_key:
  "claims_won claim_step claim_key ledger_step key tbl ops \<le> 1"
  by (rule sqlite_ledger.at_most_one_claim)

text \<open>In every reachable ledger exactly the running rows hold a lease, complete rows hold
  a result and no error, failed and unknown rows hold an error.\<close>

theorem reachable_rows_ok:
  "rows_ok (run_ops any_step Map.empty ops)"
  by (rule ledger_rows.inv_run) simp

text \<open>C4. The status of a row only moves along the edges of the ledger's status machine: no
  call makes an unknown, failed or complete invocation running again.\<close>

theorem status_machine:
  "status_move (status_of tbl key) (status_of (any_step tbl call) key) \<and>
   (status_of (any_step tbl call) key = Some Running \<longrightarrow> status_of tbl key \<in> {None, Some Running})"
  using any_step_moves by (metis insert_iff to_running)

lemma status_machine_witness:
  "status_of (any_step Map.empty (Inl (LClaim ''k'' ''remember'' 120 5))) ''k'' = Some Running \<and>
   status_of (any_step Map.empty (Inl (LClaim ''k'' ''remember'' 120 5))) ''k'' = Some Running"
  using status_machine [of Map.empty "''k''" "Inl (LClaim ''k'' ''remember'' 120 5)"]
  by (simp add: any_step_def store_simps status_of_def)

text \<open>A completed invocation replays its result for ever: no later sequence of calls
  changes what the ledger answers for the key.\<close>

theorem completed_result_is_final:
  assumes "status_of tbl key \<in> {Some Running, Some Unknown}"
  shows "fst (get_result (run_ops any_step (complete tbl key result now) ops) key later) = result"
proof -
  from assms obtain r where r: "tbl key = Some r" "inv_status r \<in> {Running, Unknown}"
    by (auto simp: status_of_def)
  let ?r = "r\<lparr>inv_status := Complete, inv_result := Some result, inv_error := None,
    inv_updated := now, inv_lease := None\<rparr>"
  have "complete tbl key result now key = Some ?r"
    using r by (simp add: complete_def)
  then have "run_ops any_step (complete tbl key result now) ops key = Some ?r"
    by (rule finished_row_stays_run) simp
  then show ?thesis
    by (simp add: get_result_def get_record_def expire_def lease_expired_def record_result_def Let_def)
qed

lemma completed_result_is_final_witness:
  "fst (get_result (run_ops any_step
      (complete (snd (claim Map.empty ''k'' ''remember'' 120 0)) ''k'' (JStr ''saved'') 3)
      [Inr (LFail ''k'' ''late'' JNull 4), Inl (LClaim ''k'' ''remember'' 120 500)]) ''k'' 600) = JStr ''saved''"
  by (rule completed_result_is_final) (simp add: store_simps status_of_def)

text \<open>A write whose lease has run out is frozen as unknown by the next claim, which is
  refused; only \<open>complete\<close> can settle it afterwards.\<close>

theorem expired_claim_is_frozen:
  assumes "tbl key = Some r" and "lease_expired r now"
  shows "\<not> fst (claim tbl key tool lease_seconds now) \<and>
    status_of (snd (claim tbl key tool lease_seconds now)) key = Some Unknown \<and>
    fail (snd (claim tbl key tool lease_seconds now)) key err res later = snd (claim tbl key tool lease_seconds now)"
  using assms by (auto simp: store_simps status_of_def fun_upd_idem)

lemma expired_claim_is_frozen_witness:
  "\<not> fst (claim (snd (claim Map.empty ''k'' ''remember'' 120 0)) ''k'' ''remember'' 120 120)"
  using expired_claim_is_frozen [of "snd (claim Map.empty ''k'' ''remember'' 120 0)" "''k''" _ 120]
  by (simp add: claim_def expire_def lease_expired_def Let_def)

end
