(* ===== verification/ToolExecution.thy ===== *)
theory ToolExecution
  imports IdempotencyLedger
begin

text \<open>
  \<open>app/core/tool_system.py\<close>: one tool call through \<open>Tool._execute_with_callable\<close> (defaults,
  validation, the write gate on the idempotency ledger, the retry loop, the settlement of the
  claim), the registry that dispatches by name, and the pinned capabilities of specialists.

  Python objects whose identity matters (callables, pydantic models, Tool objects) are
  numbers; a \<open>world\<close> says how the callable with a given identity behaves on its n-th attempt
  and how a model validates.  Model validation is pydantic's, so it is a parameter here.
\<close>

section \<open>Tools, results and the world they run in\<close>

type_synonym obj_id = nat

datatype call_outcome = Returned json | Raised | CancelledCall

record world =
  call_of :: "obj_id \<Rightarrow> nat \<Rightarrow> fields \<Rightarrow> call_outcome"
  is_callable :: "obj_id \<Rightarrow> bool"
  accepts_kwarg :: "obj_id \<Rightarrow> string \<Rightarrow> bool"
  validate_in :: "obj_id \<Rightarrow> fields \<Rightarrow> fields option"
  validate_out :: "obj_id \<Rightarrow> json \<Rightarrow> json option"
  sleep_cancelled :: "nat \<Rightarrow> bool"
  text_of :: "json \<Rightarrow> string"

record tool =
  tool_name :: string
  tool_func :: obj_id
  tool_input_model :: "obj_id option"
  tool_output_model :: "obj_id option"
  tool_required :: "string list"
  tool_properties :: "(string \<times> json option) list"
  tool_max_retries :: int
  tool_retry_on_error :: bool
  tool_version :: string
  tool_side_effect :: string
  tool_retry_safe :: bool
  tool_terminal :: bool
  tool_projection :: "(json \<Rightarrow> json) option"
  tool_rehydrate :: "(json \<Rightarrow> fields \<Rightarrow> json) option"

record tool_result =
  res_success :: bool
  res_data :: json
  res_error :: json
  res_time_ms :: "rat option"
  res_tool :: string
  res_version :: string
  res_key :: "string option"
  res_outcome :: "string option"

text \<open>What a specialist capability pins.\<close>

record pinned_execution =
  pin_func :: obj_id
  pin_input_model :: obj_id
  pin_output_model :: "obj_id option"
  pin_max_retries :: int
  pin_retry_on_error :: bool

text \<open>
  When the steps of one execution happen: the clock readings in the order they are taken, and
  the ledger calls that other requests and processes make in between.
\<close>

type_synonym ledger_calls = "(ledger_claim + ledger_op) list"

record clocks =
  ck_lookup :: time
  ck_before_claim :: ledger_calls
  ck_claim :: time
  ck_before_recheck :: ledger_calls
  ck_recheck :: time
  ck_during_call :: ledger_calls
  ck_settle :: time
  ck_elapsed_ms :: rat

abbreviation meanwhile :: "invocations \<Rightarrow> ledger_calls \<Rightarrow> invocations" where
  "meanwhile tbl calls \<equiv> run_ops any_step tbl calls"

definition make_result ::
  "tool \<Rightarrow> bool \<Rightarrow> json \<Rightarrow> json \<Rightarrow> string option \<Rightarrow> string option \<Rightarrow> tool_result" where
  "make_result t ok data err key outcome =
     \<lparr>res_success = ok, res_data = data, res_error = err, res_time_ms = None,
      res_tool = tool_name t, res_version = tool_version t, res_key = key, res_outcome = outcome\<rparr>"

section \<open>Arguments\<close>

definition is_injected :: "string \<Rightarrow> bool" where
  "is_injected name \<longleftrightarrow> take 1 name = ''_''"

definition apply_defaults :: "tool \<Rightarrow> fields \<Rightarrow> fields" where
  "apply_defaults t kwargs =
     fold (\<lambda>(name, dflt) acc.
       case dflt of None \<Rightarrow> acc
       | Some d \<Rightarrow> if \<not> dict_has acc name \<and> d \<noteq> JNull then dict_set acc name d else acc)
     (tool_properties t) kwargs"

definition missing_required :: "tool \<Rightarrow> fields \<Rightarrow> bool" where
  "missing_required t kwargs \<longleftrightarrow> (\<exists>p \<in> set (tool_required t). \<not> dict_has kwargs p)"

section \<open>The write gate\<close>

fun status_text :: "inv_status \<Rightarrow> string" where
  "status_text Running = ''running''"
| "status_text Complete = ''complete''"
| "status_text Failed = ''failed''"
| "status_text Unknown = ''unknown''"

datatype gate = Refuse tool_result | Go bool

definition is_reported_failure :: "json \<Rightarrow> bool" where
  "is_reported_failure data \<longleftrightarrow> is_dict data \<and> json_get data ''success'' = Some (JBool False)"

definition replayed_data :: "tool \<Rightarrow> invocation \<Rightarrow> fields \<Rightarrow> json" where
  "replayed_data t r kwargs =
     (case tool_rehydrate t of
        Some f \<Rightarrow> if inv_status r \<in> {Complete, Failed} then f (record_result r) kwargs
                  else record_result r
      | None \<Rightarrow> record_result r)"

definition answer_from_record :: "tool \<Rightarrow> string \<Rightarrow> invocation \<Rightarrow> fields \<Rightarrow> tool_result" where
  "answer_from_record t key r kwargs =
     (if inv_tool r \<noteq> tool_name t
      then make_result t False JNull
             (JStr ''idempotency key is already bound to a different tool'') (Some key) (Some ''conflict'')
      else let replayed = replayed_data t r kwargs in
      if inv_status r = Complete
      then make_result t (\<not> is_reported_failure replayed) replayed JNull (Some key) (Some ''replayed'')
      else if inv_status r = Failed
      then make_result t False replayed
             (JStr (or_text (inv_error r) ''logical invocation previously failed'')) (Some key) (Some ''failed'')
      else make_result t False JNull
             (JStr (or_text (inv_error r)
               (''logical invocation is '' @ status_text (inv_status r) @ ''; write outcome is unknown'')))
             (Some key) (Some (if inv_status r = Unknown then ''unknown'' else ''running'')))"

definition answer_lost_claim :: "tool \<Rightarrow> string \<Rightarrow> invocation option \<Rightarrow> tool_result" where
  "answer_lost_claim t key current =
     (let status = (case current of Some r \<Rightarrow> status_text (inv_status r) | None \<Rightarrow> ''running'');
          err = (case current of Some r \<Rightarrow> inv_error r | None \<Rightarrow> None) in
      make_result t False JNull
        (JStr (or_text err (''logical invocation is '' @ status @ ''; write was not retried'')))
        (Some key) (Some status))"

definition gate_write ::
  "tool \<Rightarrow> string option \<Rightarrow> fields \<Rightarrow> clocks \<Rightarrow> invocations option \<Rightarrow> gate \<times> invocations option" where
  "gate_write t key_opt kwargs ck store =
     (if tool_side_effect t \<noteq> ''write'' then (Go False, store)
      else if key_opt = None \<or> key_opt = Some []
      then (Refuse (make_result t False JNull (JStr ''idempotency_key is required for write tools'') None None), store)
      else case store of
        None \<Rightarrow> (Go False, store)
      | Some tbl \<Rightarrow>
          let key = the key_opt; (previous, tbl1) = get_record tbl key (ck_lookup ck) in
          case previous of
            Some r \<Rightarrow> (Refuse (answer_from_record t key r kwargs), Some tbl1)
          | None \<Rightarrow>
              let (claimed, tbl2) = claim (meanwhile tbl1 (ck_before_claim ck)) key (tool_name t) 120 (ck_claim ck) in
              if claimed then (Go True, Some tbl2)
              else let (current, tbl3) = get_record (meanwhile tbl2 (ck_before_recheck ck)) key (ck_recheck ck) in
                (Refuse (answer_lost_claim t key current), Some tbl3))"

section \<open>The retry loop\<close>

text \<open>
  How the loop ends: the function's result (whether it reports success, and the data after
  output validation), every attempt used up by exceptions, or a cancellation.  A cancelled
  call, and a cancelled pause after a reported failure, are seen by the handler that freezes
  the claim; a cancelled pause inside the exception handler is not.
\<close>

datatype verdict = Answered bool json | Exhausted | Interrupted | LeftRunning

definition reports_success :: "json \<Rightarrow> bool" where
  "reports_success result \<longleftrightarrow> \<not> is_dict result \<or> json_get result ''success'' \<noteq> Some (JBool False)"

definition asks_retry :: "json \<Rightarrow> bool" where
  "asks_retry result = (case json_get result ''retryable'' of None \<Rightarrow> True | Some v \<Rightarrow> truthy v)"

text \<open>
  \<open>run_attempts w t p fid kwargs args left i\<close>: \<open>left\<close> attempts remain, \<open>i\<close> is the index of
  the next.  Returns the verdict and how many times the function was entered.
\<close>

fun run_attempts ::
  "world \<Rightarrow> tool \<Rightarrow> bool \<Rightarrow> obj_id option \<Rightarrow> obj_id \<Rightarrow> fields \<Rightarrow> fields \<Rightarrow> nat \<Rightarrow> nat \<Rightarrow> verdict \<times> nat"
where
  "run_attempts w t retry_on_error out_model fid kwargs args 0 i = (Exhausted, 0)"
| "run_attempts w t retry_on_error out_model fid kwargs args (Suc left) i =
     (let may_retry = 0 < left \<and> retry_on_error \<and> tool_retry_safe t;
          again = run_attempts w t retry_on_error out_model fid kwargs args left (Suc i);
          on_exception = (if may_retry
            then if sleep_cancelled w i then (LeftRunning, 0) else again
            else (Exhausted, 0)) in
      if \<not> is_callable w fid \<or> missing_required t kwargs then on_exception
      else case call_of w fid i args of
        CancelledCall \<Rightarrow> (Interrupted, 1)
      | Raised \<Rightarrow> (fst on_exception, 1 + snd on_exception)
      | Returned result \<Rightarrow>
          if \<not> reports_success result \<and> may_retry \<and> asks_retry result
          then if sleep_cancelled w i then (Interrupted, 1)
               else (fst again, 1 + snd again)
          else if reports_success result
          then (case out_model of
              None \<Rightarrow> (Answered True result, 1)
            | Some m \<Rightarrow> (case validate_out w m result of
                None \<Rightarrow> (fst on_exception, 1 + snd on_exception)
              | Some result' \<Rightarrow> (Answered True result', 1)))
          else (Answered False result, 1))"

definition attempts_allowed :: "tool \<Rightarrow> int \<Rightarrow> nat" where
  "attempts_allowed t max_retries = (if tool_retry_safe t then nat (max 1 max_retries) else 1)"

section \<open>Settling the claim and answering\<close>

definition projected :: "tool \<Rightarrow> json \<Rightarrow> json" where
  "projected t result = (case tool_projection t of None \<Rightarrow> result | Some f \<Rightarrow> f result)"

definition cancelled_message :: string where
  "cancelled_message = ''caller stopped waiting while the write was in flight; outcome is unknown''"

definition settle ::
  "world \<Rightarrow> tool \<Rightarrow> string \<Rightarrow> time \<Rightarrow> verdict \<Rightarrow> invocations \<Rightarrow> invocations" where
  "settle w t key now v tbl =
     (case v of
        Answered True result \<Rightarrow> complete tbl key (projected t result) now
      | Answered False result \<Rightarrow>
          fail tbl key
            (case json_get result ''error'' of
               None \<Rightarrow> ''write returned an unsuccessful result'' | Some e \<Rightarrow> text_of w e)
            (projected t result) now
      | Exhausted \<Rightarrow> fail tbl key ''Tool execution failed'' JNull now
      | Interrupted \<Rightarrow> mark_unknown tbl key cancelled_message None now now
      | LeftRunning \<Rightarrow> tbl)"

datatype execution = Replied tool_result | CancelledOut

definition reply_of :: "tool \<Rightarrow> string option \<Rightarrow> rat \<Rightarrow> verdict \<Rightarrow> execution" where
  "reply_of t key elapsed v =
     (case v of
        Answered ok result \<Rightarrow>
          Replied ((make_result t ok result
              (if is_dict result \<and> \<not> ok
               then (case json_get result ''error'' of None \<Rightarrow> JNull | Some e \<Rightarrow> e) else JNull)
              key (Some (if ok then ''complete'' else ''failed'')))\<lparr>res_time_ms := Some elapsed\<rparr>)
      | Exhausted \<Rightarrow>
          Replied ((make_result t False JNull (JStr ''Tool execution failed'') key (Some ''failed''))
            \<lparr>res_time_ms := Some elapsed\<rparr>)
      | Interrupted \<Rightarrow> CancelledOut
      | LeftRunning \<Rightarrow> CancelledOut)"

text \<open>
  The arguments the function receives: the validated ones, and those injected by the runtime
  (names with a leading underscore) that the callable can take.
\<close>

definition call_arguments :: "world \<Rightarrow> obj_id \<Rightarrow> fields \<Rightarrow> fields \<Rightarrow> fields" where
  "call_arguments w fid kwargs injected =
     dict_merge kwargs (filter (\<lambda>(name, v). accepts_kwarg w fid name) injected)"

definition execute_with_callable ::
  "world \<Rightarrow> tool \<Rightarrow> pinned_execution option \<Rightarrow> string option \<Rightarrow> fields \<Rightarrow> clocks
   \<Rightarrow> invocations option \<Rightarrow> execution \<times> nat \<times> invocations option" where
  "execute_with_callable w t pinned key kwargs ck store =
     (let fid = (case pinned of None \<Rightarrow> tool_func t | Some p \<Rightarrow> pin_func p);
          in_model = (case pinned of None \<Rightarrow> tool_input_model t | Some p \<Rightarrow> Some (pin_input_model p));
          out_model = (case pinned of None \<Rightarrow> tool_output_model t | Some p \<Rightarrow> pin_output_model p);
          max_retries = (case pinned of None \<Rightarrow> tool_max_retries t | Some p \<Rightarrow> pin_max_retries p);
          retry_on_error = (case pinned of None \<Rightarrow> tool_retry_on_error t | Some p \<Rightarrow> pin_retry_on_error p);
          injected = filter (\<lambda>(name, v). is_injected name) kwargs;
          plain = apply_defaults t (filter (\<lambda>(name, v). \<not> is_injected name) kwargs) in
      case Option.bind in_model (\<lambda>m. validate_in w m plain) of
        None \<Rightarrow> (Replied (make_result t False JNull (JStr ''ValidationError: invalid parameters'') key None),
                 0, store)
      | Some args \<Rightarrow>
          (case gate_write t key args ck store of
             (Refuse r, store') \<Rightarrow> (Replied r, 0, store')
           | (Go claimed, store') \<Rightarrow>
               let (v, n) = run_attempts w t retry_on_error out_model fid args
                     (call_arguments w fid args injected) (attempts_allowed t max_retries) 0 in
               (reply_of t key (ck_elapsed_ms ck) v, n,
                if claimed
                then map_option (\<lambda>tbl. settle w t (the key) (ck_settle ck) v (meanwhile tbl (ck_during_call ck))) store'
                else store')))"

section \<open>The registry\<close>

text \<open>
  \<open>reg_tools\<close> maps a name to the identity of the Tool object bound to it, \<open>reg_heap\<close> gives
  each identity its current field values (Tool objects are mutable and shared), and the
  statistics count calls per name.
\<close>

record call_stats =
  st_total :: nat
  st_successful :: nat
  st_failed :: nat
  st_time_ms :: rat

record registry =
  reg_id :: obj_id
  reg_tools :: "(string \<times> obj_id) list"
  reg_heap :: "obj_id \<Rightarrow> tool"
  reg_stats :: "string \<rightharpoonup> call_stats"
  reg_ledger :: invocations

definition zero_stats :: call_stats where
  "zero_stats = \<lparr>st_total = 0, st_successful = 0, st_failed = 0, st_time_ms = 0\<rparr>"

definition register_tool :: "registry \<Rightarrow> obj_id \<Rightarrow> registry" where
  "register_tool reg tid =
     (let name = tool_name (reg_heap reg tid) in
      reg\<lparr>reg_tools := dict_set (reg_tools reg) name tid, reg_stats := (reg_stats reg)(name \<mapsto> zero_stats)\<rparr>)"

definition count_call :: "call_stats \<Rightarrow> tool_result \<Rightarrow> call_stats" where
  "count_call st r = st\<lparr>st_total := st_total st + 1,
     st_successful := st_successful st + (if res_success r then 1 else 0),
     st_failed := st_failed st + (if res_success r then 0 else 1),
     st_time_ms := st_time_ms st + or_default (res_time_ms r) 0\<rparr>"

definition record_call :: "registry \<Rightarrow> string \<Rightarrow> tool_result \<Rightarrow> registry" where
  "record_call reg name r =
     (case reg_stats reg name of None \<Rightarrow> reg
      | Some st \<Rightarrow> reg\<lparr>reg_stats := (reg_stats reg)(name \<mapsto> count_call st r)\<rparr>)"

text \<open>The message for an unknown tool, as the UTF-8 bytes of the source's literal.\<close>

definition no_such_tool :: "string \<Rightarrow> string" where
  "no_such_tool name =
     [CHR 0xE5, CHR 0xB7, CHR 0xA5, CHR 0xE5, CHR 0x85, CHR 0xB7, CHR 0x20, CHR 0x27] @ name @
     [CHR 0x27, CHR 0x20, CHR 0xE4, CHR 0xB8, CHR 0x8D, CHR 0xE5, CHR 0xAD, CHR 0x98,
      CHR 0xE5, CHR 0x9C, CHR 0xA8]"

definition execute_tool ::
  "world \<Rightarrow> registry \<Rightarrow> string \<Rightarrow> string option \<Rightarrow> fields \<Rightarrow> clocks \<Rightarrow> execution \<times> nat \<times> registry" where
  "execute_tool w reg name key kwargs ck =
     (case map_of (reg_tools reg) name of
        None \<Rightarrow>
          (Replied \<lparr>res_success = False, res_data = JNull, res_error = JStr (no_such_tool name),
             res_time_ms = None, res_tool = name, res_version = ''1'', res_key = None, res_outcome = None\<rparr>,
           0, reg)
      | Some tid \<Rightarrow>
          (case execute_with_callable w (reg_heap reg tid) None key kwargs ck (Some (reg_ledger reg)) of
             (reply, n, store) \<Rightarrow>
               let reg' = reg\<lparr>reg_ledger := the store\<rparr> in
               (reply, n, case reply of Replied r \<Rightarrow> record_call reg' name r | CancelledOut \<Rightarrow> reg')))"

section \<open>Specialist capabilities\<close>

record tool_spec =
  spec_name :: string
  spec_input_schema :: json
  spec_side_effect :: string
  spec_retry_safe :: bool
  spec_version :: string
  spec_terminal :: bool
  spec_max_retries :: int
  spec_retry_on_error :: bool
  spec_input_ref :: string
  spec_output_ref :: string

text \<open>
  \<open>schema_of\<close> gives the JSON schema pydantic derives for a model and \<open>model_ref\<close> the
  security reference computed from it.
\<close>

definition to_spec ::
  "(obj_id option \<Rightarrow> json) \<Rightarrow> (obj_id option \<Rightarrow> string) \<Rightarrow> tool \<Rightarrow> tool_spec" where
  "to_spec schema_of model_ref t =
     \<lparr>spec_name = tool_name t, spec_input_schema = schema_of (tool_input_model t),
      spec_side_effect = tool_side_effect t, spec_retry_safe = tool_retry_safe t,
      spec_version = tool_version t, spec_terminal = tool_terminal t,
      spec_max_retries = tool_max_retries t, spec_retry_on_error = tool_retry_on_error t,
      spec_input_ref = model_ref (tool_input_model t), spec_output_ref = model_ref (tool_output_model t)\<rparr>"

datatype dispatch_error = SpecialistDispatchError string

record capability =
  cap_provider :: obj_id
  cap_tool_name :: string
  cap_tool :: "obj_id option"
  cap_tool_identity :: obj_id
  cap_callable :: obj_id
  cap_callable_identity :: obj_id
  cap_digest :: string
  cap_input_model :: "obj_id option"
  cap_input_identity :: obj_id
  cap_output_model :: "obj_id option"
  cap_output_identity :: "obj_id option"
  cap_max_retries :: int
  cap_retry_on_error :: bool

definition at_least_default :: "int \<Rightarrow> int" where
  "at_least_default n = (if n = 0 then 1 else n)"

definition resolve_specialist_capability ::
  "world \<Rightarrow> (tool \<Rightarrow> tool_spec) \<Rightarrow> (tool_spec \<Rightarrow> string) \<Rightarrow> registry \<Rightarrow> string \<Rightarrow> string
   \<Rightarrow> dispatch_error + capability" where
  "resolve_specialist_capability w spec digest reg name expected =
     (case map_of (reg_tools reg) name of
        None \<Rightarrow> Inl (SpecialistDispatchError ''specialist_capability_missing'')
      | Some tid \<Rightarrow>
          let t = reg_heap reg tid; sp = spec t in
          if digest sp \<noteq> expected
          then Inl (SpecialistDispatchError ''specialist_capability_metadata_drift'')
          else if spec_side_effect sp \<noteq> ''none'' \<or> spec_terminal sp
          then Inl (SpecialistDispatchError ''specialist_capability_not_read_only'')
          else if \<not> is_callable w (tool_func t)
          then Inl (SpecialistDispatchError ''specialist_capability_callable_invalid'')
          else case tool_input_model t of
            None \<Rightarrow> Inl (SpecialistDispatchError ''specialist_capability_input_model_invalid'')
          | Some m \<Rightarrow> Inr
              \<lparr>cap_provider = reg_id reg, cap_tool_name = name, cap_tool = Some tid,
               cap_tool_identity = tid, cap_callable = tool_func t, cap_callable_identity = tool_func t,
               cap_digest = digest sp, cap_input_model = Some m, cap_input_identity = m,
               cap_output_model = tool_output_model t, cap_output_identity = tool_output_model t,
               cap_max_retries = at_least_default (tool_max_retries t),
               cap_retry_on_error = tool_retry_on_error t\<rparr>)"

text \<open>The checks made between resolution and dispatch: \<open>Inr\<close> is the pinned execution.\<close>

definition recheck_capability ::
  "world \<Rightarrow> (tool \<Rightarrow> tool_spec) \<Rightarrow> (tool_spec \<Rightarrow> string) \<Rightarrow> registry \<Rightarrow> capability \<Rightarrow> string
   \<Rightarrow> dispatch_error + obj_id \<times> pinned_execution" where
  "recheck_capability w spec digest reg cap expected =
     (if cap_provider cap \<noteq> reg_id reg
      then Inl (SpecialistDispatchError ''specialist_capability_provider_mismatch'')
      else case cap_tool cap of
        None \<Rightarrow> Inl (SpecialistDispatchError ''specialist_capability_invalid'')
      | Some tid \<Rightarrow>
          if cap_tool_name cap = [] \<or> cap_tool_identity cap \<noteq> tid
          then Inl (SpecialistDispatchError ''specialist_capability_invalid'')
          else if map_of (reg_tools reg) (cap_tool_name cap) \<noteq> Some tid
          then Inl (SpecialistDispatchError ''specialist_capability_replaced'')
          else if \<not> is_callable w (cap_callable cap) \<or> cap_callable_identity cap \<noteq> cap_callable cap
          then Inl (SpecialistDispatchError ''specialist_capability_callable_invalid'')
          else let t = reg_heap reg tid in
          if tool_func t \<noteq> cap_callable cap
          then Inl (SpecialistDispatchError ''specialist_capability_callable_replaced'')
          else case cap_input_model cap of
            None \<Rightarrow> Inl (SpecialistDispatchError ''specialist_capability_input_model_invalid'')
          | Some m \<Rightarrow>
              if cap_input_identity cap \<noteq> m
              then Inl (SpecialistDispatchError ''specialist_capability_input_model_invalid'')
              else if tool_input_model t \<noteq> Some m
              then Inl (SpecialistDispatchError ''specialist_capability_replaced'')
              else if cap_output_identity cap \<noteq> cap_output_model cap
              then Inl (SpecialistDispatchError ''specialist_capability_input_model_invalid'')
              else if tool_output_model t \<noteq> cap_output_model cap
              then Inl (SpecialistDispatchError ''specialist_capability_replaced'')
              else let sp = spec t in
              if digest sp \<noteq> expected \<or> digest sp \<noteq> cap_digest cap
              then Inl (SpecialistDispatchError ''specialist_capability_metadata_drift'')
              else if spec_side_effect sp \<noteq> ''none'' \<or> spec_terminal sp
              then Inl (SpecialistDispatchError ''specialist_capability_not_read_only'')
              else Inr (tid, \<lparr>pin_func = cap_callable cap, pin_input_model = m,
                   pin_output_model = cap_output_model cap,
                   pin_max_retries = at_least_default (cap_max_retries cap),
                   pin_retry_on_error = cap_retry_on_error cap\<rparr>))"

text \<open>The dispatch itself.\<close>

definition execute_resolved_specialist_capability ::
  "world \<Rightarrow> (tool \<Rightarrow> tool_spec) \<Rightarrow> (tool_spec \<Rightarrow> string) \<Rightarrow> registry \<Rightarrow> capability \<Rightarrow> fields \<Rightarrow> string
   \<Rightarrow> clocks \<Rightarrow> dispatch_error + execution \<times> nat \<times> registry" where
  "execute_resolved_specialist_capability w spec digest reg cap args expected ck =
     (if dict_has args ''_idempotency_store''
      then Inl (SpecialistDispatchError ''specialist_capability_args_invalid'')
      else case recheck_capability w spec digest reg cap expected of
        Inl e \<Rightarrow> Inl e
      | Inr (tid, pin) \<Rightarrow>
          let t = reg_heap reg tid;
              key = (case map_of args ''idempotency_key'' of Some (JStr k) \<Rightarrow> Some k | _ \<Rightarrow> None);
              kwargs = filter (\<lambda>(n, v). n \<noteq> ''idempotency_key'') args in
          (case execute_with_callable w t (Some pin) key kwargs ck (Some (reg_ledger reg)) of
             (CancelledOut, n, store) \<Rightarrow> Inr (CancelledOut, n, reg\<lparr>reg_ledger := the store\<rparr>)
           | (Replied r, n, store) \<Rightarrow>
               if res_tool r \<noteq> cap_tool_name cap \<or> res_version r \<noteq> spec_version (spec t)
               then Inl (SpecialistDispatchError ''specialist_result_identity_mismatch'')
               else Inr (Replied r, n, record_call (reg\<lparr>reg_ledger := the store\<rparr>) (cap_tool_name cap) r)))"

section \<open>Facts about the retry loop\<close>

lemma run_attempts_bound:
  "snd (run_attempts w t roe om fid kwargs args left i) \<le> left"
proof (induction left arbitrary: i)
  case (Suc left)
  from Suc [of "Suc i"] show ?case
    by (cases roe; cases om)
       (auto simp: Let_def split: call_outcome.split option.split)
qed simp

section \<open>The write gate and the claim\<close>

lemma get_record_bound: "snd (get_record tbl key now) k = None \<longleftrightarrow> tbl k = None"
  by (auto simp: store_simps split: option.splits)

lemma get_record_None: "get_record tbl key now = (None, tbl') \<Longrightarrow> tbl' = tbl \<and> tbl key = None"
  by (auto simp: store_simps split: option.splits if_splits)

lemma gate_go_claimed:
  assumes "gate_write t key kwargs ck (Some tbl) = (Go claimed, store)" and "tool_side_effect t = ''write''"
  shows "\<exists>k tbl' row. key = Some k \<and> k \<noteq> [] \<and> claimed \<and> tbl k = None \<and> store = Some tbl' \<and> tbl' k = Some row \<and>
    inv_status row = Running \<and> inv_tool row = tool_name t \<and> dom tbl \<subseteq> dom tbl'"
  using assms
  using bound_run [of tbl "ck_before_claim ck"]
  by (fastforce simp: gate_write_def Let_def claim_def expire_def dest!: get_record_None
      split: if_splits option.splits prod.splits)

lemma subset_domD: "dom a \<subseteq> dom b \<Longrightarrow> a x = Some y \<Longrightarrow> \<exists>z. b x = Some z"
  by auto

lemma gate_keeps_bound:
  "gate_write t key kwargs ck (Some tbl) = (g, store) \<Longrightarrow> \<exists>tbl'. store = Some tbl' \<and> dom tbl \<subseteq> dom tbl'"
proof -
  assume g: "gate_write t key kwargs ck (Some tbl) = (g, store)"
  have get: "dom tbl \<subseteq> dom tbl'" if "get_record tbl k now = (r, tbl')" for tbl k now r tbl'
    using that get_record_bound [of tbl k now] by (metis domIff snd_conv subsetI)
  have cl: "dom tbl \<subseteq> dom tbl'" if "claim tbl k tool l now = (b, tbl')" for tbl k tool l now b tbl'
    using that sqlite_ledger.claim_binds [of tbl "LClaim k tool l now"] by auto
  from g show ?thesis
    by (auto simp: gate_write_def Let_def split: if_splits option.splits prod.splits
        dest!: get cl subset_trans [OF bound_run] dest: subset_domD)
qed

lemma settle_keeps_bound: "dom tbl \<subseteq> dom (settle w t key now v tbl)"
  by (auto simp: settle_def store_simps split: verdict.splits bool.splits option.splits if_splits)

lemma execute_cases:
  assumes "execute_with_callable w t pinned key kwargs ck store = (reply, n, store')"
  obtains (invalid) "n = 0" "store' = store"
      "reply = Replied (make_result t False JNull (JStr ''ValidationError: invalid parameters'') key None)"
    | (refused) args r where "gate_write t key args ck store = (Refuse r, store')"
      "reply = Replied r" "n = 0"
    | (ran) args claimed st v fid roe om injected mr where
      "gate_write t key args ck store = (Go claimed, st)"
      "run_attempts w t roe om fid args (call_arguments w fid args injected) (attempts_allowed t mr) 0 = (v, n)"
      "mr = (case pinned of None \<Rightarrow> tool_max_retries t | Some p \<Rightarrow> pin_max_retries p)"
      "fid = (case pinned of None \<Rightarrow> tool_func t | Some p \<Rightarrow> pin_func p)"
      "reply = reply_of t key (ck_elapsed_ms ck) v"
      "store' = (if claimed then map_option (\<lambda>tbl. settle w t (the key) (ck_settle ck) v (meanwhile tbl (ck_during_call ck))) st else st)"
proof (cases "Option.bind (case pinned of None \<Rightarrow> tool_input_model t | Some p \<Rightarrow> Some (pin_input_model p))
    (\<lambda>m. validate_in w m (apply_defaults t (filter (\<lambda>(name, v). \<not> is_injected name) kwargs)))")
  case None
  with assms show ?thesis by (intro invalid) (auto simp: execute_with_callable_def Let_def)
next
  case (Some args)
  note args = this
  obtain g st where g: "gate_write t key args ck store = (g, st)" by (cases "gate_write t key args ck store")
  show ?thesis
  proof (cases g)
    case (Refuse r)
    with assms args g show ?thesis by (intro refused) (auto simp: execute_with_callable_def Let_def)
  next
    case (Go claimed)
    with assms args g show ?thesis
      by (intro ran [where roe = "case pinned of None \<Rightarrow> tool_retry_on_error t | Some p \<Rightarrow> pin_retry_on_error p"
            and om = "case pinned of None \<Rightarrow> tool_output_model t | Some p \<Rightarrow> pin_output_model p"
            and injected = "filter (\<lambda>(name, v). is_injected name) kwargs"
            and v = "fst (run_attempts w t
              (case pinned of None \<Rightarrow> tool_retry_on_error t | Some p \<Rightarrow> pin_retry_on_error p)
              (case pinned of None \<Rightarrow> tool_output_model t | Some p \<Rightarrow> pin_output_model p)
              (case pinned of None \<Rightarrow> tool_func t | Some p \<Rightarrow> pin_func p) args
              (call_arguments w (case pinned of None \<Rightarrow> tool_func t | Some p \<Rightarrow> pin_func p) args
                (filter (\<lambda>(name, v). is_injected name) kwargs))
              (attempts_allowed t (case pinned of None \<Rightarrow> tool_max_retries t | Some p \<Rightarrow> pin_max_retries p)) 0)"])
         (auto simp: execute_with_callable_def Let_def split: prod.splits)
  qed
qed

lemma ran_at_most:
  "run_attempts w t roe om fid kwargs args left i = (v, n) \<Longrightarrow> n \<le> left"
  using run_attempts_bound [of w t roe om fid kwargs args left i] by simp

lemma execute_store:
  assumes "execute_with_callable w t pinned key kwargs ck (Some tbl) = (reply, n, store)"
  obtains tbl' where "store = Some tbl'" "dom tbl \<subseteq> dom tbl'"
  using assms
proof (cases rule: execute_cases)
  case invalid
  then show ?thesis using that by simp
next
  case (refused args r)
  then show ?thesis using that gate_keeps_bound by blast
next
  case (ran args claimed st v)
  from gate_keeps_bound [OF ran(1)] obtain tbl1 where "st = Some tbl1" "dom tbl \<subseteq> dom tbl1" by blast
  define tbl2 where "tbl2 = (if claimed
    then settle w t (the key) (ck_settle ck) v (meanwhile tbl1 (ck_during_call ck)) else tbl1)"
  have "store = Some tbl2" using ran(6) \<open>st = Some tbl1\<close> by (simp add: tbl2_def)
  moreover have "dom tbl1 \<subseteq> dom tbl2" 
    using subset_trans [OF bound_run settle_keeps_bound] by (simp add: tbl2_def)
  ultimately show ?thesis using that \<open>dom tbl \<subseteq> dom tbl1\<close> by blast
qed

lemma execute_entered:
  assumes ex: "execute_with_callable w t pinned key kwargs ck (Some tbl) = (reply, n, Some tbl')"
    and wr: "tool_side_effect t = ''write''" and n: "0 < n"
  obtains k where "key = Some k" "k \<notin> dom tbl" "k \<in> dom tbl'"
  using ex
proof (cases rule: execute_cases)
  case (ran args claimed st v)
  from gate_go_claimed [OF ran(1) wr] obtain k tbl1 where
    k: "key = Some k" "claimed" "tbl k = None" "st = Some tbl1" "k \<in> dom tbl1" by auto
  with ran have "tbl' = settle w t k (ck_settle ck) v (meanwhile tbl1 (ck_during_call ck))" by simp
  then have "k \<in> dom tbl'"
    using subsetD [OF subset_trans [OF bound_run settle_keeps_bound] k(5)] by simp
  with that [of k] k show ?thesis by auto
qed (use n in simp_all)


section \<open>Sequences of calls on one ledger\<close>

text \<open>A call as a caller issues it, and the calls one after the other.\<close>

record call_request =
  rq_world :: world
  rq_tool :: tool
  rq_pinned :: "pinned_execution option"
  rq_key :: "string option"
  rq_kwargs :: fields
  rq_clocks :: clocks

definition serve :: "call_request \<Rightarrow> invocations \<Rightarrow> execution \<times> nat \<times> invocations option" where
  "serve q tbl = execute_with_callable (rq_world q) (rq_tool q) (rq_pinned q) (rq_key q)
     (rq_kwargs q) (rq_clocks q) (Some tbl)"

fun entries :: "string \<Rightarrow> invocations \<Rightarrow> call_request list \<Rightarrow> nat list" where
  "entries key tbl [] = []"
| "entries key tbl (q # qs) =
     (case serve q tbl of (reply, n, store) \<Rightarrow>
        (if rq_key q = Some key then [n] else []) @ entries key (the store) qs)"

lemma entries_bound:
  "key \<in> dom tbl \<Longrightarrow> \<forall>q \<in> set qs. tool_side_effect (rq_tool q) = ''write'' \<Longrightarrow>
   sum_list (entries key tbl qs) = 0"
proof (induction qs arbitrary: tbl)
  case (Cons q qs)
  obtain reply n store where s: "serve q tbl = (reply, n, store)" by (cases "serve q tbl")
  then obtain tbl' where t': "store = Some tbl'" "dom tbl \<subseteq> dom tbl'"
    unfolding serve_def by (rule execute_store)
  have "n = 0" if "rq_key q = Some key"
  proof (rule ccontr)
    assume "n \<noteq> 0"
    with s t' Cons.prems(2) obtain k where "rq_key q = Some k" "k \<notin> dom tbl"
      unfolding serve_def by (auto elim!: execute_entered)
    with that Cons.prems(1) show False by simp
  qed
  moreover have "sum_list (entries key tbl' qs) = 0"
    using Cons.prems t'(2) by (intro Cons.IH) auto
  ultimately show ?case using s t' by simp
qed simp


text \<open>A call enters the function at most \<open>max(1, max_retries)\<close> times, and once when the
  tool is not safe to retry.\<close>

theorem attempts_bounded:
  assumes "execute_with_callable w t pinned key kwargs ck store = (reply, n, store')"
  shows "int n \<le> (if tool_retry_safe t
    then max 1 (case pinned of None \<Rightarrow> tool_max_retries t | Some p \<Rightarrow> pin_max_retries p) else 1)"
  using assms
proof (cases rule: execute_cases)
  case (ran args claimed st v fid roe om injected mr)
  from ran_at_most [OF ran(2)] show ?thesis
    using ran(3) by (auto simp: attempts_allowed_def split: if_splits)
qed auto



text \<open>The simplest world: one callable that answers with what it was given.\<close>

definition echo_world :: world where
  "echo_world = \<lparr>call_of = (\<lambda>fid i args. Returned (JObj args)), is_callable = (\<lambda>_. True),
     accepts_kwarg = (\<lambda>_ _. False), validate_in = (\<lambda>_ args. Some args), validate_out = (\<lambda>_ r. Some r),
     sleep_cancelled = (\<lambda>_. False), text_of = (\<lambda>_. [])\<rparr>"

definition remember_tool :: tool where
  "remember_tool = \<lparr>tool_name = ''remember'', tool_func = 1, tool_input_model = Some 2,
     tool_output_model = None, tool_required = [''fact''], tool_properties = [(''fact'', None)],
     tool_max_retries = 2, tool_retry_on_error = True, tool_version = ''1'', tool_side_effect = ''write'',
     tool_retry_safe = False, tool_terminal = False, tool_projection = None, tool_rehydrate = None\<rparr>"

definition some_clocks :: clocks where
  "some_clocks = \<lparr>ck_lookup = 1, ck_before_claim = [], ck_claim = 2, ck_before_recheck = [],
     ck_recheck = 3, ck_during_call = [], ck_settle = 4, ck_elapsed_ms = 5\<rparr>"

definition remember_request :: call_request where
  "remember_request = \<lparr>rq_world = echo_world, rq_tool = remember_tool, rq_pinned = None,
     rq_key = Some ''k'', rq_kwargs = [(''fact'', JStr ''likes parks'')], rq_clocks = some_clocks\<rparr>"

lemmas example_defs = echo_world_def remember_tool_def some_clocks_def remember_request_def

lemma remember_runs:
  "execute_with_callable echo_world remember_tool None (Some ''k'') [(''fact'', JStr ''likes parks'')] some_clocks
     (Some Map.empty) =
   (Replied \<lparr>res_success = True, res_data = JObj [(''fact'', JStr ''likes parks'')], res_error = JNull,
      res_time_ms = Some 5, res_tool = ''remember'', res_version = ''1'', res_key = Some ''k'',
      res_outcome = Some ''complete''\<rparr>, 1,
    Some (Map.empty(''k'' \<mapsto> \<lparr>inv_tool = ''remember'', inv_status = Complete,
      inv_result = Some (JObj [(''fact'', JStr ''likes parks'')]), inv_error = None, inv_updated = 4,
      inv_lease = None\<rparr>)))"
  by (simp add: execute_with_callable_def example_defs apply_defaults_def is_injected_def gate_write_def
      get_record_def expire_def claim_def attempts_allowed_def missing_required_def dict_has_def
      call_arguments_def dict_merge_def reports_success_def reply_of_def make_result_def settle_def
      complete_def projected_def Let_def)




lemma attempts_bounded_witness:
  "int (fst (snd (execute_with_callable echo_world remember_tool None (Some ''k'')
     [(''fact'', JStr ''likes parks'')] some_clocks (Some Map.empty)))) \<le> 1"
  unfolding remember_runs using attempts_bounded [OF remember_runs] by (simp add: remember_tool_def)

text \<open>A write that reported success is replayed: whatever else happens on the ledger
  afterwards, a later call under the same key answers with the recorded result and does not
  enter the function.\<close>

theorem completed_write_is_replayed:
  assumes first: "execute_with_callable w t pinned (Some key) kwargs ck (Some tbl) = (Replied r, n, Some tbl')"
    and wr: "tool_side_effect t = ''write''" and entered: "0 < n" and success: "res_success r"
    and quiet: "\<forall>a \<in> set (ck_during_call ck). call_key a \<noteq> key"
    and plain: "tool_rehydrate t = None"
    and valid: "Option.bind (tool_input_model t) (\<lambda>m. validate_in w' m
      (apply_defaults t (filter (\<lambda>(name, v). \<not> is_injected name) kwargs'))) \<noteq> None"
  shows "execute_with_callable w' t None (Some key) kwargs' ck' (Some (run_ops any_step tbl' ops)) =
    (Replied (make_result t (\<not> is_reported_failure (projected t (res_data r))) (projected t (res_data r))
       JNull (Some key) (Some ''replayed'')), 0, Some (run_ops any_step tbl' ops))"
  using first
proof (cases rule: execute_cases)
  case (ran args claimed st v)
  from gate_go_claimed [OF ran(1) wr] obtain tbl1 row where
    c: "key \<noteq> []" "claimed" "st = Some tbl1" and row: "tbl1 key = Some row" "inv_status row = Running" "inv_tool row = tool_name t"
    by auto
  from ran(5) success have v: "v = Answered True (res_data r)"
    by (auto simp: reply_of_def make_result_def split: verdict.splits if_splits)
  with ran(6) c have t': "tbl' = complete (meanwhile tbl1 (ck_during_call ck)) key (projected t (res_data r)) (ck_settle ck)"
    by (simp add: settle_def)
  have "meanwhile tbl1 (ck_during_call ck) key = Some row"
    using other_keys_run [OF quiet] row by simp
  with row obtain row' where row': "tbl' key = Some row'" "inv_status row' = Complete"
      "inv_result row' = Some (projected t (res_data r))" "inv_tool row' = tool_name t"
    by (auto simp: t' complete_def)
  then have "run_ops any_step tbl' ops key = Some row'"
    by (intro finished_row_stays_run) auto
  with row' valid c(1) show ?thesis
    by (auto simp: execute_with_callable_def Let_def gate_write_def wr get_record_def expire_def
      lease_expired_def answer_from_record_def replayed_data_def record_result_def plain)
qed (use entered in simp_all)


lemma completed_write_is_replayed_witness:
  "execute_with_callable echo_world remember_tool None (Some ''k'') [(''fact'', JStr ''other'')] some_clocks
     (Some (run_ops any_step (Map.empty(''k'' \<mapsto> \<lparr>inv_tool = ''remember'', inv_status = Complete,
        inv_result = Some (JObj [(''fact'', JStr ''likes parks'')]), inv_error = None, inv_updated = 4,
        inv_lease = None\<rparr>)) [Inr (LGetRecord ''k'' 9)])) =
   (Replied (make_result remember_tool True (JObj [(''fact'', JStr ''likes parks'')]) JNull (Some ''k'') (Some ''replayed'')),
    0, Some (run_ops any_step (Map.empty(''k'' \<mapsto> \<lparr>inv_tool = ''remember'', inv_status = Complete,
        inv_result = Some (JObj [(''fact'', JStr ''likes parks'')]), inv_error = None, inv_updated = 4,
        inv_lease = None\<rparr>)) [Inr (LGetRecord ''k'' 9)]))"
  using completed_write_is_replayed [OF remember_runs, of echo_world "[(''fact'', JStr ''other'')]" some_clocks
      "[Inr (LGetRecord ''k'' 9)]"]
  by (simp add: example_defs projected_def is_reported_failure_def)

lemma run_once_verdict:
  "\<not> tool_retry_safe t \<Longrightarrow> fst (run_attempts w t roe om fid kwargs args left i) \<noteq> LeftRunning"
  by (cases left) (auto simp: Let_def split: call_outcome.splits option.splits)

text \<open>A write cancelled while in flight is left unknown, and no later claim of its key
  succeeds.\<close>

theorem cancelled_write_is_frozen:
  assumes ex: "execute_with_callable w t pinned (Some key) kwargs ck (Some tbl) = (CancelledOut, n, Some tbl')"
    and wr: "tool_side_effect t = ''write''" "\<not> tool_retry_safe t"
    and quiet: "\<forall>a \<in> set (ck_during_call ck). call_key a \<noteq> key"
  shows "status_of tbl' key = Some Unknown \<and>
    (\<forall>tool lease now. \<not> fst (claim tbl' key tool lease now))"
  using ex
proof (cases rule: execute_cases)
  case (ran args claimed st v fid roe om injected mr)
  from gate_go_claimed [OF ran(1) wr(1)] obtain tbl1 row where
    c: "claimed" "st = Some tbl1" and row: "tbl1 key = Some row" "inv_status row = Running"
    by auto
  have "v \<noteq> LeftRunning"
    using run_once_verdict [OF wr(2)] ran(2) by (metis fst_conv)
  with ran(5) have v: "v = Interrupted"
    by (auto simp: reply_of_def split: verdict.splits)
  with ran(6) c have t': "tbl' = mark_unknown (meanwhile tbl1 (ck_during_call ck)) key cancelled_message None
      (ck_settle ck) (ck_settle ck)"
    by (simp add: settle_def)
  have "meanwhile tbl1 (ck_during_call ck) key = Some row"
    using other_keys_run [OF quiet] row by simp
  with row have k: "\<exists>row'. tbl' key = Some row' \<and> inv_status row' = Unknown"
    by (simp add: t' mark_unknown_def)
  then have "\<not> fst (claim tbl' key tool lease now)" for tool lease now
    using sqlite_ledger.claim_fresh [of tbl' "LClaim key tool lease now"] by auto
  with k show ?thesis by (auto simp: status_of_def)
qed simp_all

lemma cancelled_write_is_frozen_witness:
  "status_of (mark_unknown (snd (claim Map.empty ''k'' ''remember'' 120 2)) ''k'' cancelled_message None 4 4) ''k''
    = Some Unknown"
proof -
  let ?w = "echo_world\<lparr>call_of := (\<lambda>_ _ _. CancelledCall)\<rparr>"
  have "execute_with_callable ?w remember_tool None (Some ''k'') [(''fact'', JStr ''likes parks'')] some_clocks
     (Some Map.empty) =
   (CancelledOut, 1, Some (mark_unknown (snd (claim Map.empty ''k'' ''remember'' 120 2)) ''k'' cancelled_message None 4 4))"
    by (simp add: execute_with_callable_def example_defs apply_defaults_def is_injected_def gate_write_def
      get_record_def expire_def claim_def attempts_allowed_def missing_required_def dict_has_def
      call_arguments_def dict_merge_def reply_of_def settle_def Let_def)
  from cancelled_write_is_frozen [OF this] show ?thesis by (simp add: example_defs)
qed

section \<open>Capabilities\<close>

lemma recheck_capability_Inr:
  assumes "recheck_capability w spec digest reg cap expected = Inr (tid, pin)"
  shows "cap_provider cap = reg_id reg \<and> cap_tool cap = Some tid \<and>
    map_of (reg_tools reg) (cap_tool_name cap) = Some tid \<and> is_callable w (cap_callable cap) \<and>
    tool_func (reg_heap reg tid) = cap_callable cap \<and>
    tool_input_model (reg_heap reg tid) = cap_input_model cap \<and> cap_input_model cap = Some (pin_input_model pin) \<and>
    tool_output_model (reg_heap reg tid) = cap_output_model cap \<and> pin_output_model pin = cap_output_model cap \<and>
    digest (spec (reg_heap reg tid)) = expected \<and> cap_digest cap = expected \<and>
    spec_side_effect (spec (reg_heap reg tid)) = ''none'' \<and> \<not> spec_terminal (spec (reg_heap reg tid)) \<and>
    pin_func pin = cap_callable cap"
  using assms by (auto simp: recheck_capability_def Let_def split: if_splits option.splits)

lemma execute_resolved_cases:
  assumes "execute_resolved_specialist_capability w spec digest reg cap args expected ck = Inr (reply, n, reg')"
  obtains tid pin key kwargs store reg0 where
    "recheck_capability w spec digest reg cap expected = Inr (tid, pin)"
    "execute_with_callable w (reg_heap reg tid) (Some pin) key kwargs ck (Some (reg_ledger reg)) = (reply, n, store)"
    "reg_ledger reg' = the store"
  using assms
  by (fastforce simp: execute_resolved_specialist_capability_def record_call_def Let_def
      split: if_splits sum.splits prod.splits execution.splits option.splits)

lemma read_only_keeps_store:
  assumes "execute_with_callable w t pinned key kwargs ck store = (reply, n, store')"
    and "tool_side_effect t \<noteq> ''write''"
  shows "store' = store"
  using assms(1)
proof (cases rule: execute_cases)
  case (refused args r)
  with assms(2) show ?thesis by (simp add: gate_write_def)
next
  case (ran args claimed st v)
  with assms(2) show ?thesis by (simp add: gate_write_def)
qed simp

text \<open>C6. A specialist capability dispatches only while the registry still binds its name to the
  same Tool object with the same callable, the same validation models and the same spec
  digest as at resolution, and such a dispatch leaves the write ledger as it was.\<close>

theorem capability_dispatch_is_pinned:
  assumes res: "resolve_specialist_capability w (to_spec schema_of model_ref) digest reg name expected = Inr cap"
    and ex: "execute_resolved_specialist_capability w (to_spec schema_of model_ref) digest reg2 cap args expected ck
      = Inr (reply, n, reg3)"
  shows "map_of (reg_tools reg2) name = map_of (reg_tools reg) name \<and> reg_id reg2 = reg_id reg \<and>
    (let tid = the (map_of (reg_tools reg) name); old = reg_heap reg tid; new = reg_heap reg2 tid in
      tool_func new = tool_func old \<and> tool_input_model new = tool_input_model old \<and>
      tool_output_model new = tool_output_model old \<and>
      digest (to_spec schema_of model_ref new) = digest (to_spec schema_of model_ref old) \<and>
      tool_side_effect new = ''none'' \<and> reg_ledger reg3 = reg_ledger reg2)"
proof -
  from ex obtain tid pin key kwargs store where
    rc: "recheck_capability w (to_spec schema_of model_ref) digest reg2 cap expected = Inr (tid, pin)" and
    run: "execute_with_callable w (reg_heap reg2 tid) (Some pin) key kwargs ck (Some (reg_ledger reg2)) = (reply, n, store)" and
    led: "reg_ledger reg3 = the store"
    by (rule execute_resolved_cases)
  note rc = recheck_capability_Inr [OF rc]
  then have "tool_side_effect (reg_heap reg2 tid) = ''none''" by (simp add: to_spec_def)
  moreover from this run have "store = Some (reg_ledger reg2)"
    using read_only_keeps_store by force
  ultimately show ?thesis
    using res rc led
    by (auto simp: resolve_specialist_capability_def Let_def split: if_splits option.splits)
qed

text \<open>A capability whose registry has not changed is never refused.\<close>

theorem unchanged_capability_dispatches:
  assumes res: "resolve_specialist_capability w (to_spec schema_of model_ref) digest reg name expected = Inr cap"
    and name: "name \<noteq> []" "tool_name (reg_heap reg (the (map_of (reg_tools reg) name))) = name"
    and args: "\<not> dict_has args ''_idempotency_store''"
  shows "\<exists>out. execute_resolved_specialist_capability w (to_spec schema_of model_ref) digest reg cap args expected ck = Inr out"
proof -
  from res obtain tid m where tid: "map_of (reg_tools reg) name = Some tid" and
    m: "tool_input_model (reg_heap reg tid) = Some m" and
    cap: "cap_tool_name cap = name" and
    fn: "cap_callable cap = tool_func (reg_heap reg tid)" "cap_output_model cap = tool_output_model (reg_heap reg tid)"
    by (auto simp: resolve_specialist_capability_def Let_def split: if_splits option.splits)
  from res tid m have d: "digest (to_spec schema_of model_ref (reg_heap reg tid)) = expected"
    "spec_side_effect (to_spec schema_of model_ref (reg_heap reg tid)) = ''none''"
    "\<not> spec_terminal (to_spec schema_of model_ref (reg_heap reg tid))"
    "is_callable w (tool_func (reg_heap reg tid))"
    by (simp_all add: resolve_specialist_capability_def Let_def split: if_splits)
  with res tid m have "\<exists>pin. recheck_capability w (to_spec schema_of model_ref) digest reg cap expected = Inr (tid, pin)"
    using name(1) by (simp add: resolve_specialist_capability_def Let_def) (auto simp: recheck_capability_def Let_def)
  then obtain pin where rc: "recheck_capability w (to_spec schema_of model_ref) digest reg cap expected = Inr (tid, pin)"
    by blast
  have "res_tool r = name \<and> res_version r = tool_version (reg_heap reg tid)"
    if "execute_with_callable w (reg_heap reg tid) p key kwargs ck store = (Replied r, n, store')" for r n p key kwargs store store'
    using that
  proof (cases rule: execute_cases)
    case invalid
    then show ?thesis using name tid by (simp add: make_result_def)
  next
    case (refused args r')
    have "tool_side_effect (reg_heap reg tid) = ''none''"
      using recheck_capability_Inr [OF rc] by (simp add: to_spec_def)
    with refused show ?thesis by (simp add: gate_write_def)
  next
    case (ran args claimed st v)
    then show ?thesis using name tid
      by (auto simp: reply_of_def make_result_def split: verdict.splits)
  qed
  then show ?thesis
    using args rc cap
    by (auto simp: execute_resolved_specialist_capability_def to_spec_def Let_def
        split: prod.splits execution.splits)
qed


definition weather_tool :: tool where
  "weather_tool = remember_tool\<lparr>tool_name := ''get_weather'', tool_required := [], tool_properties := [],
     tool_side_effect := ''none'', tool_retry_safe := True\<rparr>"

definition weather_registry :: registry where
  "weather_registry = \<lparr>reg_id = 7, reg_tools = [(''get_weather'', 3)], reg_heap = (\<lambda>_. weather_tool),
     reg_stats = [''get_weather'' \<mapsto> zero_stats], reg_ledger = Map.empty\<rparr>"

definition weather_capability :: capability where
  "weather_capability = \<lparr>cap_provider = 7, cap_tool_name = ''get_weather'', cap_tool = Some 3,
     cap_tool_identity = 3, cap_callable = 1, cap_callable_identity = 1, cap_digest = ''d'',
     cap_input_model = Some 2, cap_input_identity = 2, cap_output_model = None, cap_output_identity = None,
     cap_max_retries = 2, cap_retry_on_error = True\<rparr>"

lemmas weather_defs = weather_tool_def weather_registry_def weather_capability_def example_defs

lemma weather_resolves:
  "resolve_specialist_capability echo_world (to_spec (\<lambda>_. JNull) (\<lambda>_. [])) (\<lambda>_. ''d'')
     weather_registry ''get_weather'' ''d'' = Inr weather_capability"
  by (simp add: resolve_specialist_capability_def weather_defs to_spec_def at_least_default_def)

lemma weather_executes:
  "\<exists>reply n reg'. execute_resolved_specialist_capability echo_world (to_spec (\<lambda>_. JNull) (\<lambda>_. []))
     (\<lambda>_. ''d'') weather_registry weather_capability [] ''d'' some_clocks = Inr (reply, n, reg')"
  using unchanged_capability_dispatches [OF weather_resolves, of "[]" some_clocks]
  by (auto simp: weather_defs dict_has_def)

lemma unchanged_capability_dispatches_witness:
  "\<exists>out. execute_resolved_specialist_capability echo_world (to_spec (\<lambda>_. JNull) (\<lambda>_. []))
     (\<lambda>_. ''d'') weather_registry weather_capability [(''x'', JNull)] ''d'' some_clocks = Inr out"
  by (rule unchanged_capability_dispatches [OF weather_resolves])
     (simp_all add: weather_defs dict_has_def)

lemma capability_dispatch_is_pinned_witness:
  "tool_func (reg_heap weather_registry 3) = 1 \<and> tool_side_effect (reg_heap weather_registry 3) = ''none''"
proof -
  have "execute_resolved_specialist_capability echo_world (to_spec (\<lambda>_. JNull) (\<lambda>_. [])) (\<lambda>_. ''d'')
      weather_registry weather_capability [] ''d'' some_clocks =
    Inr (Replied ((make_result weather_tool True (JObj []) JNull None (Some ''complete''))\<lparr>res_time_ms := Some 5\<rparr>),
      1, weather_registry\<lparr>reg_stats := [''get_weather'' \<mapsto>
        \<lparr>st_total = 1, st_successful = 1, st_failed = 0, st_time_ms = 5\<rparr>]\<rparr>)"
    by (simp add: execute_resolved_specialist_capability_def recheck_capability_def weather_defs to_spec_def
        at_least_default_def dict_has_def execute_with_callable_def apply_defaults_def gate_write_def
        attempts_allowed_def numeral_2_eq_2 missing_required_def call_arguments_def dict_merge_def
        reports_success_def reply_of_def make_result_def record_call_def count_call_def zero_stats_def
        or_default_def is_injected_def Let_def)
  from capability_dispatch_is_pinned [OF weather_resolves this] show ?thesis
    by (simp add: weather_defs Let_def)
qed

section \<open>Statistics\<close>

definition stats_ok :: "registry \<Rightarrow> bool" where
  "stats_ok reg \<longleftrightarrow>
     (\<forall>name \<in> fst ` set (reg_tools reg). reg_stats reg name \<noteq> None) \<and>
     (\<forall>name st. reg_stats reg name = Some st \<longrightarrow> st_total st = st_successful st + st_failed st)"

lemma stats_ok_register: "stats_ok reg \<Longrightarrow> stats_ok (register_tool reg tid)"
  by (auto simp: stats_ok_def register_tool_def zero_stats_def Let_def)

lemma stats_ok_record: "stats_ok reg \<Longrightarrow> stats_ok (record_call reg name r)"
  by (auto simp: stats_ok_def record_call_def count_call_def split: option.splits)

lemma stats_ok_ledger: "stats_ok (reg\<lparr>reg_ledger := l\<rparr>) = stats_ok reg"
  by (simp add: stats_ok_def)

datatype registry_op =
    Register obj_id
  | ExecuteTool world string "string option" fields clocks
  | MutateTool obj_id tool

fun registry_step :: "registry \<Rightarrow> registry_op \<Rightarrow> registry" where
  "registry_step reg (Register tid) = register_tool reg tid"
| "registry_step reg (ExecuteTool w name key kwargs ck) = snd (snd (execute_tool w reg name key kwargs ck))"
| "registry_step reg (MutateTool tid t) = reg\<lparr>reg_heap := (reg_heap reg)(tid := t)\<rparr>"

definition empty_registry :: registry where
  "empty_registry = \<lparr>reg_id = 0, reg_tools = [], reg_heap = (\<lambda>_. remember_tool), reg_stats = Map.empty,
     reg_ledger = Map.empty\<rparr>"

interpretation registry_machine:
  invariant_machine empty_registry "\<lambda>_ _. True" registry_step stats_ok
proof (unfold_locales, goal_cases)
  case 1
  then show ?case by (simp add: stats_ok_def empty_registry_def)
next
  case (2 reg a)
  then show ?case
  proof (cases a)
    case (ExecuteTool w name key kwargs ck)
    with 2 show ?thesis
      by (auto simp: execute_tool_def stats_ok_record stats_ok_ledger Let_def
          split: option.splits prod.splits execution.splits)
  next
    case (MutateTool tid t)
    with 2 show ?thesis by (simp add: stats_ok_def)
  qed (simp add: stats_ok_register)
qed

text \<open>In every reachable registry, under registrations, calls and mutations of Tool objects,
  every registered name has statistics, and its calls are its successes and failures.\<close>

theorem reachable_stats_ok:
  "stats_ok (run_ops registry_step empty_registry ops)"
  by (rule registry_machine.inv_run) simp

end
