(* ===== verification/StoreTables.thy ===== *)
theory StoreTables
  imports Prelude
begin

text \<open>
  The tables, constraints and turn leases of \<open>src/uk_rent_agent/web/conversation_store.py\<close>.
  Each SQLite table is the list of its rows in rowid order; the primary keys, UNIQUE columns and
  the two triggers of the schema are checks of the insert and update statements below.  User text
  (titles, message contents) is a list of Unicode code points, because the code bounds it by
  characters; JSON columns hold the value whose text the code stores.  The clock
  (\<open>_now_iso\<close>) and \<open>uuid4\<close> are arguments of the operations, and what the operating system
  answers about processes is part of the record \<open>process\<close>.
\<close>

section \<open>User text\<close>

type_synonym utext = "int list"

definition utf :: "string \<Rightarrow> utext" where
  "utf s = map of_char s"

definition is_uspace :: "int \<Rightarrow> bool" where
  "is_uspace c \<longleftrightarrow> 9 \<le> c \<and> c \<le> 13 \<or> 28 \<le> c \<and> c \<le> 32 \<or> c = 0x85 \<or> c = 0xA0 \<or> c = 0x1680
     \<or> 0x2000 \<le> c \<and> c \<le> 0x200A \<or> c = 0x2028 \<or> c = 0x2029 \<or> c = 0x202F \<or> c = 0x205F \<or> c = 0x3000"

definition is_bidi_control :: "int \<Rightarrow> bool" where
  "is_bidi_control c \<longleftrightarrow> c = 0x061C \<or> c = 0x200E \<or> c = 0x200F \<or> 0x202A \<le> c \<and> c \<le> 0x202E
     \<or> 0x2066 \<le> c \<and> c \<le> 0x2069"

definition u_rstrip :: "utext \<Rightarrow> utext" where
  "u_rstrip t = rev (dropWhile is_uspace (rev t))"

definition u_strip :: "utext \<Rightarrow> utext" where
  "u_strip t = u_rstrip (dropWhile is_uspace t)"

text \<open>\<open>" ".join(text.split())\<close>: one pass that remembers whether a blank is owed.\<close>

fun squeeze :: "bool \<Rightarrow> utext \<Rightarrow> utext" where
  "squeeze owed [] = []"
| "squeeze owed (c # cs) =
     (if is_uspace c then squeeze True cs
      else (if owed then [32, c] else [c]) @ squeeze False cs)"

definition join_words :: "utext \<Rightarrow> utext" where
  "join_words t = squeeze False (dropWhile is_uspace t)"

definition title_max_chars :: nat where "title_max_chars = 200"

definition bounded_title :: "utext option \<Rightarrow> utext \<Rightarrow> utext \<Rightarrow> utext" where
  "bounded_title value fallback suffix =
     (let t = join_words (filter (\<lambda>c. \<not> is_bidi_control c) (case value of None \<Rightarrow> [] | Some v \<Rightarrow> v)) in
      if t \<noteq> [] then u_rstrip (take title_max_chars t)
      else let room = title_max_chars - length suffix;
               r = u_rstrip (take room (join_words fallback)) @ suffix in
           if r = [] then utf ''New chat'' else r)"

definition cancelled_text_en :: utext where "cancelled_text_en = utf ''Request cancelled.''"
definition cancelled_text_zh :: utext where
  "cancelled_text_zh = [0x8BF7, 0x6C42, 0x5DF2, 0x53D6, 0x6D88, 0x3002]"

definition cancelled_turn_texts :: "utext list" where
  "cancelled_turn_texts = [cancelled_text_en, cancelled_text_zh]"

section \<open>Tables\<close>

datatype turn_status = TRunning | TCompleted | TFailed
datatype job_status = JPending | JRunning | JCompleted | JDead

record conversation =
  cv_user :: string
  cv_id :: string
  cv_title :: utext
  cv_created :: time
  cv_updated :: time
  cv_parent :: "string option"
  cv_fork_turn :: "string option"
  cv_root :: "string option"
  cv_depth :: int
  cv_reason :: "string option"
  cv_slot :: "string option"
  cv_arch :: string
  cv_version :: string
  cv_strict :: bool

record message =
  ms_id :: nat
  ms_user :: string
  ms_conv :: string
  ms_role :: string
  ms_content :: utext
  ms_type :: "string option"
  ms_recs :: "json option"
  ms_meta :: "json option"
  ms_time :: time
  ms_turn :: "string option"

record turn =
  tn_id :: string
  tn_user :: string
  tn_conv :: string
  tn_request :: "string option"
  tn_user_msg :: "nat option"
  tn_reply_msg :: "nat option"
  tn_status :: turn_status
  tn_started :: time
  tn_completed :: "time option"

record turn_request =
  rq_user :: string
  rq_id :: string
  rq_conv :: string
  rq_turn :: string
  rq_created :: time

record lease =
  lz_user :: string
  lz_conv :: string
  lz_turn :: string
  lz_acquired :: time
  lz_expires :: time
  lz_owner :: "string option"

record owner =
  ow_id :: string
  ow_host :: string
  ow_pid :: int
  ow_started :: time
  ow_heartbeat :: time

record job =
  jb_id :: nat
  jb_user :: string
  jb_conv :: string
  jb_turn :: string
  jb_kind :: string
  jb_key :: string
  jb_payload :: json
  jb_result :: "json option"
  jb_status :: job_status
  jb_attempts :: nat
  jb_available :: time
  jb_claimed :: "string option"
  jb_lease :: "time option"
  jb_error :: "string option"
  jb_created :: time
  jb_updated :: time

record snapshot =
  sn_turn :: string
  sn_user :: string
  sn_conv :: string
  sn_version :: int
  sn_json :: json
  sn_created :: time

record fork_request =
  fk_user :: string
  fk_key :: string
  fk_conv :: string
  fk_created :: time
  fk_print :: "string option"

record favorite =
  fv_user :: string
  fv_url :: string
  fv_property :: json
  fv_created :: time

record store =
  st_conversations :: "conversation list"
  st_messages :: "message list"
  st_next_message :: nat
  st_favorites :: "favorite list"
  st_turns :: "turn list"
  st_requests :: "turn_request list"
  st_leases :: "lease list"
  st_owners :: "owner list"
  st_erasures :: "(string \<times> time) list"
  st_jobs :: "job list"
  st_next_job :: nat
  st_snapshots :: "snapshot list"
  st_forks :: "fork_request list"

definition empty_store :: store where
  "empty_store = \<lparr>st_conversations = [], st_messages = [], st_next_message = 1, st_favorites = [],
     st_turns = [], st_requests = [], st_leases = [], st_owners = [], st_erasures = [], st_jobs = [],
     st_next_job = 1, st_snapshots = [], st_forks = []\<rparr>"

datatype store_error =
    PrivacyErasureInProgress
  | IdempotencyKeyReused string
  | ConversationNotFound string
  | ConversationBusy string int
  | NoCompletedTurn string
  | TurnNotFound string
  | TurnNotInConversation string
  | TurnNotCompleted string
  | BackgroundJobGone
  | JobLeaseLost
  | IntegrityError
  | BadArgument
  | LostRunningState
  | ErasureLeftRows nat

text \<open>
  \<open>BEGIN IMMEDIATE ... commit\<close> with \<open>rollback\<close> on every exception: an error leaves the store
  as it was.
\<close>

definition transact :: "store \<Rightarrow> store_error + 'a \<times> store \<Rightarrow> (store_error + 'a) \<times> store" where
  "transact s r = (case r of Inl e \<Rightarrow> (Inl e, s) | Inr (v, s') \<Rightarrow> (Inr v, s'))"

lemma transact_simps [simp]: "transact s (Inl e) = (Inl e, s)" "transact s (Inr (v, s')) = (Inr v, s')"
  by (simp_all add: transact_def)

lemma transact_Inr: "transact s r = (Inr v, s') \<longleftrightarrow> r = Inr (v, s')"
  by (auto simp: transact_def split: sum.splits)

lemma transact_Inl: "transact s r = (Inl e, s') \<longleftrightarrow> r = Inl e \<and> s' = s"
  by (auto simp: transact_def split: sum.splits)

section \<open>Statements\<close>

definition update_where :: "('r \<Rightarrow> bool) \<Rightarrow> ('r \<Rightarrow> 'r) \<Rightarrow> 'r list \<Rightarrow> 'r list" where
  "update_where P f rows = map (\<lambda>r. if P r then f r else r) rows"

definition delete_where :: "('r \<Rightarrow> bool) \<Rightarrow> 'r list \<Rightarrow> 'r list" where
  "delete_where P rows = filter (\<lambda>r. \<not> P r) rows"

lemma set_delete_where [simp]: "set (delete_where P rows) = {r \<in> set rows. \<not> P r}"
  by (auto simp: delete_where_def)

lemma set_update_where [simp]: "set (update_where P f rows) = (\<lambda>r. if P r then f r else r) ` set rows"
  by (simp add: update_where_def)

lemma update_whereE:
  assumes "r \<in> set (update_where P f rows)"
  obtains q where "q \<in> set rows" "P q" "r = f q" | "r \<in> set rows" "\<not> P r"
  using assms by (auto split: if_splits)

lemma map_update_where:
  "(\<And>r. P r \<Longrightarrow> g (f r) = g r) \<Longrightarrow> map g (update_where P f rows) = map g rows"
  by (simp add: update_where_def)

lemma distinct_delete_where [simp]: "distinct (map g rows) \<Longrightarrow> distinct (map g (delete_where P rows))"
  by (simp add: delete_where_def distinct_map_filter)

definition find_conversation :: "store \<Rightarrow> string \<Rightarrow> string \<Rightarrow> conversation option" where
  "find_conversation s user cid = find (\<lambda>c. cv_user c = user \<and> cv_id c = cid) (st_conversations s)"

definition find_turn :: "store \<Rightarrow> string \<Rightarrow> string \<Rightarrow> turn option" where
  "find_turn s user tid = find (\<lambda>t. tn_user t = user \<and> tn_id t = tid) (st_turns s)"

definition find_message :: "store \<Rightarrow> string \<Rightarrow> nat \<Rightarrow> message option" where
  "find_message s user mid = find (\<lambda>m. ms_user m = user \<and> ms_id m = mid) (st_messages s)"

definition insert_conversation :: "conversation \<Rightarrow> store \<Rightarrow> store_error + store" where
  "insert_conversation c s =
     (if find_conversation s (cv_user c) (cv_id c) \<noteq> None then Inl IntegrityError
      else Inr (s\<lparr>st_conversations := st_conversations s @ [c]\<rparr>))"

text \<open>A new message takes the next value of its AUTOINCREMENT key.\<close>

definition insert_message ::
  "string \<Rightarrow> string \<Rightarrow> string \<Rightarrow> utext \<Rightarrow> string option \<Rightarrow> json option \<Rightarrow> time \<Rightarrow> string option
   \<Rightarrow> store \<Rightarrow> nat \<times> store" where
  "insert_message user cid mrole content kind recs ts turn_id s =
     (let i = st_next_message s in
      (i, s\<lparr>st_messages := st_messages s @
              [\<lparr>ms_id = i, ms_user = user, ms_conv = cid, ms_role = mrole, ms_content = content,
                ms_type = kind, ms_recs = recs, ms_meta = None, ms_time = ts, ms_turn = turn_id\<rparr>],
            st_next_message := i + 1\<rparr>))"

text \<open>The trigger \<open>turns_completed_requires_assistant_...\<close>.\<close>

definition turn_row_ok :: "turn \<Rightarrow> bool" where
  "turn_row_ok t \<longleftrightarrow> \<not> (tn_status t = TCompleted \<and> tn_reply_msg t = None)"

definition insert_turn :: "turn \<Rightarrow> store \<Rightarrow> store_error + store" where
  "insert_turn t s =
     (if \<not> turn_row_ok t \<or> tn_id t \<in> tn_id ` set (st_turns s) then Inl IntegrityError
      else Inr (s\<lparr>st_turns := st_turns s @ [t]\<rparr>))"

text \<open>An UPDATE of \<open>status\<close> or \<open>assistant_message_id\<close> that would break the trigger aborts.\<close>

definition update_turns :: "(turn \<Rightarrow> bool) \<Rightarrow> (turn \<Rightarrow> turn) \<Rightarrow> store \<Rightarrow> store_error + store" where
  "update_turns P f s =
     (if list_all (\<lambda>t. P t \<longrightarrow> turn_row_ok (f t)) (st_turns s)
      then Inr (s\<lparr>st_turns := update_where P f (st_turns s)\<rparr>) else Inl IntegrityError)"

definition insert_request :: "turn_request \<Rightarrow> store \<Rightarrow> store_error + store" where
  "insert_request r s =
     (if list_ex (\<lambda>q. rq_user q = rq_user r \<and> rq_id q = rq_id r \<or> rq_turn q = rq_turn r) (st_requests s)
      then Inl IntegrityError else Inr (s\<lparr>st_requests := st_requests s @ [r]\<rparr>))"

definition insert_lease :: "lease \<Rightarrow> store \<Rightarrow> store_error + store" where
  "insert_lease l s =
     (if list_ex (\<lambda>m. lz_user m = lz_user l \<and> lz_conv m = lz_conv l \<or> lz_turn m = lz_turn l) (st_leases s)
      then Inl IntegrityError else Inr (s\<lparr>st_leases := st_leases s @ [l]\<rparr>))"

definition touch_conversation :: "string \<Rightarrow> string \<Rightarrow> time \<Rightarrow> store \<Rightarrow> store" where
  "touch_conversation user cid now s =
     s\<lparr>st_conversations := update_where (\<lambda>c. cv_user c = user \<and> cv_id c = cid)
         (\<lambda>c. c\<lparr>cv_updated := now\<rparr>) (st_conversations s)\<rparr>"

definition fail_running :: "string \<Rightarrow> string \<Rightarrow> time \<Rightarrow> store \<Rightarrow> store" where
  "fail_running user tid now s =
     s\<lparr>st_turns := update_where (\<lambda>t. tn_user t = user \<and> tn_id t = tid \<and> tn_status t = TRunning)
         (\<lambda>t. t\<lparr>tn_status := TFailed, tn_completed := Some now\<rparr>) (st_turns s)\<rparr>"

definition drop_lease_of_turn :: "string \<Rightarrow> string \<Rightarrow> store \<Rightarrow> store" where
  "drop_lease_of_turn user tid s =
     s\<lparr>st_leases := delete_where (\<lambda>l. lz_user l = user \<and> lz_turn l = tid) (st_leases s)\<rparr>"

text \<open>\<open>INSERT OR REPLACE\<close> removes the row of the same key first.\<close>

definition replace_snapshot :: "snapshot \<Rightarrow> store \<Rightarrow> store" where
  "replace_snapshot n s =
     s\<lparr>st_snapshots := delete_where (\<lambda>m. sn_turn m = sn_turn n) (st_snapshots s) @ [n]\<rparr>"

section \<open>Lease owners\<close>

record process =
  pr_owner :: string
  pr_host :: string
  pr_pid :: int
  pr_alive :: "int \<Rightarrow> bool"

definition lease_owner_stale_seconds :: rat where "lease_owner_stale_seconds = 90"

definition register_owner :: "process \<Rightarrow> time \<Rightarrow> store \<Rightarrow> store" where
  "register_owner p now s =
     (let kept = delete_where (\<lambda>w. ow_host w = pr_host p \<and> ow_id w \<noteq> pr_owner p
                    \<and> (ow_pid w = pr_pid p \<or> \<not> pr_alive p (ow_pid w))) (st_owners s) in
      s\<lparr>st_owners :=
          (if list_ex (\<lambda>w. ow_id w = pr_owner p) kept
           then update_where (\<lambda>w. ow_id w = pr_owner p) (\<lambda>w. w\<lparr>ow_heartbeat := now\<rparr>) kept
           else kept @ [\<lparr>ow_id = pr_owner p, ow_host = pr_host p, ow_pid = pr_pid p,
                         ow_started = now, ow_heartbeat = now\<rparr>])\<rparr>)"

definition heartbeat :: "process \<Rightarrow> time \<Rightarrow> store \<Rightarrow> store" where
  "heartbeat p now s =
     s\<lparr>st_owners := update_where (\<lambda>w. ow_id w = pr_owner p) (\<lambda>w. w\<lparr>ow_heartbeat := now\<rparr>) (st_owners s)\<rparr>"

definition never_delivered :: "store \<Rightarrow> string \<Rightarrow> turn \<Rightarrow> bool" where
  "never_delivered s user t =
     (case tn_reply_msg t of
        None \<Rightarrow> True
      | Some mid \<Rightarrow>
          (case find_message s user mid of
             None \<Rightarrow> False
           | Some m \<Rightarrow> ms_type m = Some ''error'' \<and> u_strip (ms_content m) \<in> set cancelled_turn_texts))"

definition lease_blocks :: "process \<Rightarrow> store \<Rightarrow> lease \<Rightarrow> turn_status option \<Rightarrow> time \<Rightarrow> bool" where
  "lease_blocks p s l status now =
     (if status \<noteq> Some TRunning \<or> lz_expires l \<le> now then False
      else if lz_owner l = None \<or> lz_owner l = Some (pr_owner p) then True
      else case find (\<lambda>w. Some (ow_id w) = lz_owner l) (st_owners s) of
        None \<Rightarrow> False
      | Some w \<Rightarrow>
          if ow_host w = pr_host p \<and> \<not> pr_alive p (ow_pid w) then False
          else now - lease_owner_stale_seconds < ow_heartbeat w)"

text \<open>The two joins of the code: on the turn id alone, and on the turn id and the user.\<close>

definition lease_status :: "store \<Rightarrow> lease \<Rightarrow> turn_status option" where
  "lease_status s l = map_option tn_status (find (\<lambda>t. tn_id t = lz_turn l) (st_turns s))"

definition user_lease_status :: "store \<Rightarrow> lease \<Rightarrow> turn_status option" where
  "user_lease_status s l =
     map_option tn_status (find (\<lambda>t. tn_id t = lz_turn l \<and> tn_user t = lz_user l) (st_turns s))"

definition busy_error :: "lease \<Rightarrow> time \<Rightarrow> store_error" where
  "busy_error l now = ConversationBusy (lz_turn l) (max 1 (py_int (lz_expires l - now)))"

end
