(* ===== verification/BackgroundOutbox.thy ===== *)
theory BackgroundOutbox
  imports StoreTables
begin

text \<open>
  The background outbox of \<open>conversation_store.py\<close>: workers claim a ready job for a lease, save its
  result, complete it or hand it back with a bounded backoff.
\<close>

definition job_worker :: "nat \<Rightarrow> string \<Rightarrow> job \<Rightarrow> bool" where
  "job_worker i worker j \<longleftrightarrow> jb_id j = i \<and> jb_claimed j = Some worker"

definition release_expired_jobs :: "time \<Rightarrow> store \<Rightarrow> store" where
  "release_expired_jobs now s =
     s\<lparr>st_jobs := update_where
         (\<lambda>j. jb_status j = JRunning \<and> (case jb_lease j of None \<Rightarrow> False | Some e \<Rightarrow> e \<le> now))
         (\<lambda>j. j\<lparr>jb_status := JPending, jb_claimed := None, jb_lease := None,
                 jb_error := (case jb_error j of None \<Rightarrow> Some ''worker lease expired'' | e \<Rightarrow> e),
                 jb_updated := now\<rparr>) (st_jobs s)\<rparr>"

definition job_ready :: "store \<Rightarrow> time \<Rightarrow> job \<Rightarrow> bool" where
  "job_ready s now j \<longleftrightarrow>
     jb_status j = JPending \<and> jb_available j \<le> now \<and> jb_user j \<notin> fst ` set (st_erasures s)
     \<and> \<not> list_ex (\<lambda>a. jb_user a = jb_user j \<and> jb_conv a = jb_conv j \<and> jb_status a = JRunning) (st_jobs s)"

definition next_ready_job :: "store \<Rightarrow> time \<Rightarrow> job option" where
  "next_ready_job s now =
     (case sort_key jb_id (filter (job_ready s now) (st_jobs s)) of [] \<Rightarrow> None | j # _ \<Rightarrow> Some j)"

definition claim_background_job ::
  "string \<Rightarrow> rat \<Rightarrow> time \<Rightarrow> store \<Rightarrow> job option \<times> store" where
  "claim_background_job worker lease_seconds now s =
     (let s1 = release_expired_jobs now s in
      case next_ready_job s1 now of
        None \<Rightarrow> (None, s1)
      | Some j \<Rightarrow>
          let is_row = (\<lambda>k. jb_id k = jb_id j \<and> jb_status k = JPending);
              s2 = s1\<lparr>st_jobs := update_where is_row
                 (\<lambda>k. k\<lparr>jb_status := JRunning, jb_attempts := jb_attempts k + 1, jb_claimed := Some worker,
                         jb_lease := Some (now + max 1 (of_int (py_int lease_seconds))), jb_updated := now\<rparr>)
                 (st_jobs s1)\<rparr> in
          if length (filter is_row (st_jobs s1)) \<noteq> 1 then (None, s)
          else (find (\<lambda>k. jb_id k = jb_id j) (st_jobs s2), s2))"

definition job_gone :: "store \<Rightarrow> nat \<Rightarrow> bool" where
  "job_gone s i \<longleftrightarrow> \<not> list_ex (\<lambda>j. jb_id j = i) (st_jobs s)"

definition owned_running :: "nat \<Rightarrow> string \<Rightarrow> job \<Rightarrow> bool" where
  "owned_running i worker j \<longleftrightarrow> job_worker i worker j \<and> jb_status j = JRunning"

definition update_owned_job ::
  "nat \<Rightarrow> string \<Rightarrow> (job \<Rightarrow> job) \<Rightarrow> store \<Rightarrow> (store_error + unit) \<times> store" where
  "update_owned_job i worker f s =
     (let s1 = s\<lparr>st_jobs := update_where (owned_running i worker) f (st_jobs s)\<rparr> in
      if length (filter (owned_running i worker) (st_jobs s)) \<noteq> 1
      then (Inl (if job_gone s1 i then BackgroundJobGone else JobLeaseLost), s1)
      else (Inr (), s1))"

definition save_background_job_result ::
  "nat \<Rightarrow> string \<Rightarrow> json \<Rightarrow> time \<Rightarrow> store \<Rightarrow> (store_error + unit) \<times> store" where
  "save_background_job_result i worker result now s =
     update_owned_job i worker (\<lambda>j. j\<lparr>jb_result := Some result, jb_updated := now\<rparr>) s"

definition complete_background_job ::
  "nat \<Rightarrow> string \<Rightarrow> time \<Rightarrow> store \<Rightarrow> (store_error + unit) \<times> store" where
  "complete_background_job i worker now s =
     update_owned_job i worker
       (\<lambda>j. j\<lparr>jb_status := JCompleted, jb_payload := JObj [], jb_result := None, jb_claimed := None,
               jb_lease := None, jb_error := None, jb_updated := now\<rparr>) s"

datatype retry_outcome = Lost | Requeued | Quarantined

definition backoff_seconds :: "nat \<Rightarrow> rat" where
  "backoff_seconds attempts = min 300 (2 ^ (attempts - 1))"

definition retry_background_job ::
  "nat \<Rightarrow> string \<Rightarrow> string \<Rightarrow> int \<Rightarrow> time \<Rightarrow> store \<Rightarrow> retry_outcome \<times> store" where
  "retry_background_job i worker err max_attempts now s =
     (case find (job_worker i worker) (st_jobs s) of
        None \<Rightarrow> (Lost, s)
      | Some j \<Rightarrow>
          let dead = (max 1 max_attempts \<le> int (jb_attempts j)) in
          (if dead then Quarantined else Requeued,
           s\<lparr>st_jobs := update_where (job_worker i worker)
               (\<lambda>k. k\<lparr>jb_status := (if dead then JDead else JPending),
                       jb_available := now + backoff_seconds (jb_attempts j), jb_claimed := None,
                       jb_lease := None, jb_error := Some (take 1000 err), jb_updated := now\<rparr>) (st_jobs s)\<rparr>))"

definition pending_memory_changes :: "store \<Rightarrow> string \<Rightarrow> json list" where
  "pending_memory_changes s user =
     (let rows = filter (\<lambda>j. jb_user j = user \<and> jb_kind j = ''memory_turn''
                    \<and> (jb_status j = JPending \<or> jb_status j = JRunning) \<and> jb_result j = None) (st_jobs s);
          newest = take 50 (rev (sort_key jb_id rows)) in
      filter (\<lambda>v. is_dict v \<and> truthy v)
        (List.map_filter (\<lambda>j. json_get (jb_payload j) ''criteria_changes'') (rev newest)))"

definition job_counts :: "store \<Rightarrow> (job_status \<times> nat) list" where
  "job_counts s =
     filter (\<lambda>(_, n). n \<noteq> 0)
       (map (\<lambda>st. (st, length (filter (\<lambda>j. jb_status j = st) (st_jobs s)))) [JPending, JRunning, JCompleted, JDead])"

definition background_job_counts :: "store \<Rightarrow> (job_status \<times> nat) list \<times> nat" where
  "background_job_counts s = (job_counts s, sum_list (map snd (job_counts s)))"

end
