(* ===== verification/RequestTurns.thy ===== *)
theory RequestTurns
  imports StoreTables
begin

text \<open>
  The life of a chat turn in \<open>conversation_store.py\<close>: \<open>start_request_turn\<close> claims the request
  id and the conversation's single-flight lease, \<open>finalize_request_turn\<close> stores the answer, the
  terminal state, the snapshot and the outbox jobs, and the privacy erasure barrier keeps both
  away from a user whose data is being deleted.  \<open>start_request_turn\<close> is split along its three
  stages: the replay of a known request id, the conversation with its lease, and the inserts.
\<close>

section \<open>Starting a turn\<close>

definition find_request_turn :: "store \<Rightarrow> string \<Rightarrow> string \<Rightarrow> turn option" where
  "find_request_turn s user req =
     (case find (\<lambda>r. rq_user r = user \<and> rq_id r = req) (st_requests s) of
        None \<Rightarrow> None
      | Some r \<Rightarrow> find_turn s user (rq_turn r))"

definition message_differs :: "store \<Rightarrow> string \<Rightarrow> turn \<Rightarrow> utext \<Rightarrow> bool" where
  "message_differs s user t content =
     (case tn_user_msg t of
        None \<Rightarrow> False
      | Some mid \<Rightarrow> (case find_message s user mid of None \<Rightarrow> False | Some m \<Rightarrow> ms_content m \<noteq> content))"

definition find_turn_lease :: "store \<Rightarrow> string \<Rightarrow> string \<Rightarrow> lease option" where
  "find_turn_lease s user tid = find (\<lambda>l. lz_user l = user \<and> lz_turn l = tid) (st_leases s)"

definition find_lease :: "store \<Rightarrow> string \<Rightarrow> string \<Rightarrow> lease option" where
  "find_lease s user cid = find (\<lambda>l. lz_user l = user \<and> lz_conv l = cid) (st_leases s)"

text \<open>A running turn that no live lease protects is marked failed and loses its lease.\<close>

definition reap_replayed_turn :: "process \<Rightarrow> string \<Rightarrow> turn \<Rightarrow> time \<Rightarrow> store \<Rightarrow> store" where
  "reap_replayed_turn p user t now s =
     (if tn_status t \<noteq> TRunning then s
      else case find_turn_lease s user (tn_id t) of
        None \<Rightarrow> fail_running user (tn_id t) now s
      | Some l \<Rightarrow>
          if lease_blocks p s l (lease_status s l) now then s
          else drop_lease_of_turn user (tn_id t) (fail_running user (tn_id t) now s))"

definition release_request :: "string \<Rightarrow> string \<Rightarrow> store \<Rightarrow> store" where
  "release_request user req s =
     s\<lparr>st_requests := delete_where (\<lambda>r. rq_user r = user \<and> rq_id r = req) (st_requests s)\<rparr>"

datatype replay = Replayed turn | RunIn "string option"

definition nonempty :: "string option \<Rightarrow> string option" where
  "nonempty x = (case x of None \<Rightarrow> None | Some t \<Rightarrow> if t = [] then None else Some t)"

definition replay_request ::
  "process \<Rightarrow> string \<Rightarrow> string option \<Rightarrow> string \<Rightarrow> utext \<Rightarrow> time \<Rightarrow> store \<Rightarrow> store_error + replay \<times> store" where
  "replay_request p user cid req content now s =
     (case find_request_turn s user req of
        None \<Rightarrow> Inr (RunIn (nonempty cid), s)
      | Some t0 \<Rightarrow>
          if message_differs s user t0 content then Inl (IdempotencyKeyReused req)
          else let s1 = reap_replayed_turn p user t0 now s in
          (case find_turn s1 user (tn_id t0) of
             None \<Rightarrow> Inl IntegrityError
           | Some t \<Rightarrow>
               if tn_status t = TFailed \<and> never_delivered s1 user t
               then Inr (RunIn (case nonempty cid of None \<Rightarrow> nonempty (Some (tn_conv t)) | c \<Rightarrow> c),
                         release_request user req s1)
               else Inr (Replayed t, s1)))"

record provenance =
  pv_arch :: string
  pv_version :: string
  pv_strict :: bool

definition fresh_conversation ::
  "string \<Rightarrow> string \<Rightarrow> utext \<Rightarrow> time \<Rightarrow> provenance \<Rightarrow> conversation" where
  "fresh_conversation user cid title now v =
     \<lparr>cv_user = user, cv_id = cid, cv_title = title, cv_created = now, cv_updated = now,
      cv_parent = None, cv_fork_turn = None, cv_root = Some cid, cv_depth = 0, cv_reason = None,
      cv_slot = None, cv_arch = pv_arch v, cv_version = pv_version v, cv_strict = pv_strict v\<rparr>"

text \<open>The conversation of the turn: the one named, which must exist, or a new one.\<close>

definition ensure_conversation ::
  "string \<Rightarrow> string option \<Rightarrow> string \<Rightarrow> utext option \<Rightarrow> time \<Rightarrow> provenance \<Rightarrow> store
   \<Rightarrow> store_error + (string \<times> bool) \<times> store" where
  "ensure_conversation user cid new_cid title now v s =
     (case cid of
        Some c \<Rightarrow>
          if find_conversation s user c = None then Inl (ConversationNotFound c) else Inr ((c, False), s)
      | None \<Rightarrow>
          and_then (insert_conversation
              (fresh_conversation user new_cid (bounded_title title (utf ''New chat'') []) now v) s)
            (\<lambda>s1. Inr ((new_cid, True), s1)))"

definition claim_lease :: "process \<Rightarrow> string \<Rightarrow> string \<Rightarrow> time \<Rightarrow> store \<Rightarrow> store_error + store" where
  "claim_lease p user cid now s =
     (case find_lease s user cid of
        None \<Rightarrow> Inr s
      | Some l \<Rightarrow>
          if lease_blocks p s l (lease_status s l) now then Inl (busy_error l now)
          else let s1 = fail_running user (lz_turn l) now s in
            Inr (s1\<lparr>st_leases := delete_where (\<lambda>m. lz_user m = user \<and> lz_conv m = cid) (st_leases s1)\<rparr>))"

definition default_titles :: "utext list" where
  "default_titles = [utf ''New chat'', [0x65B0, 0x4F1A, 0x8BDD], utf ''New conversation'']"

definition name_conversation :: "string \<Rightarrow> string \<Rightarrow> utext option \<Rightarrow> store \<Rightarrow> store" where
  "name_conversation user cid title s =
     (case title of
        None \<Rightarrow> s
      | Some t \<Rightarrow>
          if t = [] \<or> list_ex (\<lambda>m. ms_user m = user \<and> ms_conv m = cid) (st_messages s) then s
          else s\<lparr>st_conversations := update_where
                  (\<lambda>c. cv_user c = user \<and> cv_id c = cid \<and> cv_title c \<in> set default_titles)
                  (\<lambda>c. c\<lparr>cv_title := bounded_title title (utf ''New chat'') []\<rparr>) (st_conversations s)\<rparr>)"

text \<open>The user message, the running turn, its request id, its lease.\<close>

definition open_turn ::
  "process \<Rightarrow> string \<Rightarrow> string \<Rightarrow> string \<Rightarrow> string \<Rightarrow> utext \<Rightarrow> time \<Rightarrow> time \<Rightarrow> store
   \<Rightarrow> store_error + turn \<times> store" where
  "open_turn p user cid tid req content now expires s =
     (let (mid, s1) = insert_message user cid ''user'' content None None now (Some tid) s;
          t = \<lparr>tn_id = tid, tn_user = user, tn_conv = cid, tn_request = Some req, tn_user_msg = Some mid,
               tn_reply_msg = None, tn_status = TRunning, tn_started = now, tn_completed = None\<rparr> in
      and_then (insert_turn t s1) (\<lambda>s2.
      and_then (insert_request \<lparr>rq_user = user, rq_id = req, rq_conv = cid, rq_turn = tid, rq_created = now\<rparr> s2) (\<lambda>s3.
      and_then (insert_lease \<lparr>lz_user = user, lz_conv = cid, lz_turn = tid, lz_acquired = now,
                  lz_expires = expires, lz_owner = Some (pr_owner p)\<rparr> s3) (\<lambda>s4.
      Inr (t, touch_conversation user cid now s4)))))"

record started =
  sd_turn :: turn
  sd_replayed :: bool
  sd_created :: bool

record start_request =
  sq_user :: string
  sq_conv :: "string option"
  sq_id :: string
  sq_content :: utext
  sq_lease_seconds :: rat
  sq_title :: "utext option"
  sq_provenance :: provenance

definition start_claimed ::
  "process \<Rightarrow> start_request \<Rightarrow> string \<Rightarrow> string \<Rightarrow> string \<Rightarrow> time \<Rightarrow> string option \<Rightarrow> store
   \<Rightarrow> store_error + started \<times> store" where
  "start_claimed p q req new_cid tid now cid s =
     and_then (ensure_conversation (sq_user q) cid new_cid (sq_title q) now (sq_provenance q) s)
       (\<lambda>((c, created), s1).
     and_then (claim_lease p (sq_user q) c now s1) (\<lambda>s2.
     and_then (open_turn p (sq_user q) c tid req (sq_content q) now
                 (now + of_int (py_int (sq_lease_seconds q))) (name_conversation (sq_user q) c (sq_title q) s2))
       (\<lambda>(t, s3). Inr (\<lparr>sd_turn = t, sd_replayed = False, sd_created = created\<rparr>, s3))))"

definition start_request_turn ::
  "process \<Rightarrow> start_request \<Rightarrow> string \<Rightarrow> string \<Rightarrow> time \<Rightarrow> store \<Rightarrow> (store_error + started) \<times> store" where
  "start_request_turn p q new_cid tid now s =
     (let req = strip (sq_id q) in
      if req = [] \<or> sq_lease_seconds q < 1 then (Inl BadArgument, s)
      else transact s
       (if sq_user q \<in> fst ` set (st_erasures s) then Inl PrivacyErasureInProgress
        else and_then (replay_request p (sq_user q) (sq_conv q) req (sq_content q) now s) (\<lambda>(r, s1).
          case r of
            Replayed t \<Rightarrow> Inr (\<lparr>sd_turn = t, sd_replayed = True, sd_created = False\<rparr>, s1)
          | RunIn cid \<Rightarrow> start_claimed p q req new_cid tid now cid s1)))"

section \<open>The erasure barrier\<close>

text \<open>The leases in order: the first live one refuses, the dead ones fail their turns.\<close>

fun reap_user_leases ::
  "process \<Rightarrow> string \<Rightarrow> time \<Rightarrow> (lease \<times> turn_status option) list \<Rightarrow> store \<Rightarrow> store_error + store" where
  "reap_user_leases p user now [] s = Inr s"
| "reap_user_leases p user now ((l, status) # ls) s =
     (if lease_blocks p s l status now then Inl (busy_error l now)
      else reap_user_leases p user now ls (fail_running user (lz_turn l) now s))"

definition running_job :: "store \<Rightarrow> string \<Rightarrow> job option" where
  "running_job s user = find (\<lambda>j. jb_user j = user \<and> jb_status j = JRunning) (st_jobs s)"

definition job_live :: "job \<Rightarrow> time \<Rightarrow> bool" where
  "job_live j now = (case jb_lease j of None \<Rightarrow> True | Some e \<Rightarrow> now < e)"

definition job_busy :: "job \<Rightarrow> time \<Rightarrow> store_error" where
  "job_busy j now =
     ConversationBusy (''background-job:'' @ nat_text (jb_id j))
       (case jb_lease j of None \<Rightarrow> 1 | Some e \<Rightarrow> max 1 (py_int (e - now)))"

definition begin_privacy_erasure :: "process \<Rightarrow> string \<Rightarrow> time \<Rightarrow> store \<Rightarrow> (store_error + unit) \<times> store" where
  "begin_privacy_erasure p user now s = transact s
     (if user \<in> fst ` set (st_erasures s) then Inl PrivacyErasureInProgress
      else and_then (reap_user_leases p user now
              (map (\<lambda>l. (l, lease_status s l)) (filter (\<lambda>l. lz_user l = user) (st_leases s))) s) (\<lambda>s1.
        case running_job s1 user of
          Some j \<Rightarrow>
            if job_live j now then Inl (job_busy j now)
            else Inr ((), s1\<lparr>
              st_jobs := update_where (\<lambda>j. jb_user j = user \<and> jb_status j = JRunning)
                (\<lambda>j. j\<lparr>jb_status := JPending, jb_claimed := None, jb_lease := None, jb_updated := now\<rparr>) (st_jobs s1),
              st_leases := delete_where (\<lambda>l. lz_user l = user) (st_leases s1),
              st_erasures := st_erasures s1 @ [(user, now)]\<rparr>)
        | None \<Rightarrow>
            Inr ((), s1\<lparr>
              st_leases := delete_where (\<lambda>l. lz_user l = user) (st_leases s1),
              st_erasures := st_erasures s1 @ [(user, now)]\<rparr>)))"

definition end_privacy_erasure :: "string \<Rightarrow> store \<Rightarrow> store" where
  "end_privacy_erasure user s = s\<lparr>st_erasures := delete_where (\<lambda>e. fst e = user) (st_erasures s)\<rparr>"

section \<open>Reading a request's turn\<close>

definition get_turn :: "store \<Rightarrow> string \<Rightarrow> string \<Rightarrow> turn option" where
  "get_turn s user tid = find_turn s user tid"

definition get_request_turn :: "store \<Rightarrow> string \<Rightarrow> string \<Rightarrow> turn option" where
  "get_request_turn s user req = find_request_turn s user req"

definition request_turn_replays :: "store \<Rightarrow> string \<Rightarrow> turn option \<Rightarrow> bool" where
  "request_turn_replays s user turn_opt =
     (case turn_opt of
        None \<Rightarrow> False
      | Some t \<Rightarrow>
          if tn_status t = TCompleted then True
          else if tn_status t \<noteq> TFailed then False
          else (case find_turn s user (tn_id t) of
            None \<Rightarrow> False | Some row \<Rightarrow> \<not> never_delivered s user row))"

definition request_message_differs :: "store \<Rightarrow> string \<Rightarrow> turn option \<Rightarrow> utext \<Rightarrow> bool" where
  "request_message_differs s user turn_opt content =
     (case turn_opt of None \<Rightarrow> False | Some t \<Rightarrow> message_differs s user t content)"

section \<open>Finalising a turn\<close>

text \<open>One outbox job of a completed turn; \<open>pstr\<close> is \<open>str()\<close> of a JSON value that is no string.\<close>

fun str_or :: "(json \<Rightarrow> string) \<Rightarrow> json option \<Rightarrow> string \<Rightarrow> string" where
  "str_or pstr None d = d"
| "str_or pstr (Some v) d = (if \<not> truthy v then d else case v of JStr t \<Rightarrow> t | _ \<Rightarrow> pstr v)"

definition enqueue_job ::
  "(json \<Rightarrow> string) \<Rightarrow> string \<Rightarrow> string \<Rightarrow> string \<Rightarrow> time \<Rightarrow> json \<Rightarrow> store \<Rightarrow> store_error + store" where
  "enqueue_job pstr user cid tid now spec s =
     (let kind = strip (str_or pstr (json_get spec ''kind'') []);
          payload = (case json_get spec ''payload'' of
              Some v \<Rightarrow> if truthy v then v else JObj [] | None \<Rightarrow> JObj []);
          key = str_or pstr (json_get spec ''dedupe_key'') (''turn:'' @ tid @ '':'' @ kind) in
      if \<not> is_dict spec \<or> kind = [] \<or> \<not> is_dict payload then Inl BadArgument
      else if list_ex (\<lambda>j. jb_user j = user \<and> jb_key j = key) (st_jobs s) then Inr s
      else Inr (s\<lparr>st_jobs := st_jobs s @
              [\<lparr>jb_id = st_next_job s, jb_user = user, jb_conv = cid, jb_turn = tid, jb_kind = kind,
                jb_key = key, jb_payload = payload, jb_result = None, jb_status = JPending,
                jb_attempts = 0, jb_available = now, jb_claimed = None, jb_lease = None,
                jb_error = None, jb_created = now, jb_updated = now\<rparr>],
            st_next_job := st_next_job s + 1\<rparr>))"

fun enqueue_jobs ::
  "(json \<Rightarrow> string) \<Rightarrow> string \<Rightarrow> string \<Rightarrow> string \<Rightarrow> time \<Rightarrow> json list \<Rightarrow> store \<Rightarrow> store_error + store" where
  "enqueue_jobs pstr user cid tid now [] s = Inr s"
| "enqueue_jobs pstr user cid tid now (x # xs) s =
     and_then (enqueue_job pstr user cid tid now x s) (enqueue_jobs pstr user cid tid now xs)"

record final_answer =
  fa_completed :: bool
  fa_content :: utext
  fa_type :: "string option"
  fa_recs :: "json option"
  fa_snapshot :: "json option"
  fa_version :: int
  fa_jobs :: "json list"
  fa_metadata :: "json option"

definition set_metadata :: "nat \<Rightarrow> json option \<Rightarrow> store \<Rightarrow> store" where
  "set_metadata mid meta s =
     (case meta of
        Some v \<Rightarrow> if truthy v
          then s\<lparr>st_messages := update_where (\<lambda>m. ms_id m = mid) (\<lambda>m. m\<lparr>ms_meta := Some v\<rparr>) (st_messages s)\<rparr>
          else s
      | None \<Rightarrow> s)"

definition store_completion ::
  "(json \<Rightarrow> string) \<Rightarrow> string \<Rightarrow> turn \<Rightarrow> final_answer \<Rightarrow> time \<Rightarrow> store \<Rightarrow> store_error + store" where
  "store_completion pstr user t a now s =
     (case fa_snapshot a of
        None \<Rightarrow> Inr s
      | Some snap \<Rightarrow>
          if fa_completed a then
            enqueue_jobs pstr user (tn_conv t) (tn_id t) now (fa_jobs a)
              (replace_snapshot \<lparr>sn_turn = tn_id t, sn_user = user, sn_conv = tn_conv t,
                 sn_version = fa_version a, sn_json = snap, sn_created = now\<rparr> s)
          else Inr s)"

definition settle_turn :: "final_answer \<Rightarrow> nat \<Rightarrow> time \<Rightarrow> turn \<Rightarrow> turn" where
  "settle_turn a mid now u =
     u\<lparr>tn_status := (if fa_completed a then TCompleted else TFailed),
       tn_completed := Some now, tn_reply_msg := Some mid\<rparr>"

definition finalize_running ::
  "(json \<Rightarrow> string) \<Rightarrow> string \<Rightarrow> turn \<Rightarrow> final_answer \<Rightarrow> time \<Rightarrow> store \<Rightarrow> store_error + store" where
  "finalize_running pstr user t a now s =
     (let (mid, s1) = insert_message user (tn_conv t) ''assistant'' (fa_content a) (fa_type a) (fa_recs a)
                        now (Some (tn_id t)) s;
          s2 = set_metadata mid (fa_metadata a) s1;
          is_row = (\<lambda>u. tn_user u = user \<and> tn_id u = tn_id t \<and> tn_status u = TRunning) in
      and_then (update_turns is_row (settle_turn a mid now) s2) (\<lambda>s3.
      if length (filter is_row (st_turns s2)) \<noteq> 1 then Inl LostRunningState
      else and_then (store_completion pstr user t a now s3) (\<lambda>s4.
        Inr (touch_conversation user (tn_conv t) now (drop_lease_of_turn user (tn_id t) s4)))))"

definition finalize_request_turn ::
  "(json \<Rightarrow> string) \<Rightarrow> string \<Rightarrow> string \<Rightarrow> final_answer \<Rightarrow> time \<Rightarrow> store \<Rightarrow> (store_error + turn option) \<times> store" where
  "finalize_request_turn pstr user tid a now s =
     (if fa_completed a \<and> fa_snapshot a = None then (Inl BadArgument, s)
      else transact s
       (case find_turn s user tid of
          None \<Rightarrow> Inl (TurnNotFound tid)
        | Some t \<Rightarrow>
            if tn_status t \<noteq> TRunning then Inr (find_turn s user tid, s)
            else and_then (finalize_running pstr user t a now s) (\<lambda>s1. Inr (find_turn s1 user tid, s1))))"

section \<open>Lower-level turn operations\<close>

definition begin_turn ::
  "string \<Rightarrow> string \<Rightarrow> string \<Rightarrow> string option \<Rightarrow> nat option \<Rightarrow> time \<Rightarrow> store \<Rightarrow> (store_error + turn) \<times> store" where
  "begin_turn user cid tid req mid now s =
     (let t = \<lparr>tn_id = tid, tn_user = user, tn_conv = cid, tn_request = req, tn_user_msg = mid,
               tn_reply_msg = None, tn_status = TRunning, tn_started = now, tn_completed = None\<rparr> in
      transact s (and_then (insert_turn t s) (\<lambda>s1. Inr (t, s1))))"

definition complete_turn ::
  "string \<Rightarrow> string \<Rightarrow> nat option \<Rightarrow> time \<Rightarrow> store \<Rightarrow> (store_error + turn option) \<times> store" where
  "complete_turn user tid mid now s = transact s
     (and_then (update_turns (\<lambda>t. tn_user t = user \<and> tn_id t = tid)
         (\<lambda>t. t\<lparr>tn_status := TCompleted, tn_completed := Some now,
                 tn_reply_msg := (case mid of None \<Rightarrow> tn_reply_msg t | Some m \<Rightarrow> Some m)\<rparr>) s) (\<lambda>s1.
      if find_turn s user tid = None then Inr (None, s1)
      else let s2 = drop_lease_of_turn user tid s1 in Inr (find_turn s2 user tid, s2)))"

definition fail_turn :: "string \<Rightarrow> string \<Rightarrow> time \<Rightarrow> store \<Rightarrow> store" where
  "fail_turn user tid now s =
     drop_lease_of_turn user tid
       (s\<lparr>st_turns := update_where (\<lambda>t. tn_user t = user \<and> tn_id t = tid)
            (\<lambda>t. t\<lparr>tn_status := TFailed, tn_completed := Some now\<rparr>) (st_turns s)\<rparr>)"

definition is_cjk :: "int \<Rightarrow> bool" where
  "is_cjk c \<longleftrightarrow> 0x4E00 \<le> c \<and> c \<le> 0x9FFF"

definition conversation_is_zh :: "store \<Rightarrow> string \<Rightarrow> string \<Rightarrow> bool" where
  "conversation_is_zh s user cid =
     (case find (\<lambda>m. ms_user m = user \<and> ms_conv m = cid \<and> ms_role m = ''user'') (rev (st_messages s)) of
        None \<Rightarrow> False | Some m \<Rightarrow> list_ex is_cjk (ms_content m))"

text \<open>The orphans in order, each finalised on its own; a failed attempt is passed over.\<close>

fun close_orphans ::
  "(json \<Rightarrow> string) \<Rightarrow> time \<Rightarrow> lease list \<Rightarrow> store \<Rightarrow> nat \<times> store" where
  "close_orphans pstr now [] s = (0, s)"
| "close_orphans pstr now (l # ls) s =
     (let a = \<lparr>fa_completed = False,
               fa_content = (if conversation_is_zh s (lz_user l) (lz_conv l)
                             then cancelled_text_zh else cancelled_text_en),
               fa_type = Some ''error'', fa_recs = Some (JArr []), fa_snapshot = None, fa_version = 1,
               fa_jobs = [], fa_metadata = None\<rparr> in
      case finalize_request_turn pstr (lz_user l) (lz_turn l) a now s of
        (Inl e, s1) \<Rightarrow> close_orphans pstr now ls s
      | (Inr r, s1) \<Rightarrow> (let (n, s2) = close_orphans pstr now ls s1 in (Suc n, s2)))"

definition close_orphaned_turns :: "process \<Rightarrow> (json \<Rightarrow> string) \<Rightarrow> time \<Rightarrow> store \<Rightarrow> nat \<times> store" where
  "close_orphaned_turns p pstr now s =
     close_orphans pstr now
       (filter (\<lambda>l. user_lease_status s l = Some TRunning
                  \<and> \<not> lease_blocks p s l (user_lease_status s l) now) (st_leases s)) s"

section \<open>Turn queries and snapshots\<close>

definition list_turns :: "store \<Rightarrow> string \<Rightarrow> string \<Rightarrow> turn list" where
  "list_turns s user cid = sort_key tn_started (filter (\<lambda>t. tn_user t = user \<and> tn_conv t = cid) (st_turns s))"

text \<open>\<open>ORDER BY started_at DESC LIMIT 1\<close>: the latest start.\<close>

definition latest_started :: "turn list \<Rightarrow> turn option" where
  "latest_started ts = (case sort_key (\<lambda>t. - tn_started t) ts of [] \<Rightarrow> None | t # _ \<Rightarrow> Some t)"

definition completed_turns :: "store \<Rightarrow> string \<Rightarrow> string \<Rightarrow> turn list" where
  "completed_turns s user cid =
     filter (\<lambda>t. tn_user t = user \<and> tn_conv t = cid \<and> tn_status t = TCompleted) (st_turns s)"

definition latest_completed_turn :: "store \<Rightarrow> string \<Rightarrow> string \<Rightarrow> turn option" where
  "latest_completed_turn s user cid = latest_started (completed_turns s user cid)"

definition save_turn_snapshot :: "string \<Rightarrow> string \<Rightarrow> string \<Rightarrow> json \<Rightarrow> int \<Rightarrow> time \<Rightarrow> store \<Rightarrow> store" where
  "save_turn_snapshot user cid tid snap version now s =
     replace_snapshot \<lparr>sn_turn = tid, sn_user = user, sn_conv = cid, sn_version = version,
       sn_json = snap, sn_created = now\<rparr> s"

definition get_turn_snapshot :: "store \<Rightarrow> string \<Rightarrow> string \<Rightarrow> json option" where
  "get_turn_snapshot s user tid =
     map_option sn_json (find (\<lambda>n. sn_user n = user \<and> sn_turn n = tid) (st_snapshots s))"

definition latest_snapshot_row :: "store \<Rightarrow> string \<Rightarrow> string \<Rightarrow> snapshot option" where
  "latest_snapshot_row s user cid =
     (let rows = filter (\<lambda>n. sn_user n = user \<and> sn_conv n = cid) (st_snapshots s);
          turn_of = (\<lambda>n. find (\<lambda>t. tn_id t = sn_turn n \<and> tn_user t = sn_user n \<and> tn_status t = TCompleted) (st_turns s));
          joined = filter (\<lambda>n. turn_of n \<noteq> None) rows in
      case sort_key (\<lambda>n. case turn_of n of Some t \<Rightarrow> - tn_started t | None \<Rightarrow> 0) joined of
        [] \<Rightarrow> None | n # _ \<Rightarrow> Some n)"

definition latest_snapshot :: "store \<Rightarrow> string \<Rightarrow> string \<Rightarrow> json option" where
  "latest_snapshot s user cid = map_option sn_json (latest_snapshot_row s user cid)"

definition context_revision :: "json \<Rightarrow> int option" where
  "context_revision snap =
     (case json_get snap ''context_revision'' of
        None \<Rightarrow> Some 0 | Some v \<Rightarrow> if truthy v then json_int v else Some 0)"

definition patched_summary :: "string \<Rightarrow> string \<Rightarrow> json \<Rightarrow> json option" where
  "patched_summary summary through snap =
     (case (snap, context_revision snap) of
        (JObj fs, Some r) \<Rightarrow> Some (JObj
           (dict_set (dict_set (dict_set fs ''summary'' (if summary = [] then JNull else JStr summary))
              ''summary_through_turn_id'' (JStr through)) ''context_revision'' (JInt (r + 1))))
      | _ \<Rightarrow> None)"

definition patch_latest_snapshot_summary ::
  "string \<Rightarrow> string \<Rightarrow> string \<Rightarrow> string \<Rightarrow> time \<Rightarrow> store \<Rightarrow> (store_error + bool) \<times> store" where
  "patch_latest_snapshot_summary user cid summary through now s = transact s
     (case latest_snapshot_row s user cid of
        None \<Rightarrow> Inr (False, s)
      | Some n \<Rightarrow>
          (case patched_summary summary through (sn_json n) of
             None \<Rightarrow> Inl BadArgument
           | Some v \<Rightarrow>
               Inr (True, s\<lparr>st_snapshots := update_where (\<lambda>m. sn_user m = user \<and> sn_turn m = sn_turn n)
                             (\<lambda>m. m\<lparr>sn_json := v, sn_created := now\<rparr>) (st_snapshots s)\<rparr>)))"

end
