(* ===== verification/ConversationRows.thy ===== *)
theory ConversationRows
  imports StoreTables
begin

text \<open>
  Conversations, messages, favorites and deletion in \<open>conversation_store.py\<close>.  A delete names a
  conversation (or a user) and removes its rows from every table keyed by it; it is refused while
  a live turn holds a lease there.
\<close>

section \<open>Conversations\<close>

definition create_conversation ::
  "string \<Rightarrow> utext option \<Rightarrow> string \<Rightarrow> string \<Rightarrow> bool \<Rightarrow> string \<Rightarrow> time \<Rightarrow> store
   \<Rightarrow> (store_error + conversation) \<times> store" where
  "create_conversation user title arch version strict cid now s =
     (let c = \<lparr>cv_user = user, cv_id = cid, cv_title = bounded_title title (utf ''New chat'') [],
               cv_created = now, cv_updated = now, cv_parent = None, cv_fork_turn = None,
               cv_root = Some cid, cv_depth = 0, cv_reason = None, cv_slot = None,
               cv_arch = arch, cv_version = version, cv_strict = strict\<rparr> in
      transact s (and_then (insert_conversation c s) (\<lambda>s1. Inr (c, s1))))"

definition update_conversation ::
  "string \<Rightarrow> string \<Rightarrow> (conversation \<Rightarrow> conversation) \<Rightarrow> store \<Rightarrow> store" where
  "update_conversation user cid f s =
     s\<lparr>st_conversations := update_where (\<lambda>c. cv_user c = user \<and> cv_id c = cid) f (st_conversations s)\<rparr>"

definition set_agent_assignment :: "string \<Rightarrow> string \<Rightarrow> string \<Rightarrow> string \<Rightarrow> bool \<Rightarrow> store \<Rightarrow> store" where
  "set_agent_assignment user cid arch version strict s =
     update_conversation user cid (\<lambda>c. c\<lparr>cv_arch := arch, cv_version := version, cv_strict := strict\<rparr>) s"

text \<open>A row with its message count.\<close>

definition message_count :: "store \<Rightarrow> string \<Rightarrow> string \<Rightarrow> nat" where
  "message_count s user cid = length (filter (\<lambda>m. ms_user m = user \<and> ms_conv m = cid) (st_messages s))"

definition get_conversation :: "store \<Rightarrow> string \<Rightarrow> string \<Rightarrow> (conversation \<times> nat) option" where
  "get_conversation s user cid =
     map_option (\<lambda>c. (c, message_count s user cid)) (find_conversation s user cid)"

definition list_conversations :: "store \<Rightarrow> string \<Rightarrow> (conversation \<times> nat) list" where
  "list_conversations s user =
     map (\<lambda>c. (c, message_count s (cv_user c) (cv_id c)))
       (sort_key (\<lambda>c. - cv_updated c) (filter (\<lambda>c. cv_user c = user) (st_conversations s)))"

definition rename_conversation ::
  "string \<Rightarrow> string \<Rightarrow> utext \<Rightarrow> time \<Rightarrow> store \<Rightarrow> (conversation \<times> nat) option \<times> store" where
  "rename_conversation user cid title now s =
     (let t = bounded_title (Some title) (utf ''New chat'') [];
          s1 = update_conversation user cid (\<lambda>c. c\<lparr>cv_title := t, cv_updated := now\<rparr>) s in
      if find_conversation s user cid = None then (None, s1) else (get_conversation s1 user cid, s1))"

section \<open>Deletion\<close>

definition live_lease ::
  "process \<Rightarrow> store \<Rightarrow> string \<Rightarrow> string option \<Rightarrow> time \<Rightarrow> lease option" where
  "live_lease p s user cid now =
     find (\<lambda>l. lease_blocks p s l (user_lease_status s l) now)
       (filter (\<lambda>l. lz_user l = user \<and> (cid = None \<or> cid = Some (lz_conv l))) (st_leases s))"

definition raise_if_turn_running ::
  "process \<Rightarrow> store \<Rightarrow> string \<Rightarrow> string option \<Rightarrow> time \<Rightarrow> store_error option" where
  "raise_if_turn_running p s user cid now =
     map_option (\<lambda>l. busy_error l now) (live_lease p s user cid now)"

text \<open>The six tables keyed by (user, conversation).\<close>

definition drop_conversation_rows :: "string \<Rightarrow> string \<Rightarrow> store \<Rightarrow> store" where
  "drop_conversation_rows user cid s =
     s\<lparr>st_messages := delete_where (\<lambda>m. ms_user m = user \<and> ms_conv m = cid) (st_messages s),
       st_snapshots := delete_where (\<lambda>n. sn_user n = user \<and> sn_conv n = cid) (st_snapshots s),
       st_turns := delete_where (\<lambda>t. tn_user t = user \<and> tn_conv t = cid) (st_turns s),
       st_requests := delete_where (\<lambda>r. rq_user r = user \<and> rq_conv r = cid) (st_requests s),
       st_leases := delete_where (\<lambda>l. lz_user l = user \<and> lz_conv l = cid) (st_leases s),
       st_jobs := delete_where (\<lambda>j. jb_user j = user \<and> jb_conv j = cid) (st_jobs s)\<rparr>"

definition drop_user_rows :: "string \<Rightarrow> store \<Rightarrow> store" where
  "drop_user_rows user s =
     s\<lparr>st_messages := delete_where (\<lambda>m. ms_user m = user) (st_messages s),
       st_snapshots := delete_where (\<lambda>n. sn_user n = user) (st_snapshots s),
       st_turns := delete_where (\<lambda>t. tn_user t = user) (st_turns s),
       st_requests := delete_where (\<lambda>r. rq_user r = user) (st_requests s),
       st_leases := delete_where (\<lambda>l. lz_user l = user) (st_leases s),
       st_jobs := delete_where (\<lambda>j. jb_user j = user) (st_jobs s)\<rparr>"

definition drop_user_conversations :: "string \<Rightarrow> store \<Rightarrow> store" where
  "drop_user_conversations user s =
     s\<lparr>st_conversations := delete_where (\<lambda>c. cv_user c = user) (st_conversations s)\<rparr>"

definition conversation_ids :: "store \<Rightarrow> string \<Rightarrow> string list" where
  "conversation_ids s user = map cv_id (filter (\<lambda>c. cv_user c = user) (st_conversations s))"

definition delete_conversation ::
  "process \<Rightarrow> string \<Rightarrow> string \<Rightarrow> time \<Rightarrow> store \<Rightarrow> (store_error + bool) \<times> store" where
  "delete_conversation p user cid now s = transact s
     (case raise_if_turn_running p s user (Some cid) now of
        Some e \<Rightarrow> Inl e
      | None \<Rightarrow>
          Inr (find_conversation s user cid \<noteq> None,
               drop_conversation_rows user cid
                 (s\<lparr>st_conversations := delete_where (\<lambda>c. cv_user c = user \<and> cv_id c = cid) (st_conversations s)\<rparr>)))"

definition delete_all_conversations ::
  "process \<Rightarrow> string \<Rightarrow> time \<Rightarrow> store \<Rightarrow> (store_error + string list) \<times> store" where
  "delete_all_conversations p user now s = transact s
     (case raise_if_turn_running p s user None now of
        Some e \<Rightarrow> Inl e
      | None \<Rightarrow> Inr (conversation_ids s user, drop_user_conversations user (drop_user_rows user s)))"

definition clear_conversation_messages ::
  "process \<Rightarrow> string \<Rightarrow> string \<Rightarrow> time \<Rightarrow> time \<Rightarrow> store \<Rightarrow> (store_error + bool) \<times> store" where
  "clear_conversation_messages p user cid now later s = transact s
     (if find_conversation s user cid = None then Inr (False, s)
      else case raise_if_turn_running p s user (Some cid) now of
        Some e \<Rightarrow> Inl e
      | None \<Rightarrow> Inr (True, touch_conversation user cid later (drop_conversation_rows user cid s)))"

section \<open>Erasure of a user\<close>

definition privacy_inventory :: "store \<Rightarrow> string \<Rightarrow> (string \<times> nat) list" where
  "privacy_inventory s user =
     [(''conversations'', length (filter (\<lambda>c. cv_user c = user) (st_conversations s))),
      (''messages'', length (filter (\<lambda>m. ms_user m = user) (st_messages s))),
      (''favorites'', length (filter (\<lambda>f. fv_user f = user) (st_favorites s))),
      (''turns'', length (filter (\<lambda>t. tn_user t = user) (st_turns s))),
      (''turn_snapshots'', length (filter (\<lambda>n. sn_user n = user) (st_snapshots s))),
      (''turn_requests'', length (filter (\<lambda>r. rq_user r = user) (st_requests s))),
      (''conversation_turn_leases'', length (filter (\<lambda>l. lz_user l = user) (st_leases s))),
      (''background_jobs'', length (filter (\<lambda>j. jb_user j = user) (st_jobs s))),
      (''fork_requests'', length (filter (\<lambda>f. fk_user f = user) (st_forks s)))]"

definition inventory_total :: "(string \<times> nat) list \<Rightarrow> nat" where
  "inventory_total counts = sum_list (map snd counts)"

definition delete_all_user_data ::
  "string \<Rightarrow> store \<Rightarrow> (store_error + (string list \<times> (string \<times> nat) list \<times> (string \<times> nat) list)) \<times> store" where
  "delete_all_user_data user s = transact s
     (let before = privacy_inventory s user;
          cids = conversation_ids s user;
          s1 = drop_user_rows user s;
          s2 = s1\<lparr>st_forks := delete_where (\<lambda>f. fk_user f = user) (st_forks s1),
                  st_favorites := delete_where (\<lambda>f. fv_user f = user) (st_favorites s1)\<rparr>;
          s3 = drop_user_conversations user s2;
          after = privacy_inventory s3 user in
      if inventory_total after \<noteq> 0 then Inl (ErasureLeftRows (inventory_total after))
      else Inr ((cids, before, after), s3))"

text \<open>The erasure leaves no row of the user and every row of the others.\<close>

definition erased_rows :: "string \<Rightarrow> store \<Rightarrow> store" where
  "erased_rows user s =
     (let s1 = drop_user_rows user s in
      drop_user_conversations user
        (s1\<lparr>st_forks := delete_where (\<lambda>f. fk_user f = user) (st_forks s1),
            st_favorites := delete_where (\<lambda>f. fv_user f = user) (st_favorites s1)\<rparr>))"

lemma erased_rows_total: "inventory_total (privacy_inventory (erased_rows user s) user) = 0"
proof -
  have gone: "filter (\<lambda>r. g r = user) (delete_where (\<lambda>r. g r = user) rows) = []" for g :: "'r \<Rightarrow> string" and rows
    by (simp add: delete_where_def filter_empty_conv)
  show ?thesis
    by (simp add: erased_rows_def Let_def inventory_total_def privacy_inventory_def drop_user_rows_def drop_user_conversations_def gone)
qed

lemma erased_rows_others:
  assumes "v \<noteq> user"
  shows "privacy_inventory (erased_rows user s) v = privacy_inventory s v" "conversation_ids (erased_rows user s) v = conversation_ids s v"
    "filter (\<lambda>t. tn_user t = v) (st_turns (erased_rows user s)) = filter (\<lambda>t. tn_user t = v) (st_turns s)"
    "filter (\<lambda>m. ms_user m = v) (st_messages (erased_rows user s)) = filter (\<lambda>m. ms_user m = v) (st_messages s)"
proof -
  have kept: "filter (\<lambda>r. g r = v) (delete_where (\<lambda>r. g r = user) rows) = filter (\<lambda>r. g r = v) rows" for g :: "'r \<Rightarrow> string" and rows
    using assms by (auto simp: delete_where_def intro: filter_cong)
  show "privacy_inventory (erased_rows user s) v = privacy_inventory s v" "conversation_ids (erased_rows user s) v = conversation_ids s v"
    "filter (\<lambda>t. tn_user t = v) (st_turns (erased_rows user s)) = filter (\<lambda>t. tn_user t = v) (st_turns s)"
    "filter (\<lambda>m. ms_user m = v) (st_messages (erased_rows user s)) = filter (\<lambda>m. ms_user m = v) (st_messages s)"
    by (simp_all add: erased_rows_def Let_def privacy_inventory_def conversation_ids_def drop_user_rows_def drop_user_conversations_def kept)
qed

lemma delete_all_user_data_eq:
  "delete_all_user_data user s
     = (Inr (conversation_ids s user, privacy_inventory s user, privacy_inventory (erased_rows user s) user), erased_rows user s)"
  using erased_rows_total [of user s] by (simp add: delete_all_user_data_def erased_rows_def Let_def)

section \<open>Messages\<close>

definition add_message ::
  "string \<Rightarrow> string \<Rightarrow> string \<Rightarrow> utext \<Rightarrow> string option \<Rightarrow> json option \<Rightarrow> time \<Rightarrow> string option
   \<Rightarrow> store \<Rightarrow> (nat \<times> time) \<times> store" where
  "add_message user cid mrole content kind recs ts turn_id s =
     (let (mid, s1) = insert_message user cid mrole content kind recs ts turn_id s in
      ((mid, ts), touch_conversation user cid ts s1))"

definition set_message_turn :: "string \<Rightarrow> nat \<Rightarrow> string \<Rightarrow> store \<Rightarrow> store" where
  "set_message_turn user mid tid s =
     s\<lparr>st_messages := update_where (\<lambda>m. ms_user m = user \<and> ms_id m = mid)
         (\<lambda>m. m\<lparr>ms_turn := Some tid\<rparr>) (st_messages s)\<rparr>"

definition get_messages :: "store \<Rightarrow> string \<Rightarrow> string \<Rightarrow> message list" where
  "get_messages s user cid =
     sort_key ms_id (filter (\<lambda>m. ms_user m = user \<and> ms_conv m = cid) (st_messages s))"

section \<open>Favorites\<close>

definition add_favorite :: "string \<Rightarrow> string \<Rightarrow> json \<Rightarrow> time \<Rightarrow> store \<Rightarrow> store" where
  "add_favorite user url prop now s =
     (if list_ex (\<lambda>f. fv_user f = user \<and> fv_url f = url) (st_favorites s)
      then s\<lparr>st_favorites := update_where (\<lambda>f. fv_user f = user \<and> fv_url f = url)
             (\<lambda>f. f\<lparr>fv_property := prop\<rparr>) (st_favorites s)\<rparr>
      else s\<lparr>st_favorites := st_favorites s @
             [\<lparr>fv_user = user, fv_url = url, fv_property = prop, fv_created = now\<rparr>]\<rparr>)"

definition list_favorites :: "store \<Rightarrow> string \<Rightarrow> json list" where
  "list_favorites s user =
     map fv_property (sort_key fv_created (filter (\<lambda>f. fv_user f = user) (st_favorites s)))"

definition remove_favorite :: "string \<Rightarrow> string \<Rightarrow> store \<Rightarrow> bool \<times> store" where
  "remove_favorite user url s =
     (list_ex (\<lambda>f. fv_user f = user \<and> fv_url f = url) (st_favorites s),
      s\<lparr>st_favorites := delete_where (\<lambda>f. fv_user f = user \<and> fv_url f = url) (st_favorites s)\<rparr>)"

definition delete_all_favorites :: "string \<Rightarrow> store \<Rightarrow> nat \<times> store" where
  "delete_all_favorites user s =
     (length (filter (\<lambda>f. fv_user f = user) (st_favorites s)),
      s\<lparr>st_favorites := delete_where (\<lambda>f. fv_user f = user) (st_favorites s)\<rparr>)"

end
