(* ===== verification/Branches.thy ===== *)
theory Branches
  imports RequestTurns ConversationRows
begin

text \<open>
  Branching in \<open>conversation_store.py\<close>: the lineage walk, the copy of inherited turns into a new
  conversation, forks after a completed turn, edit branches before a turn, and the version groups
  of a branch family.  \<open>new_turn\<close> gives the fresh id of the copy of each source turn.
\<close>

section \<open>Lineage\<close>

record ancestor =
  an_conv :: string
  an_before :: "time option"

definition lineage_max_depth :: nat where "lineage_max_depth = 50"

text \<open>The walk up the parents; the fuel is the depth still allowed.\<close>

fun walk_lineage ::
  "nat \<Rightarrow> store \<Rightarrow> string \<Rightarrow> string list \<Rightarrow> string \<Rightarrow> time option \<Rightarrow> ancestor list" where
  "walk_lineage 0 s user seen current before = []"
| "walk_lineage (Suc n) s user seen current before =
     (if current = [] \<or> current \<in> set seen then []
      else case find_conversation s user current of
        None \<Rightarrow> []
      | Some c \<Rightarrow>
          \<lparr>an_conv = current, an_before = before\<rparr> #
          (case (nonempty (cv_parent c), nonempty (cv_fork_turn c)) of
             (Some par, Some ft) \<Rightarrow>
               walk_lineage n s user (current # seen) par
                 (Some (case find_turn s user ft of Some t \<Rightarrow> tn_started t | None \<Rightarrow> cv_created c))
           | _ \<Rightarrow> []))"

definition get_branch_lineage :: "store \<Rightarrow> string \<Rightarrow> string \<Rightarrow> ancestor list" where
  "get_branch_lineage s user cid = walk_lineage lineage_max_depth s user [] cid None"

section \<open>Copying turns into a branch\<close>

definition turn_messages :: "turn \<Rightarrow> nat list" where
  "turn_messages t = (case tn_user_msg t of None \<Rightarrow> [] | Some m \<Rightarrow> [m])
                   @ (case tn_reply_msg t of None \<Rightarrow> [] | Some m \<Rightarrow> [m])"

text \<open>Is a source message inherited?\<close>

definition inherits_message :: "turn list \<Rightarrow> turn list \<Rightarrow> int option \<Rightarrow> message \<Rightarrow> bool" where
  "inherits_message inherited others cutoff m \<longleftrightarrow>
     (if ms_id m \<in> set (concat (map turn_messages inherited))
         \<or> (case ms_turn m of None \<Rightarrow> False | Some t \<Rightarrow> t \<noteq> [] \<and> t \<in> tn_id ` set inherited) then True
      else if ms_turn m \<noteq> None then False
      else if ms_id m \<in> set (concat (map turn_messages others)) then False
      else case cutoff of None \<Rightarrow> False | Some c \<Rightarrow> int (ms_id m) \<le> c)"

definition copied_turn_id :: "(string \<Rightarrow> string) \<Rightarrow> turn list \<Rightarrow> string option \<Rightarrow> string option" where
  "copied_turn_id new_turn inherited t =
     (case t of None \<Rightarrow> None
      | Some i \<Rightarrow> if i \<noteq> [] \<and> i \<in> tn_id ` set inherited then Some (new_turn i) else None)"

text \<open>The copied message rows with the map from old to new ids.\<close>

fun copy_messages ::
  "string \<Rightarrow> string \<Rightarrow> (string \<Rightarrow> string) \<Rightarrow> turn list \<Rightarrow> message list \<Rightarrow> (nat \<times> nat) list \<Rightarrow> store
   \<Rightarrow> (nat \<times> nat) list \<times> store" where
  "copy_messages user child new_turn inherited [] acc s = (acc, s)"
| "copy_messages user child new_turn inherited (m # ms) acc s =
     (let (i, s1) = insert_message user child (ms_role m) (ms_content m) (ms_type m) (ms_recs m)
                      (ms_time m) (copied_turn_id new_turn inherited (ms_turn m)) s in
      copy_messages user child new_turn inherited ms (acc @ [(ms_id m, i)]) (set_metadata i (ms_meta m) s1))"

definition mapped_message :: "(nat \<times> nat) list \<Rightarrow> nat option \<Rightarrow> nat option" where
  "mapped_message f x = (case x of None \<Rightarrow> None | Some i \<Rightarrow> map_of f i)"

definition copied_turn :: "string \<Rightarrow> string \<Rightarrow> (string \<Rightarrow> string) \<Rightarrow> (nat \<times> nat) list \<Rightarrow> turn \<Rightarrow> turn" where
  "copied_turn user child new_turn f t =
     \<lparr>tn_id = new_turn (tn_id t), tn_user = user, tn_conv = child, tn_request = tn_request t,
      tn_user_msg = mapped_message f (tn_user_msg t), tn_reply_msg = mapped_message f (tn_reply_msg t),
      tn_status = tn_status t, tn_started = tn_started t, tn_completed = tn_completed t\<rparr>"

fun insert_turns :: "turn list \<Rightarrow> store \<Rightarrow> store_error + store" where
  "insert_turns [] s = Inr s"
| "insert_turns (t # ts) s = and_then (insert_turn t s) (insert_turns ts)"

fun retarget_snapshot :: "string \<Rightarrow> json \<Rightarrow> json" where
  "retarget_snapshot new_id (JObj fs) =
     (if dict_has fs ''turn_id'' then JObj (dict_set fs ''turn_id'' (JStr new_id)) else JObj fs)"
| "retarget_snapshot new_id v = v"

fun copy_snapshots ::
  "string \<Rightarrow> string \<Rightarrow> (string \<Rightarrow> string) \<Rightarrow> time \<Rightarrow> turn list \<Rightarrow> store \<Rightarrow> store" where
  "copy_snapshots user child new_turn later [] s = s"
| "copy_snapshots user child new_turn later (t # ts) s =
     copy_snapshots user child new_turn later ts
       (case find (\<lambda>n. sn_user n = user \<and> sn_turn n = tn_id t) (st_snapshots s) of
          None \<Rightarrow> s
        | Some n \<Rightarrow> replace_snapshot \<lparr>sn_turn = new_turn (tn_id t), sn_user = user, sn_conv = child,
            sn_version = sn_version n, sn_json = retarget_snapshot (new_turn (tn_id t)) (sn_json n),
            sn_created = later\<rparr> s)"

definition conversation_turns :: "store \<Rightarrow> string \<Rightarrow> string \<Rightarrow> turn list" where
  "conversation_turns s user cid = filter (\<lambda>t. tn_user t = user \<and> tn_conv t = cid) (st_turns s)"

definition other_turns :: "store \<Rightarrow> string \<Rightarrow> string \<Rightarrow> turn list \<Rightarrow> turn list" where
  "other_turns s user source inherited =
     filter (\<lambda>t. tn_id t \<notin> tn_id ` set inherited) (conversation_turns s user source)"

definition materialize_branch ::
  "string \<Rightarrow> string \<Rightarrow> string \<Rightarrow> turn list \<Rightarrow> int option \<Rightarrow> (string \<Rightarrow> string) \<Rightarrow> time \<Rightarrow> store
   \<Rightarrow> store_error + store" where
  "materialize_branch user source child inherited cutoff new_turn later s =
     (let others = other_turns s user source inherited;
          msgs = filter (inherits_message inherited others cutoff) (get_messages s user source);
          (f, s1) = copy_messages user child new_turn inherited msgs [] s in
      and_then (insert_turns (map (copied_turn user child new_turn f) inherited) s1) (\<lambda>s2.
      Inr (copy_snapshots user child new_turn later inherited s2)))"

section \<open>Forks\<close>

definition fork_fingerprint :: "string \<Rightarrow> string \<Rightarrow> string option \<Rightarrow> string" where
  "fork_fingerprint kind source tid =
     kind @ ''|'' @ source @ ''|'' @ strip (case tid of None \<Rightarrow> [] | Some t \<Rightarrow> t)"

text \<open>
  The replay of a known key: the child, when the key was used for the same request; an error when
  it was used for another one; nothing when the child is gone.
\<close>

definition replay_fork ::
  "store \<Rightarrow> string \<Rightarrow> string option \<Rightarrow> string \<Rightarrow> bool \<Rightarrow> string option \<Rightarrow> store_error + conversation option" where
  "replay_fork s user key source is_edit tid =
     (case nonempty key of
        None \<Rightarrow> Inr None
      | Some k \<Rightarrow>
          (case find (\<lambda>f. fk_user f = user \<and> fk_key f = k) (st_forks s) of
             None \<Rightarrow> Inr None
           | Some f \<Rightarrow>
               (case find_conversation s user (fk_conv f) of
                  None \<Rightarrow> Inr None
                | Some c \<Rightarrow>
                    if cv_parent c \<noteq> Some source \<or> (cv_reason c = Some ''edit'') \<noteq> is_edit
                       \<or> (fk_print f \<noteq> None \<and>
                          fk_print f \<noteq> Some (fork_fingerprint (if is_edit then ''edit'' else ''fork'') source tid))
                    then Inl (IdempotencyKeyReused k) else Inr (Some c))))"

definition record_fork ::
  "string \<Rightarrow> string option \<Rightarrow> string \<Rightarrow> string \<Rightarrow> time \<Rightarrow> store \<Rightarrow> store" where
  "record_fork user key child fingerprint later s =
     (case nonempty key of
        None \<Rightarrow> s
      | Some k \<Rightarrow>
          s\<lparr>st_forks := delete_where (\<lambda>f. fk_user f = user \<and> fk_key f = k) (st_forks s)
              @ [\<lparr>fk_user = user, fk_key = k, fk_conv = child, fk_created = later,
                  fk_print = Some fingerprint\<rparr>]\<rparr>)"

definition resolve_fork_turn ::
  "store \<Rightarrow> string \<Rightarrow> string \<Rightarrow> string option \<Rightarrow> store_error + turn" where
  "resolve_fork_turn s user source tid =
     (case tid of
        None \<Rightarrow> (case latest_completed_turn s user source of
                   None \<Rightarrow> Inl (NoCompletedTurn source) | Some t \<Rightarrow> Inr t)
      | Some i \<Rightarrow>
          (case find_turn s user i of
             None \<Rightarrow> Inl (TurnNotFound i)
           | Some t \<Rightarrow> if tn_conv t \<noteq> source then Inl (TurnNotInConversation i)
                      else if tn_status t \<noteq> TCompleted then Inl (TurnNotCompleted i) else Inr t))"

text \<open>The child row: provenance and root of the source, one level deeper.\<close>

definition branch_row ::
  "conversation \<Rightarrow> string \<Rightarrow> utext \<Rightarrow> time \<Rightarrow> string option \<Rightarrow> string option \<Rightarrow> string option \<Rightarrow> conversation" where
  "branch_row src child title now fork_turn reason slot =
     \<lparr>cv_user = cv_user src, cv_id = child, cv_title = title, cv_created = now, cv_updated = now,
      cv_parent = Some (cv_id src), cv_fork_turn = fork_turn,
      cv_root = Some (case nonempty (cv_root src) of Some r \<Rightarrow> r | None \<Rightarrow> cv_id src),
      cv_depth = cv_depth src + 1, cv_reason = reason, cv_slot = slot,
      cv_arch = cv_arch src, cv_version = cv_version src, cv_strict = cv_strict src\<rparr>"

record branch_ids =
  bi_child :: string
  bi_turn :: "string \<Rightarrow> string"
  bi_now :: time
  bi_later :: time

definition fork_cutoff :: "turn \<Rightarrow> int option" where
  "fork_cutoff t = map_option int (case tn_reply_msg t of None \<Rightarrow> tn_user_msg t | m \<Rightarrow> m)"

text \<open>The transaction both endpoints share: the child row, the inherited rows, the key.\<close>

definition branch_off ::
  "string \<Rightarrow> string \<Rightarrow> string option \<Rightarrow> string \<Rightarrow> conversation \<Rightarrow> turn list \<Rightarrow> int option \<Rightarrow> branch_ids \<Rightarrow> store
   \<Rightarrow> store_error + (conversation \<times> bool) \<times> store" where
  "branch_off user source key fingerprint row inherited cutoff ids s =
     and_then (insert_conversation row s) (\<lambda>s1.
     and_then (materialize_branch user source (bi_child ids) inherited cutoff (bi_turn ids) (bi_later ids) s1) (\<lambda>s2.
     Inr ((row, False), record_fork user key (bi_child ids) fingerprint (bi_later ids) s2)))"

definition forked_turns :: "store \<Rightarrow> string \<Rightarrow> string \<Rightarrow> turn \<Rightarrow> turn list" where
  "forked_turns s user source ft =
     sort_key tn_started (filter (\<lambda>t. tn_started t \<le> tn_started ft) (completed_turns s user source))"

definition fork_conversation ::
  "string \<Rightarrow> string \<Rightarrow> string option \<Rightarrow> utext option \<Rightarrow> string option \<Rightarrow> branch_ids \<Rightarrow> store
   \<Rightarrow> (store_error + (conversation \<times> bool)) \<times> store" where
  "fork_conversation user source tid title key ids s = transact s
     (and_then (replay_fork s user key source False tid) (\<lambda>replayed.
      case replayed of
        Some c \<Rightarrow> Inr ((c, True), s)
      | None \<Rightarrow>
          (case find_conversation s user source of
             None \<Rightarrow> Inl (ConversationNotFound source)
           | Some src \<Rightarrow>
               and_then (resolve_fork_turn s user source tid) (\<lambda>ft.
               let row = branch_row src (bi_child ids) (bounded_title title (cv_title src) (utf '' (branch)''))
                           (bi_now ids) (Some (tn_id ft)) None None in
               branch_off user source key (fork_fingerprint ''fork'' source tid) row
                 (forked_turns s user source ft) (fork_cutoff ft) ids s))))"

section \<open>Edit branches\<close>

definition resolve_slot_anchor :: "store \<Rightarrow> string \<Rightarrow> conversation \<Rightarrow> string \<Rightarrow> string" where
  "resolve_slot_anchor s user src edited =
     (let boundary = (case nonempty (cv_fork_turn src) of
                        None \<Rightarrow> None | Some ft \<Rightarrow> map_option tn_started (find_turn s user ft));
          fresh = sort_key tn_started
            (filter (\<lambda>t. case boundary of None \<Rightarrow> True | Some b \<Rightarrow> b < tn_started t)
               (conversation_turns s user (cv_id src))) in
      case (nonempty (cv_slot src), fresh) of
        (Some slot, t # _) \<Rightarrow> if tn_id t = edited then slot else edited
      | _ \<Rightarrow> edited)"

definition edit_cutoff :: "turn \<Rightarrow> turn list \<Rightarrow> int option" where
  "edit_cutoff edited inherited =
     (if turn_messages edited \<noteq> [] then Some (int (Min (set (turn_messages edited))) - 1)
      else case concat (map turn_messages inherited) of
        [] \<Rightarrow> None | ms \<Rightarrow> Some (int (Max (set ms))))"

definition branch_for_edit ::
  "string \<Rightarrow> string \<Rightarrow> string \<Rightarrow> utext option \<Rightarrow> string option \<Rightarrow> branch_ids \<Rightarrow> store
   \<Rightarrow> (store_error + (conversation \<times> bool)) \<times> store" where
  "branch_for_edit user source tid title key ids s = transact s
     (and_then (replay_fork s user key source True (Some tid)) (\<lambda>replayed.
      case replayed of
        Some c \<Rightarrow> Inr ((c, True), s)
      | None \<Rightarrow>
          (case find_conversation s user source of
             None \<Rightarrow> Inl (ConversationNotFound source)
           | Some src \<Rightarrow>
          (case find_turn s user tid of
             None \<Rightarrow> Inl (TurnNotFound tid)
           | Some edited \<Rightarrow>
               if tn_conv edited \<noteq> source then Inl (TurnNotInConversation tid)
               else let inherited = sort_key tn_started
                          (filter (\<lambda>t. tn_started t < tn_started edited) (completed_turns s user source));
                        row = branch_row src (bi_child ids)
                          (bounded_title title (cv_title src) (utf '' (edit)'')) (bi_now ids)
                          (if inherited = [] then None else Some (tn_id (last inherited)))
                          (Some ''edit'') (Some (resolve_slot_anchor s user src tid)) in
               branch_off user source key (fork_fingerprint ''edit'' source (Some tid)) row inherited
                 (edit_cutoff edited inherited) ids s))))"

section \<open>Version groups\<close>

text \<open>The family of a root, and for each slot its edit branches with their parents.\<close>

definition branch_family :: "store \<Rightarrow> string \<Rightarrow> string \<Rightarrow> conversation list" where
  "branch_family s user rt = filter (\<lambda>c. cv_user c = user \<and> cv_root c = Some rt) (st_conversations s)"

definition slot_members :: "conversation list \<Rightarrow> string \<Rightarrow> string list" where
  "slot_members fam slot =
     (let tagged = filter (\<lambda>c. nonempty (cv_slot c) = Some slot) fam in
      remdups (map cv_id tagged @
        filter (\<lambda>i. i \<in> cv_id ` set fam) (List.map_filter (\<lambda>c. nonempty (cv_parent c)) tagged)))"

definition slots_of :: "conversation list \<Rightarrow> string list" where
  "slots_of fam = remdups (List.map_filter (\<lambda>c. nonempty (cv_slot c)) fam)"

definition version_groups :: "conversation list \<Rightarrow> (string \<times> conversation list) list" where
  "version_groups fam =
     map (\<lambda>slot. (slot, sort_key cv_created (sort_key cv_id
            (filter (\<lambda>c. cv_id c \<in> set (slot_members fam slot)) fam))))
       (filter (\<lambda>slot. 2 \<le> length (slot_members fam slot)) (slots_of fam))"

definition version_map :: "store \<Rightarrow> string \<Rightarrow> string \<Rightarrow> (string \<times> conversation list) list option" where
  "version_map s user cid =
     (case find_conversation s user cid of
        None \<Rightarrow> None
      | Some base \<Rightarrow>
          Some (version_groups (branch_family s user
            (case nonempty (cv_root base) of Some r \<Rightarrow> r | None \<Rightarrow> cid))))"

end
