(* ===== verification/StoreInvariant.thy ===== *)
theory StoreInvariant
  imports BackgroundOutbox Branches
begin

text \<open>
  The conversation store as one state machine: every operation any process may issue is a step,
  and \<open>store_ok\<close> is the invariant of its tables.  It states the keys of the schema, and beyond
  them that a running turn holds the lease of its conversation, that leases and request ids name
  turns of their own conversation, that a job is claimed exactly while it runs, that jobs of one
  conversation run one at a time, and that a user under erasure has no lease and no running job.
\<close>

section \<open>Operations\<close>

datatype store_op =
    OpRegister process time
  | OpHeartbeat process time
  | OpStart process start_request string string time
  | OpFinalize string string final_answer time
  | OpComplete string string "nat option" time
  | OpFail string string time
  | OpCloseOrphans process time
  | OpBeginErasure process string time
  | OpEndErasure string
  | OpEraseUser string
  | OpCreate string "utext option" string string bool string time
  | OpAssign string string string string bool
  | OpRename string string utext time
  | OpDelete process string string time
  | OpDeleteAll process string time
  | OpClear process string string time time
  | OpMessage string string string utext "string option" "json option" time "string option"
  | OpTagMessage string nat string
  | OpFavorite string string json time
  | OpUnfavorite string string
  | OpDropFavorites string
  | OpClaimJob string rat time
  | OpSaveJob nat string json time
  | OpFinishJob nat string time
  | OpRetryJob nat string string int time
  | OpSnapshot string string string json int time
  | OpPatchSummary string string string string time
  | OpFork string string "string option" "utext option" "string option" branch_ids
  | OpEdit string string string "utext option" "string option" branch_ids

fun store_step :: "(json \<Rightarrow> string) \<Rightarrow> store \<Rightarrow> store_op \<Rightarrow> store" where
  "store_step pstr s (OpRegister p now) = register_owner p now s"
| "store_step pstr s (OpHeartbeat p now) = heartbeat p now s"
| "store_step pstr s (OpStart p q new_cid tid now) = snd (start_request_turn p q new_cid tid now s)"
| "store_step pstr s (OpFinalize user tid a now) = snd (finalize_request_turn pstr user tid a now s)"
| "store_step pstr s (OpComplete user tid mid now) = snd (complete_turn user tid mid now s)"
| "store_step pstr s (OpFail user tid now) = fail_turn user tid now s"
| "store_step pstr s (OpCloseOrphans p now) = snd (close_orphaned_turns p pstr now s)"
| "store_step pstr s (OpBeginErasure p user now) = snd (begin_privacy_erasure p user now s)"
| "store_step pstr s (OpEndErasure user) = end_privacy_erasure user s"
| "store_step pstr s (OpEraseUser user) = snd (delete_all_user_data user s)"
| "store_step pstr s (OpCreate user title arch v strict cid now) =
     snd (create_conversation user title arch v strict cid now s)"
| "store_step pstr s (OpAssign user cid arch v strict) = set_agent_assignment user cid arch v strict s"
| "store_step pstr s (OpRename user cid title now) = snd (rename_conversation user cid title now s)"
| "store_step pstr s (OpDelete p user cid now) = snd (delete_conversation p user cid now s)"
| "store_step pstr s (OpDeleteAll p user now) = snd (delete_all_conversations p user now s)"
| "store_step pstr s (OpClear p user cid now later) = snd (clear_conversation_messages p user cid now later s)"
| "store_step pstr s (OpMessage user cid mrole content kind recs ts tid) =
     snd (add_message user cid mrole content kind recs ts tid s)"
| "store_step pstr s (OpTagMessage user mid tid) = set_message_turn user mid tid s"
| "store_step pstr s (OpFavorite user url prop now) = add_favorite user url prop now s"
| "store_step pstr s (OpUnfavorite user url) = snd (remove_favorite user url s)"
| "store_step pstr s (OpDropFavorites user) = snd (delete_all_favorites user s)"
| "store_step pstr s (OpClaimJob w secs now) = snd (claim_background_job w secs now s)"
| "store_step pstr s (OpSaveJob i w result now) = snd (save_background_job_result i w result now s)"
| "store_step pstr s (OpFinishJob i w now) = snd (complete_background_job i w now s)"
| "store_step pstr s (OpRetryJob i w err limit now) = snd (retry_background_job i w err limit now s)"
| "store_step pstr s (OpSnapshot user cid tid snap v now) = save_turn_snapshot user cid tid snap v now s"
| "store_step pstr s (OpPatchSummary user cid summary tid now) =
     snd (patch_latest_snapshot_summary user cid summary tid now s)"
| "store_step pstr s (OpFork user source tid title key ids) = snd (fork_conversation user source tid title key ids s)"
| "store_step pstr s (OpEdit user source tid title key ids) = snd (branch_for_edit user source tid title key ids s)"

section \<open>The invariant\<close>

definition turns_ok :: "turn list \<Rightarrow> bool" where
  "turns_ok ts \<longleftrightarrow> distinct (map tn_id ts) \<and> (\<forall>t \<in> set ts. turn_row_ok t)"

definition leases_ok :: "turn list \<Rightarrow> lease list \<Rightarrow> bool" where
  "leases_ok ts ls \<longleftrightarrow>
     distinct (map (\<lambda>l. (lz_user l, lz_conv l)) ls) \<and> distinct (map lz_turn ls)
     \<and> (\<forall>l \<in> set ls. \<exists>t \<in> set ts. tn_id t = lz_turn l \<and> tn_user t = lz_user l \<and> tn_conv t = lz_conv l)
     \<and> (\<forall>t \<in> set ts. tn_status t = TRunning \<longrightarrow> tn_id t \<in> lz_turn ` set ls)"

definition requests_ok :: "turn list \<Rightarrow> turn_request list \<Rightarrow> bool" where
  "requests_ok ts rs \<longleftrightarrow>
     distinct (map (\<lambda>r. (rq_user r, rq_id r)) rs) \<and> distinct (map rq_turn rs)
     \<and> (\<forall>r \<in> set rs. \<exists>t \<in> set ts. tn_id t = rq_turn r \<and> tn_user t = rq_user r \<and> tn_conv t = rq_conv r)"

text \<open>Two running jobs of one conversation are the same job.\<close>

definition serial_jobs :: "job list \<Rightarrow> bool" where
  "serial_jobs js \<longleftrightarrow> (\<forall>i \<in> set js. \<forall>j \<in> set js. jb_status i = JRunning \<and> jb_status j = JRunning
          \<and> jb_user i = jb_user j \<and> jb_conv i = jb_conv j \<longrightarrow> jb_id i = jb_id j)"

definition jobs_ok :: "job list \<Rightarrow> nat \<Rightarrow> bool" where
  "jobs_ok js n \<longleftrightarrow>
     distinct (map jb_id js) \<and> (\<forall>j \<in> set js. jb_id j < n)
     \<and> distinct (map (\<lambda>j. (jb_user j, jb_key j)) js)
     \<and> (\<forall>j \<in> set js. (jb_status j = JRunning \<longleftrightarrow> jb_claimed j \<noteq> None) \<and> (jb_status j = JRunning \<longleftrightarrow> jb_lease j \<noteq> None))
     \<and> serial_jobs js"

definition barrier_ok :: "(string \<times> time) list \<Rightarrow> lease list \<Rightarrow> job list \<Rightarrow> bool" where
  "barrier_ok es ls js \<longleftrightarrow> distinct (map fst es)
     \<and> (\<forall>l \<in> set ls. lz_user l \<notin> fst ` set es)
     \<and> (\<forall>j \<in> set js. jb_status j = JRunning \<longrightarrow> jb_user j \<notin> fst ` set es)"

definition messages_ok :: "message list \<Rightarrow> nat \<Rightarrow> bool" where
  "messages_ok ms n \<longleftrightarrow> distinct (map ms_id ms) \<and> (\<forall>m \<in> set ms. ms_id m < n)"

definition keys_ok :: "store \<Rightarrow> bool" where
  "keys_ok s \<longleftrightarrow>
     distinct (map (\<lambda>c. (cv_user c, cv_id c)) (st_conversations s))
     \<and> distinct (map (\<lambda>f. (fv_user f, fv_url f)) (st_favorites s))
     \<and> distinct (map sn_turn (st_snapshots s))
     \<and> distinct (map (\<lambda>f. (fk_user f, fk_key f)) (st_forks s))
     \<and> distinct (map ow_id (st_owners s))"

definition store_ok :: "store \<Rightarrow> bool" where
  "store_ok s \<longleftrightarrow>
     turns_ok (st_turns s) \<and> leases_ok (st_turns s) (st_leases s) \<and> requests_ok (st_turns s) (st_requests s)
     \<and> jobs_ok (st_jobs s) (st_next_job s) \<and> barrier_ok (st_erasures s) (st_leases s) (st_jobs s)
     \<and> messages_ok (st_messages s) (st_next_message s) \<and> keys_ok s"

lemma store_ok_empty: "store_ok empty_store"
  by (simp add: store_ok_def empty_store_def turns_ok_def leases_ok_def requests_ok_def jobs_ok_def
      serial_jobs_def barrier_ok_def messages_ok_def keys_ok_def)

lemmas store_parts = store_ok_def keys_ok_def

lemma store_ok_turns:
  "store_ok s \<Longrightarrow> turns_ok ts \<Longrightarrow> leases_ok ts (st_leases s) \<Longrightarrow> requests_ok ts (st_requests s)
   \<Longrightarrow> store_ok (s\<lparr>st_turns := ts\<rparr>)"
  by (simp add: store_parts)

lemma store_ok_leases:
  "store_ok s \<Longrightarrow> leases_ok (st_turns s) ls \<Longrightarrow> barrier_ok (st_erasures s) ls (st_jobs s)
   \<Longrightarrow> store_ok (s\<lparr>st_leases := ls\<rparr>)"
  by (simp add: store_parts)

lemma store_okD:
  assumes "store_ok s"
  shows "turns_ok (st_turns s)" "leases_ok (st_turns s) (st_leases s)" "requests_ok (st_turns s) (st_requests s)"
    "jobs_ok (st_jobs s) (st_next_job s)" "barrier_ok (st_erasures s) (st_leases s) (st_jobs s)"
    "messages_ok (st_messages s) (st_next_message s)" "keys_ok s"
  using assms by (simp_all add: store_ok_def)

section \<open>Turn statuses, leases and request ids\<close>

text \<open>A change of turns that keeps ids, owners and conversations and starts nothing new.\<close>

definition settles :: "turn list \<Rightarrow> turn list \<Rightarrow> bool" where
  "settles ts ts' \<longleftrightarrow>
     map (\<lambda>t. (tn_id t, tn_user t, tn_conv t)) ts' = map (\<lambda>t. (tn_id t, tn_user t, tn_conv t)) ts
     \<and> (\<forall>t \<in> set ts'. tn_status t = TRunning \<longrightarrow> t \<in> set ts)"

lemma settles_names:
  assumes "settles ts ts'"
  shows "(\<exists>t \<in> set ts'. tn_id t = i \<and> tn_user t = u \<and> tn_conv t = c)
       = (\<exists>t \<in> set ts. tn_id t = i \<and> tn_user t = u \<and> tn_conv t = c)"
    and "map tn_id ts' = map tn_id ts"
proof -
  let ?k = "\<lambda>t. (tn_id t, tn_user t, tn_conv t)"
  from assms have m: "map ?k ts' = map ?k ts" by (simp add: settles_def)
  have k: "(\<exists>t \<in> set xs. tn_id t = i \<and> tn_user t = u \<and> tn_conv t = c) = ((i, u, c) \<in> set (map ?k xs))" for xs
    by auto
  show "(\<exists>t \<in> set ts'. tn_id t = i \<and> tn_user t = u \<and> tn_conv t = c)
       = (\<exists>t \<in> set ts. tn_id t = i \<and> tn_user t = u \<and> tn_conv t = c)" unfolding k m ..
  from arg_cong [OF m, of "map fst"] show "map tn_id ts' = map tn_id ts" by (simp add: comp_def)
qed

lemma settles_ok:
  assumes "settles ts ts'" "\<forall>t \<in> set ts'. turn_row_ok t"
  shows "turns_ok ts \<Longrightarrow> turns_ok ts'" "leases_ok ts ls \<Longrightarrow> leases_ok ts' ls"
    "requests_ok ts rs \<Longrightarrow> requests_ok ts' rs"
  using assms settles_names [OF assms(1)]
  by (auto simp: turns_ok_def leases_ok_def requests_ok_def settles_def)

lemma settles_update:
  assumes "\<And>t. P t \<Longrightarrow> tn_id (f t) = tn_id t \<and> tn_user (f t) = tn_user t \<and> tn_conv (f t) = tn_conv t
             \<and> tn_status (f t) \<noteq> TRunning"
  shows "settles ts (update_where P f ts)"
  using assms by (auto simp: settles_def update_where_def)

lemma fail_running_ok:
  assumes "store_ok s" shows "store_ok (fail_running user tid now s)"
proof -
  let ?ts = "st_turns (fail_running user tid now s)"
  have "settles (st_turns s) ?ts" by (simp add: fail_running_def settles_update)
  moreover have "\<forall>t \<in> set ?ts. turn_row_ok t"
    using assms by (auto simp: fail_running_def store_ok_def turns_ok_def turn_row_ok_def)
  ultimately have "store_ok (s\<lparr>st_turns := ?ts\<rparr>)"
    using settles_ok store_okD [OF assms] by (intro store_ok_turns assms)
  then show ?thesis by (simp add: fail_running_def)
qed

lemma update_turns_ok:
  assumes "store_ok s" "update_turns P f s = Inr s'"
    and "\<And>t. P t \<Longrightarrow> tn_id (f t) = tn_id t \<and> tn_user (f t) = tn_user t \<and> tn_conv (f t) = tn_conv t
             \<and> tn_status (f t) \<noteq> TRunning"
  shows "store_ok s'"
proof -
  let ?ts = "update_where P f (st_turns s)"
  from assms(2) have s': "s' = s\<lparr>st_turns := ?ts\<rparr>" and "\<forall>t \<in> set (st_turns s). P t \<longrightarrow> turn_row_ok (f t)"
    by (auto simp: update_turns_def list_all_iff split: if_splits)
  then have "\<forall>t \<in> set ?ts. turn_row_ok t"
    using assms(1) by (auto simp: store_ok_def turns_ok_def)
  moreover have "settles (st_turns s) ?ts" using assms(3) by (rule settles_update)
  ultimately show ?thesis
    unfolding s' using settles_ok store_okD [OF assms(1)] by (intro store_ok_turns assms(1))
qed

lemma delete_leases_ok:
  assumes "store_ok s"
    and "\<And>l t. l \<in> set (st_leases s) \<Longrightarrow> P l \<Longrightarrow> t \<in> set (st_turns s) \<Longrightarrow> tn_id t = lz_turn l \<Longrightarrow> tn_status t \<noteq> TRunning"
  shows "store_ok (s\<lparr>st_leases := delete_where P (st_leases s)\<rparr>)"
proof -
  have "tn_id t \<in> lz_turn ` {l \<in> set (st_leases s). \<not> P l}"
    if "t \<in> set (st_turns s)" "tn_status t = TRunning" for t
  proof -
    from that store_okD(2) [OF assms(1)] have "tn_id t \<in> lz_turn ` set (st_leases s)"
      by (simp add: leases_ok_def)
    then obtain l where l: "l \<in> set (st_leases s)" "tn_id t = lz_turn l" by blast
    with assms(2) that have "\<not> P l" by blast
    with l show ?thesis by simp
  qed
  then have "leases_ok (st_turns s) (delete_where P (st_leases s))"
    using store_okD(2) [OF assms(1)] by (simp add: leases_ok_def)
  moreover have "barrier_ok (st_erasures s) (delete_where P (st_leases s)) (st_jobs s)"
    using store_okD(5) [OF assms(1)] by (simp add: barrier_ok_def)
  ultimately show ?thesis by (rule store_ok_leases [OF assms(1)])
qed

lemma turn_unique:
  "turns_ok ts \<Longrightarrow> t \<in> set ts \<Longrightarrow> u \<in> set ts \<Longrightarrow> tn_id t = tn_id u \<Longrightarrow> t = u"
  by (auto simp: turns_ok_def distinct_map inj_on_def)

lemma find_turnD: "find_turn s user tid = Some t \<Longrightarrow> t \<in> set (st_turns s) \<and> tn_user t = user \<and> tn_id t = tid"
  by (auto simp: find_turn_def find_Some_iff)

lemma find_turn_None: "find_turn s user tid = None \<longleftrightarrow> (\<forall>t \<in> set (st_turns s). \<not> (tn_user t = user \<and> tn_id t = tid))"
  by (auto simp: find_turn_def find_None_iff)

lemma find_turn_mem:
  "turns_ok (st_turns s) \<Longrightarrow> t \<in> set (st_turns s) \<Longrightarrow> find_turn s (tn_user t) (tn_id t) = Some t"
proof (cases "find_turn s (tn_user t) (tn_id t)")
  case (Some u)
  assume "turns_ok (st_turns s)" "t \<in> set (st_turns s)"
  with find_turnD [OF Some] turn_unique [of "st_turns s" u t] Some show ?thesis by simp
next
  case None
  assume "t \<in> set (st_turns s)"
  with None show ?thesis unfolding find_turn_None by blast
qed

text \<open>After \<open>fail_running\<close> the named turn does not run.\<close>

lemma turns_fail_running:
  "st_turns (fail_running user tid now s) =
     update_where (\<lambda>t. tn_user t = user \<and> tn_id t = tid \<and> tn_status t = TRunning)
       (\<lambda>t. t\<lparr>tn_status := TFailed, tn_completed := Some now\<rparr>) (st_turns s)"
  by (simp add: fail_running_def)

lemma fail_running_stops:
  "t \<in> set (st_turns (fail_running user tid now s)) \<Longrightarrow> tn_user t = user \<Longrightarrow> tn_id t = tid \<Longrightarrow> tn_status t \<noteq> TRunning"
  unfolding turns_fail_running by (erule update_whereE) simp_all

lemma drop_lease_of_turn_ok:
  assumes "store_ok s"
    and "\<And>t. t \<in> set (st_turns s) \<Longrightarrow> tn_user t = user \<Longrightarrow> tn_id t = tid \<Longrightarrow> tn_status t \<noteq> TRunning"
  shows "store_ok (drop_lease_of_turn user tid s)"
  unfolding drop_lease_of_turn_def
proof (rule delete_leases_ok [OF assms(1)])
  fix l t assume l: "l \<in> set (st_leases s)" "lz_user l = user \<and> lz_turn l = tid"
    and t: "t \<in> set (st_turns s)" "tn_id t = lz_turn l"
  from l(1) assms(1) obtain u where "u \<in> set (st_turns s)" "tn_id u = lz_turn l" "tn_user u = lz_user l"
    by (auto simp: store_ok_def leases_ok_def)
  moreover from this t have "u = t" by (intro turn_unique [OF store_okD(1) [OF assms(1)]]) auto
  ultimately show "tn_status t \<noteq> TRunning" using assms(2) l(2) by auto
qed

lemma store_ok_requests:
  "store_ok s \<Longrightarrow> requests_ok (st_turns s) rs \<Longrightarrow> store_ok (s\<lparr>st_requests := rs\<rparr>)"
  by (simp add: store_parts)

lemma store_ok_conversations:
  "store_ok s \<Longrightarrow> distinct (map (\<lambda>c. (cv_user c, cv_id c)) cs) \<Longrightarrow> store_ok (s\<lparr>st_conversations := cs\<rparr>)"
  by (simp add: store_parts)

lemma store_ok_messages:
  "store_ok s \<Longrightarrow> messages_ok ms n \<Longrightarrow> store_ok (s\<lparr>st_messages := ms, st_next_message := n\<rparr>)"
  "store_ok s \<Longrightarrow> messages_ok ms (st_next_message s) \<Longrightarrow> store_ok (s\<lparr>st_messages := ms\<rparr>)"
  by (simp_all add: store_parts)

lemma store_ok_jobs:
  "store_ok s \<Longrightarrow> jobs_ok js n \<Longrightarrow> barrier_ok (st_erasures s) (st_leases s) js
   \<Longrightarrow> store_ok (s\<lparr>st_jobs := js, st_next_job := n\<rparr>)"
  "store_ok s \<Longrightarrow> jobs_ok js (st_next_job s) \<Longrightarrow> barrier_ok (st_erasures s) (st_leases s) js
   \<Longrightarrow> store_ok (s\<lparr>st_jobs := js\<rparr>)"
  by (simp_all add: store_parts)

lemma store_ok_rest:
  "store_ok s \<Longrightarrow> distinct (map sn_turn ns) \<Longrightarrow> store_ok (s\<lparr>st_snapshots := ns\<rparr>)"
  "store_ok s \<Longrightarrow> distinct (map (\<lambda>f. (fv_user f, fv_url f)) fs) \<Longrightarrow> store_ok (s\<lparr>st_favorites := fs\<rparr>)"
  "store_ok s \<Longrightarrow> distinct (map (\<lambda>f. (fk_user f, fk_key f)) ks) \<Longrightarrow> store_ok (s\<lparr>st_forks := ks\<rparr>)"
  "store_ok s \<Longrightarrow> distinct (map ow_id ws) \<Longrightarrow> store_ok (s\<lparr>st_owners := ws\<rparr>)"
  by (simp_all add: store_parts)

lemma update_conversations_ok:
  assumes "store_ok s" "\<And>c. cv_user (f c) = cv_user c \<and> cv_id (f c) = cv_id c"
  shows "store_ok (s\<lparr>st_conversations := update_where P f (st_conversations s)\<rparr>)"
  using store_okD(7) [OF assms(1)]
  by (intro store_ok_conversations assms(1)) (simp add: map_update_where assms(2) keys_ok_def)

lemma touch_conversation_ok: "store_ok s \<Longrightarrow> store_ok (touch_conversation user cid now s)"
  unfolding touch_conversation_def by (rule update_conversations_ok) simp_all

lemma name_conversation_ok: "store_ok s \<Longrightarrow> store_ok (name_conversation user cid title s)"
  by (simp add: name_conversation_def update_conversations_ok split: option.split)

lemma find_conversation_None:
  "find_conversation s user cid = None \<longleftrightarrow> (user, cid) \<notin> (\<lambda>c. (cv_user c, cv_id c)) ` set (st_conversations s)"
  by (auto simp: find_conversation_def find_None_iff)

lemma insert_conversation_ok: "store_ok s \<Longrightarrow> insert_conversation c s = Inr s' \<Longrightarrow> store_ok s'"
  using store_okD(7) [of s]
  by (auto simp: insert_conversation_def keys_ok_def find_conversation_None split: if_splits intro!: store_ok_conversations)

lemma insert_message_ok: "store_ok s \<Longrightarrow> store_ok (snd (insert_message user cid r content kind recs ts tid s))"
  using store_okD(6) [of s]
  by (fastforce simp: insert_message_def Let_def messages_ok_def intro!: store_ok_messages)

lemma update_messages_ok:
  assumes "store_ok s" "\<And>m. ms_id (f m) = ms_id m"
  shows "store_ok (s\<lparr>st_messages := update_where P f (st_messages s)\<rparr>)"
  using store_okD(6) [OF assms(1)]
  by (intro store_ok_messages(2) assms(1)) (auto simp: messages_ok_def map_update_where assms(2))

lemma set_metadata_ok: "store_ok s \<Longrightarrow> store_ok (set_metadata mid meta s)"
  by (simp add: set_metadata_def update_messages_ok split: option.split)

lemma replace_snapshot_ok: "store_ok s \<Longrightarrow> store_ok (replace_snapshot n s)"
  using store_okD(7) [of s]
  by (auto simp: replace_snapshot_def keys_ok_def intro!: store_ok_rest)

lemma delete_requests_ok: "store_ok s \<Longrightarrow> store_ok (s\<lparr>st_requests := delete_where P (st_requests s)\<rparr>)"
  using store_okD(3) [of s] by (intro store_ok_requests) (auto simp: requests_ok_def)

section \<open>Starting a turn\<close>

lemma reap_replayed_turn_ok: "store_ok s \<Longrightarrow> store_ok (reap_replayed_turn p user t now s)"
  unfolding reap_replayed_turn_def
  by (auto split: option.split intro!: fail_running_ok drop_lease_of_turn_ok dest: fail_running_stops)

lemma erasures_fail_running [simp]: "st_erasures (fail_running user tid now s) = st_erasures s"
  by (simp add: fail_running_def)

lemma erasures_reap [simp]: "st_erasures (reap_replayed_turn p user t now s) = st_erasures s"
  by (simp add: reap_replayed_turn_def drop_lease_of_turn_def split: option.split)

lemma replay_request_ok:
  assumes "store_ok s" "replay_request p user cid req content now s = Inr (r, s')"
  shows "store_ok s' \<and> st_erasures s' = st_erasures s"
  using assms reap_replayed_turn_ok [OF assms(1)]
  by (auto simp: replay_request_def Let_def release_request_def split: option.splits if_splits
      intro!: delete_requests_ok)

lemma ensure_conversation_ok:
  assumes "store_ok s" "ensure_conversation user cid new_cid title now v s = Inr (r, s')"
  shows "store_ok s' \<and> st_erasures s' = st_erasures s"
  using assms
  by (auto simp: ensure_conversation_def and_then_Inr dest: insert_conversation_ok split: option.splits if_splits)
     (auto simp: insert_conversation_def split: if_splits)

lemma claim_lease_ok:
  assumes "store_ok s" "claim_lease p user cid now s = Inr s'"
  shows "store_ok s' \<and> st_erasures s' = st_erasures s"
proof (cases "find_lease s user cid")
  case None
  with assms show ?thesis by (simp add: claim_lease_def)
next
  case (Some l)
  let ?s = "fail_running user (lz_turn l) now s"
  let ?P = "\<lambda>m. lz_user m = user \<and> lz_conv m = cid"
  from Some have l: "l \<in> set (st_leases s)" "?P l" by (auto simp: find_lease_def find_Some_iff)
  have s': "s' = ?s\<lparr>st_leases := delete_where ?P (st_leases ?s)\<rparr>"
    using assms(2) Some by (auto simp: claim_lease_def Let_def split: if_splits)
  have "tn_status t \<noteq> TRunning"
    if "m \<in> set (st_leases ?s)" "?P m" "t \<in> set (st_turns ?s)" "tn_id t = lz_turn m" for m t
  proof -
    have ok: "store_ok ?s" using assms(1) by (rule fail_running_ok)
    from that(1) have m: "m \<in> set (st_leases s)" by (simp add: fail_running_def)
    with l that(2) have "m = l"
      using store_okD(2) [OF assms(1)] by (auto simp: leases_ok_def distinct_map inj_on_def)
    moreover from that(1) store_okD(2) [OF ok] obtain u where
      "u \<in> set (st_turns ?s)" "tn_id u = lz_turn m" "tn_user u = lz_user m" by (auto simp: leases_ok_def)
    moreover from this that(3,4) have "u = t" by (intro turn_unique [OF store_okD(1) [OF ok]]) auto
    ultimately show ?thesis using fail_running_stops [OF that(3)] that(2) by simp
  qed
  then have "store_ok s'" unfolding s' by (intro delete_leases_ok fail_running_ok assms(1))
  then show ?thesis by (simp add: s')
qed

definition new_turn_row :: "string \<Rightarrow> string \<Rightarrow> string \<Rightarrow> string \<Rightarrow> nat \<Rightarrow> time \<Rightarrow> turn" where
  "new_turn_row user cid tid req mid now =
     \<lparr>tn_id = tid, tn_user = user, tn_conv = cid, tn_request = Some req, tn_user_msg = Some mid,
      tn_reply_msg = None, tn_status = TRunning, tn_started = now, tn_completed = None\<rparr>"

lemma insert_message_parts [simp]:
  "fst (insert_message user cid r content kind recs ts tid s) = st_next_message s"
  "st_turns (snd (insert_message user cid r content kind recs ts tid s)) = st_turns s"
  "st_leases (snd (insert_message user cid r content kind recs ts tid s)) = st_leases s"
  "st_requests (snd (insert_message user cid r content kind recs ts tid s)) = st_requests s"
  "st_erasures (snd (insert_message user cid r content kind recs ts tid s)) = st_erasures s"
  "st_jobs (snd (insert_message user cid r content kind recs ts tid s)) = st_jobs s"
  "st_conversations (snd (insert_message user cid r content kind recs ts tid s)) = st_conversations s"
  by (simp_all add: insert_message_def Let_def)

text \<open>What \<open>open_turn\<close> does when it succeeds.\<close>

lemma open_turn_Inr:
  assumes "open_turn p user cid tid req content now expires s = Inr (t, s')"
  shows "t = new_turn_row user cid tid req (st_next_message s) now
    \<and> tid \<notin> tn_id ` set (st_turns s)
    \<and> (\<forall>q \<in> set (st_requests s). \<not> (rq_user q = user \<and> rq_id q = req) \<and> rq_turn q \<noteq> tid)
    \<and> (\<forall>l \<in> set (st_leases s). \<not> (lz_user l = user \<and> lz_conv l = cid) \<and> lz_turn l \<noteq> tid)
    \<and> s' = touch_conversation user cid now
        (snd (insert_message user cid ''user'' content None None now (Some tid) s)
          \<lparr>st_turns := st_turns s @ [t],
           st_requests := st_requests s @ [\<lparr>rq_user = user, rq_id = req, rq_conv = cid, rq_turn = tid, rq_created = now\<rparr>],
           st_leases := st_leases s @ [\<lparr>lz_user = user, lz_conv = cid, lz_turn = tid, lz_acquired = now,
                  lz_expires = expires, lz_owner = Some (pr_owner p)\<rparr>]\<rparr>)"
proof -
  let ?r = "insert_message user cid ''user'' content None None now (Some tid) s"
  have r: "?r = (st_next_message s, snd ?r)" by (simp add: prod_eq_iff)
  show ?thesis
    using assms unfolding open_turn_def Let_def
    by (subst (asm) r)
       (auto simp: and_then_Inr insert_turn_def insert_request_def insert_lease_def turn_row_ok_def
          list_ex_iff new_turn_row_def split: if_splits)
qed

lemma open_turn_ok:
  assumes ok: "store_ok s" and free: "user \<notin> fst ` set (st_erasures s)"
    and run: "open_turn p user cid tid req content now expires s = Inr (t, s')"
  shows "store_ok s'"
proof -
  let ?s1 = "snd (insert_message user cid ''user'' content None None now (Some tid) s)"
  note o = open_turn_Inr [OF run]
  let ?rq = "\<lparr>rq_user = user, rq_id = req, rq_conv = cid, rq_turn = tid, rq_created = now\<rparr>"
  let ?l = "\<lparr>lz_user = user, lz_conv = cid, lz_turn = tid, lz_acquired = now,
                  lz_expires = expires, lz_owner = Some (pr_owner p)\<rparr>"
  have t: "tn_id t = tid" "tn_user t = user" "tn_conv t = cid" "turn_row_ok t"
    using o by (auto simp: new_turn_row_def turn_row_ok_def)
  have "turns_ok (st_turns s @ [t])"
    using store_okD(1) [OF ok] o t by (simp add: turns_ok_def)
  moreover have "leases_ok (st_turns s @ [t]) (st_leases s @ [?l])"
    using store_okD(2) [OF ok] o t by (simp add: leases_ok_def image_iff) blast
  moreover have "requests_ok (st_turns s @ [t]) (st_requests s @ [?rq])"
    using store_okD(3) [OF ok] o t by (simp add: requests_ok_def image_iff) blast
  moreover have "barrier_ok (st_erasures s) (st_leases s @ [?l]) (st_jobs s)"
    using store_okD(5) [OF ok] free by (simp add: barrier_ok_def)
  ultimately have "store_ok (?s1\<lparr>st_turns := st_turns s @ [t], st_requests := st_requests s @ [?rq],
      st_leases := st_leases s @ [?l]\<rparr>)"
    using insert_message_ok [OF ok, of user cid "''user''" content None None now "Some tid"]
    by (simp add: store_parts)
  with o show ?thesis by (simp add: touch_conversation_ok)
qed

lemma erasures_name [simp]: "st_erasures (name_conversation user cid title s) = st_erasures s"
  by (simp add: name_conversation_def split: option.split)

lemma start_claimed_ok:
  assumes "store_ok s" "sq_user q \<notin> fst ` set (st_erasures s)"
    and "start_claimed p q req new_cid tid now cid s = Inr (r, s')"
  shows "store_ok s'"
proof -
  from assms(3) obtain c created s1 s2 t where
    1: "ensure_conversation (sq_user q) cid new_cid (sq_title q) now (sq_provenance q) s = Inr ((c, created), s1)" and
    2: "claim_lease p (sq_user q) c now s1 = Inr s2" and
    3: "open_turn p (sq_user q) c tid req (sq_content q) now (now + of_int (py_int (sq_lease_seconds q)))
          (name_conversation (sq_user q) c (sq_title q) s2) = Inr (t, s')"
    by (auto simp: start_claimed_def and_then_Inr)
  note e = ensure_conversation_ok [OF assms(1) 1]
  note c = claim_lease_ok [OF conjunct1 [OF e] 2]
  show ?thesis
    by (rule open_turn_ok [OF _ _ 3]) (use e c assms(2) in \<open>simp_all add: name_conversation_ok\<close>)
qed

lemma start_request_turn_ok:
  assumes "store_ok s" shows "store_ok (snd (start_request_turn p q new_cid tid now s))"
proof (cases "start_request_turn p q new_cid tid now s")
  case (Pair r s')
  show ?thesis
  proof (cases r)
    case (Inl e)
    with Pair assms show ?thesis by (auto simp: start_request_turn_def Let_def transact_Inl split: if_splits)
  next
    case (Inr v)
    with Pair obtain r1 s1 where free: "sq_user q \<notin> fst ` set (st_erasures s)"
      and rep: "replay_request p (sq_user q) (sq_conv q) (strip (sq_id q)) (sq_content q) now s = Inr (r1, s1)"
      and res: "(case r1 of Replayed t \<Rightarrow> Inr (\<lparr>sd_turn = t, sd_replayed = True, sd_created = False\<rparr>, s1)
          | RunIn cid \<Rightarrow> start_claimed p q (strip (sq_id q)) new_cid tid now cid s1) = Inr (v, s')"
      by (auto simp: start_request_turn_def Let_def transact_Inr and_then_Inr split: if_splits)
    note ok = replay_request_ok [OF assms rep]
    show ?thesis
      using res ok free start_claimed_ok [of s1 q] Pair by (cases r1) auto
  qed
qed

section \<open>Ending turns\<close>

lemma serial_jobs_snoc: "serial_jobs js \<Longrightarrow> jb_status j \<noteq> JRunning \<Longrightarrow> serial_jobs (js @ [j])"
  unfolding serial_jobs_def set_append list.set by blast

lemma new_job_ok:
  assumes "jobs_ok js n" "jb_id j = n" "jb_status j \<noteq> JRunning" "jb_claimed j = None" "jb_lease j = None"
    and "(jb_user j, jb_key j) \<notin> (\<lambda>k. (jb_user k, jb_key k)) ` set js"
  shows "jobs_ok (js @ [j]) (n + 1)"
  using assms by (auto simp: jobs_ok_def serial_jobs_snoc)

lemma enqueue_job_ok:
  assumes "store_ok s" "enqueue_job pstr user cid tid now spec s = Inr s'"
  shows "store_ok s'"
proof (cases "s' = s")
  case False
  with assms(2) obtain j where s': "s' = s\<lparr>st_jobs := st_jobs s @ [j], st_next_job := st_next_job s + 1\<rparr>"
    and j: "jb_id j = st_next_job s" "jb_status j = JPending" "jb_claimed j = None" "jb_lease j = None"
      "(jb_user j, jb_key j) \<notin> (\<lambda>k. (jb_user k, jb_key k)) ` set (st_jobs s)"
    by (force simp: enqueue_job_def Let_def list_ex_iff split: if_splits)
  from new_job_ok [OF store_okD(4) [OF assms(1)] j(1)] j
  have "jobs_ok (st_jobs s @ [j]) (st_next_job s + 1)" by simp
  moreover have "barrier_ok (st_erasures s) (st_leases s) (st_jobs s @ [j])"
    using store_okD(5) [OF assms(1)] j(2) by (simp add: barrier_ok_def)
  ultimately show ?thesis unfolding s' by (rule store_ok_jobs(1) [OF assms(1)])
qed (simp add: assms(1))

lemma enqueue_jobs_ok:
  "store_ok s \<Longrightarrow> enqueue_jobs pstr user cid tid now xs s = Inr s' \<Longrightarrow> store_ok s'"
  by (induction xs arbitrary: s) (auto simp: and_then_Inr dest: enqueue_job_ok)

lemma enqueue_jobs_turns:
  "enqueue_jobs pstr user cid tid now xs s = Inr s' \<Longrightarrow> st_turns s' = st_turns s"
proof (induction xs arbitrary: s)
  case (Cons x xs)
  then show ?case by (auto simp: and_then_Inr enqueue_job_def Let_def split: if_splits)
qed simp

lemma turns_replace_snapshot [simp]: "st_turns (replace_snapshot n s) = st_turns s"
  by (simp add: replace_snapshot_def)

lemma store_completion_ok:
  assumes "store_ok s" "store_completion pstr user t a now s = Inr s'"
  shows "store_ok s' \<and> st_turns s' = st_turns s"
proof (cases "fa_completed a \<and> fa_snapshot a \<noteq> None")
  case True
  then obtain n where "enqueue_jobs pstr user (tn_conv t) (tn_id t) now (fa_jobs a) (replace_snapshot n s) = Inr s'"
    using assms(2) by (auto simp: store_completion_def)
  from enqueue_jobs_ok [OF replace_snapshot_ok [OF assms(1)] this] enqueue_jobs_turns [OF this]
  show ?thesis by simp
qed (use assms in \<open>auto simp: store_completion_def split: option.splits if_splits\<close>)

lemma drop_lease_not_running:
  assumes "store_ok s" "find_turn s user tid = Some t" "tn_status t \<noteq> TRunning"
  shows "store_ok (drop_lease_of_turn user tid s)"
proof (rule drop_lease_of_turn_ok [OF assms(1)])
  fix u assume "u \<in> set (st_turns s)" "tn_user u = user" "tn_id u = tid"
  then have "u = t"
    using find_turnD [OF assms(2)] by (intro turn_unique [OF store_okD(1) [OF assms(1)]]) auto
  with assms(3) show "tn_status u \<noteq> TRunning" by simp
qed

lemma turns_set_metadata [simp]: "st_turns (set_metadata mid meta s) = st_turns s"
  by (simp add: set_metadata_def split: option.split)

lemma update_turns_stops:
  assumes "update_turns P f s = Inr s'" "\<And>t. P t \<Longrightarrow> tn_status (f t) \<noteq> TRunning"
    and "t \<in> set (st_turns s')" "tn_status t = TRunning"
  shows "t \<in> set (st_turns s) \<and> \<not> P t"
proof -
  from assms(1,3) have "t \<in> set (update_where P f (st_turns s))"
    by (auto simp: update_turns_def split: if_splits)
  then show ?thesis by (rule update_whereE) (use assms(2,4) in auto)
qed

lemma finalize_running_ok:
  assumes "store_ok s" "finalize_running pstr user t a now s = Inr s'"
  shows "store_ok s'"
proof -
  let ?s1 = "snd (insert_message user (tn_conv t) ''assistant'' (fa_content a) (fa_type a) (fa_recs a)
               now (Some (tn_id t)) s)"
  let ?s2 = "set_metadata (st_next_message s) (fa_metadata a) ?s1"
  let ?P = "\<lambda>u. tn_user u = user \<and> tn_id u = tn_id t \<and> tn_status u = TRunning"
  let ?f = "settle_turn a (st_next_message s) now"
  from assms(2) obtain s3 s4 where 3: "update_turns ?P ?f ?s2 = Inr s3"
    and 4: "store_completion pstr user t a now s3 = Inr s4"
    and s': "s' = touch_conversation user (tn_conv t) now (drop_lease_of_turn user (tn_id t) s4)"
    unfolding finalize_running_def Let_def case_prod_beta insert_message_parts(1)
    by (auto simp: and_then_Inr split: if_splits)
  have ok2: "store_ok ?s2" by (intro set_metadata_ok insert_message_ok assms(1))
  have ok3: "store_ok s3" by (rule update_turns_ok [OF ok2 3]) (simp add: settle_turn_def)
  note ok4 = store_completion_ok [OF ok3 4]
  have "store_ok (drop_lease_of_turn user (tn_id t) s4)"
  proof (rule drop_lease_of_turn_ok)
    fix u assume "u \<in> set (st_turns s4)" "tn_user u = user" "tn_id u = tn_id t"
    moreover have "tn_status (?f v) \<noteq> TRunning" for v by (simp add: settle_turn_def)
    ultimately show "tn_status u \<noteq> TRunning" using ok4 update_turns_stops [OF 3, of u] by auto
  qed (use ok4 in simp)
  then show ?thesis unfolding s' by (rule touch_conversation_ok)
qed

lemma finalize_request_turn_ok:
  assumes "store_ok s" shows "store_ok (snd (finalize_request_turn pstr user tid a now s))"
  using assms finalize_running_ok [OF assms]
  by (auto simp: finalize_request_turn_def transact_def and_then_def split: option.split sum.split)

lemma complete_turn_ok:
  assumes "store_ok s" shows "store_ok (snd (complete_turn user tid mid now s))"
proof -
  let ?P = "\<lambda>t. tn_user t = user \<and> tn_id t = tid"
  let ?f = "\<lambda>t. t\<lparr>tn_status := TCompleted, tn_completed := Some now,
                 tn_reply_msg := (case mid of None \<Rightarrow> tn_reply_msg t | Some m \<Rightarrow> Some m)\<rparr>"
  show ?thesis
  proof (cases "update_turns ?P ?f s")
    case (Inr s1)
    have ok1: "store_ok s1" by (rule update_turns_ok [OF assms Inr]) simp
    have "store_ok (drop_lease_of_turn user tid s1)"
    proof (rule drop_lease_of_turn_ok [OF ok1])
      fix u assume "u \<in> set (st_turns s1)" "tn_user u = user" "tn_id u = tid"
      with update_turns_stops [OF Inr, of u] show "tn_status u \<noteq> TRunning" by auto
    qed
    with ok1 Inr show ?thesis by (simp add: complete_turn_def Let_def)
  qed (use assms in \<open>simp add: complete_turn_def\<close>)
qed

lemma fail_turn_ok:
  assumes "store_ok s" shows "store_ok (fail_turn user tid now s)"
proof -
  let ?P = "\<lambda>t. tn_user t = user \<and> tn_id t = tid"
  let ?f = "\<lambda>t. t\<lparr>tn_status := TFailed, tn_completed := Some now\<rparr>"
  have u: "update_turns ?P ?f s = Inr (s\<lparr>st_turns := update_where ?P ?f (st_turns s)\<rparr>)"
    by (simp add: update_turns_def turn_row_ok_def list_all_iff)
  show ?thesis unfolding fail_turn_def
  proof (rule drop_lease_of_turn_ok)
    show "store_ok (s\<lparr>st_turns := update_where ?P ?f (st_turns s)\<rparr>)"
      by (rule update_turns_ok [OF assms u]) simp
    fix v assume "v \<in> set (st_turns (s\<lparr>st_turns := update_where ?P ?f (st_turns s)\<rparr>))" "tn_user v = user" "tn_id v = tid"
    with update_turns_stops [OF u, of v] show "tn_status v \<noteq> TRunning" by auto
  qed
qed

lemma close_orphans_ok: "store_ok s \<Longrightarrow> store_ok (snd (close_orphans pstr now ls s))"
proof (induction ls arbitrary: s)
  case (Cons l ls)
  let ?a = "\<lparr>fa_completed = False,
               fa_content = (if conversation_is_zh s (lz_user l) (lz_conv l)
                             then cancelled_text_zh else cancelled_text_en),
               fa_type = Some ''error'', fa_recs = Some (JArr []), fa_snapshot = None, fa_version = 1,
               fa_jobs = [], fa_metadata = None\<rparr>"
  obtain r s1 where r: "finalize_request_turn pstr (lz_user l) (lz_turn l) ?a now s = (r, s1)" by fastforce
  have "store_ok s1" using finalize_request_turn_ok [OF Cons.prems, of pstr "lz_user l" "lz_turn l" ?a now] r by simp
  then show ?case using Cons r by (cases r) (simp_all add: case_prod_beta Let_def)
qed simp

section \<open>The erasure barrier\<close>

lemma reap_user_leases_ok:
  assumes "reap_user_leases p user now ls s = Inr s'" "store_ok s"
  shows "store_ok s' \<and> st_leases s' = st_leases s \<and> st_jobs s' = st_jobs s \<and> st_erasures s' = st_erasures s
    \<and> (\<forall>t \<in> set (st_turns s'). tn_user t = user \<and> tn_id t \<in> lz_turn ` fst ` set ls \<longrightarrow> tn_status t \<noteq> TRunning)
    \<and> (\<forall>t \<in> set (st_turns s'). tn_status t = TRunning \<longrightarrow> t \<in> set (st_turns s))"
  using assms
proof (induction p user now ls s rule: reap_user_leases.induct)
  case (2 p user now l status ls s)
  let ?s = "fail_running user (lz_turn l) now s"
  from 2 have "reap_user_leases p user now ls ?s = Inr s'" and nb: "\<not> lease_blocks p s l status now"
    by (auto split: if_splits)
  with 2 fail_running_ok [OF 2(3)] have ih: "store_ok s' \<and> st_leases s' = st_leases ?s \<and> st_jobs s' = st_jobs ?s
    \<and> st_erasures s' = st_erasures ?s
    \<and> (\<forall>t \<in> set (st_turns s'). tn_user t = user \<and> tn_id t \<in> lz_turn ` fst ` set ls \<longrightarrow> tn_status t \<noteq> TRunning)
    \<and> (\<forall>t \<in> set (st_turns s'). tn_status t = TRunning \<longrightarrow> t \<in> set (st_turns ?s))"
    by blast
  have "tn_status t \<noteq> TRunning" if "t \<in> set (st_turns s')" "tn_user t = user" "tn_id t = lz_turn l" for t
    using ih that fail_running_stops [of t user "lz_turn l" now s] by blast
  moreover have "t \<in> set (st_turns s)" if "t \<in> set (st_turns ?s)" "tn_status t = TRunning" for t
    using that unfolding turns_fail_running by (elim update_whereE) simp_all
  moreover have "st_leases ?s = st_leases s \<and> st_jobs ?s = st_jobs s \<and> st_erasures ?s = st_erasures s"
    by (simp add: fail_running_def)
  ultimately show ?case using ih by (simp only: list.set image_insert fst_conv insert_iff) blast
qed simp

lemma barrier_set:
  assumes "store_ok s" "user \<notin> fst ` set (st_erasures s)"
    and "\<forall>t \<in> set (st_turns s). tn_user t = user \<longrightarrow> tn_status t \<noteq> TRunning"
    and "\<forall>j \<in> set (st_jobs s). jb_user j = user \<longrightarrow> jb_status j \<noteq> JRunning"
  shows "store_ok (s\<lparr>st_leases := delete_where (\<lambda>l. lz_user l = user) (st_leases s),
                     st_erasures := st_erasures s @ [(user, now)]\<rparr>)"
proof -
  have ok: "store_ok (s\<lparr>st_leases := delete_where (\<lambda>l. lz_user l = user) (st_leases s)\<rparr>)"
  proof (rule delete_leases_ok [OF assms(1)])
    fix l t assume l: "l \<in> set (st_leases s)" "lz_user l = user" and t: "t \<in> set (st_turns s)" "tn_id t = lz_turn l"
    from l(1) store_okD(2) [OF assms(1)] obtain u where "u \<in> set (st_turns s)" "tn_id u = lz_turn l" "tn_user u = lz_user l"
      by (auto simp: leases_ok_def)
    moreover from this t have "u = t" by (intro turn_unique [OF store_okD(1) [OF assms(1)]]) auto
    ultimately show "tn_status t \<noteq> TRunning" using assms(3) l(2) by auto
  qed
  have "barrier_ok (st_erasures s @ [(user, now)]) (delete_where (\<lambda>l. lz_user l = user) (st_leases s)) (st_jobs s)"
    using store_okD(5) [OF assms(1)] assms(2,4) by (auto simp: barrier_ok_def)
  with ok show ?thesis by (simp add: store_parts)
qed

lemma requeue_jobs_ok:
  assumes "store_ok s"
    and "\<And>j. jb_id (f j) = jb_id j \<and> jb_user (f j) = jb_user j \<and> jb_key (f j) = jb_key j
           \<and> jb_status (f j) \<noteq> JRunning \<and> jb_claimed (f j) = None \<and> jb_lease (f j) = None"
  shows "store_ok (s\<lparr>st_jobs := update_where P f (st_jobs s)\<rparr>)"
proof -
  have run: "j \<in> set (st_jobs s) \<and> \<not> P j" if "j \<in> set (update_where P f (st_jobs s))" "jb_status j = JRunning" for j
    using that(1) by (rule update_whereE) (use that(2) assms(2) in auto)
  have "serial_jobs (update_where P f (st_jobs s))"
    using store_okD(4) [OF assms(1)] run unfolding jobs_ok_def serial_jobs_def by blast
  then have "jobs_ok (update_where P f (st_jobs s)) (st_next_job s)"
    using store_okD(4) [OF assms(1)] assms(2) by (auto simp: jobs_ok_def map_update_where)
  moreover have "barrier_ok (st_erasures s) (st_leases s) (update_where P f (st_jobs s))"
    using store_okD(5) [OF assms(1)] run unfolding barrier_ok_def by blast
  ultimately show ?thesis by (rule store_ok_jobs(2) [OF assms(1)])
qed

lemma running_leased:
  assumes "store_ok s" "t \<in> set (st_turns s)" "tn_status t = TRunning"
  obtains l where "l \<in> set (st_leases s)" "lz_turn l = tn_id t" "lz_user l = tn_user t" "lz_conv l = tn_conv t"
proof -
  from assms store_okD(2) [OF assms(1)] have "tn_id t \<in> lz_turn ` set (st_leases s)"
    by (simp add: leases_ok_def)
  then obtain l where l: "l \<in> set (st_leases s)" "lz_turn l = tn_id t" by (metis imageE)
  with store_okD(2) [OF assms(1)] obtain u where
    u: "u \<in> set (st_turns s)" "tn_id u = lz_turn l" "tn_user u = lz_user l" "tn_conv u = lz_conv l"
    by (auto simp: leases_ok_def)
  with l assms(2) have "u = t" by (intro turn_unique [OF store_okD(1) [OF assms(1)]]) auto
  with u l that show ?thesis by auto
qed

lemma begin_privacy_erasure_ok:
  assumes "store_ok s" shows "store_ok (snd (begin_privacy_erasure p user now s))"
proof (cases "begin_privacy_erasure p user now s")
  case (Pair r s')
  show ?thesis
  proof (cases r)
    case (Inl e)
    with Pair assms show ?thesis by (auto simp: begin_privacy_erasure_def transact_Inl)
  next
    case (Inr v)
    let ?ls = "map (\<lambda>l. (l, lease_status s l)) (filter (\<lambda>l. lz_user l = user) (st_leases s))"
    from Pair Inr obtain s1 where free: "user \<notin> fst ` set (st_erasures s)"
      and reap: "reap_user_leases p user now ?ls s = Inr s1"
      and s': "(case running_job s1 user of
          Some j \<Rightarrow>
            if job_live j now then Inl (job_busy j now)
            else Inr ((), s1\<lparr>
              st_jobs := update_where (\<lambda>j. jb_user j = user \<and> jb_status j = JRunning)
                (\<lambda>j. j\<lparr>jb_status := JPending, jb_claimed := None, jb_lease := None, jb_updated := now\<rparr>) (st_jobs s1),
              st_leases := delete_where (\<lambda>l. lz_user l = user) (st_leases s1),
              st_erasures := st_erasures s1 @ [(user, now)]\<rparr>)
        | None \<Rightarrow>
            Inr ((), s1\<lparr>
              st_leases := delete_where (\<lambda>l. lz_user l = user) (st_leases s1),
              st_erasures := st_erasures s1 @ [(user, now)]\<rparr>)) = Inr ((), s')"
      by (auto simp: begin_privacy_erasure_def transact_Inr and_then_Inr split: if_splits)
    note r = reap_user_leases_ok [OF reap assms]
    have stop: "tn_status t \<noteq> TRunning" if t: "t \<in> set (st_turns s1)" "tn_user t = user" for t
    proof
      assume run: "tn_status t = TRunning"
      with r t have ts: "t \<in> set (st_turns s)" by blast
      with run assms obtain l where l: "l \<in> set (st_leases s)" "lz_turn l = tn_id t" "lz_user l = tn_user t"
        by (metis running_leased)
      with t have "tn_id t \<in> lz_turn ` fst ` set ?ls" by force
      with r t run show False by blast
    qed
    show ?thesis
    proof (cases "running_job s1 user")
      case None
      then have "\<forall>j \<in> set (st_jobs s1). jb_user j = user \<longrightarrow> jb_status j \<noteq> JRunning"
        by (auto simp: running_job_def find_None_iff)
      with barrier_set [of s1 user now] r stop free None s' Pair show ?thesis by auto
    next
      case (Some j)
      let ?f = "\<lambda>j. j\<lparr>jb_status := JPending, jb_claimed := None, jb_lease := None, jb_updated := now\<rparr>"
      let ?P = "\<lambda>j. jb_user j = user \<and> jb_status j = JRunning"
      let ?s2 = "s1\<lparr>st_jobs := update_where ?P ?f (st_jobs s1)\<rparr>"
      have "store_ok ?s2" by (rule requeue_jobs_ok) (use r in simp_all)
      moreover have "jb_status k \<noteq> JRunning" if "k \<in> set (update_where ?P ?f (st_jobs s1))" "jb_user k = user" for k
        using that(1) by (rule update_whereE) (use that(2) in simp_all)
      then have "\<forall>k \<in> set (st_jobs ?s2). jb_user k = user \<longrightarrow> jb_status k \<noteq> JRunning"
        by (simp del: set_update_where)
      moreover have "user \<notin> fst ` set (st_erasures ?s2)"
        "\<forall>t \<in> set (st_turns ?s2). tn_user t = user \<longrightarrow> tn_status t \<noteq> TRunning"
        using r free stop by simp_all
      ultimately have "store_ok (?s2\<lparr>st_leases := delete_where (\<lambda>l. lz_user l = user) (st_leases ?s2),
                     st_erasures := st_erasures ?s2 @ [(user, now)]\<rparr>)"
        by (intro barrier_set)
      with Some s' Pair show ?thesis by (auto split: if_splits)
    qed
  qed
qed

lemma end_privacy_erasure_ok: "store_ok s \<Longrightarrow> store_ok (end_privacy_erasure user s)"
  by (auto simp: end_privacy_erasure_def store_parts barrier_ok_def)

section \<open>Jobs\<close>

lemma release_expired_jobs_ok: "store_ok s \<Longrightarrow> store_ok (release_expired_jobs now s)"
  unfolding release_expired_jobs_def by (rule requeue_jobs_ok) simp_all

lemma job_unique: "jobs_ok js n \<Longrightarrow> i \<in> set js \<Longrightarrow> j \<in> set js \<Longrightarrow> jb_id i = jb_id j \<Longrightarrow> i = j"
  by (auto simp: jobs_ok_def distinct_map inj_on_def)

lemma next_ready_jobD: "next_ready_job s now = Some j \<Longrightarrow> j \<in> set (st_jobs s) \<and> job_ready s now j"
  by (auto simp: next_ready_job_def split: list.splits dest!: sort_key_hd)

text \<open>Setting one ready job running.\<close>

lemma run_job_ok:
  assumes "store_ok s" "j \<in> set (st_jobs s)" "job_ready s now j"
    and f: "\<And>k. jb_id (f k) = jb_id k \<and> jb_user (f k) = jb_user k \<and> jb_key (f k) = jb_key k \<and> jb_conv (f k) = jb_conv k
              \<and> jb_status (f k) = JRunning \<and> jb_claimed (f k) \<noteq> None \<and> jb_lease (f k) \<noteq> None"
  shows "store_ok (s\<lparr>st_jobs := update_where (\<lambda>k. jb_id k = jb_id j \<and> jb_status k = JPending) f (st_jobs s)\<rparr>)"
proof -
  let ?P = "\<lambda>k. jb_id k = jb_id j \<and> jb_status k = JPending"
  let ?js = "update_where ?P f (st_jobs s)"
  note ok = store_okD(4) [OF assms(1)]
  have ready: "jb_user j \<notin> fst ` set (st_erasures s)"
    "\<And>a. a \<in> set (st_jobs s) \<Longrightarrow> jb_status a = JRunning \<Longrightarrow> \<not> (jb_user a = jb_user j \<and> jb_conv a = jb_conv j)"
    using assms(3) by (auto simp: job_ready_def list_ex_iff)
  have run: "k = f j \<or> k \<in> set (st_jobs s)" if "k \<in> set ?js" for k
    using that by (rule update_whereE) (use job_unique [OF ok] assms(2) in blast)+
  have "serial_jobs ?js"
    unfolding serial_jobs_def
  proof (intro ballI impI)
    fix a b assume ab: "a \<in> set ?js" "b \<in> set ?js"
      "jb_status a = JRunning \<and> jb_status b = JRunning \<and> jb_user a = jb_user b \<and> jb_conv a = jb_conv b"
    consider "a = f j" "b = f j" | "a = f j" "b \<in> set (st_jobs s)" | "b = f j" "a \<in> set (st_jobs s)"
      | "a \<in> set (st_jobs s)" "b \<in> set (st_jobs s)"
      using run [OF ab(1)] run [OF ab(2)] by blast
    then show "jb_id a = jb_id b"
    proof cases
      case 2 with ab(3) ready(2) [of b] f [of j] show ?thesis by simp
    next
      case 3 with ab(3) ready(2) [of a] f [of j] show ?thesis by simp
    next
      case 4 with ab(3) ok show ?thesis unfolding jobs_ok_def serial_jobs_def by blast
    qed simp
  qed
  then have "jobs_ok ?js (st_next_job s)"
    using ok f by (auto simp: jobs_ok_def map_update_where)
  moreover have "jb_user k \<notin> fst ` set (st_erasures s)" if "k \<in> set ?js" "jb_status k = JRunning" for k
  proof (cases "k = f j")
    case True
    with ready(1) f [of j] show ?thesis by simp
  next
    case False
    with run [OF that(1)] that(2) store_okD(5) [OF assms(1)] show ?thesis unfolding barrier_ok_def by blast
  qed
  then have "barrier_ok (st_erasures s) (st_leases s) ?js"
    using store_okD(5) [OF assms(1)] unfolding barrier_ok_def by blast
  ultimately show ?thesis by (rule store_ok_jobs(2) [OF assms(1)])
qed

lemma claim_background_job_ok: "store_ok s \<Longrightarrow> store_ok (snd (claim_background_job w secs now s))"
  by (auto simp: claim_background_job_def Let_def split: option.split
      intro!: release_expired_jobs_ok run_job_ok dest!: next_ready_jobD)

text \<open>A change of a job's result or clock only.\<close>

lemma note_jobs_ok:
  assumes "store_ok s"
    and f: "\<And>j. jb_id (f j) = jb_id j \<and> jb_user (f j) = jb_user j \<and> jb_key (f j) = jb_key j \<and> jb_conv (f j) = jb_conv j
           \<and> jb_status (f j) = jb_status j \<and> jb_claimed (f j) = jb_claimed j \<and> jb_lease (f j) = jb_lease j"
  shows "store_ok (s\<lparr>st_jobs := update_where P f (st_jobs s)\<rparr>)"
proof -
  let ?js = "update_where P f (st_jobs s)"
  note ok = store_okD(4) [OF assms(1)]
  have run: "\<exists>i \<in> set (st_jobs s). jb_id i = jb_id k \<and> jb_user i = jb_user k \<and> jb_conv i = jb_conv k \<and> jb_status i = jb_status k"
    if "k \<in> set ?js" for k
    using that by (rule update_whereE) (use f in \<open>metis+\<close>)
  have "serial_jobs ?js"
    unfolding serial_jobs_def
  proof (intro ballI impI)
    fix a b assume ab: "a \<in> set ?js" "b \<in> set ?js"
      "jb_status a = JRunning \<and> jb_status b = JRunning \<and> jb_user a = jb_user b \<and> jb_conv a = jb_conv b"
    obtain i k where "i \<in> set (st_jobs s)" "k \<in> set (st_jobs s)"
      "jb_id i = jb_id a \<and> jb_user i = jb_user a \<and> jb_conv i = jb_conv a \<and> jb_status i = jb_status a"
      "jb_id k = jb_id b \<and> jb_user k = jb_user b \<and> jb_conv k = jb_conv b \<and> jb_status k = jb_status b"
      using run [OF ab(1)] run [OF ab(2)] by blast
    with ab(3) ok show "jb_id a = jb_id b" unfolding jobs_ok_def serial_jobs_def by metis
  qed
  then have "jobs_ok ?js (st_next_job s)"
    using ok f by (auto simp: jobs_ok_def map_update_where)
  moreover have "barrier_ok (st_erasures s) (st_leases s) ?js"
    using store_okD(5) [OF assms(1)] run unfolding barrier_ok_def by metis
  ultimately show ?thesis by (rule store_ok_jobs(2) [OF assms(1)])
qed

lemma save_background_job_result_ok: "store_ok s \<Longrightarrow> store_ok (snd (save_background_job_result i w r now s))"
  by (simp add: save_background_job_result_def update_owned_job_def Let_def note_jobs_ok)

lemma complete_background_job_ok: "store_ok s \<Longrightarrow> store_ok (snd (complete_background_job i w now s))"
  by (simp add: complete_background_job_def update_owned_job_def Let_def requeue_jobs_ok)

lemma retry_background_job_ok: "store_ok s \<Longrightarrow> store_ok (snd (retry_background_job i w err limit now s))"
  by (simp add: retry_background_job_def Let_def requeue_jobs_ok split: option.split)

section \<open>Deletion\<close>

text \<open>Deleting the rows of a scope: a set of (user, conversation) pairs.\<close>

lemma serial_jobs_subset: "serial_jobs js \<Longrightarrow> set js' \<subseteq> set js \<Longrightarrow> serial_jobs js'"
  unfolding serial_jobs_def by blast

lemma drop_scope_ok:
  assumes "store_ok s"
  shows "store_ok (s\<lparr>st_messages := delete_where P (st_messages s), st_snapshots := delete_where N (st_snapshots s),
       st_turns := delete_where (\<lambda>t. Q (tn_user t) (tn_conv t)) (st_turns s),
       st_requests := delete_where (\<lambda>r. Q (rq_user r) (rq_conv r)) (st_requests s),
       st_leases := delete_where (\<lambda>l. Q (lz_user l) (lz_conv l)) (st_leases s),
       st_jobs := delete_where J (st_jobs s)\<rparr>)"
proof -
  let ?ts = "delete_where (\<lambda>t. Q (tn_user t) (tn_conv t)) (st_turns s)"
  let ?ls = "delete_where (\<lambda>l. Q (lz_user l) (lz_conv l)) (st_leases s)"
  note ok = store_okD [OF assms]
  have "turns_ok ?ts" using ok(1) by (simp add: turns_ok_def)
  moreover have "tn_id t \<in> lz_turn ` set ?ls" if "t \<in> set ?ts" "tn_status t = TRunning" for t
  proof -
    from that obtain l where l: "l \<in> set (st_leases s)" "lz_turn l = tn_id t" "lz_user l = tn_user t" "lz_conv l = tn_conv t"
      by (auto intro: running_leased [OF assms])
    moreover from l that(1) have "l \<in> set ?ls" by simp
    ultimately show ?thesis by (metis image_eqI)
  qed
  then have "leases_ok ?ts ?ls"
    using ok(2) unfolding leases_ok_def by (simp del: set_delete_where) (simp, metis)
  moreover have "requests_ok ?ts (delete_where (\<lambda>r. Q (rq_user r) (rq_conv r)) (st_requests s))"
    using ok(3) unfolding requests_ok_def by simp metis
  moreover have "jobs_ok (delete_where J (st_jobs s)) (st_next_job s)"
    using ok(4) serial_jobs_subset [of "st_jobs s" "delete_where J (st_jobs s)"] by (auto simp: jobs_ok_def)
  moreover have "barrier_ok (st_erasures s) ?ls (delete_where J (st_jobs s))"
    using ok(5) by (simp add: barrier_ok_def)
  moreover have "messages_ok (delete_where P (st_messages s)) (st_next_message s)"
    using ok(6) by (simp add: messages_ok_def)
  ultimately show ?thesis using assms by (simp add: store_parts)
qed

lemma drop_conversation_rows_ok: "store_ok s \<Longrightarrow> store_ok (drop_conversation_rows user cid s)"
  unfolding drop_conversation_rows_def by (rule drop_scope_ok)

lemma drop_user_rows_ok: "store_ok s \<Longrightarrow> store_ok (drop_user_rows user s)"
  unfolding drop_user_rows_def by (rule drop_scope_ok)

lemma delete_conversations_ok:
  "store_ok s \<Longrightarrow> store_ok (s\<lparr>st_conversations := delete_where P (st_conversations s)\<rparr>)"
  using store_okD(7) [of s] by (intro store_ok_conversations) (simp_all add: keys_ok_def)

lemma delete_forks_favorites_ok:
  "store_ok s \<Longrightarrow> store_ok (s\<lparr>st_forks := delete_where P (st_forks s)\<rparr>)"
  "store_ok s \<Longrightarrow> store_ok (s\<lparr>st_favorites := delete_where R (st_favorites s)\<rparr>)"
  using store_okD(7) [of s] by (intro store_ok_rest; simp add: keys_ok_def)+

lemma delete_conversation_ok: "store_ok s \<Longrightarrow> store_ok (snd (delete_conversation p user cid now s))"
  unfolding delete_conversation_def
  by (cases "raise_if_turn_running p s user (Some cid) now")
     (simp_all add: drop_conversation_rows_ok delete_conversations_ok)

lemma delete_all_conversations_ok: "store_ok s \<Longrightarrow> store_ok (snd (delete_all_conversations p user now s))"
  unfolding delete_all_conversations_def drop_user_conversations_def
  by (cases "raise_if_turn_running p s user None now") (simp_all add: drop_user_rows_ok delete_conversations_ok)

lemma clear_conversation_messages_ok: "store_ok s \<Longrightarrow> store_ok (snd (clear_conversation_messages p user cid now later s))"
  unfolding clear_conversation_messages_def
  by (cases "raise_if_turn_running p s user (Some cid) now")
     (simp_all add: drop_conversation_rows_ok touch_conversation_ok)

lemma delete_all_user_data_ok:
  assumes "store_ok s" shows "store_ok (snd (delete_all_user_data user s))"
proof -
  let ?s1 = "drop_user_rows user s"
  let ?s2 = "?s1\<lparr>st_forks := delete_where (\<lambda>f. fk_user f = user) (st_forks ?s1),
                  st_favorites := delete_where (\<lambda>f. fv_user f = user) (st_favorites ?s1)\<rparr>"
  have "store_ok (?s1\<lparr>st_forks := delete_where (\<lambda>f. fk_user f = user) (st_forks ?s1)\<rparr>)"
    by (intro delete_forks_favorites_ok drop_user_rows_ok assms)
  from delete_forks_favorites_ok(2) [OF this, of "\<lambda>f. fv_user f = user"] have "store_ok ?s2" by simp
  then have "store_ok (drop_user_conversations user ?s2)"
    unfolding drop_user_conversations_def by (rule delete_conversations_ok)
  with assms show ?thesis by (simp add: delete_all_user_data_def Let_def transact_def)
qed

section \<open>Conversations, messages, favorites, owners\<close>

lemma create_conversation_ok: "store_ok s \<Longrightarrow> store_ok (snd (create_conversation user title arch v strict cid now s))"
  unfolding create_conversation_def Let_def
  by (simp add: transact_def and_then_def insert_conversation_ok split: sum.split)

lemma update_conversation_ok:
  "store_ok s \<Longrightarrow> (\<And>c. cv_user (f c) = cv_user c \<and> cv_id (f c) = cv_id c) \<Longrightarrow> store_ok (update_conversation user cid f s)"
  unfolding update_conversation_def by (rule update_conversations_ok)

lemma add_favorite_ok: "store_ok s \<Longrightarrow> store_ok (add_favorite user url prop now s)"
  using store_okD(7) [of s]
  by (auto simp: add_favorite_def keys_ok_def map_update_where list_ex_iff intro!: store_ok_rest)

lemma heartbeat_ok: "store_ok s \<Longrightarrow> store_ok (heartbeat p now s)"
  using store_okD(7) [of s] unfolding heartbeat_def
  by (intro store_ok_rest) (simp_all add: keys_ok_def map_update_where)

lemma register_owner_ok: "store_ok s \<Longrightarrow> store_ok (register_owner p now s)"
proof -
  let ?k = "delete_where (\<lambda>w. ow_host w = pr_host p \<and> ow_id w \<noteq> pr_owner p
                    \<and> (ow_pid w = pr_pid p \<or> \<not> pr_alive p (ow_pid w))) (st_owners s)"
  assume ok: "store_ok s"
  have "distinct (map ow_id ?k)" using store_okD(7) [OF ok] by (simp add: keys_ok_def)
  then show ?thesis unfolding register_owner_def Let_def
    by (intro store_ok_rest ok) (auto simp: map_update_where list_ex_iff simp del: set_delete_where)
qed

lemma patch_latest_snapshot_summary_ok:
  "store_ok s \<Longrightarrow> store_ok (snd (patch_latest_snapshot_summary user cid summary tid now s))"
  using store_okD(7) [of s]
  by (auto simp: patch_latest_snapshot_summary_def keys_ok_def map_update_where split: option.split intro!: store_ok_rest)

section \<open>Branches\<close>

lemma insert_turn_ok:
  assumes "store_ok s" "insert_turn t s = Inr s'" "tn_status t \<noteq> TRunning"
  shows "store_ok s'"
proof -
  from assms(2) have s': "s' = s\<lparr>st_turns := st_turns s @ [t]\<rparr>" and n: "turn_row_ok t" "tn_id t \<notin> tn_id ` set (st_turns s)"
    by (auto simp: insert_turn_def split: if_splits)
  note ok = store_okD [OF assms(1)]
  have "turns_ok (st_turns s @ [t])" using ok(1) n by (simp add: turns_ok_def)
  moreover have "leases_ok (st_turns s @ [t]) (st_leases s)"
    using ok(2) assms(3) unfolding leases_ok_def by simp
  moreover have "requests_ok (st_turns s @ [t]) (st_requests s)"
    using ok(3) unfolding requests_ok_def by auto
  ultimately show ?thesis unfolding s' by (rule store_ok_turns [OF assms(1)])
qed

lemma insert_turns_ok:
  "store_ok s \<Longrightarrow> insert_turns ts s = Inr s' \<Longrightarrow> \<forall>t \<in> set ts. tn_status t \<noteq> TRunning \<Longrightarrow> store_ok s'"
  by (induction ts arbitrary: s) (auto simp: and_then_Inr dest: insert_turn_ok)

lemma copy_messages_ok: "store_ok s \<Longrightarrow> store_ok (snd (copy_messages user child nt ih ms acc s))"
proof (induction ms arbitrary: acc s)
  case (Cons m ms)
  then show ?case
    by (simp add: case_prod_beta set_metadata_ok insert_message_ok)
qed simp

lemma copy_snapshots_ok: "store_ok s \<Longrightarrow> store_ok (copy_snapshots user child nt later ts s)"
  by (induction ts arbitrary: s) (auto simp: replace_snapshot_ok split: option.split)

lemma materialize_branch_ok:
  assumes "store_ok s" "materialize_branch user source child ih cutoff nt later s = Inr s'"
    and "\<forall>t \<in> set ih. tn_status t \<noteq> TRunning"
  shows "store_ok s'"
proof -
  let ?others = "other_turns s user source ih"
  let ?c = "copy_messages user child nt ih (filter (inherits_message ih ?others cutoff) (get_messages s user source)) [] s"
  from assms(2) obtain s2 where 2: "insert_turns (map (copied_turn user child nt (fst ?c)) ih) (snd ?c) = Inr s2"
    and s': "s' = copy_snapshots user child nt later ih s2"
    by (auto simp: materialize_branch_def Let_def case_prod_beta and_then_Inr)
  have "store_ok s2"
    by (rule insert_turns_ok [OF copy_messages_ok [OF assms(1)] 2]) (use assms(3) in \<open>simp add: copied_turn_def\<close>)
  then show ?thesis unfolding s' by (rule copy_snapshots_ok)
qed

lemma record_fork_ok: "store_ok s \<Longrightarrow> store_ok (record_fork user key child print later s)"
  using store_okD(7) [of s]
  by (auto simp: record_fork_def keys_ok_def split: option.split intro!: store_ok_rest)

lemma branch_off_ok:
  assumes "store_ok s" "branch_off user source key fp row ih cutoff ids s = Inr (r, s')"
    and "\<forall>t \<in> set ih. tn_status t \<noteq> TRunning"
  shows "store_ok s'"
  using assms
  by (auto simp: branch_off_def and_then_Inr intro!: record_fork_ok dest: insert_conversation_ok materialize_branch_ok)

text \<open>A fork or edit either leaves the store as it is or is one \<open>branch_off\<close> of completed turns.\<close>

lemma fork_conversation_cases:
  assumes "fork_conversation user source tid title key ids s = (r, s')"
  shows "s' = s \<and> (\<forall>c. r \<noteq> Inr (c, False)) \<or> (\<exists>src ft v. find_conversation s user source = Some src \<and> resolve_fork_turn s user source tid = Inr ft
    \<and> r = Inr v \<and> branch_off user source key (fork_fingerprint ''fork'' source tid)
         (branch_row src (bi_child ids) (bounded_title title (cv_title src) (utf '' (branch)''))
           (bi_now ids) (Some (tn_id ft)) None None)
         (forked_turns s user source ft) (fork_cutoff ft) ids s = Inr (v, s'))"
  using assms
  by (cases r) (auto simp: fork_conversation_def transact_Inl transact_Inr and_then_Inr Let_def split: option.splits)

lemma branch_for_edit_cases:
  assumes "branch_for_edit user source tid title key ids s = (r, s')"
  shows "s' = s \<or> (\<exists>src edited ih v. find_conversation s user source = Some src
    \<and> find_turn s user tid = Some edited \<and> tn_conv edited = source
    \<and> ih = sort_key tn_started (filter (\<lambda>t. tn_started t < tn_started edited) (completed_turns s user source))
    \<and> r = Inr v \<and> branch_off user source key (fork_fingerprint ''edit'' source (Some tid))
         (branch_row src (bi_child ids) (bounded_title title (cv_title src) (utf '' (edit)''))
           (bi_now ids) (if ih = [] then None else Some (tn_id (last ih)))
           (Some ''edit'') (Some (resolve_slot_anchor s user src tid)))
         ih (edit_cutoff edited ih) ids s = Inr (v, s'))"
proof (cases "s' = s")
  case False
  with assms obtain w where w: "r = Inr w"
    by (cases r) (simp_all add: branch_for_edit_def transact_Inl)
  with assms have run: "and_then (replay_fork s user key source True (Some tid)) (\<lambda>replayed.
      case replayed of
        Some c \<Rightarrow> Inr ((c, True), s)
      | None \<Rightarrow>
          (case find_conversation s user source of
             None \<Rightarrow> Inl (ConversationNotFound source)
           | Some src \<Rightarrow>
          (case find_turn s user tid of
             None \<Rightarrow> Inl (TurnNotFound tid)
           | Some edited \<Rightarrow>
               if tn_conv edited \<noteq> source then Inl (TurnNotInConversation tid)
               else let inherited = sort_key tn_started
                          (filter (\<lambda>t. tn_started t < tn_started edited) (completed_turns s user source));
                        row = branch_row src (bi_child ids)
                          (bounded_title title (cv_title src) (utf '' (edit)'')) (bi_now ids)
                          (if inherited = [] then None else Some (tn_id (last inherited)))
                          (Some ''edit'') (Some (resolve_slot_anchor s user src tid)) in
               branch_off user source key (fork_fingerprint ''edit'' source (Some tid)) row inherited
                 (edit_cutoff edited inherited) ids s))) = Inr (w, s')"
    by (simp add: branch_for_edit_def transact_Inr)
  then have "replay_fork s user key source True (Some tid) = Inr None"
    using False by (auto simp: and_then_Inr split: option.splits)
  with run obtain src edited where "find_conversation s user source = Some src" "find_turn s user tid = Some edited"
    "tn_conv edited = source"
    by (auto split: option.splits if_splits)
  with run \<open>replay_fork s user key source True (Some tid) = Inr None\<close> w show ?thesis
    by (simp add: Let_def)
qed simp

lemma completed_not_running: "\<forall>t \<in> set (sort_key f (filter P (completed_turns s user cid))). tn_status t \<noteq> TRunning"
  by (simp add: completed_turns_def)

lemma fork_conversation_ok:
  assumes "store_ok s" shows "store_ok (snd (fork_conversation user source tid title key ids s))"
proof (cases "fork_conversation user source tid title key ids s")
  case (Pair r s')
  from fork_conversation_cases [OF this] show ?thesis
    using Pair assms branch_off_ok [OF assms _ completed_not_running] by (auto simp: forked_turns_def)
qed

lemma branch_for_edit_ok:
  assumes "store_ok s" shows "store_ok (snd (branch_for_edit user source tid title key ids s))"
proof (cases "branch_for_edit user source tid title key ids s")
  case (Pair r s')
  from branch_for_edit_cases [OF this] show ?thesis
    using Pair assms branch_off_ok [OF assms _ completed_not_running] by auto
qed

section \<open>Every operation keeps the invariant\<close>

lemma favorites_messages_ok:
  "store_ok s \<Longrightarrow> store_ok (snd (add_message user cid r content kind recs ts tid s))"
  "store_ok s \<Longrightarrow> store_ok (set_message_turn user mid tag s)"
  "store_ok s \<Longrightarrow> store_ok (snd (remove_favorite user url s))"
  "store_ok s \<Longrightarrow> store_ok (snd (delete_all_favorites user s))"
  by (simp_all add: add_message_def case_prod_beta touch_conversation_ok insert_message_ok set_message_turn_def
      update_messages_ok remove_favorite_def delete_all_favorites_def delete_forks_favorites_ok)

lemma conversation_edits_ok:
  "store_ok s \<Longrightarrow> store_ok (set_agent_assignment user cid arch v strict s)"
  "store_ok s \<Longrightarrow> store_ok (snd (rename_conversation user cid title now s))"
  by (simp_all add: set_agent_assignment_def rename_conversation_def Let_def update_conversation_ok)

lemmas step_ok = register_owner_ok heartbeat_ok start_request_turn_ok finalize_request_turn_ok complete_turn_ok
  fail_turn_ok close_orphans_ok begin_privacy_erasure_ok end_privacy_erasure_ok delete_all_user_data_ok
  create_conversation_ok conversation_edits_ok delete_conversation_ok delete_all_conversations_ok
  clear_conversation_messages_ok favorites_messages_ok add_favorite_ok claim_background_job_ok
  save_background_job_result_ok complete_background_job_ok retry_background_job_ok replace_snapshot_ok
  patch_latest_snapshot_summary_ok fork_conversation_ok branch_for_edit_ok

lemma store_step_ok: "store_ok s \<Longrightarrow> store_ok (store_step pstr s op)"
  by (cases op) (simp_all add: step_ok close_orphaned_turns_def save_turn_snapshot_def)

interpretation store_machine: invariant_machine empty_store "\<lambda>_ _. True" "store_step pstr" store_ok for pstr
  by unfold_locales (simp_all add: store_ok_empty store_step_ok)

end
