(* ===== verification/StoreGuarantees.thy ===== *)
theory StoreGuarantees
  imports StoreInvariant
begin

text \<open>
  What the conversation store promises: single-flight turns, the erasure barrier, serial jobs,
  request ids that run once, complete erasure, forks that keep their source, bounded lineages.
  The first group follows from the invariant of every reachable store.
\<close>

section \<open>Reachable stores\<close>



text \<open>
  C11. Whatever operations are issued, the jobs of one conversation run one at a time, and a job
  has an owner and a lease exactly while it runs.
\<close>

theorem jobs_run_serially:
  "\<forall>i \<in> set (st_jobs (run_ops (store_step pstr) empty_store ops)).
     (jb_status i = JRunning \<longleftrightarrow> jb_claimed i \<noteq> None) \<and> (jb_status i = JRunning \<longleftrightarrow> jb_lease i \<noteq> None)
     \<and> (\<forall>j \<in> set (st_jobs (run_ops (store_step pstr) empty_store ops)).
          jb_status i = JRunning \<and> jb_status j = JRunning \<and> jb_user i = jb_user j \<and> jb_conv i = jb_conv j \<longrightarrow> i = j)"
proof -
  let ?s = "run_ops (store_step pstr) empty_store ops"
  have ok: "jobs_ok (st_jobs ?s) (st_next_job ?s)"
    by (intro store_okD(4) store_machine.inv_run) simp
  have "i = j" if "i \<in> set (st_jobs ?s)" "j \<in> set (st_jobs ?s)" "jb_status i = JRunning" "jb_status j = JRunning"
    "jb_user i = jb_user j" "jb_conv i = jb_conv j" for i j
  proof (rule job_unique [OF ok that(1,2)])
    show "jb_id i = jb_id j" using ok that unfolding jobs_ok_def serial_jobs_def by blast
  qed
  moreover have "(jb_status i = JRunning \<longleftrightarrow> jb_claimed i \<noteq> None) \<and> (jb_status i = JRunning \<longleftrightarrow> jb_lease i \<noteq> None)"
    if "i \<in> set (st_jobs ?s)" for i
    using ok that unfolding jobs_ok_def by blast
  ultimately show ?thesis by blast
qed

lemma completed_turns_answered:
  "\<forall>t \<in> set (st_turns (run_ops (store_step pstr) empty_store ops)). tn_status t = TCompleted \<longrightarrow> tn_reply_msg t \<noteq> None"
proof -
  have "turns_ok (st_turns (run_ops (store_step pstr) empty_store ops))"
    by (intro store_okD(1) store_machine.inv_run) simp
  then show ?thesis by (auto simp: turns_ok_def turn_row_ok_def)
qed

section \<open>A request runs once\<close>

lemma frame_parts [simp]:
  "st_requests (fail_running u i now s) = st_requests s"
  "st_messages (fail_running u i now s) = st_messages s"
  "st_requests (touch_conversation u c now s) = st_requests s"
  "st_messages (touch_conversation u c now s) = st_messages s"
  "st_turns (touch_conversation u c now s) = st_turns s"
  "st_erasures (touch_conversation u c now s) = st_erasures s"
  "st_requests (drop_lease_of_turn u i s) = st_requests s"
  "st_messages (drop_lease_of_turn u i s) = st_messages s"
  "st_turns (drop_lease_of_turn u i s) = st_turns s"
  "st_erasures (drop_lease_of_turn u i s) = st_erasures s"
  "st_requests (set_metadata m v s) = st_requests s"
  "st_erasures (set_metadata m v s) = st_erasures s"
  "st_requests (replace_snapshot n s) = st_requests s"
  "st_messages (replace_snapshot n s) = st_messages s"
  "st_erasures (replace_snapshot n s) = st_erasures s"
  by (simp_all add: fail_running_def touch_conversation_def drop_lease_of_turn_def set_metadata_def
      replace_snapshot_def split: option.split)

lemma enqueue_jobs_frame:
  "enqueue_jobs pstr user cid tid now xs s = Inr s' \<Longrightarrow>
     st_requests s' = st_requests s \<and> st_messages s' = st_messages s \<and> st_erasures s' = st_erasures s"
proof (induction xs arbitrary: s)
  case (Cons x xs)
  then show ?case by (auto simp: and_then_Inr enqueue_job_def Let_def split: if_splits)
qed simp

lemma store_completion_frame:
  assumes "store_completion pstr user t a now s = Inr s'"
  shows "st_requests s' = st_requests s \<and> st_messages s' = st_messages s \<and> st_erasures s' = st_erasures s
    \<and> st_turns s' = st_turns s"
  using assms
  by (auto simp: store_completion_def split: option.splits if_splits dest: enqueue_jobs_frame enqueue_jobs_turns)

text \<open>What finalising a running turn leaves in the turn, message and request tables.\<close>

lemma finalize_running_Inr:
  assumes "finalize_running pstr user t a now s = Inr s'"
  shows "st_requests s' = st_requests s \<and> st_erasures s' = st_erasures s
    \<and> st_turns s' = update_where (\<lambda>u. tn_user u = user \<and> tn_id u = tn_id t \<and> tn_status u = TRunning)
          (settle_turn a (st_next_message s) now) (st_turns s)
    \<and> st_messages s' = st_messages (set_metadata (st_next_message s) (fa_metadata a)
          (snd (insert_message user (tn_conv t) ''assistant'' (fa_content a) (fa_type a) (fa_recs a) now (Some (tn_id t)) s)))"
proof -
  let ?s2 = "set_metadata (st_next_message s) (fa_metadata a)
          (snd (insert_message user (tn_conv t) ''assistant'' (fa_content a) (fa_type a) (fa_recs a) now (Some (tn_id t)) s))"
  let ?P = "\<lambda>u. tn_user u = user \<and> tn_id u = tn_id t \<and> tn_status u = TRunning"
  from assms obtain s3 s4 where 3: "update_turns ?P (settle_turn a (st_next_message s) now) ?s2 = Inr s3"
    and 4: "store_completion pstr user t a now s3 = Inr s4"
    and s': "s' = touch_conversation user (tn_conv t) now (drop_lease_of_turn user (tn_id t) s4)"
    unfolding finalize_running_def Let_def case_prod_beta insert_message_parts(1)
    by (auto simp: and_then_Inr split: if_splits)
  from 3 have "s3 = ?s2\<lparr>st_turns := update_where ?P (settle_turn a (st_next_message s) now) (st_turns s)\<rparr>"
    by (auto simp: update_turns_def split: if_splits)
  with store_completion_frame [OF 4] show ?thesis by (simp add: s')
qed

definition same_request :: "start_request \<Rightarrow> start_request \<Rightarrow> bool" where
  "same_request q r \<longleftrightarrow> sq_user r = sq_user q \<and> strip (sq_id r) = strip (sq_id q) \<and> sq_content r = sq_content q
     \<and> 1 \<le> sq_lease_seconds r"

text \<open>A successful fresh start: the running turn is the one its request id names.\<close>

lemma fresh_start:
  assumes "store_ok s" "start_request_turn p q new_cid tid now s = (Inr sd, s1)" "\<not> sd_replayed sd"
  shows "sq_user q \<notin> fst ` set (st_erasures s1) \<and> strip (sq_id q) \<noteq> []
    \<and> tn_status (sd_turn sd) = TRunning \<and> tn_id (sd_turn sd) = tid
    \<and> find_request_turn s1 (sq_user q) (strip (sq_id q)) = Some (sd_turn sd)
    \<and> (\<exists>mid m. tn_user_msg (sd_turn sd) = Some mid \<and> m \<in> set (st_messages s1) \<and> ms_id m = mid
         \<and> ms_user m = sq_user q \<and> ms_content m = sq_content q)"
proof -
  let ?u = "sq_user q" and ?req = "strip (sq_id q)"
  from assms(2) obtain r1 sr where nb: "?req \<noteq> []" and free: "?u \<notin> fst ` set (st_erasures s)"
    and rep1: "replay_request p ?u (sq_conv q) ?req (sq_content q) now s = Inr (r1, sr)"
    and st1: "(case r1 of Replayed t \<Rightarrow> Inr (\<lparr>sd_turn = t, sd_replayed = True, sd_created = False\<rparr>, sr)
          | RunIn cid \<Rightarrow> start_claimed p q ?req new_cid tid now cid sr) = Inr (sd, s1)"
    by (auto simp: start_request_turn_def Let_def transact_Inr and_then_Inr split: if_splits)
  from st1 assms(3) obtain cid where "r1 = RunIn cid" by (cases r1) auto
  with rep1 st1 have rep: "replay_request p ?u (sq_conv q) ?req (sq_content q) now s = Inr (RunIn cid, sr)"
    and st: "start_claimed p q ?req new_cid tid now cid sr = Inr (sd, s1)" by simp_all
  from st obtain c created sa sb t where
    1: "ensure_conversation ?u cid new_cid (sq_title q) now (sq_provenance q) sr = Inr ((c, created), sa)" and
    2: "claim_lease p ?u c now sa = Inr sb" and
    3: "open_turn p ?u c tid ?req (sq_content q) now (now + of_int (py_int (sq_lease_seconds q)))
          (name_conversation ?u c (sq_title q) sb) = Inr (t, s1)" and sd: "sd_turn sd = t"
    by (auto simp: start_claimed_def and_then_Inr)
  note r = replay_request_ok [OF assms(1) rep]
  note e = ensure_conversation_ok [OF conjunct1 [OF r] 1]
  note cl = claim_lease_ok [OF conjunct1 [OF e] 2]
  note o = open_turn_Inr [OF 3]
  let ?s0 = "name_conversation ?u c (sq_title q) sb"
  have ok1: "store_ok s1" using start_request_turn_ok [OF assms(1), of p q new_cid tid now] assms(2) by simp
  have req: "find (\<lambda>r. rq_user r = ?u \<and> rq_id r = ?req) (st_requests s1)
      = Some \<lparr>rq_user = ?u, rq_id = ?req, rq_conv = c, rq_turn = tid, rq_created = now\<rparr>"
    using o by (simp add: find_snoc_new)
  have "t \<in> set (st_turns s1)" using o by simp
  from find_turn_mem [OF store_okD(1) [OF ok1] this] have "find_turn s1 ?u tid = Some t"
    using o by (simp add: new_turn_row_def)
  with req have "find_request_turn s1 ?u ?req = Some t" by (simp add: find_request_turn_def)
  moreover have "st_messages s1 = st_messages (snd (insert_message ?u c ''user'' (sq_content q) None None now (Some tid) ?s0))"
    using o by simp
  then have "\<exists>m \<in> set (st_messages s1). ms_id m = st_next_message ?s0 \<and> ms_user m = ?u \<and> ms_content m = sq_content q"
    by (simp add: insert_message_def Let_def)
  moreover have "st_erasures s1 = st_erasures s" using o r e cl by simp
  moreover have "tn_status t = TRunning" "tn_id t = tid" "tn_user_msg t = Some (st_next_message ?s0)"
    using o by (simp_all add: new_turn_row_def)
  ultimately show ?thesis unfolding sd using nb free by metis
qed

lemma find_message_mem:
  assumes "messages_ok (st_messages s) n" "m \<in> set (st_messages s)"
  shows "find_message s (ms_user m) (ms_id m) = Some m"
proof -
  obtain x where x: "find_message s (ms_user m) (ms_id m) = Some x"
    using assms(2) by (cases "find_message s (ms_user m) (ms_id m)") (auto simp: find_message_def find_None_iff)
  then have "x \<in> set (st_messages s)" "ms_id x = ms_id m" by (auto simp: find_message_def find_Some_iff)
  with assms have "x = m" by (auto simp: messages_ok_def distinct_map inj_on_def)
  with x show ?thesis by simp
qed

text \<open>Messages stay, up to their metadata, when a turn is finalised; the answer is added.\<close>

lemma finalized_messages:
  assumes "st_messages s' = st_messages (set_metadata (st_next_message s) v
      (snd (insert_message user cid r content k recs now tg s)))" "messages_ok (st_messages s) (st_next_message s)"
  shows "m \<in> set (st_messages s) \<Longrightarrow> m \<in> set (st_messages s')"
    and "\<exists>x \<in> set (st_messages s'). ms_id x = st_next_message s \<and> ms_user x = user \<and> ms_content x = content"
proof -
  let ?m = "\<lparr>ms_id = st_next_message s, ms_user = user, ms_conv = cid, ms_role = r, ms_content = content,
                ms_type = k, ms_recs = recs, ms_meta = None, ms_time = now, ms_turn = tg\<rparr>"
  have s': "st_messages s' = st_messages s @ [?m] \<or> (\<exists>w. st_messages s' =
      update_where (\<lambda>m. ms_id m = st_next_message s) (\<lambda>m. m\<lparr>ms_meta := Some w\<rparr>) (st_messages s @ [?m]))"
    unfolding assms(1) set_metadata_def insert_message_def Let_def by (auto split: option.split)
  then show "m \<in> set (st_messages s) \<Longrightarrow> m \<in> set (st_messages s')"
    using assms(2) by (auto simp: messages_ok_def image_iff)
  from s' show "\<exists>x \<in> set (st_messages s'). ms_id x = st_next_message s \<and> ms_user x = user \<and> ms_content x = content"
    by (auto simp: update_where_def)
qed

text \<open>A completed request replays its turn and changes nothing.\<close>

lemma completed_request_replays:
  assumes "sq_user r \<notin> fst ` set (st_erasures s)" "strip (sq_id r) \<noteq> []" "1 \<le> sq_lease_seconds r"
    and "find_request_turn s (sq_user r) (strip (sq_id r)) = Some t" "tn_status t = TCompleted"
    and "\<not> message_differs s (sq_user r) t (sq_content r)"
  shows "start_request_turn p r new_cid tid now s = (Inr \<lparr>sd_turn = t, sd_replayed = True, sd_created = False\<rparr>, s)"
proof -
  from assms(4) have "find_turn s (sq_user r) (tn_id t) = Some t"
    using find_turnD [of s "sq_user r" _ t] by (auto simp: find_request_turn_def split: option.splits)
  with assms show ?thesis
    by (simp add: start_request_turn_def replay_request_def Let_def reap_replayed_turn_def)
qed


section \<open>Erasing a user\<close>

text \<open>
  Deleting all data of a user always succeeds, reports how much there was, leaves no row of
  that user in any table of the inventory, and keeps every row of every other user.
\<close>

theorem erase_user_complete:
  "\<exists>s'. delete_all_user_data user s = (Inr (conversation_ids s user, privacy_inventory s user, privacy_inventory s' user), s')
    \<and> inventory_total (privacy_inventory s' user) = 0
    \<and> (\<forall>v. v \<noteq> user \<longrightarrow> privacy_inventory s' v = privacy_inventory s v \<and> conversation_ids s' v = conversation_ids s v
         \<and> filter (\<lambda>t. tn_user t = v) (st_turns s') = filter (\<lambda>t. tn_user t = v) (st_turns s)
         \<and> filter (\<lambda>m. ms_user m = v) (st_messages s') = filter (\<lambda>m. ms_user m = v) (st_messages s))"
  using erased_rows_total [of user s] erased_rows_others [of _ user s] by (simp add: delete_all_user_data_eq)

section \<open>Branches keep their source\<close>

text \<open>The parts of a message a copy takes over.\<close>

definition message_body :: "message \<Rightarrow> string \<times> utext \<times> string option \<times> json option \<times> time" where
  "message_body m = (ms_role m, ms_content m, ms_type m, ms_recs m, ms_time m)"

lemma set_metadata_new:
  assumes "\<forall>m \<in> set ms. ms_id m < i" "st_messages s = ms @ [x]" "ms_id x = i"
  shows "\<exists>y. st_messages (set_metadata i v s) = ms @ [y] \<and> message_body y = message_body x
    \<and> ms_conv y = ms_conv x \<and> ms_user y = ms_user x \<and> ms_id y = i"
proof -
  have "update_where (\<lambda>m. ms_id m = i) f ms = ms" for f
    using assms(1) by (auto simp: update_where_def intro!: map_idI)
  then show ?thesis
    using assms(2,3) by (auto simp: set_metadata_def update_where_def message_body_def split: option.split)
qed

definition same_tables :: "store \<Rightarrow> store \<Rightarrow> bool" where
  "same_tables s s' \<longleftrightarrow> st_turns s' = st_turns s \<and> st_conversations s' = st_conversations s
     \<and> st_leases s' = st_leases s \<and> st_requests s' = st_requests s \<and> st_jobs s' = st_jobs s
     \<and> st_favorites s' = st_favorites s \<and> st_forks s' = st_forks s \<and> st_erasures s' = st_erasures s"

lemma copy_messages_appends:
  assumes "copy_messages user child nt ih ms acc s = (f, s')" "messages_ok (st_messages s) (st_next_message s)"
  shows "\<exists>xs. st_messages s' = st_messages s @ xs \<and> map message_body xs = map message_body ms
    \<and> (\<forall>x \<in> set xs. ms_conv x = child \<and> ms_user x = user) \<and> same_tables s s'"
  using assms
proof (induction ms arbitrary: acc s)
  case (Cons m ms)
  let ?i = "st_next_message s"
  let ?s1 = "snd (insert_message user child (ms_role m) (ms_content m) (ms_type m) (ms_recs m)
                      (ms_time m) (copied_turn_id nt ih (ms_turn m)) s)"
  let ?s2 = "set_metadata ?i (ms_meta m) ?s1"
  from Cons.prems(1) have run: "copy_messages user child nt ih ms (acc @ [(ms_id m, ?i)]) ?s2 = (f, s')"
    by (simp add: case_prod_beta)
  obtain x where x: "st_messages ?s1 = st_messages s @ [x]" "ms_id x = ?i" "message_body x = message_body m"
    "ms_conv x = child" "ms_user x = user"
    by (simp add: insert_message_def Let_def message_body_def)
  from set_metadata_new [OF _ x(1,2)] Cons.prems(2) obtain y where y: "st_messages ?s2 = st_messages s @ [y]"
    "message_body y = message_body m" "ms_conv y = child" "ms_user y = user" "ms_id y = ?i"
    using x by (auto simp: messages_ok_def)
  have n2: "st_next_message ?s2 = ?i + 1"
    by (simp add: set_metadata_def insert_message_def Let_def split: option.split)
  have "messages_ok (st_messages ?s2) (st_next_message ?s2)"
    using Cons.prems(2) y n2 by (auto simp: messages_ok_def)
  from Cons.IH [OF run this] obtain xs where xs: "st_messages s' = st_messages ?s2 @ xs"
    "map message_body xs = map message_body ms" "\<forall>x \<in> set xs. ms_conv x = child \<and> ms_user x = user" "same_tables ?s2 s'"
    by blast
  have "same_tables s ?s2"
    by (simp add: same_tables_def set_metadata_def insert_message_def Let_def split: option.split)
  with xs(4) have "same_tables s s'" by (simp add: same_tables_def)
  then show ?case using xs y by (intro exI [of _ "y # xs"]) simp
qed (simp add: same_tables_def)

lemma insert_turns_appends:
  "insert_turns ts s = Inr s' \<Longrightarrow> s' = s\<lparr>st_turns := st_turns s @ ts\<rparr>"
proof (induction ts arbitrary: s)
  case (Cons t ts)
  then have "insert_turns ts (s\<lparr>st_turns := st_turns s @ [t]\<rparr>) = Inr s'"
    by (auto simp: and_then_Inr insert_turn_def split: if_splits)
  from Cons.IH [OF this] show ?case by simp
qed simp

lemma copy_snapshots_frame:
  "same_tables s (copy_snapshots user child nt later ts s) \<and> st_messages (copy_snapshots user child nt later ts s) = st_messages s"
proof (induction ts arbitrary: s)
  case (Cons t ts)
  have "same_tables s (replace_snapshot n s)" for n by (simp add: same_tables_def replace_snapshot_def)
  then show ?case using Cons.IH
    by (auto simp: same_tables_def split: option.split)
qed (simp add: same_tables_def)

definition keeps_prefix :: "'r list \<Rightarrow> 'r list \<Rightarrow> bool" where
  "keeps_prefix rows rows' \<longleftrightarrow> take (length rows) rows' = rows"

lemma branch_off_appends:
  assumes "branch_off user source key fp row ih cutoff ids s = Inr (r, s')" "store_ok s"
    and "others = other_turns s user source ih"
  shows "r = (row, False) \<and> find_conversation s (cv_user row) (cv_id row) = None
    \<and> st_conversations s' = st_conversations s @ [row]
    \<and> (\<exists>f. st_turns s' = st_turns s @ map (copied_turn user (bi_child ids) (bi_turn ids) f) ih)
    \<and> (\<exists>xs. st_messages s' = st_messages s @ xs
         \<and> map message_body xs = map message_body (filter (inherits_message ih others cutoff) (get_messages s user source))
         \<and> (\<forall>x \<in> set xs. ms_conv x = bi_child ids \<and> ms_user x = user))
    \<and> st_leases s' = st_leases s \<and> st_requests s' = st_requests s \<and> st_jobs s' = st_jobs s
    \<and> (nonempty key = None \<longrightarrow> st_forks s' = st_forks s)"
proof -
  from assms(1) obtain s1 s2 where 1: "insert_conversation row s = Inr s1"
    and 2: "materialize_branch user source (bi_child ids) ih cutoff (bi_turn ids) (bi_later ids) s1 = Inr s2"
    and r: "r = (row, False)" "s' = record_fork user key (bi_child ids) fp (bi_later ids) s2"
    by (auto simp: branch_off_def and_then_Inr)
  have s1: "s1 = s\<lparr>st_conversations := st_conversations s @ [row]\<rparr>" and new: "find_conversation s (cv_user row) (cv_id row) = None"
    using 1 by (auto simp: insert_conversation_def split: if_splits)
  have src: "get_messages s1 user source = get_messages s user source" "other_turns s1 user source ih = other_turns s user source ih"
    by (simp_all add: s1 get_messages_def other_turns_def conversation_turns_def)
  let ?c = "copy_messages user (bi_child ids) (bi_turn ids) ih
       (filter (inherits_message ih others cutoff) (get_messages s user source)) [] s1"
  from 2 obtain s3 where 3: "insert_turns (map (copied_turn user (bi_child ids) (bi_turn ids) (fst ?c)) ih) (snd ?c) = Inr s3"
    and s2: "s2 = copy_snapshots user (bi_child ids) (bi_turn ids) (bi_later ids) ih s3"
    by (auto simp: materialize_branch_def Let_def case_prod_beta and_then_Inr src assms(3))
  have "?c = (fst ?c, snd ?c)" by simp
  moreover have "messages_ok (st_messages s1) (st_next_message s1)" using store_okD(6) [OF assms(2)] by (simp add: s1)
  ultimately obtain xs where xs: "st_messages (snd ?c) = st_messages s1 @ xs"
    "map message_body xs = map message_body (filter (inherits_message ih others cutoff) (get_messages s user source))"
    "\<forall>x \<in> set xs. ms_conv x = bi_child ids \<and> ms_user x = user" "same_tables s1 (snd ?c)"
    using copy_messages_appends by blast
  note s3 = insert_turns_appends [OF 3]
  note cs = copy_snapshots_frame [of s3 user "bi_child ids" "bi_turn ids" "bi_later ids" ih, folded s2]
  have rf: "st_conversations s' = st_conversations s2 \<and> st_turns s' = st_turns s2 \<and> st_messages s' = st_messages s2
    \<and> st_leases s' = st_leases s2 \<and> st_requests s' = st_requests s2 \<and> st_jobs s' = st_jobs s2
    \<and> (nonempty key = None \<longrightarrow> st_forks s' = st_forks s2)"
    by (simp add: r(2) record_fork_def split: option.split)
  show ?thesis
    using rf cs xs new r(1) by (auto simp: same_tables_def s3 s1)
qed


text \<open>
  A fork made with an idempotency key is made once: the same request with the same key gives
  the same child and leaves the store as it is, and the key is refused for another source or turn.
\<close>

theorem fork_key_replays:
  assumes "s = run_ops (store_step pstr) empty_store ops"
    and "fork_conversation user source tid title (Some key) ids s = (Inr (row, False), s')" "key \<noteq> []"
  shows "fork_conversation user source tid title2 (Some key) ids2 s' = (Inr (row, True), s')
    \<and> (source2 \<noteq> source \<or> fork_fingerprint ''fork'' source2 tid2 \<noteq> fork_fingerprint ''fork'' source tid \<longrightarrow>
        fork_conversation user source2 tid2 title2 (Some key) ids2 s' = (Inl (IdempotencyKeyReused key), s'))"
proof -
  have ok: "store_ok s" unfolding assms(1) by (rule store_machine.inv_run) simp
  from fork_conversation_cases [OF assms(2)] obtain src ft s2 where
    src: "find_conversation s user source = Some src"
    and off: "branch_off user source (Some key) (fork_fingerprint ''fork'' source tid)
         (branch_row src (bi_child ids) (bounded_title title (cv_title src) (utf '' (branch)''))
           (bi_now ids) (Some (tn_id ft)) None None)
         (forked_turns s user source ft) (fork_cutoff ft) ids s = Inr ((row, False), s')"
    by auto
  from off obtain s2 where s': "s' = record_fork user (Some key) (bi_child ids) (fork_fingerprint ''fork'' source tid) (bi_later ids) s2"
    by (auto simp: branch_off_def and_then_Inr)
  have row: "cv_user row = user" "cv_id row = bi_child ids" "cv_parent row = Some source" "cv_reason row = None"
    "find_conversation s user (bi_child ids) = None" "st_conversations s' = st_conversations s @ [row]"
    using branch_off_appends [OF off ok refl] src
    by (auto simp: branch_row_def find_conversation_def find_Some_iff)
  have "find (\<lambda>f. fk_user f = user \<and> fk_key f = key) (st_forks s') = Some \<lparr>fk_user = user, fk_key = key,
      fk_conv = bi_child ids, fk_created = bi_later ids, fk_print = Some (fork_fingerprint ''fork'' source tid)\<rparr>"
    using assms(3) by (simp add: s' record_fork_def nonempty_def find_snoc_new)
  moreover have "find_conversation s' user (bi_child ids) = Some row"
    using row by (simp add: find_conversation_def find_None_iff find_snoc_new)
  ultimately show ?thesis
    using assms(3) row by (auto simp: fork_conversation_def replay_fork_def nonempty_def)
qed

section \<open>Lineages\<close>

lemma walk_lineage_distinct:
  "length (walk_lineage n s user seen cid before) \<le> n
   \<and> distinct (map an_conv (walk_lineage n s user seen cid before))
   \<and> an_conv ` set (walk_lineage n s user seen cid before) \<inter> set seen = {}
   \<and> (\<forall>a \<in> set (walk_lineage n s user seen cid before). find_conversation s user (an_conv a) \<noteq> None)"
proof (induction n s user seen cid before rule: walk_lineage.induct)
  case (2 n s user seen current before)
  show ?case
  proof (cases "current = [] \<or> current \<in> set seen \<or> find_conversation s user current = None")
    case False
    then obtain c where c: "find_conversation s user current = Some c" by blast
    show ?thesis
    proof (cases "nonempty (cv_parent c) \<noteq> None \<and> nonempty (cv_fork_turn c) \<noteq> None")
      case True
      then obtain par ft where "nonempty (cv_parent c) = Some par" "nonempty (cv_fork_turn c) = Some ft" by blast
      with 2 False c show ?thesis by (auto simp: image_iff)
    qed (use False c in \<open>auto split: option.split\<close>)
  qed (auto split: option.split)
qed simp

text \<open>
  C14. The lineage of a conversation starts with the conversation itself without a cutoff, names
  existing conversations of the user, never one twice (so the walk ends on cyclic parent
  pointers), and has at most fifty entries.
\<close>

theorem lineage_bounded:
  "length (get_branch_lineage s user cid) \<le> 50 \<and> distinct (map an_conv (get_branch_lineage s user cid))
   \<and> (cid \<noteq> [] \<and> find_conversation s user cid \<noteq> None \<longrightarrow>
        get_branch_lineage s user cid \<noteq> [] \<and> hd (get_branch_lineage s user cid) = \<lparr>an_conv = cid, an_before = None\<rparr>)
   \<and> (\<forall>a \<in> set (get_branch_lineage s user cid). find_conversation s user (an_conv a) \<noteq> None)"
proof -
  have "get_branch_lineage s user cid \<noteq> [] \<and> hd (get_branch_lineage s user cid) = \<lparr>an_conv = cid, an_before = None\<rparr>"
    if "cid \<noteq> []" "find_conversation s user cid \<noteq> None"
  proof -
    have "walk_lineage (Suc n) s user [] cid None \<noteq> []
      \<and> hd (walk_lineage (Suc n) s user [] cid None) = \<lparr>an_conv = cid, an_before = None\<rparr>" for n
      using that by (auto split: option.split)
    from this [of 49] show ?thesis by (simp add: get_branch_lineage_def lineage_max_depth_def)
  qed
  then show ?thesis
    using walk_lineage_distinct [of 50 s user "[]" cid None]
    by (simp add: get_branch_lineage_def lineage_max_depth_def)
qed

section \<open>A concrete run\<close>

definition demo_process :: process where
  "demo_process = \<lparr>pr_owner = ''w1'', pr_host = ''h'', pr_pid = 7, pr_alive = (\<lambda>_. True)\<rparr>"

definition demo_request :: "string \<Rightarrow> utext \<Rightarrow> start_request" where
  "demo_request req content = \<lparr>sq_user = ''u'', sq_conv = None, sq_id = req, sq_content = content,
     sq_lease_seconds = 900, sq_title = None,
     sq_provenance = \<lparr>pv_arch = ''legacy'', pv_version = ''v'', pv_strict = False\<rparr>\<rparr>"

definition demo_answer :: "final_answer" where
  "demo_answer = \<lparr>fa_completed = True, fa_content = [111, 107], fa_type = None, fa_recs = None,
     fa_snapshot = Some (JObj []), fa_version = 1, fa_jobs = [JObj [(''kind'', JStr ''memory_turn'')]],
     fa_metadata = None\<rparr>"

definition demo_turn :: "string \<Rightarrow> string \<Rightarrow> string \<Rightarrow> time \<Rightarrow> store_op list" where
  "demo_turn req cid tid now = [OpStart demo_process (demo_request req [104, 105]) cid tid now,
     OpFinalize ''u'' tid demo_answer (now + 1)]"

definition demo_store :: "store_op list \<Rightarrow> store" where
  "demo_store ops = run_ops (store_step (\<lambda>_. [])) empty_store ops"

definition demo_ids :: "string \<Rightarrow> branch_ids" where
  "demo_ids child = \<lparr>bi_child = child, bi_turn = (\<lambda>t. child @ t), bi_now = 50, bi_later = 51\<rparr>"



definition demo_jobs :: "store_op list" where
  "demo_jobs = demo_turn ''r1'' ''c1'' ''t1'' 0 @ demo_turn ''r2'' ''c2'' ''t2'' 5
     @ [OpClaimJob ''a'' 5 10, OpClaimJob ''b'' 300 12]"

theorem jobs_run_serially_witness:
  "list_ex (\<lambda>j. jb_status j = JRunning \<and> jb_claimed j \<noteq> None) (st_jobs (demo_store demo_jobs))"
proof -
  have "list_ex (\<lambda>j. jb_status j = JRunning) (st_jobs (demo_store demo_jobs))" by code_simp
  then show ?thesis
    using jobs_run_serially [of "\<lambda>_. []" demo_jobs] by (auto simp: list_ex_iff demo_store_def)
qed

text \<open>
  The barrier looks at the user's first running job only: with an expired first job it is raised
  over a second job whose lease is live, and takes that job from its worker.
\<close>

theorem erasure_overlooks_live_job:
  "let s = demo_store demo_jobs; r = begin_privacy_erasure demo_process ''u'' 20 s in
     list_ex (\<lambda>j. jb_status j = JRunning \<and> job_live j 20) (st_jobs s)
     \<and> fst r = Inr () \<and> \<not> list_ex (\<lambda>j. jb_status j = JRunning) (st_jobs (snd r))"
  by code_simp

definition demo_started :: "(store_error + started) \<times> store" where
  "demo_started = start_request_turn demo_process (demo_request ''r1'' [104]) ''c1'' ''t1'' 0 (demo_store [])"

definition demo_finalized :: "(store_error + turn option) \<times> store" where
  "demo_finalized = finalize_request_turn (\<lambda>_. []) ''u'' ''t1'' demo_answer 1 (snd demo_started)"


theorem erase_user_complete_witness:
  "let s = demo_store (demo_turn ''r1'' ''c1'' ''t1'' 0) in
     inventory_total (privacy_inventory s ''u'') \<noteq> 0
     \<and> inventory_total (privacy_inventory (snd (delete_all_user_data ''u'' s)) ''u'') = 0
     \<and> privacy_inventory (snd (delete_all_user_data ''u'' s)) ''v'' = privacy_inventory s ''v''"
proof -
  let ?s = "demo_store (demo_turn ''r1'' ''c1'' ''t1'' 0)"
  have "inventory_total (privacy_inventory ?s ''u'') \<noteq> 0" by code_simp
  then show ?thesis using erase_user_complete [of "''u''" ?s] by (auto simp: Let_def)
qed

definition demo_fork :: "string \<Rightarrow> store \<Rightarrow> (store_error + (conversation \<times> bool)) \<times> store" where
  "demo_fork child = fork_conversation ''u'' ''c1'' None None (Some ''k'') (demo_ids child)"

lemma demo_fork_made:
  obtains row s' where "demo_fork ''c9'' (demo_store (demo_turn ''r1'' ''c1'' ''t1'' 0)) = (Inr (row, False), s')"
proof -
  have "(case fst (demo_fork ''c9'' (demo_store (demo_turn ''r1'' ''c1'' ''t1'' 0))) of Inr (row, b) \<Rightarrow> \<not> b | _ \<Rightarrow> False)"
    by code_simp
  then show ?thesis using that by (cases "demo_fork ''c9'' (demo_store (demo_turn ''r1'' ''c1'' ''t1'' 0))") (auto split: sum.splits)
qed


theorem fork_key_replays_witness:
  "let s' = snd (demo_fork ''c9'' (demo_store (demo_turn ''r1'' ''c1'' ''t1'' 0))) in
     \<exists>row. demo_fork ''c10'' s' = (Inr (row, True), s')"
proof (rule demo_fork_made)
  fix row s' assume f: "demo_fork ''c9'' (demo_store (demo_turn ''r1'' ''c1'' ''t1'' 0)) = (Inr (row, False), s')"
  from fork_key_replays [OF demo_store_def f [unfolded demo_fork_def], of None "demo_ids ''c10''"] f show ?thesis
    by (auto simp: Let_def demo_fork_def)
qed

theorem lineage_bounded_witness:
  "hd (get_branch_lineage (demo_store (demo_turn ''r1'' ''c1'' ''t1'' 0)) ''u'' ''c1'') = \<lparr>an_conv = ''c1'', an_before = None\<rparr>"
proof -
  have "find_conversation (demo_store (demo_turn ''r1'' ''c1'' ''t1'' 0)) ''u'' ''c1'' \<noteq> None" by code_simp
  with lineage_bounded [of "demo_store (demo_turn ''r1'' ''c1'' ''t1'' 0)" "''u''" "''c1''"] show ?thesis by simp
qed

end
