(* ===== verification/Ranking.thy ===== *)
theory Ranking
  imports Prelude
begin

text \<open>
  \<open>app/core/ranking.py\<close>: the deterministic multi-objective ranking of a result page.  A listing is
  its dictionary; the scores the code stores in it are the fields of \<open>ranked\<close>.  Floats are exact
  rationals, texts are lowered and matched as ASCII, \<open>str()\<close> of a value that is no string is the
  parameter \<open>pstr\<close>.
\<close>

section \<open>Numbers\<close>

definition clamp :: "rat \<Rightarrow> rat \<Rightarrow> rat \<Rightarrow> rat" where
  "clamp low high x = max low (min high x)"

abbreviation clamp01 :: "rat \<Rightarrow> rat" where "clamp01 \<equiv> clamp 0 1"

text \<open>\<open>round(x, 2)\<close>: to the nearest hundredth, ties to the even one.\<close>

definition round_even :: "rat \<Rightarrow> int" where
  "round_even x =
     (let n = \<lfloor>x\<rfloor>; d = x - of_int n in
      if d < 1 / 2 then n else if 1 / 2 < d then n + 1 else if even n then n else n + 1)"

definition round2 :: "rat \<Rightarrow> rat" where
  "round2 x = of_int (round_even (100 * x)) / 100"

text \<open>\<open>float()\<close> of a text: an optional sign, digits, a fraction, an exponent.\<close>

fun leading_digits :: "string \<Rightarrow> string \<times> string" where
  "leading_digits [] = ([], [])"
| "leading_digits (c # cs) =
     (if is_digit c then (let (ds, rest) = leading_digits cs in (c # ds, rest)) else ([], c # cs))"

definition digits_rat :: "string \<Rightarrow> rat" where
  "digits_rat ds = foldl (\<lambda>acc c. 10 * acc + of_int (of_char c - 48)) 0 ds"

definition exponent_value :: "string \<Rightarrow> rat option" where
  "exponent_value s =
     (case s of [] \<Rightarrow> Some 1
      | c # cs \<Rightarrow>
          if c \<noteq> CHR ''e'' \<and> c \<noteq> CHR ''E'' then None
          else let (neg, ds) = (case cs of d # r \<Rightarrow> if d = CHR ''-'' then (True, r) else if d = CHR ''+'' then (False, r)
                                  else (False, cs) | [] \<Rightarrow> (False, [])) in
            if ds = [] \<or> \<not> list_all is_digit ds then None
            else let n = foldl (\<lambda>acc c. 10 * acc + nat (of_char c - 48)) 0 ds in
              Some (if neg then 1 / 10 ^ n else 10 ^ n))"

definition text_float :: "string \<Rightarrow> rat option" where
  "text_float raw =
     (let s = strip raw;
          (neg, body) = (case s of c # r \<Rightarrow> if c = CHR ''-'' then (True, r) else if c = CHR ''+'' then (False, r)
                           else (False, s) | [] \<Rightarrow> (False, []));
          (whole, rest) = leading_digits body;
          (frac, rest2) = (case rest of c # r \<Rightarrow> if c = CHR ''.'' then leading_digits r else ([], rest) | [] \<Rightarrow> ([], [])) in
      if whole = [] \<and> frac = [] then None
      else map_option (\<lambda>e. (if neg then - 1 else 1) * (digits_rat whole + digits_rat frac / 10 ^ length frac) * e)
             (exponent_value rest2))"

fun as_float :: "json option \<Rightarrow> rat option" where
  "as_float None = None"
| "as_float (Some v) =
     (case v of JInt i \<Rightarrow> Some (of_int i) | JFloat x \<Rightarrow> Some x | JBool b \<Rightarrow> Some (if b then 1 else 0)
      | JStr s \<Rightarrow> text_float s | _ \<Rightarrow> None)"

section \<open>Utilities\<close>

definition price_utility :: "json option \<Rightarrow> rat option \<Rightarrow> rat option" where
  "price_utility price budget =
     (case (as_float price, budget) of
        (Some p, Some b) \<Rightarrow>
          if p < 0 \<or> b \<le> 0 then None
          else let r = p / b in
            Some (if r \<le> 1 then 55 / 100 + 45 / 100 * (1 - r) else clamp01 (55 / 100 * (1 - (r - 1) / (15 / 100))))
      | _ \<Rightarrow> None)"

definition commute_utility :: "json option \<Rightarrow> rat option \<Rightarrow> rat option" where
  "commute_utility minutes limit =
     (case (as_float minutes, limit) of
        (Some t, Some m) \<Rightarrow>
          if t < 0 \<or> m \<le> 0 then None else Some (clamp01 (15 / 100 + 85 / 100 * (1 - t / m)))
      | _ \<Rightarrow> None)"

definition semantic_utility :: "json option \<Rightarrow> rat option" where
  "semantic_utility value =
     map_option (\<lambda>s. clamp01 (if s < 0 then (s + 1) / 2 else s)) (as_float value)"

definition field_text :: "(json \<Rightarrow> string) \<Rightarrow> fields \<Rightarrow> string \<Rightarrow> string" where
  "field_text pstr d name = (case map_of d name of None \<Rightarrow> [] | Some v \<Rightarrow> str_of pstr v)"

fun join_space :: "string list \<Rightarrow> string" where
  "join_space [] = []"
| "join_space [x] = x"
| "join_space (x # y # xs) = x @ '' '' @ join_space (y # xs)"

definition feature_utility :: "(json \<Rightarrow> string) \<Rightarrow> fields \<Rightarrow> json list \<Rightarrow> rat option" where
  "feature_utility pstr d requested =
     (let wanted = map (\<lambda>x. lower (strip (str_of pstr x))) (filter (\<lambda>x. strip (str_of pstr x) \<noteq> []) requested);
          haystack = lower (join_space (map (field_text pstr d)
             [''Room_Type_Category'', ''Description'', ''Detailed_Amenities'', ''Type''])) in
      if wanted = [] then None
      else Some (of_nat (length (filter (contains_text haystack) wanted)) / of_nat (length wanted)))"

definition first_truthy :: "fields \<Rightarrow> string list \<Rightarrow> json" where
  "first_truthy d names =
     (case filter truthy (List.map_filter (map_of d) names) of [] \<Rightarrow> JStr [] | v # _ \<Rightarrow> v)"

definition availability_utility :: "(json \<Rightarrow> string) \<Rightarrow> fields \<Rightarrow> string \<Rightarrow> rat option" where
  "availability_utility pstr d move_in =
     (let available = strip (str_of pstr (first_truthy d
            [''_resolved_available_from'', ''_available_from'', ''Available From''])) in
      if move_in = [] then None
      else if available = [] then Some (1 / 2)
      else if lower available = ''available now'' \<or> available \<le> move_in then Some 1
      else Some (1 / 5))"

definition freshness_utility :: "fields \<Rightarrow> rat" where
  "freshness_utility d =
     (case map_of d ''possibly_outdated'' of None \<Rightarrow> 1 | Some v \<Rightarrow> if truthy v then 45 / 100 else 1)"

section \<open>The score\<close>

datatype objective = Price | Commute | Semantic | Features | Availability | Freshness

fun default_weight :: "objective \<Rightarrow> rat" where
  "default_weight Price = 30 / 100"
| "default_weight Commute = 28 / 100"
| "default_weight Semantic = 15 / 100"
| "default_weight Features = 10 / 100"
| "default_weight Availability = 10 / 100"
| "default_weight Freshness = 7 / 100"

type_synonym components = "(objective \<times> rat option) list"

definition usable :: "components \<Rightarrow> (objective \<times> rat) list" where
  "usable cs = List.map_filter (\<lambda>(n, v). map_option (Pair n) v) cs"

definition normalised_score :: "components \<Rightarrow> rat \<times> (objective \<times> rat) list" where
  "normalised_score cs =
     (let us = usable cs; total = sum_list (map (\<lambda>(n, v). default_weight n) us) in
      if us = [] \<or> total \<le> 0 then (0, [])
      else let contributions = map (\<lambda>(n, v). (n, round2 (100 * default_weight n / total * v))) us in
        (round2 (sum_list (map snd contributions)), contributions))"

section \<open>Diversity\<close>

fun token_runs :: "string \<Rightarrow> string \<Rightarrow> string list" where
  "token_runs acc [] = (if 3 \<le> length acc then [rev acc] else [])"
| "token_runs acc (c # cs) =
     (if is_lower c \<or> is_digit c then token_runs (c # acc) cs
      else (if 3 \<le> length acc then [rev acc] else []) @ token_runs [] cs)"

definition token_set :: "(json \<Rightarrow> string) \<Rightarrow> fields \<Rightarrow> string list" where
  "token_set pstr d =
     remdups (filter (\<lambda>t. t \<notin> {''flat'', ''room'', ''rent''})
       (token_runs [] (lower (join_space (map (field_text pstr d)
          [''Address'', ''address'', ''_search_area'', ''Room_Type_Category'', ''Type'', ''Description''])))))"

definition jaccard :: "string list \<Rightarrow> string list \<Rightarrow> rat" where
  "jaccard l r =
     (if l = [] \<or> r = [] then 0
      else of_nat (length (filter (\<lambda>t. t \<in> set r) l)) / of_nat (length (remdups (l @ r))))"

record ranked =
  rk_listing :: fields
  rk_score :: rat
  rk_breakdown :: "(objective \<times> rat) list"
  rk_tokens :: "string list"
  rk_diversified :: rat

definition median :: "rat list \<Rightarrow> rat" where
  "median xs =
     (let s = sort xs; n = length s in
      if odd n then s ! (n div 2) else (s ! (n div 2 - 1) + s ! (n div 2)) / 2)"

definition price_anchor :: "fields list \<Rightarrow> rat option \<Rightarrow> rat option" where
  "price_anchor rows max_budget =
     (let prices = filter (\<lambda>p. 0 < p) (List.map_filter (\<lambda>d. as_float (map_of d ''price'')) rows) in
      case max_budget of Some b \<Rightarrow> Some b
      | None \<Rightarrow> if prices = [] then None else Some (median prices))"

record rank_request =
  rr_budget :: "rat option"
  rr_commute :: "rat option"
  rr_features :: "json list"
  rr_move_in :: string
  rr_lambda :: rat

definition listing_components ::
  "(json \<Rightarrow> string) \<Rightarrow> rank_request \<Rightarrow> rat option \<Rightarrow> fields \<Rightarrow> components" where
  "listing_components pstr q anchor d =
     [(Price, price_utility (map_of d ''price'') anchor),
      (Commute, commute_utility (map_of d ''travel_time'') (rr_commute q)),
      (Semantic, semantic_utility (map_of d ''similarity_score'')),
      (Features, feature_utility pstr d (rr_features q)),
      (Availability, availability_utility pstr d (rr_move_in q)),
      (Freshness, Some (freshness_utility d))]"

definition prepare :: "(json \<Rightarrow> string) \<Rightarrow> rank_request \<Rightarrow> rat option \<Rightarrow> fields \<Rightarrow> ranked" where
  "prepare pstr q anchor d =
     (let (score, contributions) = normalised_score (listing_components pstr q anchor d) in
      \<lparr>rk_listing = d, rk_score = score, rk_breakdown = contributions, rk_tokens = token_set pstr d,
       rk_diversified = 0\<rparr>)"

definition similarity :: "ranked list \<Rightarrow> ranked \<Rightarrow> rat" where
  "similarity chosen c = fold max (map (\<lambda>p. jaccard (rk_tokens c) (rk_tokens p)) chosen) 0"

definition address_text :: "(json \<Rightarrow> string) \<Rightarrow> fields \<Rightarrow> string" where
  "address_text pstr d =
     (case map_of d ''Address'' of Some v \<Rightarrow> str_of pstr v | None \<Rightarrow> field_text pstr d ''address'')"

definition mmr :: "rat \<Rightarrow> ranked list \<Rightarrow> ranked \<Rightarrow> rat" where
  "mmr lam chosen c = lam * rk_score c - (1 - lam) * 100 * similarity chosen c"

text \<open>The comparison of the key tuples (value, score, address).\<close>

definition beats :: "(json \<Rightarrow> string) \<Rightarrow> rat \<Rightarrow> ranked list \<Rightarrow> ranked \<Rightarrow> ranked \<Rightarrow> bool" where
  "beats pstr lam chosen a b =
     (if mmr lam chosen a \<noteq> mmr lam chosen b then mmr lam chosen b < mmr lam chosen a
      else if rk_score a \<noteq> rk_score b then rk_score b < rk_score a
      else address_text pstr (rk_listing b) < address_text pstr (rk_listing a))"

text \<open>\<open>max(remaining, key=mmr)\<close>, the first of the greatest, and the rows without it.\<close>

fun pick_best ::
  "(json \<Rightarrow> string) \<Rightarrow> rat \<Rightarrow> ranked list \<Rightarrow> ranked \<Rightarrow> ranked list \<Rightarrow> ranked \<times> ranked list" where
  "pick_best pstr lam chosen best [] = (best, [])"
| "pick_best pstr lam chosen best (c # cs) =
     (if beats pstr lam chosen c best
      then (let (b, rest) = pick_best pstr lam chosen c cs in (b, best # rest))
      else (let (b, rest) = pick_best pstr lam chosen best cs in (b, c # rest)))"

lemma length_pick_best: "length (snd (pick_best pstr lam chosen best cs)) = length cs"
  by (induction cs arbitrary: best) (auto simp: case_prod_beta)

function select_page :: "(json \<Rightarrow> string) \<Rightarrow> rat \<Rightarrow> ranked list \<Rightarrow> ranked list \<Rightarrow> ranked list" where
  "select_page pstr lam chosen [] = chosen"
| "select_page pstr lam chosen (r # rs) =
     (let (b, rest) = pick_best pstr lam chosen r rs in
      select_page pstr lam (chosen @ [b\<lparr>rk_diversified := round2 (mmr lam chosen b)\<rparr>]) rest)"
  by pat_completeness auto
termination
  by (relation "measure (\<lambda>(_, _, _, rs). length rs)") (simp_all, metis length_pick_best lessI snd_conv)

definition rank_and_diversify :: "(json \<Rightarrow> string) \<Rightarrow> rank_request \<Rightarrow> fields list \<Rightarrow> ranked list" where
  "rank_and_diversify pstr q rows =
     select_page pstr (clamp01 (rr_lambda q)) []
       (map (prepare pstr q (price_anchor rows (rr_budget q))) rows)"

section \<open>The page is the greedy page\<close>

definition unscored :: "ranked \<Rightarrow> ranked" where
  "unscored r = r\<lparr>rk_diversified := 0\<rparr>"

text \<open>\<open>b\<close> is at least as good a next pick as \<open>c\<close>: a higher value, or the same and no lower score.\<close>

definition dominates :: "rat \<Rightarrow> ranked list \<Rightarrow> ranked \<Rightarrow> ranked \<Rightarrow> bool" where
  "dominates lam chosen b c \<longleftrightarrow>
     mmr lam chosen c < mmr lam chosen b \<or> mmr lam chosen c = mmr lam chosen b \<and> rk_score c \<le> rk_score b"

lemma dominates_trans: "dominates lam ch a b \<Longrightarrow> dominates lam ch b c \<Longrightarrow> dominates lam ch a c"
  by (auto simp: dominates_def)

lemma dominates_refl [simp]: "dominates lam ch a a"
  by (simp add: dominates_def)

lemma beats_dominates: "beats pstr lam ch a b \<Longrightarrow> dominates lam ch a b" "\<not> beats pstr lam ch a b \<Longrightarrow> dominates lam ch b a"
  by (auto simp: beats_def dominates_def split: if_splits)

lemma mmr_update [simp]: "mmr lam ch (r\<lparr>rk_diversified := x\<rparr>) = mmr lam ch r"
  by (simp add: mmr_def similarity_def)

lemma dominates_update [simp]:
  "dominates lam ch (r\<lparr>rk_diversified := x\<rparr>) c = dominates lam ch r c"
  "dominates lam ch c (r\<lparr>rk_diversified := x\<rparr>) = dominates lam ch c r"
  by (simp_all add: dominates_def)

lemma pick_best:
  assumes "pick_best pstr lam ch best cs = (b, rest)"
  shows "add_mset b (mset rest) = add_mset best (mset cs) \<and> (\<forall>c \<in> insert best (set cs). dominates lam ch b c)"
  using assms
proof (induction cs arbitrary: best rest)
  case (Cons c cs)
  show ?case
  proof (cases "beats pstr lam ch c best")
    case True
    with Cons.prems obtain r where r: "pick_best pstr lam ch c cs = (b, r)" "rest = best # r"
      by (cases "pick_best pstr lam ch c cs") auto
    from Cons.IH [OF r(1)] beats_dominates(1) [OF True] r(2) show ?thesis
      by (auto simp: add_mset_commute intro: dominates_trans)
  next
    case False
    with Cons.prems obtain r where r: "pick_best pstr lam ch best cs = (b, r)" "rest = c # r"
      by (cases "pick_best pstr lam ch best cs") auto
    from Cons.IH [OF r(1)] beats_dominates(2) [OF False] r(2) show ?thesis
      by (auto simp: add_mset_commute intro: dominates_trans)
  qed
qed auto

definition greedy_from :: "rat \<Rightarrow> nat \<Rightarrow> ranked list \<Rightarrow> bool" where
  "greedy_from lam n page \<longleftrightarrow>
     (\<forall>i < length page. \<forall>j < length page. n \<le> i \<and> i \<le> j \<longrightarrow> dominates lam (take i page) (page ! i) (page ! j))"

lemma select_page:
  "take (length chosen) (select_page pstr lam chosen rs) = chosen
   \<and> mset (map unscored (drop (length chosen) (select_page pstr lam chosen rs))) = mset (map unscored rs)
   \<and> greedy_from lam (length chosen) (select_page pstr lam chosen rs)"
proof (induction pstr lam chosen rs rule: select_page.induct)
  case (1 pstr lam chosen)
  then show ?case by (simp add: greedy_from_def)
next
  case (2 pstr lam chosen r rs)
  obtain b rest where pb: "pick_best pstr lam chosen r rs = (b, rest)" by fastforce
  let ?b = "b\<lparr>rk_diversified := round2 (mmr lam chosen b)\<rparr>"
  let ?page = "select_page pstr lam (chosen @ [?b]) rest"
  have eq: "select_page pstr lam chosen (r # rs) = ?page" using pb by simp
  from 2 [OF pb [symmetric] refl] have ih: "take (Suc (length chosen)) ?page = chosen @ [?b]"
    "mset (map unscored (drop (Suc (length chosen)) ?page)) = mset (map unscored rest)"
    "greedy_from lam (Suc (length chosen)) ?page"
    by simp_all
  have len: "length chosen < length ?page" using arg_cong [OF ih(1), of length] by simp
  have nth: "?page ! length chosen = ?b"
    using arg_cong [OF ih(1), of "\<lambda>xs. xs ! length chosen"] by simp
  have tk: "take (length chosen) ?page = chosen"
    using arg_cong [OF ih(1), of "take (length chosen)"] by simp
  have drop: "drop (length chosen) ?page = ?b # drop (Suc (length chosen)) ?page"
    using len nth by (metis Cons_nth_drop_Suc)
  note p = pick_best [OF pb]
  have "mset (map unscored (drop (length chosen) ?page)) = add_mset (unscored b) (mset (map unscored rest))"
    using ih(2) by (simp add: drop unscored_def)
  also have "\<dots> = image_mset unscored (add_mset b (mset rest))" by simp
  also have "\<dots> = mset (map unscored (r # rs))" using p by simp
  finally have ms: "mset (map unscored (drop (length chosen) ?page)) = mset (map unscored (r # rs))" .
  have first: "dominates lam (take (length chosen) ?page) (?page ! length chosen) (?page ! j)"
    if "length chosen \<le> j" "j < length ?page" for j
  proof -
    from that have "?page ! j \<in> set (drop (length chosen) ?page)"
      by (auto simp: in_set_conv_nth intro!: exI [of _ "j - length chosen"])
    then have "unscored (?page ! j) \<in> set (map unscored (drop (length chosen) ?page))" by simp
    also have "\<dots> = set (map unscored (r # rs))" using ms by (rule mset_eq_setD)
    finally obtain c where "c \<in> insert r (set rs)" "unscored (?page ! j) = unscored c" by auto
    moreover from this p have "dominates lam chosen b (unscored c)" by (auto simp: unscored_def)
    ultimately have "dominates lam chosen b (unscored (?page ! j))" by simp
    then show ?thesis by (simp add: tk nth unscored_def)
  qed
  have "greedy_from lam (length chosen) ?page"
    unfolding greedy_from_def
  proof (intro allI impI)
    fix i j assume ij: "i < length ?page" "j < length ?page" "length chosen \<le> i \<and> i \<le> j"
    show "dominates lam (take i ?page) (?page ! i) (?page ! j)"
    proof (cases "i = length chosen")
      case False
      with ij ih(3) show ?thesis by (simp add: greedy_from_def)
    qed (use first ij in simp)
  qed
  with tk ms show ?case unfolding eq by simp
qed

lemma prepared_unscored: "map unscored (map (prepare pstr q anchor) rows) = map (prepare pstr q anchor) rows"
  by (simp add: prepare_def unscored_def case_prod_beta)

lemma greedy_page:
  "mset (map unscored (rank_and_diversify pstr q rows)) = mset (map (prepare pstr q (price_anchor rows (rr_budget q))) rows)"
  "greedy_from (clamp01 (rr_lambda q)) 0 (rank_and_diversify pstr q rows)"
  using select_page [of "[]" pstr "clamp01 (rr_lambda q)" "map (prepare pstr q (price_anchor rows (rr_budget q))) rows"]
  unfolding rank_and_diversify_def prepared_unscored by simp_all

text \<open>
  C15. The result page is a permutation of the listings, each with the score of its own evidence,
  in greedy order: every pick has the greatest trade-off of score against similarity to the
  listings above it, so the page starts with a listing of the highest score.
\<close>

theorem page_is_greedy_permutation:
  "mset (map rk_listing (rank_and_diversify pstr q rows)) = mset rows
   \<and> mset (map unscored (rank_and_diversify pstr q rows)) = mset (map (prepare pstr q (price_anchor rows (rr_budget q))) rows)
   \<and> greedy_from (clamp01 (rr_lambda q)) 0 (rank_and_diversify pstr q rows)
   \<and> (\<forall>r \<in> set (rank_and_diversify pstr q rows). rk_score r \<le> rk_score (hd (rank_and_diversify pstr q rows)))"
proof -
  let ?prep = "prepare pstr q (price_anchor rows (rr_budget q))"
  let ?page = "rank_and_diversify pstr q rows"
  let ?lam = "clamp01 (rr_lambda q)"
  note sel = greedy_page [where pstr = pstr and q = q and rows = rows]
  have "image_mset rk_listing (mset (map unscored ?page)) = image_mset rk_listing (mset (map ?prep rows))"
    by (simp only: sel)
  then have "mset (map rk_listing ?page) = mset rows"
    by (simp add: image_mset.compositionality comp_def unscored_def prepare_def case_prod_beta)
  moreover have "rk_score r \<le> rk_score (hd ?page)" if "r \<in> set ?page" for r
  proof -
    from that obtain j where j: "j < length ?page" "?page ! j = r" by (auto simp: in_set_conv_nth)
    then have "?page \<noteq> []" by auto
    then have hd: "hd ?page = ?page ! 0" by (rule hd_conv_nth)
    have "dominates ?lam (take 0 ?page) (?page ! 0) (?page ! j)"
      using sel(2) j \<open>?page \<noteq> []\<close> unfolding greedy_from_def by blast
    then have "dominates ?lam [] (hd ?page) r" using j(2) hd by simp
    moreover have "0 \<le> ?lam" by (simp add: clamp_def)
    ultimately show ?thesis
      by (auto simp: dominates_def mmr_def similarity_def mult_less_cancel_left)
  qed
  ultimately show ?thesis using sel by blast
qed

section \<open>Scores are bounded\<close>

lemma round_even_near: "\<bar>of_int (round_even x) - x\<bar> \<le> 1 / 2"
proof -
  have "of_int \<lfloor>x\<rfloor> \<le> x" "x < of_int \<lfloor>x\<rfloor> + 1" by linarith+
  then show ?thesis unfolding round_even_def Let_def by (auto simp: abs_le_iff)
qed

lemma round2_near: "\<bar>round2 x - x\<bar> \<le> 1 / 200"
  using round_even_near [of "100 * x"] by (simp add: round2_def abs_le_iff field_simps)

lemma round2_nonneg: "0 \<le> x \<Longrightarrow> 0 \<le> round2 x"
proof -
  assume "0 \<le> x"
  then have "0 \<le> \<lfloor>100 * x\<rfloor>" by simp
  then have "0 \<le> round_even (100 * x)" by (simp add: round_even_def Let_def)
  then show ?thesis by (simp add: round2_def)
qed

definition unit_value :: "rat option \<Rightarrow> bool" where
  "unit_value v \<longleftrightarrow> (\<forall>x. v = Some x \<longrightarrow> 0 \<le> x \<and> x \<le> 1)"

lemma clamp01_unit: "0 \<le> clamp01 x \<and> clamp01 x \<le> 1"
  by (simp add: clamp_def)

lemma price_band: "0 \<le> r \<Longrightarrow> r \<le> 1 \<Longrightarrow> 0 \<le> 55 / 100 + 45 / 100 * (1 - r) \<and> 55 / 100 + 45 / 100 * (1 - r) \<le> (1 :: rat)"
  by (simp add: field_simps)

lemma price_utility_unit: "unit_value (price_utility p b)"
proof -
  have "0 \<le> 55 / 100 + 45 / 100 * (1 - x / y) \<and> 55 / 100 + 45 / 100 * (1 - x / y) \<le> 1"
    if "\<not> x < 0" "\<not> y \<le> 0" "x / y \<le> 1" for x y :: rat
  proof -
    have "0 \<le> x / y" using that by simp
    with that(3) price_band show ?thesis by blast
  qed
  then show ?thesis
    using clamp01_unit unfolding unit_value_def price_utility_def Let_def
    by (auto split: option.splits if_split simp del: divide_le_eq_1 divide_le_eq_1_pos)
qed

lemma length_filter_unit: "0 \<le> (of_nat (length (filter P xs)) / of_nat (length xs) :: rat)
    \<and> (of_nat (length (filter P xs)) / of_nat (length xs) :: rat) \<le> 1"
  using length_filter_le [of P xs] by (simp add: divide_le_eq)

lemma components_unit: "(n, v) \<in> set (listing_components pstr q anchor d) \<Longrightarrow> unit_value v"
proof -
  have "unit_value (commute_utility m l)" "unit_value (semantic_utility s)" for m l s
    using clamp01_unit by (auto simp: unit_value_def commute_utility_def semantic_utility_def split: option.splits if_splits)
  moreover have "unit_value (feature_utility pstr d fs)" for fs
  proof -
    have "feature_utility pstr d fs = None \<or> (\<exists>P xs. feature_utility pstr d fs =
        Some (of_nat (length (filter P xs)) / of_nat (length (xs :: string list))))"
      unfolding feature_utility_def Let_def by (simp only: split: if_split) blast
    then show ?thesis using length_filter_unit by (fastforce simp: unit_value_def)
  qed
  moreover have "unit_value (availability_utility pstr d m)" "unit_value (Some (freshness_utility d))" for m
    by (auto simp: unit_value_def availability_utility_def freshness_utility_def Let_def split: option.splits)
  ultimately show "(n, v) \<in> set (listing_components pstr q anchor d) \<Longrightarrow> unit_value v"
    using price_utility_unit by (auto simp: listing_components_def)
qed

lemma default_weight_pos: "0 < default_weight n"
  by (cases n) simp_all

lemma rounded_sum:
  assumes "\<forall>(n, v) \<in> set us. 0 \<le> v \<and> v \<le> (1 :: rat)" "0 < k"
  shows "0 \<le> sum_list (map (\<lambda>(n, v). round2 (k * default_weight n * v)) us)
    \<and> sum_list (map (\<lambda>(n, v). round2 (k * default_weight n * v)) us)
        \<le> k * sum_list (map (\<lambda>(n, v). default_weight n) us) + of_nat (length us) / 200"
  using assms(1)
proof (induction us)
  case (Cons u us)
  obtain n v where u: "u = (n, v)" by fastforce
  with Cons.prems have v: "0 \<le> v" "v \<le> 1" by auto
  have w: "0 \<le> k * default_weight n" using assms(2) default_weight_pos [of n] by (simp add: less_imp_le)
  have "0 \<le> k * default_weight n * v" "k * default_weight n * v \<le> k * default_weight n"
    using mult_nonneg_nonneg [OF w v(1)] mult_left_mono [OF v(2) w] by simp_all
  then have "0 \<le> round2 (k * default_weight n * v)" "round2 (k * default_weight n * v) \<le> k * default_weight n + 1 / 200"
    using round2_nonneg round2_near [of "k * default_weight n * v"] by (blast, linarith)
  with Cons show ?case by (simp add: u distrib_left add_divide_distrib)
qed simp

lemma usable_mem: "(n, v) \<in> set (usable cs) \<Longrightarrow> (n, Some v) \<in> set cs"
  by (auto simp: usable_def List.map_filter_def split: if_splits)

lemma length_usable: "length (usable cs) \<le> length cs"
  by (simp add: usable_def List.map_filter_def)

lemma score_bounded:
  assumes "\<And>n v. (n, v) \<in> set cs \<Longrightarrow> unit_value v" "length cs \<le> 6"
  shows "0 \<le> fst (normalised_score cs) \<and> fst (normalised_score cs) < 100 + 4 / 100"
proof -
  let ?us = "usable cs"
  let ?total = "sum_list (map (\<lambda>(n, v). default_weight n) ?us)"
  have u: "\<forall>(n, v) \<in> set ?us. 0 \<le> v \<and> v \<le> 1"
    using assms(1) usable_mem by (fastforce simp: unit_value_def)
  have len: "(of_nat (length ?us) :: rat) \<le> 6" using length_usable [of cs] assms(2) by simp
  show ?thesis
  proof (cases "?us = [] \<or> ?total \<le> 0")
    case False
    let ?sum = "sum_list (map (\<lambda>(n, v). round2 (100 / ?total * default_weight n * v)) ?us)"
    have r: "0 \<le> ?sum" "?sum \<le> 100 / ?total * ?total + of_nat (length ?us) / 200"
      using rounded_sum [OF u, of "100 / ?total"] False by simp_all
    then have "?sum \<le> 100 + 3 / 100" using False len by simp
    then have "round2 ?sum < 100 + 4 / 100" using round2_near [of ?sum] by linarith
    moreover have "fst (normalised_score cs) = round2 ?sum"
      using False by (simp add: normalised_score_def Let_def comp_def case_prod_unfold)
    ultimately show ?thesis using round2_nonneg [OF r(1)] by simp
  qed (auto simp: normalised_score_def Let_def)
qed

text \<open>
  Every listing of the page has a score between 0 and 100, up to the rounding of its six
  contributions to hundredths (below 100.04).
\<close>

theorem page_scores_bounded:
  "\<forall>r \<in> set (rank_and_diversify pstr q rows). 0 \<le> rk_score r \<and> rk_score r < 100 + 4 / 100"
proof
  let ?prep = "prepare pstr q (price_anchor rows (rr_budget q))"
  fix r assume "r \<in> set (rank_and_diversify pstr q rows)"
  then have "unscored r \<in> set (map unscored (rank_and_diversify pstr q rows))" by simp
  also have "\<dots> = set (map ?prep rows)"
    by (rule mset_eq_setD [OF greedy_page(1)])
  finally obtain d where "unscored r = ?prep d" by auto
  from arg_cong [OF this, of rk_score] have "rk_score r = fst (normalised_score (listing_components pstr q (price_anchor rows (rr_budget q)) d))"
    by (simp add: unscored_def prepare_def case_prod_beta)
  then show "0 \<le> rk_score r \<and> rk_score r < 100 + 4 / 100"
    using score_bounded [of "listing_components pstr q (price_anchor rows (rr_budget q)) d", OF components_unit]
    by (simp add: listing_components_def)
qed

section \<open>A concrete page\<close>

definition demo_listing :: "string \<Rightarrow> int \<Rightarrow> int \<Rightarrow> fields" where
  "demo_listing address price minutes =
     [(''Address'', JStr address), (''price'', JInt price), (''travel_time'', JInt minutes)]"

definition demo_rank :: rank_request where
  "demo_rank = \<lparr>rr_budget = Some 1000, rr_commute = Some 30, rr_features = [], rr_move_in = [], rr_lambda = 88 / 100\<rparr>"

definition demo_page :: "ranked list" where
  "demo_page = rank_and_diversify (\<lambda>_. []) demo_rank [demo_listing ''1 high street'' 900 30, demo_listing ''2 high street'' 500 10]"

theorem page_is_greedy_permutation_witness:
  "length demo_page = 2 \<and> list_all (\<lambda>r. rk_score r \<le> rk_score (hd demo_page)) demo_page"
proof -
  note p = page_is_greedy_permutation [where pstr = "\<lambda>_. []" and q = demo_rank
      and rows = "[demo_listing ''1 high street'' 900 30, demo_listing ''2 high street'' 500 10]", folded demo_page_def]
  have "length demo_page = 2" by code_simp
  with p show ?thesis by (simp add: list_all_iff)
qed

theorem page_scores_bounded_witness:
  "demo_page \<noteq> [] \<and> list_all (\<lambda>r. 0 \<le> rk_score r) demo_page"
proof -
  have "demo_page \<noteq> []" by code_simp
  then show ?thesis
    using page_scores_bounded [where pstr = "\<lambda>_. []" and q = demo_rank
      and rows = "[demo_listing ''1 high street'' 900 30, demo_listing ''2 high street'' 500 10]", folded demo_page_def]
    by (simp add: list_all_iff)
qed

text \<open>A listing that is perfect on commute, semantics, features and freshness scores 100.01.\<close>

lemma perfect_listing_above_100:
  "map rk_score (rank_and_diversify (\<lambda>_. [])
       \<lparr>rr_budget = None, rr_commute = Some 30, rr_features = [JStr ''garden''], rr_move_in = [], rr_lambda = 1\<rparr>
       [[(''travel_time'', JInt 0), (''similarity_score'', JInt 1), (''Description'', JStr ''garden'')]]) = [10001 / 100]"
  by code_simp

end
