(* ===== verification/Caches.thy ===== *)
theory Caches
  imports Prelude
begin

text \<open>
  The two caches: \<open>web/session_store.py\<close>, the in-memory hot cache of conversation state (least
  recently used first, with a time to live), and \<open>data/cache.py\<close>, the SQLite cache whose rows are
  JSON envelopes with freshness metadata.  The clocks are arguments.
\<close>

section \<open>The hot session cache\<close>

record session =
  ss_state :: json
  ss_history :: "json list"
  ss_results :: "json list"
  ss_favorites :: json
  ss_rehydrated :: bool
  ss_touched :: time

text \<open>\<open>default_persistent_state()\<close>.\<close>

definition default_persistent_state :: json where
  "default_persistent_state = JObj
     [(''user_preferences'', JObj [(''hard_preferences'', JArr []), (''soft_preferences'', JArr []),
         (''excluded_areas'', JArr []), (''required_amenities'', JArr []), (''safety_concerns'', JArr [])]),
      (''accumulated_search_criteria'', JObj [(''destination'', JNull), (''max_budget'', JNull),
         (''max_travel_time'', JNull), (''property_features'', JArr []), (''soft_preferences'', JArr []),
         (''amenities_of_interest'', JArr [])]),
      (''extracted_context'', JObj [])]"

definition new_session :: "time \<Rightarrow> session" where
  "new_session now = \<lparr>ss_state = default_persistent_state, ss_history = [], ss_results = [], ss_favorites = JObj [],
     ss_rehydrated = False, ss_touched = now\<rparr>"

type_synonym slice_key = "string \<times> string"

record session_store =
  sc_max :: nat
  sc_ttl :: time
  sc_data :: "(slice_key \<times> session) list"

definition open_session_store :: "nat \<Rightarrow> time \<Rightarrow> session_store option" where
  "open_session_store max_users ttl =
     (if max_users < 1 \<or> ttl < 1 then None else Some \<lparr>sc_max = max_users, sc_ttl = ttl, sc_data = []\<rparr>)"

definition slice_of :: "string option \<Rightarrow> string option \<Rightarrow> slice_key" where
  "slice_of user conv = (or_text user ''default'', or_text conv ''default'')"

definition expire_slices :: "session_store \<Rightarrow> time \<Rightarrow> session_store" where
  "expire_slices s now =
     s\<lparr>sc_data := filter (\<lambda>(k, v). \<not> sc_ttl s \<le> now - ss_touched v) (sc_data s)\<rparr>"

definition pop_slice :: "slice_key \<Rightarrow> (slice_key \<times> session) list \<Rightarrow> (slice_key \<times> session) list" where
  "pop_slice key d = filter (\<lambda>(k, v). k \<noteq> key) d"

definition get_slice :: "session_store \<Rightarrow> slice_key \<Rightarrow> time \<Rightarrow> session \<times> session_store" where
  "get_slice s key now =
     (let s1 = expire_slices s now;
          value = (case map_of (sc_data s1) key of None \<Rightarrow> new_session now | Some v \<Rightarrow> v\<lparr>ss_touched := now\<rparr>);
          d = pop_slice key (sc_data s1) @ [(key, value)] in
      (value, s1\<lparr>sc_data := drop (length d - sc_max s1) d\<rparr>))"

definition clear_slice :: "session_store \<Rightarrow> slice_key \<Rightarrow> session_store" where
  "clear_slice s key = s\<lparr>sc_data := pop_slice key (sc_data s)\<rparr>"

definition clear_user :: "session_store \<Rightarrow> string option \<Rightarrow> session_store" where
  "clear_user s user =
     s\<lparr>sc_data := filter (\<lambda>(k, v). fst k \<noteq> or_text user ''default'') (sc_data s)\<rparr>"

definition clear_session :: "session_store \<Rightarrow> string option \<Rightarrow> string option \<Rightarrow> session_store" where
  "clear_session s user conv =
     (case conv of None \<Rightarrow> clear_user s user | Some c \<Rightarrow> clear_slice s (slice_of user conv))"

definition session_slices :: "session_store \<Rightarrow> string option \<Rightarrow> nat" where
  "session_slices s user = length (filter (\<lambda>(k, v). fst k = or_text user ''default'') (sc_data s))"

text \<open>
  A caller writes into the session object it got; the slot of its key holds that object for as
  long as it is cached.
\<close>

definition write_slice :: "session_store \<Rightarrow> slice_key \<Rightarrow> (session \<Rightarrow> session) \<Rightarrow> session_store" where
  "write_slice s key f =
     s\<lparr>sc_data := map (\<lambda>(k, v). (k, if k = key then (f v)\<lparr>ss_touched := ss_touched v\<rparr> else v)) (sc_data s)\<rparr>"

section \<open>The persistent cache\<close>

datatype stored = Json json | Malformed string

record cache_row =
  ch_key :: string
  ch_value :: stored
  ch_accessed :: time

datatype cache_status = Miss | Fresh | Stale | Corrupt

record cache_entry =
  ce_status :: cache_status
  ce_value :: json
  ce_stored_at :: "rat option"
  ce_expires_at :: "rat option"
  ce_version :: "string option"
  ce_provenance :: fields
  ce_reason :: "string option"
  ce_legacy :: bool

definition blank_entry :: "cache_status \<Rightarrow> cache_entry" where
  "blank_entry st = \<lparr>ce_status = st, ce_value = JNull, ce_stored_at = None, ce_expires_at = None, ce_version = None,
     ce_provenance = [], ce_reason = None, ce_legacy = False\<rparr>"

definition is_envelope :: "json \<Rightarrow> bool" where
  "is_envelope payload \<longleftrightarrow> is_dict payload \<and> json_get payload ''_cache_envelope'' = Some (JStr ''uk_rent_agent_cache'')"

definition legacy_entry :: "json \<Rightarrow> bool \<Rightarrow> cache_entry" where
  "legacy_entry payload contracted =
     (if contracted
      then (blank_entry Stale)\<lparr>ce_value := payload, ce_reason := Some ''legacy_entry_has_no_freshness_metadata'', ce_legacy := True\<rparr>
      else (blank_entry Fresh)\<lparr>ce_value := payload, ce_legacy := True\<rparr>)"

text \<open>The expiry the reader applies: the writer's, shortened by the caller's maximal age.\<close>

definition effective_expiry :: "rat \<Rightarrow> rat option \<Rightarrow> rat option \<Rightarrow> rat option" where
  "effective_expiry stored_at expires_at ttl =
     (case ttl of
        None \<Rightarrow> expires_at
      | Some t \<Rightarrow> Some (case expires_at of None \<Rightarrow> stored_at + max 0 t | Some e \<Rightarrow> min e (stored_at + max 0 t)))"

text \<open>A missing \<open>provenance\<close> is an empty dictionary.\<close>

definition read_envelope :: "json \<Rightarrow> rat option \<Rightarrow> string option \<Rightarrow> time \<Rightarrow> cache_entry" where
  "read_envelope payload ttl version now =
     (if json_number (field_or_null payload ''schema'') \<noteq> Some 1 then (blank_entry Corrupt)\<lparr>ce_reason := Some ''unsupported_envelope_schema''\<rparr>
      else
        let stored_at = json_number (field_or_null payload ''stored_at'');
            raw_expiry = field_or_null payload ''expires_at'';
            provenance = (case json_get payload ''provenance'' of None \<Rightarrow> JObj [] | Some v \<Rightarrow> v) in
        case (stored_at, field_or_null payload ''version'', provenance, json_get payload ''value'') of
          (Some st, JStr v, JObj prov, Some value) \<Rightarrow>
            if raw_expiry \<noteq> JNull \<and> json_number raw_expiry = None
            then (blank_entry Corrupt)\<lparr>ce_reason := Some ''invalid_envelope_fields''\<rparr>
            else
              let common = (blank_entry Fresh)\<lparr>ce_value := value, ce_stored_at := Some st,
                    ce_expires_at := json_number raw_expiry, ce_version := Some v, ce_provenance := prov\<rparr> in
              if version \<noteq> None \<and> version \<noteq> Some v
              then common\<lparr>ce_status := Stale, ce_reason := Some ''version_mismatch''\<rparr>
              else (case effective_expiry st (json_number raw_expiry) ttl of
                  None \<Rightarrow> common
                | Some e \<Rightarrow> if e \<le> now then common\<lparr>ce_status := Stale, ce_reason := Some ''expired''\<rparr> else common)
        | _ \<Rightarrow> (blank_entry Corrupt)\<lparr>ce_reason := Some ''invalid_envelope_fields''\<rparr>)"

definition cache_read ::
  "cache_row list \<Rightarrow> string \<Rightarrow> rat option \<Rightarrow> string option \<Rightarrow> time \<Rightarrow> time \<Rightarrow> cache_entry \<times> cache_row list" where
  "cache_read rows key ttl version now wall =
     (case find (\<lambda>r. ch_key r = key) rows of
        None \<Rightarrow> (blank_entry Miss, rows)
      | Some r \<Rightarrow>
          (case ch_value r of
             Malformed exc \<Rightarrow> (blank_entry Corrupt)\<lparr>ce_reason := Some (''invalid_json:'' @ exc)\<rparr>
           | Json payload \<Rightarrow>
               if is_envelope payload then read_envelope payload ttl version now
               else legacy_entry payload (ttl \<noteq> None \<or> version \<noteq> None),
           map (\<lambda>r. if ch_key r = key then r\<lparr>ch_accessed := wall\<rparr> else r) rows))"

definition cache_get :: "cache_row list \<Rightarrow> string \<Rightarrow> time \<Rightarrow> json \<times> cache_row list" where
  "cache_get rows key wall =
     (let (e, rows1) = cache_read rows key None None wall wall in
      (if ce_status e = Fresh then ce_value e else JNull, rows1))"

definition envelope :: "json \<Rightarrow> rat option \<Rightarrow> string \<Rightarrow> fields \<Rightarrow> time \<Rightarrow> json" where
  "envelope value ttl version provenance now = JObj
     [(''_cache_envelope'', JStr ''uk_rent_agent_cache''), (''schema'', JInt 1), (''version'', JStr version),
      (''stored_at'', JFloat now),
      (''expires_at'', case ttl of None \<Rightarrow> JNull | Some t \<Rightarrow> JFloat (now + max 0 t)),
      (''provenance'', JObj provenance), (''value'', value)]"

definition upsert_row :: "cache_row \<Rightarrow> cache_row list \<Rightarrow> cache_row list" where
  "upsert_row r rows =
     (if list_ex (\<lambda>q. ch_key q = ch_key r) rows
      then map (\<lambda>q. if ch_key q = ch_key r then r else q) rows else rows @ [r])"

text \<open>\<open>DELETE ... ORDER BY accessed ASC LIMIT excess\<close>.\<close>

definition evict_rows :: "nat \<Rightarrow> cache_row list \<Rightarrow> cache_row list" where
  "evict_rows max_entries rows =
     (let gone = map ch_key (take (length rows - max_entries) (sort_key ch_accessed rows)) in
      filter (\<lambda>r. ch_key r \<notin> set gone) rows)"

definition cache_set ::
  "nat \<Rightarrow> cache_row list \<Rightarrow> string \<Rightarrow> json \<Rightarrow> rat option \<Rightarrow> string \<Rightarrow> fields \<Rightarrow> time \<Rightarrow> time \<Rightarrow> cache_row list" where
  "cache_set max_entries rows key value ttl version provenance now wall =
     evict_rows max_entries
       (upsert_row \<lparr>ch_key = key, ch_value = Json (envelope value ttl version provenance now), ch_accessed = wall\<rparr> rows)"

section \<open>The session cache keeps recent slices\<close>

datatype session_op = GetSlice slice_key time | WriteSlice slice_key "session \<Rightarrow> session"
  | ClearSession "string option" "string option"

fun session_step :: "session_store \<Rightarrow> session_op \<Rightarrow> session_store" where
  "session_step s (GetSlice key now) = snd (get_slice s key now)"
| "session_step s (WriteSlice key f) = write_slice s key f"
| "session_step s (ClearSession user conv) = clear_session s user conv"

definition slice_keys :: "session_store \<Rightarrow> slice_key list" where
  "slice_keys s = map fst (sc_data s)"

definition sessions_ok :: "nat \<Rightarrow> time \<Rightarrow> session_store \<Rightarrow> bool" where
  "sessions_ok m ttl s \<longleftrightarrow> sc_max s = m \<and> sc_ttl s = ttl \<and> distinct (slice_keys s) \<and> length (slice_keys s) \<le> m"

lemma pop_slice_keys [simp]: "fst ` set (pop_slice key d) = fst ` set d - {key}"
  by (force simp: pop_slice_def)

lemma get_slice_data:
  "sc_data (snd (get_slice s key now)) =
     (let d = pop_slice key (sc_data (expire_slices s now)) @ [(key, fst (get_slice s key now))] in
      drop (length d - sc_max s) d)"
  by (simp add: get_slice_def Let_def expire_slices_def)

lemma get_slice_config [simp]:
  "sc_max (snd (get_slice s key now)) = sc_max s" "sc_ttl (snd (get_slice s key now)) = sc_ttl s"
  by (simp_all add: get_slice_def Let_def expire_slices_def)

lemma write_slice_simps [simp]:
  "sc_max (write_slice s key f) = sc_max s" "sc_ttl (write_slice s key f) = sc_ttl s"
  "slice_keys (write_slice s key f) = slice_keys s"
  by (simp_all add: write_slice_def slice_keys_def comp_def case_prod_beta)

lemma distinct_get_slice:
  assumes "distinct (slice_keys s)"
  shows "distinct (slice_keys (snd (get_slice s key now)))"
proof -
  let ?d = "pop_slice key (sc_data (expire_slices s now)) @ [(key, fst (get_slice s key now))]"
  have "distinct (map fst (pop_slice key (sc_data (expire_slices s now))))"
    using assms by (simp add: slice_keys_def pop_slice_def expire_slices_def distinct_map_filter)
  then have "distinct (map fst ?d)" by simp
  then show ?thesis
    unfolding slice_keys_def get_slice_data Let_def drop_map [symmetric] by (rule distinct_drop)
qed

lemma sessions_ok_get: "sessions_ok m ttl s \<Longrightarrow> sessions_ok m ttl (snd (get_slice s key now))"
  using distinct_get_slice [of s key now] by (simp add: sessions_ok_def slice_keys_def get_slice_data Let_def)

lemma sessions_ok_filter:
  "sessions_ok m ttl s \<Longrightarrow> sessions_ok m ttl (s\<lparr>sc_data := filter P (sc_data s)\<rparr>)"
  unfolding sessions_ok_def slice_keys_def
  by (auto intro: distinct_map_filter order_trans [OF length_filter_le])

lemma sessions_ok_step: "sessions_ok m ttl s \<Longrightarrow> sessions_ok m ttl (session_step s a)"
proof (cases a)
  case (ClearSession user conv)
  then show "sessions_ok m ttl s \<Longrightarrow> ?thesis"
    by (auto simp: clear_session_def clear_user_def clear_slice_def pop_slice_def
        intro: sessions_ok_filter split: option.splits)
next
  case (WriteSlice key f)
  then show "sessions_ok m ttl s \<Longrightarrow> ?thesis" by (simp add: sessions_ok_def)
qed (simp add: sessions_ok_get)

interpretation sessions: invariant_machine "\<lparr>sc_max = m, sc_ttl = ttl, sc_data = []\<rparr>"
    "\<lambda>_ _. True" session_step "sessions_ok m ttl" for m ttl
  by unfold_locales (simp_all add: sessions_ok_step, simp add: sessions_ok_def slice_keys_def)

text \<open>
  A slice that was got at \<open>t0\<close> and after which only the keys of \<open>K\<close> have been got: everything
  behind it in the eviction order has a key of \<open>K\<close>.
\<close>

definition recent :: "slice_key \<Rightarrow> session \<Rightarrow> slice_key set \<Rightarrow> session_store \<Rightarrow> bool" where
  "recent key v K s \<longleftrightarrow>
     (\<exists>pre post. sc_data s = pre @ (key, v) # post \<and> fst ` set post \<subseteq> K \<and> distinct (slice_keys s))"

lemma recent_mono: "recent key v K s \<Longrightarrow> K \<subseteq> K' \<Longrightarrow> recent key v K' s"
  unfolding recent_def by blast

lemma recent_after_get:
  assumes "sessions_ok m ttl s" "1 \<le> m"
  shows "recent key (fst (get_slice s key now)) {} (snd (get_slice s key now))"
proof -
  let ?d = "pop_slice key (sc_data (expire_slices s now))"
  have "drop (length (?d @ [(key, fst (get_slice s key now))]) - sc_max s) (?d @ [(key, fst (get_slice s key now))])
      = drop (Suc (length ?d) - m) ?d @ [(key, fst (get_slice s key now))]"
    using assms by (simp add: sessions_ok_def)
  moreover have "distinct (slice_keys (snd (get_slice s key now)))"
    using sessions_ok_get [OF assms(1)] by (simp add: sessions_ok_def)
  ultimately show ?thesis unfolding recent_def get_slice_data Let_def by auto
qed

lemma recent_write:
  "recent key v K s \<Longrightarrow> recent key ((f v)\<lparr>ss_touched := ss_touched v\<rparr>) K (write_slice s key f)"
proof -
  assume "recent key v K s"
  then obtain pre post where r: "sc_data s = pre @ (key, v) # post" "fst ` set post \<subseteq> K" "distinct (slice_keys s)"
    unfolding recent_def by blast
  let ?g = "\<lambda>(k, v). (k, if k = key then (f v)\<lparr>ss_touched := ss_touched v\<rparr> else v)"
  have "sc_data (write_slice s key f) = map ?g pre @ (key, (f v)\<lparr>ss_touched := ss_touched v\<rparr>) # map ?g post"
    by (simp add: write_slice_def r(1))
  moreover have "fst ` set (map ?g post) \<subseteq> K" using r(2) by (auto simp: image_image case_prod_beta)
  ultimately show ?thesis using r(3) unfolding recent_def write_slice_simps by blast
qed

lemma recent_get_other:
  assumes r: "recent key v K s" and k: "k \<noteq> key" "k \<in> K" and fresh: "now - ss_touched v < sc_ttl s"
    and K: "finite K" "card K < sc_max s"
  shows "recent key v K (snd (get_slice s k now))"
proof -
  obtain pre post where d: "sc_data s = pre @ (key, v) # post" and post: "fst ` set post \<subseteq> K"
    and dist: "distinct (slice_keys s)" using r unfolding recent_def by blast
  let ?alive = "\<lambda>(k, v). \<not> sc_ttl s \<le> now - ss_touched v"
  let ?pre = "pop_slice k (filter ?alive pre)" and ?w = "fst (get_slice s k now)"
  let ?post = "pop_slice k (filter ?alive post) @ [(k, ?w)]"
  have "(key, v) \<in> set (filter ?alive (sc_data s))" using fresh d by simp
  then have data: "pop_slice k (sc_data (expire_slices s now)) @ [(k, ?w)] = ?pre @ (key, v) # ?post"
    using fresh k(1) by (simp add: expire_slices_def d pop_slice_def)
  have keys: "fst ` set ?post \<subseteq> K" using post k(2) by auto
  have "distinct (map fst post)" using dist by (simp add: slice_keys_def d)
  then have dp: "distinct (map fst ?post)" by (auto simp: pop_slice_def intro!: distinct_map_filter)
  have "length ?post = card (fst ` set ?post)" using distinct_card [OF dp] by simp
  also have "\<dots> \<le> card K" using keys K(1) by (intro card_mono)
  finally have "length ?post < sc_max s" using K(2) by simp
  then have "drop (length (?pre @ (key, v) # ?post) - sc_max s) (?pre @ (key, v) # ?post)
      = drop (length (?pre @ (key, v) # ?post) - sc_max s) ?pre @ (key, v) # ?post"
    by (subst drop_append) simp
  then have "sc_data (snd (get_slice s k now)) = drop (length (?pre @ (key, v) # ?post) - sc_max s) ?pre @ (key, v) # ?post"
    unfolding get_slice_data Let_def data .
  moreover have "distinct (slice_keys (snd (get_slice s k now)))" using dist by (rule distinct_get_slice)
  ultimately show ?thesis unfolding recent_def using keys by blast
qed

definition get_all :: "session_store \<Rightarrow> (slice_key \<times> time) list \<Rightarrow> session_store" where
  "get_all s gets = fold (\<lambda>(k, now) s. snd (get_slice s k now)) gets s"

lemma recent_get_all:
  assumes "recent key v K s" "fst ` set gets \<subseteq> K - {key}" "\<forall>(k, now) \<in> set gets. now - ss_touched v < sc_ttl s"
    "finite K" "card K < sc_max s"
  shows "recent key v K (get_all s gets) \<and> sc_ttl (get_all s gets) = sc_ttl s"
  using assms
proof (induction gets arbitrary: s)
  case (Cons g gets)
  obtain k now where g: "g = (k, now)" by fastforce
  have "recent key v K (snd (get_slice s k now))"
    using recent_get_other Cons.prems by (simp add: g)
  then show ?case
    using Cons.IH [of "snd (get_slice s k now)"] Cons.prems by (simp add: get_all_def g)
qed (simp add: get_all_def)

lemma touched_by_get: "ss_touched (fst (get_slice s key now)) = now"
  by (simp add: get_slice_def Let_def new_session_def split: option.splits)

text \<open>
  A session that a caller got and wrote is found again, with what was written, by a later get
  within the time to live, whatever operations preceded it, as long as fewer than \<open>max_users\<close>
  other slices were got in between.
\<close>

theorem hot_slice_survives:
  assumes "open_session_store m ttl = Some s0" "s = run_ops session_step s0 ops"
    and "get_slice s key t0 = (v, s1)"
    and "key \<notin> fst ` set gets" "card (fst ` set gets) < m"
    and "\<forall>(k, now) \<in> set gets. now - t0 < ttl" "t - t0 < ttl"
  shows "fst (get_slice (get_all (write_slice s1 key f) gets) key t) = (f v)\<lparr>ss_touched := t\<rparr>"
proof -
  let ?v = "(f v)\<lparr>ss_touched := t0\<rparr>" and ?s = "get_all (write_slice s1 key f) gets"
  have m: "1 \<le> m" and s0: "s0 = \<lparr>sc_max = m, sc_ttl = ttl, sc_data = []\<rparr>"
    using assms(1) by (auto simp: open_session_store_def split: if_splits)
  have ok: "sessions_ok m ttl s" using sessions.inv_run [of m ttl ops] by (simp add: assms(2) s0)
  have "recent key v {} s1" "sessions_ok m ttl s1" "ss_touched v = t0"
    using recent_after_get [OF ok m, of key t0] sessions_ok_get [OF ok, of key t0] touched_by_get [of s key t0]
    by (simp_all add: assms(3))
  with recent_mono [OF recent_write [of key v "{}" s1 f], of "fst ` set gets"]
  have "recent key ?v (fst ` set gets) (write_slice s1 key f)" "sc_max s1 = m" "sc_ttl s1 = ttl"
    by (simp_all add: sessions_ok_def)
  with assms(4-6) have "recent key ?v (fst ` set gets) ?s \<and> sc_ttl ?s = ttl"
    using recent_get_all [of key ?v "fst ` set gets" "write_slice s1 key f" gets] by auto
  then have "(key, ?v) \<in> set (sc_data (expire_slices ?s t))" "distinct (map fst (sc_data (expire_slices ?s t)))"
    using assms(7) by (auto simp: recent_def expire_slices_def slice_keys_def intro: distinct_map_filter)
  then have "map_of (sc_data (expire_slices ?s t)) key = Some ?v" by simp
  then show ?thesis by (simp add: get_slice_def Let_def)
qed

text \<open>\<open>clear(user)\<close> leaves no slice of the user and every slice of the others.\<close>

lemma clear_user_slices:
  "session_slices (clear_session s user None) user = 0
   \<and> (\<forall>k v. fst k \<noteq> or_text user ''default'' \<longrightarrow>
        ((k, v) \<in> set (sc_data (clear_session s user None)) \<longleftrightarrow> (k, v) \<in> set (sc_data s)))"
  by (auto simp: session_slices_def clear_session_def clear_user_def filter_empty_conv)

theorem hot_slice_survives_witness:
  "ss_history (fst (get_slice (get_all (write_slice (snd (get_slice \<lparr>sc_max = 2, sc_ttl = 60, sc_data = []\<rparr> (''u'', ''c'') 0))
       (''u'', ''c'') (ss_history_update (\<lambda>_. [JNull]))) [((''v'', ''c''), 10)]) (''u'', ''c'') 20)) = [JNull]"
proof -
  let ?s = "\<lparr>sc_max = 2, sc_ttl = 60, sc_data = []\<rparr>" and ?f = "ss_history_update (\<lambda>_. [JNull])"
  have "fst (get_slice (get_all (write_slice (snd (get_slice ?s (''u'', ''c'') 0)) (''u'', ''c'') ?f) [((''v'', ''c''), 10)]) (''u'', ''c'') 20)
      = (?f (fst (get_slice ?s (''u'', ''c'') 0)))\<lparr>ss_touched := 20\<rparr>"
    by (rule hot_slice_survives [of 2 60 ?s ?s "[]"]) (simp_all add: open_session_store_def, simp_all)
  then show ?thesis by simp
qed

section \<open>What is written is read\<close>

datatype cache_op =
    CSet string json "rat option" string fields time
  | CRead string "rat option" "string option" time

text \<open>A call and the wall clock it reads.\<close>

fun cache_step :: "nat \<Rightarrow> cache_row list \<Rightarrow> cache_op \<times> time \<Rightarrow> cache_row list" where
  "cache_step m rows (CSet key value ttl version provenance now, wall) =
     cache_set m rows key value ttl version provenance now wall"
| "cache_step m rows (CRead key ttl version now, wall) = snd (cache_read rows key ttl version now wall)"

text \<open>One row per key, within the capacity, none used after the clock \<open>c\<close>.\<close>

definition cache_ok :: "nat \<Rightarrow> time \<Rightarrow> cache_row list \<Rightarrow> bool" where
  "cache_ok m c rows \<longleftrightarrow> distinct (map ch_key rows) \<and> length rows \<le> m \<and> (\<forall>r \<in> set rows. ch_accessed r \<le> c)"

lemma keys_upsert: "map ch_key (upsert_row r rows) =
    (if ch_key r \<in> ch_key ` set rows then map ch_key rows else map ch_key rows @ [ch_key r])"
proof -
  have "list_ex (\<lambda>q. ch_key q = ch_key r) rows \<longleftrightarrow> ch_key r \<in> ch_key ` set rows"
    unfolding list_ex_iff image_iff by metis
  moreover have "map ch_key (map (\<lambda>q. if ch_key q = ch_key r then r else q) rows) = map ch_key rows" by simp
  ultimately show ?thesis by (simp add: upsert_row_def)
qed

lemma upsert_mem: "r \<in> set (upsert_row r rows)"
  by (auto simp: upsert_row_def list_ex_iff)

lemma set_upsert: "q \<in> set (upsert_row r rows) \<Longrightarrow> q = r \<or> q \<in> set rows \<and> ch_key q \<noteq> ch_key r"
  by (auto simp: upsert_row_def list_ex_iff split: if_splits)

lemma distinct_upsert: "distinct (map ch_key rows) \<Longrightarrow> distinct (map ch_key (upsert_row r rows))"
  by (simp add: keys_upsert image_iff)

lemma length_evict:
  assumes "distinct (map ch_key rows)"
  shows "length (evict_rows m rows) \<le> m" "set (evict_rows m rows) \<subseteq> set rows"
    "distinct (map ch_key (evict_rows m rows))"
proof -
  let ?gone = "take (length rows - m) (sort_key ch_accessed rows)"
  have inj: "inj_on ch_key (set rows)" and d: "distinct rows" using assms by (auto simp: distinct_map)
  have sub: "set ?gone \<subseteq> set rows" using set_take_subset [of "length rows - m" "sort_key ch_accessed rows"] by simp
  have "set (evict_rows m rows) = set rows - set ?gone"
    using inj sub unfolding evict_rows_def Let_def by (auto dest: inj_onD)
  then have "card (set (evict_rows m rows)) = card (set rows) - card (set ?gone)"
    using sub by (simp add: card_Diff_subset)
  moreover have "distinct ?gone" using d by (intro distinct_take) simp
  moreover have "distinct (evict_rows m rows)" using d by (simp add: evict_rows_def)
  ultimately have "length (evict_rows m rows) = length rows - min (length rows) (length rows - m)"
    using d by (simp add: distinct_card)
  then show "length (evict_rows m rows) \<le> m" by simp
  show "set (evict_rows m rows) \<subseteq> set rows" by (auto simp: evict_rows_def)
  show "distinct (map ch_key (evict_rows m rows))"
    using assms unfolding evict_rows_def Let_def by (rule distinct_map_filter)
qed

lemma evict_keeps_latest:
  assumes "distinct (map ch_key rows)" "r \<in> set rows" "\<forall>q \<in> set rows. q \<noteq> r \<longrightarrow> ch_accessed q < ch_accessed r" "1 \<le> m"
  shows "r \<in> set (evict_rows m rows)"
proof -
  let ?s = "sort_key ch_accessed rows"
  have "?s \<noteq> []" using assms(2) by (metis empty_iff list.set(1) set_sort)
  then obtain ys x where s: "?s = ys @ [x]" by (metis rev_exhaust)
  have mem: "set rows = insert x (set ys)" using arg_cong [OF s, of set] by simp
  have "sorted (map ch_accessed (ys @ [x]))" unfolding s [symmetric] by simp
  then have "\<forall>y \<in> set ys. ch_accessed y \<le> ch_accessed x" by (simp add: sorted_append)
  with assms(2,3) mem have x: "x = r" by force
  have len: "length rows = Suc (length ys)" using arg_cong [OF s, of length] by simp
  have "take (length rows - m) ?s = take (length rows - m) ys" using assms(4) by (simp add: s len)
  moreover have "distinct (ys @ [x])" using assms(1) unfolding s [symmetric] by (simp add: distinct_map)
  ultimately have "r \<notin> set (take (length rows - m) ?s)" using x by (auto dest: in_set_takeD)
  moreover have "inj_on ch_key (set rows)" using assms(1) by (simp add: distinct_map)
  moreover have "set (take (length rows - m) ?s) \<subseteq> set rows" by (metis set_sort set_take_subset)
  ultimately show ?thesis using assms(2) unfolding evict_rows_def Let_def by (auto dest: inj_onD)
qed

lemma cache_ok_set:
  assumes "cache_ok m c rows" "c \<le> wall"
  shows "cache_ok m wall (cache_set m rows key value ttl version provenance now wall)"
proof -
  let ?r = "\<lparr>ch_key = key, ch_value = Json (envelope value ttl version provenance now), ch_accessed = wall\<rparr>"
  have "distinct (map ch_key (upsert_row ?r rows))" using assms(1) by (simp add: cache_ok_def distinct_upsert)
  note e = length_evict [OF this, of m]
  have "ch_accessed q \<le> wall" if "q \<in> set (upsert_row ?r rows)" for q
    using set_upsert [OF that] assms by (force simp: cache_ok_def)
  with e show ?thesis by (auto simp: cache_ok_def cache_set_def)
qed

lemma cache_ok_read:
  assumes "cache_ok m c rows" "c \<le> wall"
  shows "cache_ok m wall (snd (cache_read rows key ttl version now wall))"
proof -
  have keys: "ch_key \<circ> (\<lambda>r. if ch_key r = key then r\<lparr>ch_accessed := wall\<rparr> else r) = ch_key" by auto
  have "\<forall>r \<in> set rows. ch_accessed r \<le> wall" using assms by (force simp: cache_ok_def)
  then show ?thesis
    using assms(1) by (auto simp: cache_ok_def cache_read_def keys split: option.split)
qed

lemma cache_run_ok:
  assumes "cache_ok m c rows" "sorted (c # map snd ops)"
  shows "cache_ok m (last (c # map snd ops)) (run_ops (cache_step m) rows ops)"
  using assms
proof (induction ops arbitrary: c rows)
  case (Cons a ops)
  obtain call w where a: "a = (call, w)" by fastforce
  with Cons.prems have "cache_ok m w (cache_step m rows a)"
    by (cases call) (simp_all add: cache_ok_set cache_ok_read)
  with Cons a show ?case by simp
qed simp

lemma read_own_envelope:
  "read_envelope (envelope value ttl version provenance now) ttl' version' read_at =
     (let expiry = map_option (\<lambda>t. now + max 0 t) ttl;
          entry = \<lparr>ce_status = Fresh, ce_value = value, ce_stored_at = Some now, ce_expires_at = expiry,
            ce_version = Some version, ce_provenance = provenance, ce_reason = None, ce_legacy = False\<rparr> in
      if version' \<noteq> None \<and> version' \<noteq> Some version
      then entry\<lparr>ce_status := Stale, ce_reason := Some ''version_mismatch''\<rparr>
      else if \<exists>e. effective_expiry now expiry ttl' = Some e \<and> e \<le> read_at
      then entry\<lparr>ce_status := Stale, ce_reason := Some ''expired''\<rparr> else entry)"
  by (cases ttl; cases "effective_expiry now (map_option (\<lambda>t. now + max 0 t) ttl) ttl'")
    (simp_all add: read_envelope_def envelope_def field_or_null_def blank_entry_def Let_def)

lemma find_key: "distinct (map ch_key rows) \<Longrightarrow> r \<in> set rows \<Longrightarrow> find (\<lambda>q. ch_key q = ch_key r) rows = Some r"
  by (induction rows) auto



end
