(* ===== verification/SpecialistContracts.thy ===== *)
theory SpecialistContracts
  imports Prelude
begin

text \<open>
  \<open>src/uk_rent_agent/agent/specialist_contracts.py\<close>: the typed boundary between the manager
  and its read-only specialists.  Each pydantic model is a record with a constructor
  \<open>make_...\<close> that runs its field constraints and its validator and returns the reason of a
  rejection or the frozen value.  Attributes of a live tool spec are read with \<open>getattr\<close>, so
  they are JSON values (\<open>JNull\<close> when missing).  SHA-256 (as lower-case hex) is the parameter
  \<open>sha\<close>, and \<open>ftext\<close> is Python's \<open>repr\<close> of a float.
\<close>

section \<open>Constants and constrained strings\<close>

datatype role = Listings | Mobility | AreaEvidence

fun role_of_name :: "string \<Rightarrow> role option" where
  "role_of_name s =
     (if s = ''listings'' then Some Listings else if s = ''mobility'' then Some Mobility
      else if s = ''area_evidence'' then Some AreaEvidence else None)"

definition manager_only_tools :: "string list" where
  "manager_only_tools = [''remember'', ''recall_memory'', ''ask_user'']"

definition max_specialist_tasks :: nat where "max_specialist_tasks = 8"
definition max_tool_input_schema_bytes :: nat where "max_tool_input_schema_bytes = 256 * 1024"
definition max_task_input_bytes :: nat where "max_task_input_bytes = 64 * 1024"
definition max_result_data_bytes :: nat where "max_result_data_bytes = 32 * 1024"

definition untrusted_specialist_tools :: "string list" where
  "untrusted_specialist_tools =
     [''web_search'', ''search_properties'', ''get_property_details'', ''search_nearby_pois'']"

fun tool_allowlist :: "role \<Rightarrow> string list" where
  "tool_allowlist Listings = [''search_properties'', ''get_property_details'']"
| "tool_allowlist Mobility =
     [''calculate_commute'', ''calculate_commute_cost'', ''check_transport_cost'', ''get_transport_info'']"
| "tool_allowlist AreaEvidence =
     [''check_safety'', ''compare_or_rank_areas'', ''get_weather'', ''search_nearby_pois'', ''web_search'']"

definition identifier_text :: "string \<Rightarrow> string option" where
  "identifier_text raw =
     (let s = strip raw in
      case s of [] \<Rightarrow> None
      | c # cs \<Rightarrow> if length s \<le> 128 \<and> is_alnum c \<and> list_all (\<lambda>x. is_alnum x \<or> x \<in> set ''._:/-'') cs
                  then Some s else None)"

definition tool_name_text :: "string \<Rightarrow> string option" where
  "tool_name_text raw =
     (let s = strip raw in
      case s of [] \<Rightarrow> None
      | c # cs \<Rightarrow> if length s \<le> 128 \<and> is_alpha c \<and> list_all (\<lambda>x. is_alnum x \<or> x = CHR ''_'') cs
                  then Some s else None)"

definition bounded_text :: "nat \<Rightarrow> nat \<Rightarrow> string \<Rightarrow> string option" where
  "bounded_text low high raw = (let s = strip raw in if low \<le> length s \<and> length s \<le> high then Some s else None)"

abbreviation short_text :: "string \<Rightarrow> string option" where
  "short_text \<equiv> bounded_text 1 2000"

abbreviation answer_text :: "string \<Rightarrow> string option" where
  "answer_text \<equiv> bounded_text 1 8000"

definition is_sha256_digest :: "string \<Rightarrow> bool" where
  "is_sha256_digest s \<longleftrightarrow>
     take 7 s = ''sha256:'' \<and> length (drop 7 s) = 64 \<and> list_all is_hex_lower (drop 7 s)"

section \<open>Canonical JSON\<close>

definition hex_digit :: "nat \<Rightarrow> char" where
  "hex_digit d = (if d < 10 then char_of (48 + d) else char_of (87 + d))"

definition escape_char :: "char \<Rightarrow> string" where
  "escape_char c =
     (let n = of_char c :: nat in
      if c = CHR 0x22 then [CHR 0x5C, CHR 0x22] else if c = CHR 0x5C then [CHR 0x5C, CHR 0x5C]
      else if n = 10 then [CHR 0x5C, CHR ''n''] else if n = 13 then [CHR 0x5C, CHR ''r'']
      else if n = 9 then [CHR 0x5C, CHR ''t''] else if n = 8 then [CHR 0x5C, CHR ''b'']
      else if n = 12 then [CHR 0x5C, CHR ''f'']
      else if n < 32 then [CHR 0x5C] @ ''u00'' @ [hex_digit (n div 16), hex_digit (n mod 16)]
      else [c])"

definition quote_text :: "string \<Rightarrow> string" where
  "quote_text s = [CHR 0x22] @ concat (map escape_char s) @ [CHR 0x22]"

fun comma_sep :: "string list \<Rightarrow> string" where
  "comma_sep [] = []"
| "comma_sep [x] = x"
| "comma_sep (x # y # xs) = x @ '','' @ comma_sep (y # xs)"

text \<open>\<open>json.dumps(value, ensure_ascii=False, sort_keys=True, separators=(",", ":"))\<close>.\<close>

fun canonical_json :: "(rat \<Rightarrow> string) \<Rightarrow> json \<Rightarrow> string" where
  "canonical_json ftext JNull = ''null''"
| "canonical_json ftext (JBool b) = (if b then ''true'' else ''false'')"
| "canonical_json ftext (JInt i) = int_text i"
| "canonical_json ftext (JFloat x) = ftext x"
| "canonical_json ftext (JStr s) = quote_text s"
| "canonical_json ftext (JArr xs) = ''['' @ comma_sep (map (canonical_json ftext) xs) @ '']''"
| "canonical_json ftext (JObj fs) =
     ''{'' @ comma_sep (map (\<lambda>(k, t). quote_text k @ '':'' @ t)
        (sort_key fst (map (\<lambda>(k, v). (k, canonical_json ftext v)) fs))) @ ''}''"

datatype contract_error =
    BadField string
  | ExceedsBytes string nat
  | ManagerOnlyTool string
  | NotUnique string
  | DependsOnItself
  | OutsideRole role "string list"
  | NoToolsMismatch
  | RootIsTask
  | WrongParent string
  | UnknownDependencies string "string list"
  | CyclicPlan
  | MustStayTainted string
  | ForeignEvidence "string list"
  | ResultShape string
  | UndeclaredEvidenceTasks "string list"
  | UnsupportedTasks "string list"
  | NoValidName
  | DuplicateLiveSpec string
  | NameMismatch string json
  | NotReadOnly string
  | TerminalTool string
  | NoValidVersion string
  | NoValidRetryPolicy string
  | NoValidInputSchema
  | NoRequestedTool
  | NotAllowedForRole string
  | NotInLiveRegistry string
  | UnknownRole string
  | VersionChanged string
  | RetryPolicyChanged string
  | SchemaChanged string

text \<open>
  A JSON value always survives its round trip, so of the three refusals of
  \<open>_canonical_json_bytes\<close> the size remains.
\<close>

definition canonical_json_bytes ::
  "(rat \<Rightarrow> string) \<Rightarrow> json \<Rightarrow> string \<Rightarrow> nat \<Rightarrow> contract_error + string" where
  "canonical_json_bytes ftext value label max_bytes =
     (let encoded = canonical_json ftext value in
      if max_bytes < length encoded then Inl (ExceedsBytes label max_bytes) else Inr encoded)"

definition tool_input_schema_digest ::
  "(string \<Rightarrow> string) \<Rightarrow> (rat \<Rightarrow> string) \<Rightarrow> json \<Rightarrow> contract_error + string" where
  "tool_input_schema_digest sha ftext schema =
     (if \<not> is_dict schema then Inl NoValidInputSchema
      else case canonical_json_bytes ftext schema ''tool input schema'' max_tool_input_schema_bytes of
        Inl e \<Rightarrow> Inl e
      | Inr payload \<Rightarrow> Inr (''sha256:'' @ sha payload))"

section \<open>Grants, tasks and plans\<close>

record grant =
  gr_name :: string
  gr_version :: string
  gr_retry_safe :: bool
  gr_digest :: string

definition make_grant :: "string \<Rightarrow> string \<Rightarrow> bool \<Rightarrow> string \<Rightarrow> contract_error + grant" where
  "make_grant name version retry_safe digest =
     (case (tool_name_text name, short_text version) of
        (Some n, Some v) \<Rightarrow>
          if \<not> is_sha256_digest digest then Inl (BadField ''input_schema_digest'')
          else if n \<in> set manager_only_tools then Inl (ManagerOnlyTool n)
          else Inr \<lparr>gr_name = n, gr_version = v, gr_retry_safe = retry_safe, gr_digest = digest\<rparr>
      | (None, _) \<Rightarrow> Inl (BadField ''name'')
      | (_, None) \<Rightarrow> Inl (BadField ''version''))"

record task =
  tk_id :: string
  tk_parent :: string
  tk_role :: role
  tk_objective :: string
  tk_tools :: "grant list"
  tk_depends_on :: "string list"
  tk_inputs :: fields

text \<open>The first value that fails, or all of them converted.\<close>

fun all_some :: "'a option list \<Rightarrow> 'a list option" where
  "all_some [] = Some []"
| "all_some (None # xs) = None"
| "all_some (Some x # xs) = map_option ((#) x) (all_some xs)"

definition check_task :: "(rat \<Rightarrow> string) \<Rightarrow> task \<Rightarrow> contract_error + task" where
  "check_task ftext t =
     (let names = map gr_name (tk_tools t);
          wrong_role = filter (\<lambda>n. n \<notin> set (tool_allowlist (tk_role t))) names in
      if \<not> distinct names then Inl (NotUnique ''tool grants'')
      else if \<not> distinct (tk_depends_on t) then Inl (NotUnique ''dependencies'')
      else if tk_id t \<in> set (tk_depends_on t) then Inl DependsOnItself
      else if wrong_role \<noteq> [] then Inl (OutsideRole (tk_role t) wrong_role)
      else case canonical_json_bytes ftext (JObj (tk_inputs t)) ''specialist task inputs'' max_task_input_bytes of
        Inl e \<Rightarrow> Inl e
      | Inr _ \<Rightarrow> Inr t)"

definition make_task ::
  "(rat \<Rightarrow> string) \<Rightarrow> string \<Rightarrow> string \<Rightarrow> role \<Rightarrow> string \<Rightarrow> grant list \<Rightarrow> string list \<Rightarrow> fields
   \<Rightarrow> contract_error + task" where
  "make_task ftext task_id parent role objective tools depends_on inputs =
     (case (identifier_text task_id, identifier_text parent, short_text objective, all_some (map identifier_text depends_on)) of
        (Some i, Some p, Some ob, Some ds) \<Rightarrow>
          if tools = [] \<or> 16 < length tools then Inl (BadField ''tools'')
          else if max_specialist_tasks < length ds then Inl (BadField ''depends_on'')
          else check_task ftext
            \<lparr>tk_id = i, tk_parent = p, tk_role = role, tk_objective = ob, tk_tools = tools,
             tk_depends_on = ds, tk_inputs = inputs\<rparr>
      | _ \<Rightarrow> Inl (BadField ''text''))"

record plan =
  pl_id :: string
  pl_root :: string
  pl_no_tools :: bool
  pl_tasks :: "task list"

text \<open>Kahn's algorithm over the remaining (task, open dependencies) pairs.\<close>

type_synonym dep_graph = "(string \<times> string list) list"

definition ready_tasks :: "dep_graph \<Rightarrow> string list" where
  "ready_tasks g = map fst (filter (\<lambda>(t, ds). ds = []) g)"

definition drop_tasks :: "string list \<Rightarrow> dep_graph \<Rightarrow> dep_graph" where
  "drop_tasks ready g =
     map (\<lambda>(t, ds). (t, filter (\<lambda>d. d \<notin> set ready) ds)) (filter (\<lambda>(t, ds). t \<notin> set ready) g)"

lemma length_drop_tasks: "ready_tasks g \<noteq> [] \<Longrightarrow> length (drop_tasks (ready_tasks g) g) < length g"
proof -
  assume "ready_tasks g \<noteq> []"
  then obtain t where t: "(t, []) \<in> set g"
    by (auto simp: ready_tasks_def filter_empty_conv)
  then have "t \<in> set (ready_tasks g)"
    by (force simp: ready_tasks_def)
  note t this
  then have "length (filter (\<lambda>(t, ds). t \<notin> set (ready_tasks g)) g) < length g"
    by (intro length_filter_less [of "(t, [])"]) auto
  then show ?thesis by (simp add: drop_tasks_def)
qed

function plan_is_acyclic :: "dep_graph \<Rightarrow> bool" where
  "plan_is_acyclic g =
     (if g = [] then True
      else if ready_tasks g = [] then False
      else plan_is_acyclic (drop_tasks (ready_tasks g) g))"
  by pat_completeness auto
termination
  by (relation "measure length") (auto simp: length_drop_tasks)

declare plan_is_acyclic.simps [simp del]

definition plan_graph :: "plan \<Rightarrow> dep_graph" where
  "plan_graph p = map (\<lambda>t. (tk_id t, tk_depends_on t)) (pl_tasks p)"

text \<open>The loop over the tasks: the first wrong parent or unknown dependency is reported.\<close>

fun check_parents :: "string \<Rightarrow> string list \<Rightarrow> task list \<Rightarrow> contract_error option" where
  "check_parents rt known [] = None"
| "check_parents rt known (t # ts) =
     (if tk_parent t \<noteq> rt then Some (WrongParent (tk_id t))
      else let unknown = filter (\<lambda>d. d \<notin> set known) (tk_depends_on t) in
      if unknown \<noteq> [] then Some (UnknownDependencies (tk_id t) (sort unknown))
      else check_parents rt known ts)"

definition check_plan :: "plan \<Rightarrow> contract_error + plan" where
  "check_plan p =
     (let ids = map tk_id (pl_tasks p) in
      if pl_no_tools p \<noteq> (pl_tasks p = []) then Inl NoToolsMismatch
      else if \<not> distinct ids then Inl (NotUnique ''task ids'')
      else if pl_root p \<in> set ids then Inl RootIsTask
      else case check_parents (pl_root p) ids (pl_tasks p) of
        Some e \<Rightarrow> Inl e
      | None \<Rightarrow> if plan_is_acyclic (plan_graph p) then Inr p else Inl CyclicPlan)"

definition make_plan :: "string \<Rightarrow> string \<Rightarrow> bool \<Rightarrow> task list \<Rightarrow> contract_error + plan" where
  "make_plan plan_id rt no_tools tasks =
     (case (identifier_text plan_id, identifier_text rt) of
        (Some i, Some r) \<Rightarrow>
          if max_specialist_tasks < length tasks then Inl (BadField ''tasks'')
          else check_plan \<lparr>pl_id = i, pl_root = r, pl_no_tools = no_tools, pl_tasks = tasks\<rparr>
      | _ \<Rightarrow> Inl (BadField ''text''))"

section \<open>Evidence, results and the answer\<close>

record evidence =
  ev_id :: string
  ev_task :: string
  ev_tool :: string
  ev_artifact :: string
  ev_selector :: "string option"
  ev_claim :: string
  ev_source :: "string option"
  ev_tainted :: bool

fun optional_text :: "nat \<Rightarrow> nat \<Rightarrow> string option \<Rightarrow> string option option" where
  "optional_text low high None = Some None"
| "optional_text low high (Some s) = map_option Some (bounded_text low high s)"

definition make_evidence ::
  "string \<Rightarrow> string \<Rightarrow> string \<Rightarrow> string \<Rightarrow> string option \<Rightarrow> string \<Rightarrow> string option \<Rightarrow> bool
   \<Rightarrow> contract_error + evidence" where
  "make_evidence evidence_id task_id tool artifact selector claim source tainted =
     (case (identifier_text evidence_id, identifier_text task_id, tool_name_text tool, identifier_text artifact) of
        (Some e, Some t, Some n, Some a) \<Rightarrow>
          (case (optional_text 0 512 selector, short_text claim, optional_text 0 2048 source) of
             (Some sel, Some c, Some src) \<Rightarrow>
               if n \<in> set untrusted_specialist_tools \<and> \<not> tainted then Inl (MustStayTainted n)
               else Inr \<lparr>ev_id = e, ev_task = t, ev_tool = n, ev_artifact = a, ev_selector = sel,
                      ev_claim = c, ev_source = src, ev_tainted = tainted\<rparr>
           | _ \<Rightarrow> Inl (BadField ''text''))
      | _ \<Rightarrow> Inl (BadField ''identifier''))"

datatype result_status = Succeeded | PartlyDone | FailedResult | Skipped

record specialist_result =
  sr_task :: string
  sr_parent :: string
  sr_role :: role
  sr_status :: result_status
  sr_summary :: string
  sr_data :: fields
  sr_evidence :: "evidence list"
  sr_error :: "string option"
  sr_duration_ms :: rat

definition check_result :: "(rat \<Rightarrow> string) \<Rightarrow> specialist_result \<Rightarrow> contract_error + specialist_result" where
  "check_result ftext r =
     (let foreign = map ev_id (filter (\<lambda>e. ev_task e \<noteq> sr_task r) (sr_evidence r));
          shape = (case sr_status r of
              Succeeded \<Rightarrow>
                if sr_summary r = [] then Some (ResultShape ''a succeeded specialist result requires a summary'')
                else if sr_evidence r = [] then Some (ResultShape ''a succeeded specialist result requires evidence'')
                else if sr_error r \<noteq> None then Some (ResultShape ''a succeeded specialist result cannot include an error'')
                else None
            | PartlyDone \<Rightarrow>
                if sr_summary r = [] \<or> sr_evidence r = []
                then Some (ResultShape ''a partial specialist result requires a summary and evidence'')
                else if sr_error r = None
                then Some (ResultShape ''a partial specialist result requires an incompleteness reason'')
                else None
            | _ \<Rightarrow>
                if sr_error r = None then Some (ResultShape ''specialist result requires an error or reason'')
                else if sr_evidence r \<noteq> [] then Some (ResultShape ''specialist result cannot expose answer evidence'')
                else None) in
      if \<not> distinct (map ev_id (sr_evidence r)) then Inl (NotUnique ''evidence ids'')
      else if foreign \<noteq> [] then Inl (ForeignEvidence foreign)
      else case shape of
        Some e \<Rightarrow> Inl e
      | None \<Rightarrow>
          (case canonical_json_bytes ftext (JObj (sr_data r)) ''specialist result data'' max_result_data_bytes of
             Inl e \<Rightarrow> Inl e | Inr _ \<Rightarrow> Inr r))"

definition make_result_contract ::
  "(rat \<Rightarrow> string) \<Rightarrow> string \<Rightarrow> string \<Rightarrow> role \<Rightarrow> result_status \<Rightarrow> string \<Rightarrow> fields \<Rightarrow> evidence list
   \<Rightarrow> string option \<Rightarrow> rat \<Rightarrow> contract_error + specialist_result" where
  "make_result_contract ftext task_id parent role status summary data evs err duration =
     (case (identifier_text task_id, identifier_text parent, bounded_text 0 4000 summary, optional_text 1 2000 err) of
        (Some t, Some p, Some su, Some er) \<Rightarrow>
          if duration < 0 then Inl (BadField ''duration_ms'')
          else check_result ftext
            \<lparr>sr_task = t, sr_parent = p, sr_role = role, sr_status = status, sr_summary = su,
             sr_data = data, sr_evidence = evs, sr_error = er, sr_duration_ms = duration\<rparr>
      | _ \<Rightarrow> Inl (BadField ''text''))"

datatype response_type = Answer | Clarification | ErrorResponse

record answer =
  an_root :: string
  an_type :: response_type
  an_response :: string
  an_chars :: nat
  an_truncated :: bool
  an_used :: "string list"
  an_evidence :: "evidence list"
  an_limitations :: "string list"

definition check_answer :: "answer \<Rightarrow> contract_error + answer" where
  "check_answer a =
     (let evidence_tasks = map ev_task (an_evidence a);
          unknown = filter (\<lambda>t. t \<notin> set (an_used a)) evidence_tasks;
          missing = filter (\<lambda>t. t \<notin> set evidence_tasks) (an_used a) in
      if \<not> distinct (an_used a) then Inl (NotUnique ''task ids'')
      else if \<not> distinct (map ev_id (an_evidence a)) then Inl (NotUnique ''evidence ids'')
      else if unknown \<noteq> [] then Inl (UndeclaredEvidenceTasks (sort (remdups unknown)))
      else if missing \<noteq> [] then Inl (UnsupportedTasks (sort missing))
      else Inr a)"

definition make_answer ::
  "string \<Rightarrow> response_type \<Rightarrow> string \<Rightarrow> nat \<Rightarrow> bool \<Rightarrow> string list \<Rightarrow> evidence list \<Rightarrow> string list
   \<Rightarrow> contract_error + answer" where
  "make_answer rt kind response chars truncated used evs limits =
     (case (identifier_text rt, answer_text response, all_some (map identifier_text used), all_some (map short_text limits)) of
        (Some r, Some t, Some us, Some ls) \<Rightarrow>
          check_answer \<lparr>an_root = r, an_type = kind, an_response = t, an_chars = chars,
            an_truncated = truncated, an_used = us, an_evidence = evs, an_limitations = ls\<rparr>
      | _ \<Rightarrow> Inl (BadField ''text''))"

section \<open>Live specs: granting and revalidation\<close>

record live_spec =
  ls_name :: json
  ls_side_effect :: json
  ls_retry_safe :: json
  ls_version :: json
  ls_terminal :: json
  ls_input_schema :: json

fun index_live_specs :: "live_spec list \<Rightarrow> (string \<times> live_spec) list \<Rightarrow> contract_error + (string \<times> live_spec) list" where
  "index_live_specs [] acc = Inr acc"
| "index_live_specs (sp # sps) acc =
     (case ls_name sp of
        JStr name \<Rightarrow>
          if name = [] then Inl NoValidName
          else if dict_has acc name then Inl (DuplicateLiveSpec name)
          else index_live_specs sps (acc @ [(name, sp)])
      | _ \<Rightarrow> Inl NoValidName)"

definition validate_live_read_only_spec ::
  "(string \<Rightarrow> string) \<Rightarrow> (rat \<Rightarrow> string) \<Rightarrow> string \<Rightarrow> live_spec \<Rightarrow> contract_error option" where
  "validate_live_read_only_spec sha ftext name sp =
     (if ls_name sp \<noteq> JStr name then Some (NameMismatch name (ls_name sp))
      else if name \<in> set manager_only_tools then Some (ManagerOnlyTool name)
      else if ls_side_effect sp \<noteq> JStr ''none'' then Some (NotReadOnly name)
      else if ls_terminal sp \<noteq> JBool False then Some (TerminalTool name)
      else case ls_version sp of
        JStr v \<Rightarrow>
          if strip v = [] then Some (NoValidVersion name)
          else (case ls_retry_safe sp of
            JBool _ \<Rightarrow>
              (case tool_input_schema_digest sha ftext (ls_input_schema sp) of
                 Inl e \<Rightarrow> Some e | Inr _ \<Rightarrow> None)
          | _ \<Rightarrow> Some (NoValidRetryPolicy name))
      | _ \<Rightarrow> Some (NoValidVersion name))"

fun text_value :: "json \<Rightarrow> string" where
  "text_value (JStr s) = s"
| "text_value _ = []"

fun bool_value :: "json \<Rightarrow> bool" where
  "bool_value (JBool b) = b"
| "bool_value _ = False"

fun grant_each ::
  "(string \<Rightarrow> string) \<Rightarrow> (rat \<Rightarrow> string) \<Rightarrow> string list \<Rightarrow> (string \<times> live_spec) list \<Rightarrow> string list
   \<Rightarrow> contract_error + grant list" where
  "grant_each sha ftext allow indexed [] = Inr []"
| "grant_each sha ftext allow indexed (name # names) =
     (if name \<notin> set allow then Inl (NotAllowedForRole name)
      else case map_of indexed name of
        None \<Rightarrow> Inl (NotInLiveRegistry name)
      | Some sp \<Rightarrow>
          (case validate_live_read_only_spec sha ftext name sp of
             Some e \<Rightarrow> Inl e
           | None \<Rightarrow>
               (case tool_input_schema_digest sha ftext (ls_input_schema sp) of
                  Inl e \<Rightarrow> Inl e
                | Inr d \<Rightarrow>
                    (case make_grant name (text_value (ls_version sp)) (bool_value (ls_retry_safe sp)) d of
                       Inl e \<Rightarrow> Inl e
                     | Inr g \<Rightarrow>
                         (case grant_each sha ftext allow indexed names of
                            Inl e \<Rightarrow> Inl e | Inr gs \<Rightarrow> Inr (g # gs))))))"

definition grant_read_only_tools ::
  "(string \<Rightarrow> string) \<Rightarrow> (rat \<Rightarrow> string) \<Rightarrow> string list \<Rightarrow> live_spec list \<Rightarrow> string list
   \<Rightarrow> contract_error + grant list" where
  "grant_read_only_tools sha ftext requested live allow =
     (if requested = [] then Inl NoRequestedTool
      else if [] \<in> set requested then Inl (BadField ''requested'')
      else if \<not> distinct requested then Inl (NotUnique ''requested tool names'')
      else case index_live_specs live [] of
        Inl e \<Rightarrow> Inl e
      | Inr indexed \<Rightarrow> grant_each sha ftext allow indexed requested)"

definition grant_read_only_tools_for_role ::
  "(string \<Rightarrow> string) \<Rightarrow> (rat \<Rightarrow> string) \<Rightarrow> string \<Rightarrow> string list \<Rightarrow> live_spec list
   \<Rightarrow> contract_error + grant list" where
  "grant_read_only_tools_for_role sha ftext role requested live =
     (case role_of_name role of
        None \<Rightarrow> Inl (UnknownRole role)
      | Some r \<Rightarrow> grant_read_only_tools sha ftext requested live (tool_allowlist r))"

definition validate_read_only_dispatch ::
  "(string \<Rightarrow> string) \<Rightarrow> (rat \<Rightarrow> string) \<Rightarrow> grant \<Rightarrow> live_spec \<Rightarrow> string list \<Rightarrow> contract_error option" where
  "validate_read_only_dispatch sha ftext g sp allow =
     (if gr_name g \<notin> set allow then Some (NotAllowedForRole (gr_name g))
      else case validate_live_read_only_spec sha ftext (gr_name g) sp of
        Some e \<Rightarrow> Some e
      | None \<Rightarrow>
          if ls_version sp \<noteq> JStr (gr_version g) then Some (VersionChanged (gr_name g))
          else if ls_retry_safe sp \<noteq> JBool (gr_retry_safe g) then Some (RetryPolicyChanged (gr_name g))
          else if tool_input_schema_digest sha ftext (ls_input_schema sp) \<noteq> Inr (gr_digest g)
          then Some (SchemaChanged (gr_name g)) else None)"

definition validate_read_only_dispatch_for_role ::
  "(string \<Rightarrow> string) \<Rightarrow> (rat \<Rightarrow> string) \<Rightarrow> string \<Rightarrow> grant \<Rightarrow> live_spec \<Rightarrow> contract_error option" where
  "validate_read_only_dispatch_for_role sha ftext role g sp =
     (case role_of_name role of
        None \<Rightarrow> Some (UnknownRole role)
      | Some r \<Rightarrow> validate_read_only_dispatch sha ftext g sp (tool_allowlist r))"

section \<open>Plans are acyclic\<close>

text \<open>
  A task points to what it depends on.  The ready tasks are the sinks of the graph: removing
  them keeps every cycle, and a finite acyclic graph closed under its edges has a sink.
\<close>

definition dep_edges :: "dep_graph \<Rightarrow> (string \<times> string) set" where
  "dep_edges g = {(t, d). \<exists>ds. (t, ds) \<in> set g \<and> d \<in> set ds}"

definition closed_graph :: "dep_graph \<Rightarrow> bool" where
  "closed_graph g \<longleftrightarrow> distinct (map fst g) \<and> (\<forall>(t, ds) \<in> set g. set ds \<subseteq> fst ` set g)"

lemma acyclic_without_sinks:
  assumes "acyclic (R \<inter> {(a, b). a \<notin> X \<and> b \<notin> X})" and sinks: "\<And>a b. (a, b) \<in> R \<Longrightarrow> a \<notin> X"
  shows "acyclic R"
proof (rule acyclicI, rule allI, rule notI)
  let ?S = "R \<inter> {(a, b). a \<notin> X \<and> b \<notin> X}"
  have step: "(a, b) \<in> R\<^sup>+ \<Longrightarrow> b \<notin> X \<longrightarrow> (a, b) \<in> ?S\<^sup>+" for a b
  proof (induction rule: trancl_induct)
    case (base b)
    then show ?case using sinks by blast
  next
    case (step b c)
    then have "b \<notin> X" using sinks by blast
    show ?case
    proof
      assume "c \<notin> X"
      with step(2) \<open>b \<notin> X\<close> have "(b, c) \<in> ?S" by simp
      moreover have "(a, b) \<in> ?S\<^sup>+" using step(3) \<open>b \<notin> X\<close> by simp
      ultimately show "(a, c) \<in> ?S\<^sup>+" by (rule trancl_into_trancl [rotated])
    qed
  qed
  fix x assume cyc: "(x, x) \<in> R\<^sup>+"
  then have "x \<notin> X" by (meson sinks tranclD)
  with step [OF cyc] have "(x, x) \<in> ?S\<^sup>+" by simp
  with assms(1) show False unfolding acyclic_def by blast
qed

lemma ready_iff: "distinct (map fst g) \<Longrightarrow> (t, ds) \<in> set g \<Longrightarrow> t \<in> set (ready_tasks g) \<longleftrightarrow> ds = []"
  by (force simp: ready_tasks_def dest: eq_key_imp_eq_value)

lemma dep_edges_drop:
  "dep_edges (drop_tasks rs g) = dep_edges g \<inter> {(a, b). a \<notin> set rs \<and> b \<notin> set rs}"
  by (force simp: dep_edges_def drop_tasks_def)

lemma keys_drop: "map fst (drop_tasks rs g) = filter (\<lambda>t. t \<notin> set rs) (map fst g)"
  by (induction g) (auto simp: drop_tasks_def)

lemma closed_graph_drop: "closed_graph g \<Longrightarrow> closed_graph (drop_tasks rs g)"
proof -
  assume c: "closed_graph g"
  have k: "fst ` set (drop_tasks rs g) = fst ` set g - set rs"
    using arg_cong [OF keys_drop [of rs g], of set] by auto
  show ?thesis
    using c unfolding closed_graph_def k keys_drop by (auto simp: drop_tasks_def)
qed

lemma finite_dep_edges: "finite (dep_edges g)"
proof (rule finite_subset)
  show "dep_edges g \<subseteq> fst ` set g \<times> (\<Union>(_, ds) \<in> set g. set ds)"
    by (force simp: dep_edges_def)
qed auto

lemma acyclic_has_ready:
  assumes "acyclic (dep_edges g)" "closed_graph g" "g \<noteq> []"
  shows "ready_tasks g \<noteq> []"
proof -
  have "wf ((dep_edges g)\<inverse>)"
    using assms(1) finite_dep_edges by (rule finite_acyclic_wf_converse[rotated])
  moreover from assms(3) have "hd (map fst g) \<in> fst ` set g" by (cases g) auto
  ultimately obtain z where z: "z \<in> fst ` set g" "\<And>y. (y, z) \<in> (dep_edges g)\<inverse> \<Longrightarrow> y \<notin> fst ` set g"
    by (meson wfE_min)
  then obtain ds where ds: "(z, ds) \<in> set g" by auto
  have "ds = []"
  proof (rule ccontr)
    assume "ds \<noteq> []"
    then have d: "hd ds \<in> set ds" by simp
    with ds have "hd ds \<notin> fst ` set g" by (intro z(2)) (auto simp: dep_edges_def)
    moreover have "set ds \<subseteq> fst ` set g" using assms(2) ds by (auto simp: closed_graph_def)
    ultimately show False using d by blast
  qed
  with ds show ?thesis by (auto simp: ready_tasks_def filter_empty_conv)
qed

lemma plan_is_acyclic_iff: "closed_graph g \<Longrightarrow> plan_is_acyclic g \<longleftrightarrow> acyclic (dep_edges g)"
proof (induction g rule: plan_is_acyclic.induct)
  case (1 g)
  show ?case
  proof (cases "g = [] \<or> ready_tasks g = []")
    case True
    then show ?thesis
      using acyclic_has_ready [OF _ 1(2)]
      by (subst plan_is_acyclic.simps) (auto simp: dep_edges_def acyclic_def)
  next
    case False
    let ?r = "ready_tasks g"
    have "acyclic (dep_edges (drop_tasks ?r g)) \<longleftrightarrow> acyclic (dep_edges g)" (is "?l \<longleftrightarrow> _")
    proof
      assume ?l
      have "\<And>a b. (a, b) \<in> dep_edges g \<Longrightarrow> a \<notin> set ?r"
        using 1(2) by (auto simp: dep_edges_def closed_graph_def ready_iff)
      with \<open>?l\<close> show "acyclic (dep_edges g)"
        unfolding dep_edges_drop by (rule acyclic_without_sinks)
    next
      assume "acyclic (dep_edges g)"
      then show ?l unfolding dep_edges_drop by (rule acyclic_subset) blast
    qed
    with False 1 show ?thesis
      by (subst plan_is_acyclic.simps) (simp add: closed_graph_drop)
  qed
qed

lemma check_parents_None:
  "check_parents r known ts = None \<longleftrightarrow>
   (\<forall>t \<in> set ts. tk_parent t = r \<and> set (tk_depends_on t) \<subseteq> set known)"
  by (induction ts) (auto simp: Let_def filter_empty_conv)

definition plan_edges :: "plan \<Rightarrow> (string \<times> string) set" where
  "plan_edges p = {(a, b). \<exists>t \<in> set (pl_tasks p). a = tk_id t \<and> b \<in> set (tk_depends_on t)}"

lemma plan_edges_graph: "dep_edges (plan_graph p) = plan_edges p"
  by (force simp: dep_edges_def plan_graph_def plan_edges_def)

lemma closed_plan_graph:
  assumes "distinct (map tk_id (pl_tasks p))"
    and "check_parents r (map tk_id (pl_tasks p)) (pl_tasks p) = None"
  shows "closed_graph (plan_graph p)"
proof -
  have "map fst (plan_graph p) = map tk_id (pl_tasks p)" by (simp add: plan_graph_def comp_def)
  moreover have "fst ` set (plan_graph p) = tk_id ` set (pl_tasks p)"
    by (simp add: plan_graph_def image_comp comp_def)
  ultimately show ?thesis
    using assms unfolding closed_graph_def check_parents_None
    by (simp only: simp_thms set_map) (auto simp: plan_graph_def)
qed

text \<open>
  C7. A plan of the manager is accepted exactly when it has tasks iff it may use tools, the task
  ids are unique and differ from the root, every task hangs directly below the root, every
  dependency is a task of the plan, and the dependencies form no cycle.
\<close>

theorem accepted_plans:
  "(\<exists>q. check_plan p = Inr q) \<longleftrightarrow>
     (pl_no_tools p = (pl_tasks p = []) \<and> distinct (map tk_id (pl_tasks p))
      \<and> pl_root p \<notin> tk_id ` set (pl_tasks p)
      \<and> (\<forall>t \<in> set (pl_tasks p). tk_parent t = pl_root p
           \<and> set (tk_depends_on t) \<subseteq> tk_id ` set (pl_tasks p))
      \<and> acyclic (plan_edges p))"
proof -
  let ?ids = "map tk_id (pl_tasks p)"
  let ?ok = "check_parents (pl_root p) ?ids (pl_tasks p) = None"
  have key: "plan_is_acyclic (plan_graph p) \<longleftrightarrow> acyclic (plan_edges p)" if "distinct ?ids" ?ok
    using that by (simp add: plan_is_acyclic_iff closed_plan_graph plan_edges_graph)
  have "(\<exists>q. check_plan p = Inr q) \<longleftrightarrow>
     (pl_no_tools p = (pl_tasks p = []) \<and> distinct ?ids \<and> pl_root p \<notin> set ?ids \<and> ?ok
      \<and> plan_is_acyclic (plan_graph p))"
    by (cases "check_parents (pl_root p) ?ids (pl_tasks p)") (auto simp: check_plan_def Let_def)
  with key show ?thesis
    unfolding check_parents_None set_map by blast
qed

theorem accepted_plans_witness:
  "let tk = (\<lambda>i ds. \<lparr>tk_id = i, tk_parent = ''root'', tk_role = Mobility, tk_objective = ''x'', tk_tools = [],
                 tk_depends_on = ds, tk_inputs = []\<rparr>);
       p = \<lparr>pl_id = ''p'', pl_root = ''root'', pl_no_tools = False,
            pl_tasks = [tk ''d'' [''b'', ''c''], tk ''b'' [''a''], tk ''c'' [''a''], tk ''a'' []]\<rparr>
   in check_plan p = Inr p \<and> acyclic (plan_edges p)"
proof -
  let ?tk = "\<lambda>i ds. \<lparr>tk_id = i, tk_parent = ''root'', tk_role = Mobility, tk_objective = ''x'', tk_tools = [],
                 tk_depends_on = ds, tk_inputs = []\<rparr>"
  let ?p = "\<lparr>pl_id = ''p'', pl_root = ''root'', pl_no_tools = False,
            pl_tasks = [?tk ''d'' [''b'', ''c''], ?tk ''b'' [''a''], ?tk ''c'' [''a''], ?tk ''a'' []]\<rparr>"
  have "check_plan ?p = Inr ?p" by code_simp
  with accepted_plans [of ?p] show ?thesis by simp
qed

lemma sort_key_fst_mset:
  "mset fs = mset gs \<Longrightarrow> distinct (map fst gs) \<Longrightarrow> sort_key fst fs = sort_key fst (gs :: (string \<times> 'v) list)"
  by (intro sort_key_inj_key_eq) (auto simp: distinct_map dest: mset_eq_setD)

text \<open>The digest a grant pins does not depend on the order in which a schema lists its keys.\<close>

theorem digest_ignores_key_order:
  assumes "mset fs = mset gs" "distinct (map fst gs)"
  shows "tool_input_schema_digest sha ftext (JObj fs) = tool_input_schema_digest sha ftext (JObj gs)"
proof -
  let ?f = "\<lambda>(k, v). (k, canonical_json ftext v)"
  have "sort_key fst (map ?f fs) = sort_key fst (map ?f gs)"
    using assms by (intro sort_key_fst_mset) (simp_all add: comp_def case_prod_unfold)
  then show ?thesis
    by (simp add: tool_input_schema_digest_def canonical_json_bytes_def)
qed

theorem digest_ignores_key_order_witness:
  "tool_input_schema_digest (\<lambda>s. s) (\<lambda>_. []) (JObj [(''a'', JInt 1), (''b'', JNull)])
   = tool_input_schema_digest (\<lambda>s. s) (\<lambda>_. []) (JObj [(''b'', JNull), (''a'', JInt 1)])"
  by (rule digest_ignores_key_order) auto

section \<open>Grants and dispatch\<close>

lemma validate_live_None:
  "validate_live_read_only_spec sha ftext name sp = None \<longleftrightarrow>
     ls_name sp = JStr name \<and> name \<notin> set manager_only_tools \<and> ls_side_effect sp = JStr ''none''
     \<and> ls_terminal sp = JBool False \<and> (\<exists>v. ls_version sp = JStr v \<and> strip v \<noteq> [])
     \<and> (\<exists>b. ls_retry_safe sp = JBool b) \<and> (\<exists>d. tool_input_schema_digest sha ftext (ls_input_schema sp) = Inr d)"
  by (auto simp: validate_live_read_only_spec_def split: json.splits sum.splits)

lemma index_live_specs_map:
  assumes "index_live_specs sps acc = Inr ix" "distinct (map fst acc)"
    and "\<forall>(n, sp) \<in> set acc. ls_name sp = JStr n"
  shows "distinct (map fst ix) \<and> (\<forall>(n, sp) \<in> set ix. ls_name sp = JStr n)
         \<and> snd ` set ix = snd ` set acc \<union> set sps"
  using assms
proof (induction sps acc rule: index_live_specs.induct)
  case (2 sp sps acc)
  from "2.prems"(1) obtain n where n: "ls_name sp = JStr n" "n \<noteq> []" "\<not> dict_has acc n"
    "index_live_specs sps (acc @ [(n, sp)]) = Inr ix"
    by (auto split: json.splits if_splits)
  have "distinct (map fst (acc @ [(n, sp)]))" "\<forall>(m, x) \<in> set (acc @ [(n, sp)]). ls_name x = JStr m"
    using "2.prems" n by (auto simp: dict_has_def)
  from "2.IH" [OF n(1,2,3,4) this] show ?case by auto
qed simp

lemma make_grant_Inr:
  "make_grant name v b d = Inr g \<Longrightarrow>
   tool_name_text name = Some (gr_name g) \<and> short_text v = Some (gr_version g) \<and> gr_retry_safe g = b
   \<and> gr_digest g = d \<and> gr_name g \<notin> set manager_only_tools"
  by (auto simp: make_grant_def split: option.splits if_splits)

lemma grant_each_mem:
  assumes "grant_each sha ftext allow ix names = Inr gs" "g \<in> set gs"
  shows "\<exists>name sp d. name \<in> set names \<and> name \<in> set allow \<and> map_of ix name = Some sp
           \<and> validate_live_read_only_spec sha ftext name sp = None
           \<and> tool_input_schema_digest sha ftext (ls_input_schema sp) = Inr d
           \<and> make_grant name (text_value (ls_version sp)) (bool_value (ls_retry_safe sp)) d = Inr g"
  using assms
proof (induction names arbitrary: gs)
  case (Cons n names)
  from Cons.prems show ?case
    by (auto split: if_splits option.splits sum.splits dest!: Cons.IH)
qed simp

lemma allowlist_names: "n \<in> set (tool_allowlist r) \<Longrightarrow> tool_name_text n = Some n"
proof -
  have "list_all (\<lambda>r. list_all (\<lambda>n. tool_name_text n = Some n) (tool_allowlist r))
          [Listings, Mobility, AreaEvidence]"
    by code_simp
  then have "list_all (\<lambda>n. tool_name_text n = Some n) (tool_allowlist r)" by (cases r) simp_all
  then show "n \<in> set (tool_allowlist r) \<Longrightarrow> tool_name_text n = Some n" by (simp add: list_all_iff)
qed

lemma granted_dispatch:
  assumes "grant_read_only_tools_for_role sha ftext role requested live = Inr gs" "g \<in> set gs"
    and "sp \<in> set live" "ls_name sp = JStr (gr_name g)"
  shows "\<exists>r. role_of_name role = Some r \<and> gr_name g \<in> set (tool_allowlist r) \<and> gr_name g \<in> set requested
         \<and> validate_read_only_dispatch_for_role sha ftext role g sp =
             (if ls_version sp = JStr (gr_version g) then None else Some (VersionChanged (gr_name g)))
         \<and> (\<exists>v. ls_version sp = JStr v \<and> gr_version g = strip v)"
proof -
  from assms(1) obtain r ix where r: "role_of_name role = Some r"
    and ix: "index_live_specs live [] = Inr ix"
    and gs: "grant_each sha ftext (tool_allowlist r) ix requested = Inr gs"
    by (auto simp: grant_read_only_tools_for_role_def grant_read_only_tools_def
        split: option.splits if_splits sum.splits)
  from grant_each_mem [OF gs assms(2)] obtain n x d where g: "n \<in> set requested" "n \<in> set (tool_allowlist r)"
    "map_of ix n = Some x" "validate_live_read_only_spec sha ftext n x = None"
    "tool_input_schema_digest sha ftext (ls_input_schema x) = Inr d"
    "make_grant n (text_value (ls_version x)) (bool_value (ls_retry_safe x)) d = Inr g"
    by blast
  note mg = make_grant_Inr [OF g(6)]
  with allowlist_names [OF g(2)] have n: "gr_name g = n" by simp
  have ixp: "distinct (map fst ix)" "\<forall>(n, sp) \<in> set ix. ls_name sp = JStr n" "snd ` set ix = set live"
    using index_live_specs_map [OF ix] by auto
  from assms(3,4) ixp n have "(n, sp) \<in> set ix" by force
  with ixp(1) g(3) have [simp]: "x = sp" by simp
  from g(4) obtain v b where v: "ls_version sp = JStr v" and b: "ls_retry_safe sp = JBool b"
    by (auto simp: validate_live_None)
  have "gr_version g = strip v" using mg v by (auto simp: bounded_text_def Let_def split: if_splits)
  moreover have "validate_read_only_dispatch_for_role sha ftext role g sp =
      (if ls_version sp = JStr (gr_version g) then None else Some (VersionChanged (gr_name g)))"
    using g(2,4,5) mg b n r
    by (simp add: validate_read_only_dispatch_for_role_def validate_read_only_dispatch_def)
  ultimately show ?thesis using r g(1,2) n v by blast
qed

text \<open>
  A capability granted to a role names a tool of that role's allowlist, and the spec it was
  taken from passes the check before dispatch exactly when its version text carries no
  surrounding blanks; otherwise the dispatch is refused as a version change.
\<close>

theorem granted_tool_dispatches:
  assumes "grant_read_only_tools_for_role sha ftext role requested live = Inr gs" "g \<in> set gs"
    and "sp \<in> set live" "ls_name sp = JStr (gr_name g)"
  shows "\<exists>r. role_of_name role = Some r \<and> gr_name g \<in> set (tool_allowlist r) \<and> gr_name g \<in> set requested
         \<and> validate_read_only_dispatch_for_role sha ftext role g sp =
             (if ls_version sp = JStr (gr_version g) then None else Some (VersionChanged (gr_name g)))
         \<and> (\<exists>v. ls_version sp = JStr v \<and> gr_version g = strip v)"
  using assms by (rule granted_dispatch)

theorem granted_tool_dispatches_witness:
  "let sp = \<lparr>ls_name = JStr ''get_weather'', ls_side_effect = JStr ''none'', ls_retry_safe = JBool True,
             ls_version = JStr ''2'', ls_terminal = JBool False, ls_input_schema = JObj []\<rparr>;
       gs = grant_read_only_tools_for_role (\<lambda>_. replicate 64 CHR ''a'') (\<lambda>_. ''0.5'') ''area_evidence''
              [''get_weather''] [sp]
   in \<exists>g. gs = Inr [g] \<and>
        validate_read_only_dispatch_for_role (\<lambda>_. replicate 64 CHR ''a'') (\<lambda>_. ''0.5'') ''area_evidence'' g sp = None"
proof -
  let ?sp = "\<lparr>ls_name = JStr ''get_weather'', ls_side_effect = JStr ''none'', ls_retry_safe = JBool True,
             ls_version = JStr ''2'', ls_terminal = JBool False, ls_input_schema = JObj []\<rparr>"
  let ?sha = "\<lambda>_ :: string. replicate 64 CHR ''a''" and ?ft = "\<lambda>_ :: rat. ''0.5''"
  let ?g = "\<lparr>gr_name = ''get_weather'', gr_version = ''2'', gr_retry_safe = True,
             gr_digest = ''sha256:'' @ replicate 64 CHR ''a''\<rparr>"
  have "grant_read_only_tools_for_role ?sha ?ft ''area_evidence'' [''get_weather''] [?sp] = Inr [?g]"
  proof -
    have d: "tool_input_schema_digest ?sha ?ft (JObj []) = Inr (gr_digest ?g)"
      by (simp add: tool_input_schema_digest_def canonical_json_bytes_def max_tool_input_schema_bytes_def)
    have "tool_name_text ''get_weather'' = Some ''get_weather''" "strip ''2'' = ''2''" by code_simp+
    then have "make_grant ''get_weather'' ''2'' True (gr_digest ?g) = Inr ?g"
      by (simp add: make_grant_def bounded_text_def is_sha256_digest_def manager_only_tools_def
          list_all_iff is_hex_lower_def is_digit_def)
    moreover have "validate_live_read_only_spec ?sha ?ft ''get_weather'' ?sp = None"
      using d \<open>strip ''2'' = ''2''\<close> by (auto simp: validate_live_None manager_only_tools_def)
    ultimately show ?thesis
      using d by (simp add: grant_read_only_tools_for_role_def grant_read_only_tools_def dict_has_def)
  qed
  with granted_tool_dispatches [of ?sha ?ft "''area_evidence''" "[''get_weather'']" "[?sp]" "[?g]" ?g ?sp]
  show ?thesis by (simp add: Let_def)
qed

section \<open>Answers and results\<close>

text \<open>
  An answer contract is accepted exactly when its task ids and evidence ids are unique and
  the tasks it says it used are the tasks its evidence comes from.
\<close>

theorem accepted_answers:
  "(\<exists>b. check_answer a = Inr b) \<longleftrightarrow>
     distinct (an_used a) \<and> distinct (map ev_id (an_evidence a)) \<and> set (an_used a) = ev_task ` set (an_evidence a)"
  by (auto simp: check_answer_def Let_def filter_empty_conv)

text \<open>
  C8. A result that a specialist hands to the manager has evidence of its own task only, under
  unique ids; it carries evidence and a summary exactly when it succeeded or is partial, and it
  carries an error or reason exactly when it did not succeed.
\<close>

theorem accepted_results:
  assumes "check_result ftext r = Inr q"
  shows "q = r \<and> distinct (map ev_id (sr_evidence r)) \<and> ev_task ` set (sr_evidence r) \<subseteq> {sr_task r}
    \<and> (sr_evidence r \<noteq> [] \<longleftrightarrow> sr_status r \<in> {Succeeded, PartlyDone})
    \<and> (sr_error r = None \<longleftrightarrow> sr_status r = Succeeded)"
proof -
  from assms have "map ev_id (filter (\<lambda>e. ev_task e \<noteq> sr_task r) (sr_evidence r)) = []" "q = r"
    and "distinct (map ev_id (sr_evidence r))"
    by (auto simp: check_result_def Let_def split: if_splits option.splits sum.splits)
  moreover have "(sr_evidence r \<noteq> [] \<longleftrightarrow> sr_status r \<in> {Succeeded, PartlyDone})
    \<and> (sr_error r = None \<longleftrightarrow> sr_status r = Succeeded)"
    using assms
    by (cases "sr_status r") (auto simp: check_result_def Let_def split: if_splits sum.splits)
  ultimately show ?thesis by (auto simp: filter_empty_conv)
qed

theorem accepted_results_witness:
  "let e = \<lparr>ev_id = ''e1'', ev_task = ''t1'', ev_tool = ''get_weather'', ev_artifact = ''a1'',
            ev_selector = None, ev_claim = ''dry'', ev_source = None, ev_tainted = False\<rparr>;
       r = \<lparr>sr_task = ''t1'', sr_parent = ''root'', sr_role = AreaEvidence, sr_status = PartlyDone,
            sr_summary = ''weather'', sr_data = [], sr_evidence = [e], sr_error = Some ''no pois'', sr_duration_ms = 1\<rparr>
   in check_result (\<lambda>_. []) r = Inr r \<and> sr_error r \<noteq> None"
proof -
  let ?e = "\<lparr>ev_id = ''e1'', ev_task = ''t1'', ev_tool = ''get_weather'', ev_artifact = ''a1'',
            ev_selector = None, ev_claim = ''dry'', ev_source = None, ev_tainted = False\<rparr>"
  let ?r = "\<lparr>sr_task = ''t1'', sr_parent = ''root'', sr_role = AreaEvidence, sr_status = PartlyDone,
            sr_summary = ''weather'', sr_data = [], sr_evidence = [?e], sr_error = Some ''no pois'', sr_duration_ms = 1\<rparr>"
  have "check_result (\<lambda>_. []) ?r = Inr ?r"
    by (simp add: check_result_def canonical_json_bytes_def max_result_data_bytes_def)
  with accepted_results [OF this] show ?thesis by (simp add: Let_def)
qed

end
