(* ===== verification/SpecialistBatch.thy ===== *)
theory SpecialistBatch
  imports SpecialistContracts "HOL-Library.Code_Target_Nat"
begin

text \<open>
  \<open>app/core/specialist_runtime.py\<close>, first half: sealing the arguments of the manager's calls,
  grouping the calls by role into a plan with minted grants, and revalidating a planned call
  before its dispatch.  Errors are the stable codes of \<open>SpecialistDispatchError\<close>.  A text
  that \<open>json.dumps\<close> made and the code only reads with \<open>json.loads\<close> is held as the value it
  decodes to.  The primitives of \<open>hashlib\<close>, \<open>hmac\<close>, \<open>repr\<close> are the fields of \<open>primitives\<close>.
\<close>

record primitives =
  pr_sha :: "string \<Rightarrow> string"
  pr_hmac :: "string \<Rightarrow> string \<Rightarrow> string"
  pr_ftext :: "rat \<Rightarrow> string"
  pr_repr :: "json \<Rightarrow> string"

definition sha_is_hex :: "primitives \<Rightarrow> bool" where
  "sha_is_hex pr \<longleftrightarrow> (\<forall>s. length (pr_sha pr s) = 64 \<and> list_all is_hex_lower (pr_sha pr s))"

section \<open>Constants\<close>

definition max_call_args_bytes :: nat where "max_call_args_bytes = 64 * 1024"
definition max_batch_args_bytes :: nat where "max_batch_args_bytes = 128 * 1024"
definition max_plan_bytes :: nat where "max_plan_bytes = 64 * 1024"
definition max_results_bytes :: nat where "max_results_bytes = 128 * 1024"
definition max_specialist_calls :: nat where "max_specialist_calls = 32"
definition max_args_depth :: nat where "max_args_depth = 32"

definition reserved_input_keys :: "string list" where
  "reserved_input_keys = [''idempotency_key'', ''user_id'', ''session_id'', ''memory_context'', ''final_response'',
     ''agent_state'', ''state'', ''store'', ''checkpointer'']"

definition is_params_digest :: "string \<Rightarrow> bool" where
  "is_params_digest s \<longleftrightarrow> length s = 16 \<and> list_all is_hex_lower s"

fun role_name :: "role \<Rightarrow> string" where
  "role_name Listings = ''listings''"
| "role_name Mobility = ''mobility''"
| "role_name AreaEvidence = ''area_evidence''"

text \<open>\<open>_role_index\<close>: the inverse of the allowlists, refused when a tool has two roles.\<close>

fun index_role_tools :: "role \<Rightarrow> string list \<Rightarrow> (string \<times> role) list \<Rightarrow> string + (string \<times> role) list" where
  "index_role_tools role [] acc = Inr acc"
| "index_role_tools role (n # ns) acc =
     (if dict_has acc n then Inl n else index_role_tools role ns (acc @ [(n, role)]))"

fun role_index :: "role list \<Rightarrow> (string \<times> role) list \<Rightarrow> string + (string \<times> role) list" where
  "role_index [] acc =
     (case filter (\<lambda>n. dict_has acc n) manager_only_tools of [] \<Rightarrow> Inr acc | n # _ \<Rightarrow> Inl n)"
| "role_index (r # rs) acc =
     (case index_role_tools r (tool_allowlist r) acc of Inl n \<Rightarrow> Inl n | Inr acc' \<Rightarrow> role_index rs acc')"

definition specialist_role_for_tool :: "string \<Rightarrow> role option" where
  "specialist_role_for_tool name =
     (case role_index [Listings, Mobility, AreaEvidence] [] of Inl _ \<Rightarrow> None | Inr ix \<Rightarrow> map_of ix name)"

definition specialist_eligible_role :: "string \<Rightarrow> role option" where
  "specialist_eligible_role name =
     (if name \<in> set manager_only_tools then None else specialist_role_for_tool name)"

section \<open>JSON and identifiers\<close>

text \<open>What \<open>json.loads\<close> gives back for a text with sorted keys.\<close>

fun sorted_json :: "json \<Rightarrow> json" where
  "sorted_json (JArr xs) = JArr (map sorted_json xs)"
| "sorted_json (JObj fs) = JObj (sort_key fst (map (\<lambda>(k, v). (k, sorted_json v)) fs))"
| "sorted_json v = v"

definition canonical_text :: "primitives \<Rightarrow> json \<Rightarrow> string \<Rightarrow> nat \<Rightarrow> string + string" where
  "canonical_text pr v label max_bytes =
     (let encoded = canonical_json (pr_ftext pr) v; round_trip = canonical_json (pr_ftext pr) (sorted_json v) in
      if encoded \<noteq> round_trip then Inl (label @ ''_lossy_json'')
      else if max_bytes < length encoded then Inl (label @ ''_too_large'') else Inr encoded)"

definition stable_id :: "primitives \<Rightarrow> string \<Rightarrow> json list \<Rightarrow> string + string" where
  "stable_id pr prefix parts =
     (case canonical_text pr (JArr parts) ''specialist_id'' max_batch_args_bytes of
        Inl e \<Rightarrow> Inl e | Inr payload \<Rightarrow> Inr (prefix @ '':'' @ take 24 (pr_sha pr payload)))"

definition checkpoint_digest :: "primitives \<Rightarrow> string \<Rightarrow> string \<Rightarrow> string" where
  "checkpoint_digest pr run_id digest =
     take 16 (pr_hmac pr (pr_sha pr (''rentcompass-specialist:'' @ run_id)) digest)"

definition validation_fanout_task_id :: "primitives \<Rightarrow> string option \<Rightarrow> string \<Rightarrow> string + string" where
  "validation_fanout_task_id pr plan_id rt =
     stable_id pr ''task'' [JStr ''commute-validation-v1'', JStr (or_text plan_id []), JStr rt]"

definition safe_turn_root_id :: "primitives \<Rightarrow> string option \<Rightarrow> string option" where
  "safe_turn_root_id pr request_id =
     (let raw = strip (or_text request_id []) in
      if raw = [] then None
      else if identifier_text raw = Some raw then Some (''turn:'' @ raw)
      else Some (''turn:h:'' @ take 16 (pr_sha pr raw)))"

section \<open>Tool specs\<close>

record full_spec = live_spec +
  fs_max_retries :: json
  fs_retry_on_error :: json
  fs_input_model :: json
  fs_output_model :: json

fun digest_scalar :: "primitives \<Rightarrow> json \<Rightarrow> json" where
  "digest_scalar pr (JArr xs) = JStr (''repr:'' @ pr_repr pr (JArr xs))"
| "digest_scalar pr (JObj fs) = JStr (''repr:'' @ pr_repr pr (JObj fs))"
| "digest_scalar pr v = v"

definition tool_spec_security_digest :: "primitives \<Rightarrow> full_spec \<Rightarrow> string + string" where
  "tool_spec_security_digest pr sp =
     (case tool_input_schema_digest (pr_sha pr) (pr_ftext pr) (ls_input_schema sp) of
        Inl _ \<Rightarrow> Inl ''specialist_tool_spec_invalid''
      | Inr schema_digest \<Rightarrow>
          (case canonical_text pr
             (JObj [(''name'', ls_name sp), (''version'', ls_version sp), (''side_effect'', ls_side_effect sp),
                (''terminal'', ls_terminal sp), (''retry_safe'', ls_retry_safe sp),
                (''max_retries'', digest_scalar pr (fs_max_retries sp)),
                (''retry_on_error'', digest_scalar pr (fs_retry_on_error sp)),
                (''input_model_ref'', digest_scalar pr (fs_input_model sp)),
                (''output_model_ref'', digest_scalar pr (fs_output_model sp)),
                (''input_schema_digest'', JStr schema_digest)])
             ''tool_spec'' max_call_args_bytes of
             Inl e \<Rightarrow> Inl e | Inr encoded \<Rightarrow> Inr (''sha256:'' @ pr_sha pr encoded)))"

fun index_specs :: "full_spec list \<Rightarrow> (string \<times> full_spec) list \<Rightarrow> string + (string \<times> full_spec) list" where
  "index_specs [] acc = Inr acc"
| "index_specs (sp # sps) acc =
     (case ls_name sp of
        JStr n \<Rightarrow>
          if n = [] \<or> dict_has acc n then Inl ''specialist_live_specs_invalid''
          else index_specs sps (acc @ [(n, sp)])
      | _ \<Rightarrow> Inl ''specialist_live_specs_invalid'')"

section \<open>Sealing the arguments of a call\<close>

text \<open>
  An argument value as Python holds it: \<open>PyNonFinite\<close> is a float that is infinite or no number,
  \<open>PyOpaque\<close> any object of another type (tuple, set, bytes, ...).
\<close>

datatype pyval = PyNone | PyBool bool | PyInt int | PyFloat rat | PyNonFinite | PyStr string
  | PyList "pyval list" | PyDict "(pyval \<times> pyval) list" | PyOpaque

fun key_text :: "pyval \<Rightarrow> string option" where
  "key_text (PyStr s) = Some s"
| "key_text _ = None"

text \<open>The children of a node that the worklist descends into, last one on top of the stack.\<close>

definition deeper :: "nat \<Rightarrow> pyval list \<Rightarrow> (pyval \<times> nat) list \<Rightarrow> (pyval \<times> nat) list" where
  "deeper depth xs stack = rev (map (\<lambda>x. (x, Suc depth)) xs) @ stack"

definition stack_size :: "(pyval \<times> nat) list \<Rightarrow> nat" where
  "stack_size st = sum_list (map (\<lambda>(v, d). Suc (size v)) st)"

lemma sum_Suc_sizes: "(\<Sum>x\<leftarrow>xs. Suc (size x)) = size_list size xs"
  by (induction xs) simp_all

lemma stack_size_simps [simp]:
  "stack_size [] = 0" "stack_size ((v, d) # st) = Suc (size v + stack_size st)"
  "stack_size (deeper d xs st) = size_list size xs + stack_size st"
  by (simp_all add: stack_size_def deeper_def comp_def rev_map [symmetric] sum_list_rev sum_Suc_sizes)

lemma size_items: "size_list (size \<circ> snd) its \<le> size_list (size_prod size size) (its :: (pyval \<times> pyval) list)"
  by (induction its) auto

function check_native :: "string \<Rightarrow> (pyval \<times> nat) list \<Rightarrow> string option" where
  "check_native label [] = None"
| "check_native label ((node, depth) # stack) =
     (if max_args_depth < depth then Some (label @ ''_too_deep'')
      else case node of
        PyNonFinite \<Rightarrow> Some (label @ ''_not_finite_json'')
      | PyDict items \<Rightarrow>
          if \<exists>(k, v) \<in> set items. key_text k = None then Some (label @ ''_not_json_native'')
          else check_native label (deeper depth (map snd items) stack)
      | PyList xs \<Rightarrow> check_native label (deeper depth xs stack)
      | PyOpaque \<Rightarrow> Some (label @ ''_not_json_native'')
      | _ \<Rightarrow> check_native label stack)"
  by pat_completeness auto
termination
  by (relation "measure (\<lambda>(_, st). stack_size st)") (auto intro: le_imp_less_Suc le_SucI size_items)

fun to_json :: "pyval \<Rightarrow> json" where
  "to_json (PyBool b) = JBool b"
| "to_json (PyInt i) = JInt i"
| "to_json (PyFloat x) = JFloat x"
| "to_json (PyStr s) = JStr s"
| "to_json (PyList xs) = JArr (map to_json xs)"
| "to_json (PyDict items) = JObj (map (\<lambda>(k, v). (or_text (key_text k) [], to_json v)) items)"
| "to_json _ = JNull"

definition reserved_argument :: "(pyval \<times> pyval) list \<Rightarrow> bool" where
  "reserved_argument items \<longleftrightarrow>
     list_ex (\<lambda>(k, v). case key_text k of None \<Rightarrow> True
       | Some s \<Rightarrow> take 1 s = ''_'' \<or> s \<in> set reserved_input_keys) items"

definition seal_value :: "primitives \<Rightarrow> (pyval \<times> pyval) list \<Rightarrow> string + json" where
  "seal_value pr items =
     (case check_native ''specialist_call_args'' [(PyDict items, 0)] of
        Some e \<Rightarrow> Inl e
      | None \<Rightarrow>
          (case canonical_text pr (to_json (PyDict items)) ''specialist_call_args'' max_call_args_bytes of
             Inl e \<Rightarrow> Inl e | Inr text \<Rightarrow> Inr (sorted_json (to_json (PyDict items)))))"

definition seal_specialist_args :: "primitives \<Rightarrow> pyval \<Rightarrow> string + json" where
  "seal_specialist_args pr args =
     (case args of
        PyDict items \<Rightarrow> if reserved_argument items then Inl ''specialist_reserved_argument'' else seal_value pr items
      | _ \<Rightarrow> Inl ''specialist_call_args_invalid'')"

record read_call =
  rc_index :: int
  rc_tool :: string
  rc_args :: pyval
  rc_digest :: string
  rc_call_id :: "string option"

definition call_id_text :: "read_call \<Rightarrow> string" where
  "call_id_text c = or_text (rc_call_id c) (''call_'' @ int_text (rc_index c))"

definition snapshot_call :: "primitives \<Rightarrow> read_call \<Rightarrow> string + json \<times> string" where
  "snapshot_call pr c =
     (if rc_index c < 0 then Inl ''specialist_call_index_invalid''
      else if rc_tool c = [] then Inl ''specialist_tool_name_invalid''
      else case rc_args c of
        PyDict items \<Rightarrow>
          if reserved_argument items then Inl ''specialist_reserved_argument''
          else if \<not> is_params_digest (rc_digest c) then Inl ''specialist_params_digest_invalid''
          else if 128 < length (call_id_text c) then Inl ''specialist_tool_call_id_invalid''
          else (case seal_value pr items of Inl e \<Rightarrow> Inl e | Inr v \<Rightarrow> Inr (v, call_id_text c))
      | _ \<Rightarrow> Inl ''specialist_call_args_invalid'')"

text \<open>The length of the sealed text.\<close>

definition args_bytes :: "primitives \<Rightarrow> json \<Rightarrow> nat" where
  "args_bytes pr v = length (canonical_json (pr_ftext pr) v)"

section \<open>The batch\<close>

record sealed_call =
  se_call :: read_call
  se_args :: json
  se_id :: string

type_synonym buckets = "(role \<times> sealed_call list) list"

text \<open>\<open>buckets.setdefault(role, []).append(entry)\<close>.\<close>

fun add_to_bucket :: "role \<Rightarrow> sealed_call \<Rightarrow> buckets \<Rightarrow> buckets" where
  "add_to_bucket r e [] = [(r, [e])]"
| "add_to_bucket r e ((q, es) # bs) = (if q = r then (q, es @ [e]) # bs else (q, es) # add_to_bucket r e bs)"

type_synonym rejections = "(int \<times> string) list"

definition reject_call :: "rejections \<Rightarrow> int \<Rightarrow> string \<Rightarrow> rejections" where
  "reject_call rej i code = (if 0 \<le> i then rej @ [(i, code)] else rej)"

fun seal_calls ::
  "primitives \<Rightarrow> read_call list \<Rightarrow> buckets \<Rightarrow> rejections \<Rightarrow> nat \<Rightarrow> buckets \<times> rejections" where
  "seal_calls pr [] bs rej used = (bs, rej)"
| "seal_calls pr (c # cs) bs rej used =
     (case specialist_eligible_role (rc_tool c) of
        None \<Rightarrow> seal_calls pr cs bs rej used
      | Some role \<Rightarrow>
          (case snapshot_call pr c of
             Inl e \<Rightarrow> seal_calls pr cs bs (reject_call rej (rc_index c) e) used
           | Inr (args, call_id) \<Rightarrow>
               if max_batch_args_bytes < used + args_bytes pr args
               then seal_calls pr cs bs (reject_call rej (rc_index c) ''specialist_call_args_over_batch_budget'') used
               else seal_calls pr cs
                 (add_to_bucket role \<lparr>se_call = c, se_args = args, se_id = call_id\<rparr> bs) rej (used + args_bytes pr args)))"

record prepared_call =
  pc_index :: int
  pc_tool :: string
  pc_digest :: string
  pc_call_id :: string
  pc_task :: string
  pc_role :: role
  pc_grant :: grant
  pc_artifact :: string
  pc_spec_digest :: string
  pc_args :: json

record prepared_batch =
  pb_plan :: plan
  pb_calls :: "(int \<times> prepared_call) list"
  pb_plan_json :: json
  pb_rejected :: rejections

record turn_context =
  tc_run :: string
  tc_root :: string
  tc_turn :: int

definition call_metadata :: "primitives \<Rightarrow> turn_context \<Rightarrow> sealed_call \<Rightarrow> string + int \<times> fields" where
  "call_metadata pr tc e =
     (let c = se_call e; masked = checkpoint_digest pr (tc_run tc) (rc_digest c) in
      and_then (stable_id pr ''call''
          [JStr (tc_run tc), JInt (tc_turn tc), JStr (tc_root tc), JInt (rc_index c), JStr (se_id e), JStr masked,
           JStr (pr_sha pr (canonical_json (pr_ftext pr) (se_args e)))])
        (\<lambda>safe_id. Inr (rc_index c,
           [(''index'', JInt (rc_index c)), (''tool'', JStr (rc_tool c)), (''tool_call_id'', JStr safe_id),
            (''params_digest'', JStr masked)])))"

definition prepare_call ::
  "primitives \<Rightarrow> turn_context \<Rightarrow> (string \<times> full_spec) list \<Rightarrow> string \<Rightarrow> string \<Rightarrow> role \<Rightarrow> grant list
   \<Rightarrow> (int \<times> fields) list \<Rightarrow> sealed_call \<Rightarrow> string + int \<times> prepared_call" where
  "prepare_call pr tc specs plan_id task_id role grants metadata e =
     (let c = se_call e in
      case map_of specs (rc_tool c) of
        None \<Rightarrow> Inl ''specialist_live_spec_missing''
      | Some sp \<Rightarrow>
          and_then (tool_spec_security_digest pr sp) (\<lambda>spec_digest.
          case (map_of metadata (rc_index c), find (\<lambda>g. gr_name g = rc_tool c) (rev grants)) of
            (Some meta, Some g) \<Rightarrow>
              and_then (stable_id pr ''artifact''
                  [JStr plan_id, JStr task_id, JInt (rc_index c),
                   JStr (checkpoint_digest pr (tc_run tc) (rc_digest c))]) (\<lambda>artifact.
                Inr (rc_index c, \<lparr>pc_index = rc_index c, pc_tool = rc_tool c, pc_digest = rc_digest c,
                  pc_call_id = (case map_of meta ''tool_call_id'' of Some (JStr s) \<Rightarrow> s | _ \<Rightarrow> []),
                  pc_task = task_id, pc_role = role, pc_grant = g, pc_artifact = artifact,
                  pc_spec_digest = spec_digest, pc_args = se_args e\<rparr>))
          | (None, _) \<Rightarrow> Inl ''StopIteration''
          | (_, None) \<Rightarrow> Inl ''KeyError''))"

definition prepare_role ::
  "primitives \<Rightarrow> turn_context \<Rightarrow> (string \<times> full_spec) list \<Rightarrow> string \<Rightarrow> string \<Rightarrow> role \<times> sealed_call list
   \<Rightarrow> string + task \<times> (int \<times> prepared_call) list" where
  "prepare_role pr tc specs plan_id safe_root = (\<lambda>(role, entries).
     let tool_names = dedupe (map (rc_tool \<circ> se_call) entries); task_id = plan_id @ ''/'' @ role_name role in
     and_then (refused_as ''specialist_grant_invalid''
         (grant_read_only_tools_for_role (pr_sha pr) (pr_ftext pr) (role_name role) tool_names
            (map (live_spec.truncate \<circ> snd) specs))) (\<lambda>grants.
     and_then (each (call_metadata pr tc) entries) (\<lambda>metadata.
     and_then (refused_as ''specialist_task_invalid''
         (make_task (pr_ftext pr) task_id safe_root role (''Collect manager-requested '' @ role_name role @ '' evidence'')
            grants [] [(''calls'', JArr (map (JObj \<circ> snd) metadata))])) (\<lambda>tk.
     and_then (each (prepare_call pr tc specs plan_id task_id role grants metadata) entries) (\<lambda>prepared.
       Inr (tk, prepared))))))"

section \<open>The plan as a JSON snapshot\<close>

definition grant_json :: "grant \<Rightarrow> json" where
  "grant_json g = JObj [(''name'', JStr (gr_name g)), (''version'', JStr (gr_version g)), (''side_effect'', JStr ''none''),
     (''terminal'', JBool False), (''retry_safe'', JBool (gr_retry_safe g)), (''input_schema_digest'', JStr (gr_digest g))]"

definition task_json :: "task \<Rightarrow> json" where
  "task_json t = JObj [(''schema_version'', JStr ''1''), (''task_id'', JStr (tk_id t)), (''parent_task_id'', JStr (tk_parent t)),
     (''role'', JStr (role_name (tk_role t))), (''objective'', JStr (tk_objective t)),
     (''tools'', JArr (map grant_json (tk_tools t))), (''depends_on'', JArr (map JStr (tk_depends_on t))),
     (''inputs'', JObj (tk_inputs t))]"

definition plan_json :: "plan \<Rightarrow> json" where
  "plan_json p = JObj [(''schema_version'', JStr ''1''), (''plan_id'', JStr (pl_id p)), (''root_task_id'', JStr (pl_root p)),
     (''created_by'', JStr ''manager''), (''no_tools'', JBool (pl_no_tools p)), (''tasks'', JArr (map task_json (pl_tasks p)))]"

text \<open>Validation of a snapshot; every check of the contracts runs again.\<close>

fun as_text :: "json option \<Rightarrow> contract_error + string" where
  "as_text (Some (JStr s)) = Inr s"
| "as_text _ = Inl (BadField ''text'')"

fun as_flag :: "json option \<Rightarrow> contract_error + bool" where
  "as_flag (Some (JBool b)) = Inr b"
| "as_flag _ = Inl (BadField ''flag'')"

fun as_items :: "json option \<Rightarrow> contract_error + json list" where
  "as_items (Some (JArr xs)) = Inr xs"
| "as_items _ = Inl (BadField ''items'')"

fun as_fields :: "json option \<Rightarrow> contract_error + fields" where
  "as_fields (Some (JObj fs)) = Inr fs"
| "as_fields _ = Inl (BadField ''fields'')"

fun as_role :: "json option \<Rightarrow> contract_error + role" where
  "as_role (Some (JStr s)) = (case role_of_name s of Some r \<Rightarrow> Inr r | None \<Rightarrow> Inl (UnknownRole s))"
| "as_role _ = Inl (BadField ''role'')"

definition decode_grant :: "json \<Rightarrow> contract_error + grant" where
  "decode_grant j =
     (if json_get j ''side_effect'' \<noteq> Some (JStr ''none'') \<or> json_get j ''terminal'' \<noteq> Some (JBool False)
      then Inl (BadField ''literal'')
      else and_then (as_text (json_get j ''name'')) (\<lambda>name.
           and_then (as_text (json_get j ''version'')) (\<lambda>version.
           and_then (as_flag (json_get j ''retry_safe'')) (\<lambda>retry_safe.
           and_then (as_text (json_get j ''input_schema_digest'')) (\<lambda>digest.
             make_grant name version retry_safe digest)))))"

definition decode_task :: "(rat \<Rightarrow> string) \<Rightarrow> json \<Rightarrow> contract_error + task" where
  "decode_task ftext j =
     (if json_get j ''schema_version'' \<noteq> Some (JStr ''1'') then Inl (BadField ''literal'')
      else and_then (as_text (json_get j ''task_id'')) (\<lambda>task_id.
           and_then (as_text (json_get j ''parent_task_id'')) (\<lambda>parent.
           and_then (as_role (json_get j ''role'')) (\<lambda>role.
           and_then (as_text (json_get j ''objective'')) (\<lambda>objective.
           and_then (and_then (as_items (json_get j ''tools'')) (each decode_grant)) (\<lambda>tools.
           and_then (and_then (as_items (json_get j ''depends_on'')) (each (\<lambda>x. as_text (Some x)))) (\<lambda>depends_on.
           and_then (as_fields (json_get j ''inputs'')) (\<lambda>inputs.
             make_task ftext task_id parent role objective tools depends_on inputs))))))))"

definition decode_plan :: "(rat \<Rightarrow> string) \<Rightarrow> json \<Rightarrow> contract_error + plan" where
  "decode_plan ftext j =
     (if json_get j ''schema_version'' \<noteq> Some (JStr ''1'') \<or> json_get j ''created_by'' \<noteq> Some (JStr ''manager'')
      then Inl (BadField ''literal'')
      else and_then (as_text (json_get j ''plan_id'')) (\<lambda>plan_id.
           and_then (as_text (json_get j ''root_task_id'')) (\<lambda>rt.
           and_then (as_flag (json_get j ''no_tools'')) (\<lambda>no_tools.
           and_then (and_then (as_items (json_get j ''tasks'')) (each (decode_task ftext))) (\<lambda>tasks.
             make_plan plan_id rt no_tools tasks)))))"

text \<open>The size check of the plan raises inside the \<open>try\<close> that turns every refusal into one code.\<close>

definition freeze_plan :: "primitives \<Rightarrow> string \<Rightarrow> string \<Rightarrow> task list \<Rightarrow> string + plan" where
  "freeze_plan pr plan_id safe_root tasks =
     (case make_plan plan_id safe_root (tasks = []) tasks of
        Inl _ \<Rightarrow> Inl ''specialist_plan_invalid''
      | Inr p \<Rightarrow>
          (case canonical_text pr (plan_json p) ''specialist_plan'' max_plan_bytes of
             Inl _ \<Rightarrow> Inl ''specialist_plan_invalid''
           | Inr _ \<Rightarrow> refused_as ''specialist_plan_invalid'' (decode_plan (pr_ftext pr) (plan_json p))))"

definition plan_seed :: "primitives \<Rightarrow> turn_context \<Rightarrow> buckets \<Rightarrow> json" where
  "plan_seed pr tc bs = JArr [JStr (tc_run tc), JInt (tc_turn tc), JStr (tc_root tc),
     JArr (concat (map (\<lambda>(r, es). map (\<lambda>e. JArr [JInt (rc_index (se_call e)), JStr (rc_tool (se_call e)),
       JStr (checkpoint_digest pr (tc_run tc) (rc_digest (se_call e))), JStr (se_id e)]) es) bs))]"

definition prepare_specialist_batch ::
  "primitives \<Rightarrow> read_call list \<Rightarrow> full_spec list \<Rightarrow> turn_context \<Rightarrow> string + prepared_batch" where
  "prepare_specialist_batch pr calls live tc =
     (if max_specialist_calls < length calls then Inl ''specialist_batch_too_wide''
      else if \<not> distinct (map rc_index calls) then Inl ''specialist_duplicate_call_index''
      else if tc_turn tc < 0 then Inl ''specialist_turn_invalid''
      else and_then (index_specs live []) (\<lambda>specs.
        let (bs, rejected) = seal_calls pr calls [] [] 0 in
        and_then (stable_id pr ''manager'' [JStr ''root-task-v1'', JStr (tc_run tc), JStr (tc_root tc)]) (\<lambda>safe_root.
        and_then (stable_id pr ''plan'' [plan_seed pr tc bs]) (\<lambda>plan_id.
        and_then (each (prepare_role pr tc specs plan_id safe_root) bs) (\<lambda>roles.
        and_then (freeze_plan pr plan_id safe_root (map fst roles)) (\<lambda>p.
          Inr \<lparr>pb_plan = p, pb_calls = concat (map snd roles), pb_plan_json = plan_json p,
               pb_rejected = rejected\<rparr>))))))"

section \<open>Revalidation before dispatch\<close>

definition validated_plan :: "primitives \<Rightarrow> prepared_batch \<Rightarrow> string + plan" where
  "validated_plan pr b = refused_as ''specialist_plan_snapshot_invalid'' (decode_plan (pr_ftext pr) (pb_plan_json b))"

definition task_for_index :: "prepared_batch \<Rightarrow> int \<Rightarrow> string + task" where
  "task_for_index b i =
     (case map_of (pb_calls b) i of
        None \<Rightarrow> Inl ''specialist_call_not_planned''
      | Some c \<Rightarrow>
          (case find (\<lambda>t. tk_id t = pc_task c) (pl_tasks (pb_plan b)) of
             None \<Rightarrow> Inl ''specialist_task_missing'' | Some t \<Rightarrow> Inr t))"

definition revalidate_specialist_call ::
  "primitives \<Rightarrow> prepared_batch \<Rightarrow> int \<Rightarrow> full_spec list \<Rightarrow> string + prepared_call" where
  "revalidate_specialist_call pr b i live =
     (case map_of (pb_calls b) i of
        None \<Rightarrow> Inl ''specialist_call_not_planned''
      | Some c \<Rightarrow>
          and_then (validated_plan pr b) (\<lambda>p.
          case find (\<lambda>t. tk_id t = pc_task c) (pl_tasks p) of
            None \<Rightarrow> Inl ''specialist_task_identity_changed''
          | Some t \<Rightarrow>
              if tk_role t \<noteq> pc_role c then Inl ''specialist_task_identity_changed''
              else (case find (\<lambda>g. gr_name g = pc_tool c) (tk_tools t) of
                None \<Rightarrow> Inl ''specialist_grant_changed''
              | Some g \<Rightarrow>
                  if g \<noteq> pc_grant c then Inl ''specialist_grant_changed''
                  else and_then (index_specs live []) (\<lambda>specs.
                    case map_of specs (pc_tool c) of
                      None \<Rightarrow> Inl ''specialist_live_spec_missing''
                    | Some sp \<Rightarrow>
                        (case validate_read_only_dispatch_for_role (pr_sha pr) (pr_ftext pr) (role_name (tk_role t)) g
                            (live_spec.truncate sp) of
                           Some _ \<Rightarrow> Inl ''specialist_live_spec_rejected''
                         | None \<Rightarrow>
                             and_then (tool_spec_security_digest pr sp) (\<lambda>d.
                             if d \<noteq> pc_spec_digest c then Inl ''specialist_capability_metadata_drift''
                             else Inr c))))))"

section \<open>Sealed values\<close>

lemma canonical_sorted: "canonical_json ftext (sorted_json v) = canonical_json ftext v"
proof (induction v)
  case (JArr xs)
  then show ?case by (simp cong: map_cong)
next
  case (JObj fs)
  let ?c = "\<lambda>(k, v). (k, canonical_json ftext v)" and ?s = "\<lambda>(k, v). (k, sorted_json v)"
  have "map ?c (map ?s fs) = map ?c fs" using JObj by (fastforce simp: case_prod_beta)
  then have "sort_key fst (map ?c (sort_key fst (map ?s fs))) = sort_key fst (map ?c fs)"
    by (simp only: sort_key_map_snd [symmetric]) (simp add: sort_key_id_if_sorted)
  then show ?case by simp
qed simp_all

text \<open>A JSON value always survives the round trip, so only its size can refuse it.\<close>

lemma canonical_text_eq:
  "canonical_text pr v label m =
     (if m < length (canonical_json (pr_ftext pr) v) then Inl (label @ ''_too_large'') else Inr (canonical_json (pr_ftext pr) v))"
  by (simp add: canonical_text_def canonical_sorted)

text \<open>The worklist accepts the values nested at most \<open>max_args_depth\<close> deep that JSON can hold.\<close>

fun native_from :: "nat \<Rightarrow> pyval \<Rightarrow> bool" where
  "native_from d PyNonFinite = False"
| "native_from d PyOpaque = False"
| "native_from d (PyList xs) = (d \<le> max_args_depth \<and> (\<forall>x \<in> set xs. native_from (Suc d) x))"
| "native_from d (PyDict items) = (d \<le> max_args_depth \<and>
     (\<forall>(k, v) \<in> set items. key_text k \<noteq> None \<and> native_from (Suc d) v))"
| "native_from d v = (d \<le> max_args_depth)"

lemma ball_deeper: "(\<forall>(v, d) \<in> set (deeper depth xs st). P v d) \<longleftrightarrow> (\<forall>x \<in> set xs. P x (Suc depth)) \<and> (\<forall>(v, d) \<in> set st. P v d)"
  by (auto simp: deeper_def)

lemma check_native_iff: "check_native label st = None \<longleftrightarrow> (\<forall>(v, d) \<in> set st. native_from d v)"
proof (induction label st rule: check_native.induct)
  case (2 label node depth stack)
  show ?case
  proof (cases "max_args_depth < depth")
    case True
    then show ?thesis by (cases node) auto
  next
    case False
    with 2 show ?thesis
      by (cases node) (simp_all add: ball_deeper, fastforce)
  qed
qed simp

lemma seal_value_Inr:
  "seal_value pr items = Inr v \<longleftrightarrow>
     native_from 0 (PyDict items) \<and> v = sorted_json (to_json (PyDict items))
     \<and> args_bytes pr v \<le> max_call_args_bytes"
proof -
  have "check_native l [(PyDict items, 0)] = None \<longleftrightarrow> native_from 0 (PyDict items)" for l
    by (simp only: check_native_iff) simp
  then show ?thesis
    unfolding seal_value_def canonical_text_eq args_bytes_def
    by (auto simp: canonical_sorted split: option.splits
        simp del: sorted_json.simps to_json.simps native_from.simps check_native.simps)
qed

section \<open>Every eligible call is sealed or rejected\<close>

definition entries_of :: "buckets \<Rightarrow> (role \<times> sealed_call) list" where
  "entries_of bs = concat (map (\<lambda>(r, es). map (Pair r) es) bs)"

definition bytes_of :: "primitives \<Rightarrow> (role \<times> sealed_call) list \<Rightarrow> nat" where
  "bytes_of pr es = sum_list (map (\<lambda>(r, e). args_bytes pr (se_args e)) es)"

abbreviation entry_index :: "role \<times> sealed_call \<Rightarrow> int" where
  "entry_index re \<equiv> rc_index (se_call (snd re))"

lemma mset_entries_add [simp]: "mset (entries_of (add_to_bucket r e bs)) = add_mset (r, e) (mset (entries_of bs))"
  by (induction bs) (auto simp: entries_of_def)

text \<open>What happens to one call, given the bytes the batch holds in the end.\<close>

definition sealed_entry :: "primitives \<Rightarrow> read_call list \<Rightarrow> role \<times> sealed_call \<Rightarrow> bool" where
  "sealed_entry pr cs = (\<lambda>(r, e). se_call e \<in> set cs \<and> specialist_eligible_role (rc_tool (se_call e)) = Some r
     \<and> snapshot_call pr (se_call e) = Inr (se_args e, se_id e))"

definition rejection_ok :: "primitives \<Rightarrow> read_call list \<Rightarrow> nat \<Rightarrow> int \<times> string \<Rightarrow> bool" where
  "rejection_ok pr cs held = (\<lambda>(i, code). 0 \<le> i \<and> (\<exists>c \<in> set cs. rc_index c = i
     \<and> specialist_eligible_role (rc_tool c) \<noteq> None
     \<and> (snapshot_call pr c = Inl code
        \<or> (\<exists>args call_id. snapshot_call pr c = Inr (args, call_id) \<and> code = ''specialist_call_args_over_batch_budget''
             \<and> max_batch_args_bytes < held + args_bytes pr args))))"

definition call_settled :: "(role \<times> sealed_call) list \<Rightarrow> rejections \<Rightarrow> read_call \<Rightarrow> bool" where
  "call_settled es rej c \<longleftrightarrow> specialist_eligible_role (rc_tool c) = None \<or> rc_index c < 0
     \<or> c \<in> se_call ` snd ` set es \<or> rc_index c \<in> fst ` set rej"

lemma rejection_ok_mono: "rejection_ok pr cs held x \<Longrightarrow> set cs \<subseteq> set ds \<Longrightarrow> held \<le> held' \<Longrightarrow> rejection_ok pr ds held' x"
  unfolding rejection_ok_def by (fastforce intro: less_le_trans)

lemma sealed_entry_mono: "sealed_entry pr cs x \<Longrightarrow> set cs \<subseteq> set ds \<Longrightarrow> sealed_entry pr ds x"
  unfolding sealed_entry_def by auto

lemma snapshot_index: "snapshot_call pr c = Inr v \<Longrightarrow> 0 \<le> rc_index c"
  by (auto simp: snapshot_call_def split: if_splits)

definition loop_ok ::
  "primitives \<Rightarrow> read_call list \<Rightarrow> nat \<Rightarrow> (role \<times> sealed_call) list \<Rightarrow> rejections \<Rightarrow> bool" where
  "loop_ok pr cs used es rej \<longleftrightarrow>
     list_all (sealed_entry pr cs) es \<and> list_all (rejection_ok pr cs (used + bytes_of pr es)) rej
     \<and> (used \<le> max_batch_args_bytes \<longrightarrow> used + bytes_of pr es \<le> max_batch_args_bytes)
     \<and> list_all (call_settled es rej) cs
     \<and> mset (map entry_index es) + mset (map fst rej) \<subseteq># mset (map rc_index cs)"

lemma loop_ok_skip:
  assumes "loop_ok pr cs used es rej" "specialist_eligible_role (rc_tool c) = None"
  shows "loop_ok pr (c # cs) used es rej"
  using assms unfolding loop_ok_def
  by (auto simp: list_all_iff call_settled_def
      intro: rejection_ok_mono sealed_entry_mono subset_add_mset)

lemma loop_ok_reject:
  assumes "loop_ok pr cs used es rej" "0 \<le> rc_index c \<Longrightarrow> rejection_ok pr [c] (used + bytes_of pr es) (rc_index c, code)"
  shows "loop_ok pr (c # cs) used es (reject_call [] (rc_index c) code @ rej)"
proof -
  have "mset (map entry_index es) + mset (map fst rej) \<subseteq># mset (map rc_index cs)" using assms(1) by (simp add: loop_ok_def)
  then have "mset (map entry_index es) + mset (map fst (reject_call [] (rc_index c) code @ rej)) \<subseteq># mset (map rc_index (c # cs))"
    by (simp add: reject_call_def subset_add_mset)
  moreover have "list_all (call_settled es (reject_call [] (rc_index c) code @ rej)) (c # cs)"
    using assms(1) by (auto simp: loop_ok_def list_all_iff call_settled_def reject_call_def)
  moreover have "list_all (rejection_ok pr (c # cs) (used + bytes_of pr es)) (reject_call [] (rc_index c) code @ rej)"
    using assms by (auto simp: loop_ok_def list_all_iff reject_call_def intro: rejection_ok_mono)
  moreover have "list_all (sealed_entry pr (c # cs)) es"
    using assms(1) by (auto simp: loop_ok_def list_all_iff intro: sealed_entry_mono)
  ultimately show ?thesis using assms(1) by (simp add: loop_ok_def)
qed

lemma loop_ok_seal:
  assumes "loop_ok pr cs (used + args_bytes pr (se_args e)) es rej" "sealed_entry pr [c] (r, e)" "se_call e = c"
    and "used + args_bytes pr (se_args e) \<le> max_batch_args_bytes"
  shows "loop_ok pr (c # cs) used ((r, e) # es) rej"
proof -
  have b: "used + bytes_of pr ((r, e) # es) = used + args_bytes pr (se_args e) + bytes_of pr es"
    by (simp add: bytes_of_def)
  show ?thesis
    using assms unfolding loop_ok_def b
    by (auto simp: list_all_iff call_settled_def intro: rejection_ok_mono sealed_entry_mono)
qed

lemma reject_call_eq: "reject_call rej i code = rej @ reject_call [] i code"
  by (simp add: reject_call_def)

lemma seal_calls_ok:
  "seal_calls pr cs bs rej used = (bs', rej') \<Longrightarrow>
   \<exists>es new. mset (entries_of bs') = mset (entries_of bs) + mset es \<and> rej' = rej @ new \<and> loop_ok pr cs used es new"
proof (induction cs arbitrary: bs rej used)
  case Nil
  then show ?case by (intro exI [of _ "[]"]) (auto simp: loop_ok_def bytes_of_def)
next
  case (Cons c cs)
  show ?case
  proof (cases "specialist_eligible_role (rc_tool c)")
    case None
    with Cons show ?thesis by (fastforce intro: loop_ok_skip)
  next
    case (Some r)
    show ?thesis
    proof (cases "snapshot_call pr c")
      case (Inl code)
      with Some Cons.prems have "seal_calls pr cs bs (reject_call rej (rc_index c) code) used = (bs', rej')" by simp
      from Cons.IH [OF this] obtain es new where "mset (entries_of bs') = mset (entries_of bs) + mset es"
        "rej' = reject_call rej (rc_index c) code @ new" "loop_ok pr cs used es new" by blast
      moreover have "rejection_ok pr [c] held (rc_index c, code)" if "0 \<le> rc_index c" for held
        using that Inl Some by (simp add: rejection_ok_def)
      ultimately show ?thesis using loop_ok_reject by (metis append_assoc reject_call_eq)
    next
      case (Inr v)
      obtain args call_id where v: "v = (args, call_id)" by fastforce
      show ?thesis
      proof (cases "max_batch_args_bytes < used + args_bytes pr args")
        case True
        let ?code = "''specialist_call_args_over_batch_budget''"
        from True Some Inr v Cons.prems
        have "seal_calls pr cs bs (reject_call rej (rc_index c) ?code) used = (bs', rej')" by simp
        from Cons.IH [OF this] obtain es new where "mset (entries_of bs') = mset (entries_of bs) + mset es"
          "rej' = reject_call rej (rc_index c) ?code @ new" "loop_ok pr cs used es new" by blast
        moreover have "rejection_ok pr [c] (used + bytes_of pr es) (rc_index c, ?code)" if "0 \<le> rc_index c" for es
          using that Inr v Some True by (simp add: rejection_ok_def)
        ultimately show ?thesis using loop_ok_reject by (metis append_assoc reject_call_eq)
      next
        case False
        let ?e = "\<lparr>se_call = c, se_args = args, se_id = call_id\<rparr>"
        from False Some Inr v Cons.prems
        have "seal_calls pr cs (add_to_bucket r ?e bs) rej (used + args_bytes pr (se_args ?e)) = (bs', rej')" by simp
        from Cons.IH [OF this] obtain es new where es: "mset (entries_of bs') = add_mset (r, ?e) (mset (entries_of bs)) + mset es"
          "rej' = rej @ new" "loop_ok pr cs (used + args_bytes pr (se_args ?e)) es new" by auto
        have "sealed_entry pr [c] (r, ?e)" using Some Inr v by (simp add: sealed_entry_def)
        from loop_ok_seal [OF es(3) this] False have "loop_ok pr (c # cs) used ((r, ?e) # es) new" by simp
        moreover have "mset (entries_of bs') = mset (entries_of bs) + mset ((r, ?e) # es)" using es(1) by simp
        ultimately show ?thesis using es(2) by blast
      qed
    qed
  qed
qed

section \<open>Planned calls\<close>

definition prepared_from :: "primitives \<Rightarrow> turn_context \<Rightarrow> (string \<times> full_spec) list \<Rightarrow> string \<Rightarrow> role \<times> sealed_call \<Rightarrow> int \<times> prepared_call \<Rightarrow> bool" where
  "prepared_from pr tc specs plan_id = (\<lambda>(r, e) (i, pc).
     i = rc_index (se_call e) \<and> pc_index pc = i \<and> pc_tool pc = rc_tool (se_call e) \<and> pc_digest pc = rc_digest (se_call e)
     \<and> pc_role pc = r \<and> pc_task pc = plan_id @ ''/'' @ role_name r \<and> pc_args pc = se_args e
     \<and> gr_name (pc_grant pc) = pc_tool pc \<and> (\<exists>parts. stable_id pr ''artifact'' parts = Inr (pc_artifact pc))
     \<and> (\<exists>sp. map_of specs (pc_tool pc) = Some sp \<and> tool_spec_security_digest pr sp = Inr (pc_spec_digest pc)))"

lemma prepare_call_Inr:
  assumes "prepare_call pr tc specs plan_id (plan_id @ ''/'' @ role_name r) r grants metadata e = Inr x"
  shows "prepared_from pr tc specs plan_id (r, e) x \<and> pc_grant (snd x) \<in> set grants"
proof -
  obtain i pc where x: "x = (i, pc)" by fastforce
  from assms obtain sp where sp: "map_of specs (rc_tool (se_call e)) = Some sp"
    by (auto simp: prepare_call_def Let_def split: option.splits)
  with assms obtain d where d: "tool_spec_security_digest pr sp = Inr d"
    by (auto simp: prepare_call_def Let_def and_then_Inr)
  with sp assms obtain meta g where g: "map_of metadata (rc_index (se_call e)) = Some meta"
    "find (\<lambda>g. gr_name g = rc_tool (se_call e)) (rev grants) = Some g"
    by (auto simp: prepare_call_def Let_def split: option.splits)
  then have "g \<in> set grants" "gr_name g = rc_tool (se_call e)" using find_member by fastforce+
  with assms sp d g show ?thesis
    by (auto simp: prepare_call_def prepared_from_def Let_def and_then_Inr)
qed

lemma prepare_role_Inr:
  assumes "prepare_role pr tc specs plan_id safe_root (r, es) = Inr (tk, prepared)"
  shows "\<exists>grants inputs.
    grant_read_only_tools_for_role (pr_sha pr) (pr_ftext pr) (role_name r) (dedupe (map (rc_tool \<circ> se_call) es))
      (map (live_spec.truncate \<circ> snd) specs) = Inr grants
    \<and> make_task (pr_ftext pr) (plan_id @ ''/'' @ role_name r) safe_root r
        (''Collect manager-requested '' @ role_name r @ '' evidence'') grants [] inputs = Inr tk
    \<and> list_all2 (prepared_from pr tc specs plan_id) (map (Pair r) es) prepared
    \<and> (\<forall>x \<in> set prepared. pc_grant (snd x) \<in> set grants)"
proof -
  from assms obtain grants metadata where
    g: "grant_read_only_tools_for_role (pr_sha pr) (pr_ftext pr) (role_name r) (dedupe (map (rc_tool \<circ> se_call) es))
      (map (live_spec.truncate \<circ> snd) specs) = Inr grants"
    and t: "make_task (pr_ftext pr) (plan_id @ ''/'' @ role_name r) safe_root r
        (''Collect manager-requested '' @ role_name r @ '' evidence'') grants [] [(''calls'', JArr (map (JObj \<circ> snd) metadata))] = Inr tk"
    and p: "each (prepare_call pr tc specs plan_id (plan_id @ ''/'' @ role_name r) r grants metadata) es = Inr prepared"
    by (auto simp: prepare_role_def Let_def and_then_Inr)
  from p have "list_all2 (\<lambda>e x. prepare_call pr tc specs plan_id (plan_id @ ''/'' @ role_name r) r grants metadata e = Inr x) es prepared"
    by (simp add: each_Inr)
  then have "list_all2 (\<lambda>e x. prepared_from pr tc specs plan_id (r, e) x \<and> pc_grant (snd x) \<in> set grants) es prepared"
    by (rule list_all2_mono) (rule prepare_call_Inr)
  then have "list_all2 (prepared_from pr tc specs plan_id) (map (Pair r) es) prepared"
    and "\<forall>x \<in> set prepared. pc_grant (snd x) \<in> set grants"
    by (simp_all add: list_all2_map1 list_all2_conv_all_nth all_set_conv_all_nth)
  with g t show ?thesis by blast
qed

lemma prepared_entries:
  "each (prepare_role pr tc specs plan_id safe_root) bs = Inr roles \<Longrightarrow>
   list_all2 (prepared_from pr tc specs plan_id) (entries_of bs) (concat (map snd roles))"
proof (induction bs arbitrary: roles)
  case (Cons b bs)
  obtain r es where b: "b = (r, es)" by fastforce
  from Cons.prems obtain x rest where x: "prepare_role pr tc specs plan_id safe_root b = Inr x"
    "each (prepare_role pr tc specs plan_id safe_root) bs = Inr rest" "roles = x # rest"
    by (auto simp: and_then_Inr)
  obtain tk prepared where tk: "x = (tk, prepared)" by fastforce
  have "list_all2 (prepared_from pr tc specs plan_id) (map (Pair r) es) prepared"
    using prepare_role_Inr x(1) unfolding b tk by blast
  with Cons.IH [OF x(2)] show ?case by (simp add: x(3) b tk entries_of_def list_all2_appendI)
qed (simp add: entries_of_def)

text \<open>The parts of a successful preparation.\<close>

lemma prepare_batch_Inr:
  assumes "prepare_specialist_batch pr calls live tc = Inr b"
  obtains specs bs safe_root plan_id roles where
    "distinct (map rc_index calls)" "index_specs live [] = Inr specs"
    "seal_calls pr calls [] [] 0 = (bs, pb_rejected b)"
    "stable_id pr ''manager'' [JStr ''root-task-v1'', JStr (tc_run tc), JStr (tc_root tc)] = Inr safe_root"
    "stable_id pr ''plan'' [plan_seed pr tc bs] = Inr plan_id"
    "each (prepare_role pr tc specs plan_id safe_root) bs = Inr roles"
    "freeze_plan pr plan_id safe_root (map fst roles) = Inr (pb_plan b)"
    "pb_calls b = concat (map snd roles)" "pb_plan_json b = plan_json (pb_plan b)"
proof -
  obtain bs rej where sc: "seal_calls pr calls [] [] 0 = (bs, rej)" by fastforce
  from assms obtain specs safe_root plan_id roles p where
    "distinct (map rc_index calls)" "index_specs live [] = Inr specs"
    "stable_id pr ''manager'' [JStr ''root-task-v1'', JStr (tc_run tc), JStr (tc_root tc)] = Inr safe_root"
    "stable_id pr ''plan'' [plan_seed pr tc bs] = Inr plan_id"
    "each (prepare_role pr tc specs plan_id safe_root) bs = Inr roles"
    "freeze_plan pr plan_id safe_root (map fst roles) = Inr p"
    "b = \<lparr>pb_plan = p, pb_calls = concat (map snd roles), pb_plan_json = plan_json p, pb_rejected = rej\<rparr>"
    unfolding prepare_specialist_batch_def sc by (auto simp: and_then_Inr split: if_splits)
  then show thesis using that [of specs bs safe_root plan_id roles] sc by simp
qed

lemma batch_accounts:
  assumes "prepare_specialist_batch pr calls live tc = Inr b"
  obtains es specs plan_id where "loop_ok pr calls 0 es (pb_rejected b)" "distinct (map rc_index calls)"
    "list_all2 (prepared_from pr tc specs plan_id) es (pb_calls b)"
proof -
  from prepare_batch_Inr [OF assms] obtain specs bs safe_root plan_id roles where
    d: "distinct (map rc_index calls)" and sc: "seal_calls pr calls [] [] 0 = (bs, pb_rejected b)"
    and r: "each (prepare_role pr tc specs plan_id safe_root) bs = Inr roles"
    and pb: "pb_calls b = concat (map snd roles)" by metis
  from seal_calls_ok [OF sc] obtain es where es: "mset (entries_of bs) = mset es" "loop_ok pr calls 0 es (pb_rejected b)"
    by (auto simp: entries_of_def)
  have "loop_ok pr calls 0 (entries_of bs) (pb_rejected b)"
  proof -
    have "set (entries_of bs) = set es" "bytes_of pr (entries_of bs) = bytes_of pr es"
      using es(1) by (auto simp: bytes_of_def sum_mset_sum_list [symmetric] dest: mset_eq_setD)
    then show ?thesis
      using es unfolding loop_ok_def by (simp add: list_all_iff call_settled_def)
  qed
  with that d prepared_entries [OF r] pb show thesis by simp
qed

lemma batch_facts:
  assumes "prepare_specialist_batch pr calls live tc = Inr b" "c \<in> set calls"
  defines "held \<equiv> sum_list (map (\<lambda>(i, p). args_bytes pr (pc_args p)) (pb_calls b))"
  shows "held \<le> max_batch_args_bytes"
    and "map_of (pb_calls b) (rc_index c) = Some p \<Longrightarrow> \<exists>call_id. specialist_eligible_role (rc_tool c) = Some (pc_role p)
      \<and> snapshot_call pr c = Inr (pc_args p, call_id) \<and> pc_tool p = rc_tool c \<and> pc_digest p = rc_digest c"
    and "map_of (pb_rejected b) (rc_index c) = Some code \<Longrightarrow>
      0 \<le> rc_index c \<and> specialist_eligible_role (rc_tool c) \<noteq> None \<and> (snapshot_call pr c = Inl code \<or>
      (\<exists>args call_id. snapshot_call pr c = Inr (args, call_id) \<and> code = ''specialist_call_args_over_batch_budget''
        \<and> max_batch_args_bytes < held + args_bytes pr args))"
    and "specialist_eligible_role (rc_tool c) = None \<or> rc_index c < 0 \<or> map_of (pb_calls b) (rc_index c) \<noteq> None
      \<or> map_of (pb_rejected b) (rc_index c) \<noteq> None"
    and "map_of (pb_calls b) (rc_index c) = None \<or> map_of (pb_rejected b) (rc_index c) = None"
proof -
  from batch_accounts [OF assms(1)] obtain es specs plan_id where
    ok: "loop_ok pr calls 0 es (pb_rejected b)" and d: "distinct (map rc_index calls)"
    and rel: "list_all2 (prepared_from pr tc specs plan_id) es (pb_calls b)" by metis
  let ?i = "rc_index c"
  have bytes: "held = bytes_of pr es"
    using rel unfolding bytes_of_def held_def by (induction) (auto simp: prepared_from_def)
  have idx: "map fst (pb_calls b) = map entry_index es"
    using rel by (induction) (auto simp: prepared_from_def)
  have "distinct (map entry_index es @ map fst (pb_rejected b))"
    using ok by (intro distinct_sub_mset [OF _ d]) (simp add: loop_ok_def)
  then have disj: "distinct (map fst (pb_calls b))" "distinct (map fst (pb_rejected b))"
    "fst ` set (pb_calls b) \<inter> fst ` set (pb_rejected b) = {}"
    by (auto simp: idx [symmetric] simp flip: set_map)
  have same: "x = c" if "x \<in> set calls" "rc_index x = ?i" for x
    using that assms(2) d by (auto simp: distinct_map dest: inj_onD)
  show planned: "\<exists>call_id. specialist_eligible_role (rc_tool c) = Some (pc_role p)
      \<and> snapshot_call pr c = Inr (pc_args p, call_id) \<and> pc_tool p = rc_tool c \<and> pc_digest p = rc_digest c"
    if p: "map_of (pb_calls b) ?i = Some p"
  proof -
    from map_of_SomeD [OF p] obtain k where k: "k < length (pb_calls b)" "pb_calls b ! k = (?i, p)"
      by (auto simp: in_set_conv_nth)
    obtain r e where re: "es ! k = (r, e)" by fastforce
    have "prepared_from pr tc specs plan_id (r, e) (?i, p)" "(r, e) \<in> set es"
      using list_all2_nthD2 [OF rel k(1)] list_all2_lengthD [OF rel] k nth_mem [of k es] by (simp_all add: re)
    then show ?thesis
      using ok same by (auto simp: loop_ok_def list_all_iff sealed_entry_def prepared_from_def dest!: bspec)
  qed
  have rejected: "rejection_ok pr calls held (?i, code)" if "map_of (pb_rejected b) ?i = Some code" for code
    using ok that by (auto simp: loop_ok_def bytes list_all_iff dest!: map_of_SomeD)
  have entry: "map_of (pb_calls b) ?i \<noteq> None" if "c \<in> se_call ` snd ` set es"
    using that by (auto simp: map_of_eq_None_iff idx simp flip: set_map) force
  show "specialist_eligible_role (rc_tool c) = None \<or> ?i < 0 \<or> map_of (pb_calls b) ?i \<noteq> None
      \<or> map_of (pb_rejected b) ?i \<noteq> None"
  proof -
    have "call_settled es (pb_rejected b) c" using ok assms(2) by (simp add: loop_ok_def list_all_iff)
    then show ?thesis using entry unfolding call_settled_def by (auto simp: map_of_eq_None_iff)
  qed
  show "map_of (pb_calls b) ?i = None \<or> map_of (pb_rejected b) ?i = None"
    using disj(3) by (auto simp: map_of_eq_None_iff)
  show "held \<le> max_batch_args_bytes" using ok by (simp add: loop_ok_def bytes)
  show "0 \<le> ?i \<and> specialist_eligible_role (rc_tool c) \<noteq> None \<and> (snapshot_call pr c = Inl code \<or>
      (\<exists>args call_id. snapshot_call pr c = Inr (args, call_id) \<and> code = ''specialist_call_args_over_batch_budget''
        \<and> max_batch_args_bytes < held + args_bytes pr args))"
    if "map_of (pb_rejected b) ?i = Some code"
    using rejected [OF that] same unfolding rejection_ok_def by blast
qed

text \<open>
  C17. In a prepared batch every call of the manager is settled in exactly one way.  A call of no
  specialist role is left to the manager.  An eligible call whose arguments cannot be sealed is
  rejected under its own code.  A sealed call is planned with its role, tool and sealed arguments,
  unless its bytes on top of those of the planned calls exceed the budget of the batch, and the
  planned calls never exceed it; no rejection touches another call.
\<close>

theorem batch_settles_every_call:
  assumes "prepare_specialist_batch pr calls live tc = Inr b" "c \<in> set calls"
  shows "sum_list (map (\<lambda>(i, p). args_bytes pr (pc_args p)) (pb_calls b)) \<le> max_batch_args_bytes
    \<and> (case specialist_eligible_role (rc_tool c) of
         None \<Rightarrow> map_of (pb_calls b) (rc_index c) = None \<and> map_of (pb_rejected b) (rc_index c) = None
       | Some r \<Rightarrow>
           (case snapshot_call pr c of
              Inl code \<Rightarrow> map_of (pb_calls b) (rc_index c) = None
                \<and> map_of (pb_rejected b) (rc_index c) = (if rc_index c < 0 then None else Some code)
            | Inr (args, call_id) \<Rightarrow>
                (\<exists>p. map_of (pb_calls b) (rc_index c) = Some p \<and> map_of (pb_rejected b) (rc_index c) = None
                   \<and> pc_tool p = rc_tool c \<and> pc_role p = r \<and> pc_args p = args \<and> pc_digest p = rc_digest c)
                \<or> map_of (pb_calls b) (rc_index c) = None
                   \<and> map_of (pb_rejected b) (rc_index c) = Some ''specialist_call_args_over_batch_budget''
                   \<and> max_batch_args_bytes
                       < sum_list (map (\<lambda>(i, p). args_bytes pr (pc_args p)) (pb_calls b)) + args_bytes pr args))"
proof -
  note budget = batch_facts(1) [OF assms] and planned = batch_facts(2) [OF assms]
    and verdict = batch_facts(3) [OF assms] and settled = batch_facts(4) [OF assms] and excl = batch_facts(5) [OF assms]
  show ?thesis
  proof (cases "specialist_eligible_role (rc_tool c)")
    case None
    with planned verdict budget show ?thesis by fastforce
  next
    case (Some r)
    show ?thesis
    proof (cases "snapshot_call pr c")
      case (Inl code)
      with planned have no: "map_of (pb_calls b) (rc_index c) = None" by fastforce
      have "map_of (pb_rejected b) (rc_index c) = (if rc_index c < 0 then None else Some code)"
        using settled no Some verdict Inl by (cases "map_of (pb_rejected b) (rc_index c)") fastforce+
      with no Inl Some budget show ?thesis by simp
    next
      case (Inr v)
      obtain args call_id where v: "v = (args, call_id)" by fastforce
      have "0 \<le> rc_index c" using Inr by (rule snapshot_index)
      show ?thesis
      proof (cases "map_of (pb_calls b) (rc_index c)")
        case None
        with settled Some \<open>0 \<le> rc_index c\<close> obtain code where "map_of (pb_rejected b) (rc_index c) = Some code" by auto
        with verdict [OF this] None Inr v Some budget show ?thesis by simp
      next
        case (Some p)
        with planned [OF this] excl Inr v \<open>specialist_eligible_role (rc_tool c) = Some r\<close> budget show ?thesis by simp
      qed
    qed
  qed
qed


section \<open>The plan survives its snapshot\<close>

lemma identifier_idem: "identifier_text s = Some t \<Longrightarrow> identifier_text t = Some t"
  by (auto simp: identifier_text_def Let_def split: list.splits if_splits)

lemma tool_name_idem: "tool_name_text s = Some t \<Longrightarrow> tool_name_text t = Some t"
  by (auto simp: tool_name_text_def Let_def split: list.splits if_splits)

lemma bounded_idem: "bounded_text low high s = Some t \<Longrightarrow> bounded_text low high t = Some t"
  by (auto simp: bounded_text_def Let_def split: if_splits)

lemma role_of_role_name [simp]: "role_of_name (role_name r) = Some r"
  by (cases r) simp_all

lemma grant_snapshot: "make_grant name v b d = Inr g \<Longrightarrow> decode_grant (grant_json g) = Inr g"
  by (auto simp: make_grant_def decode_grant_def grant_json_def split: option.splits if_splits
      dest: tool_name_idem bounded_idem)

definition task_ok :: "(rat \<Rightarrow> string) \<Rightarrow> task \<Rightarrow> bool" where
  "task_ok ftext t \<longleftrightarrow> decode_task ftext (task_json t) = Inr t"

lemma all_some_iff: "all_some xs = Some ys \<longleftrightarrow> xs = map Some ys"
  by (induction xs arbitrary: ys rule: all_some.induct) auto

lemma make_task_Inr:
  assumes "make_task ftext task_id parent r ob tools ds inputs = Inr t"
  shows "identifier_text task_id = Some (tk_id t)" "identifier_text parent = Some (tk_parent t)" "tk_role t = r"
    "short_text ob = Some (tk_objective t)" "tk_tools t = tools" "map identifier_text ds = map Some (tk_depends_on t)"
    "tk_inputs t = inputs" "tools \<noteq> []" "length tools \<le> 16" "length (tk_depends_on t) \<le> max_specialist_tasks"
    "check_task ftext t = Inr t" "distinct (map gr_name tools)"
  using assms
  by (auto simp: make_task_def all_some_iff check_task_def Let_def split: option.splits if_splits sum.splits)

lemma each_as_text: "each (\<lambda>x. as_text (Some x)) (map JStr xs) = Inr xs"
  by (induction xs) simp_all

lemma task_snapshot:
  assumes "make_task ftext task_id parent r ob tools ds inputs = Inr t"
    and "\<And>g. g \<in> set tools \<Longrightarrow> decode_grant (grant_json g) = Inr g"
  shows "task_ok ftext t"
proof -
  note m = make_task_Inr [OF assms(1)]
  have "map identifier_text (tk_depends_on t) = map Some (tk_depends_on t)"
    using m(6) identifier_idem by (auto simp: list_eq_iff_nth_eq dest!: spec)
  then have ds: "all_some (map identifier_text (tk_depends_on t)) = Some (tk_depends_on t)"
    by (simp add: all_some_iff)
  have "each decode_grant (map grant_json tools) = Inr tools"
    using assms(2) by (simp add: each_map each_id)
  then have "decode_task ftext (task_json t)
      = make_task ftext (tk_id t) (tk_parent t) (tk_role t) (tk_objective t) tools (tk_depends_on t) (tk_inputs t)"
    using m(5) by (simp add: decode_task_def task_json_def each_as_text del: role_of_name.simps)
  also have "\<dots> = Inr t"
    using identifier_idem [OF m(1)] identifier_idem [OF m(2)] bounded_idem [OF m(4)] ds m(5,8-11)
    by (cases t) (simp add: make_task_def)
  finally show ?thesis by (simp add: task_ok_def)
qed

lemma make_plan_Inr:
  assumes "make_plan plan_id rt no_tools tasks = Inr p"
  shows "identifier_text plan_id = Some (pl_id p)" "identifier_text rt = Some (pl_root p)" "pl_tasks p = tasks"
    "pl_no_tools p = no_tools" "length tasks \<le> max_specialist_tasks" "check_plan p = Inr p" "distinct (map tk_id tasks)"
  using assms by (auto simp: make_plan_def check_plan_def Let_def split: option.splits if_splits)

lemma plan_snapshot:
  assumes "make_plan plan_id rt no_tools tasks = Inr p" "\<And>t. t \<in> set tasks \<Longrightarrow> task_ok ftext t"
  shows "decode_plan ftext (plan_json p) = Inr p"
proof -
  note m = make_plan_Inr [OF assms(1)]
  have "each (decode_task ftext) (map task_json tasks) = Inr tasks"
    using assms(2) by (simp add: each_map each_id task_ok_def)
  then have "decode_plan ftext (plan_json p) = make_plan (pl_id p) (pl_root p) (pl_no_tools p) tasks"
    using m(3) by (simp add: decode_plan_def plan_json_def)
  also have "\<dots> = Inr p"
    using identifier_idem [OF m(1)] identifier_idem [OF m(2)] m(3,5,6) by (cases p) (simp add: make_plan_def)
  finally show ?thesis .
qed

section \<open>A planned call passes its revalidation\<close>

lemma hex_identifier_chars: "is_hex_lower c \<Longrightarrow> is_alnum c" "is_alnum c \<Longrightarrow> \<not> is_space c"
  by (auto simp: char_class_defs)

lemma stable_id_Inr:
  assumes "stable_id pr prefix parts = Inr i" "sha_is_hex pr"
  obtains h where "i = prefix @ '':'' @ h" "length h = 24" "list_all is_hex_lower h"
proof -
  from assms(1) obtain t where "i = prefix @ '':'' @ take 24 (pr_sha pr t)"
    by (auto simp: stable_id_def split: sum.splits)
  moreover have "length (take 24 (pr_sha pr t)) = 24" "list_all is_hex_lower (take 24 (pr_sha pr t))"
    using assms(2) by (auto simp: sha_is_hex_def list_all_iff dest: in_set_takeD)
  ultimately show thesis by (rule that)
qed

lemma plan_task_id:
  assumes "stable_id pr ''plan'' parts = Inr plan_id" "sha_is_hex pr"
  shows "identifier_text (plan_id @ ''/'' @ role_name r) = Some (plan_id @ ''/'' @ role_name r)"
proof -
  from stable_id_Inr [OF assms] obtain h where h: "plan_id = ''plan'' @ '':'' @ h" "length h = 24" "list_all is_hex_lower h"
    by blast
  let ?ok = "\<lambda>c. is_alnum c \<or> c \<in> set ''._:/-''"
  have literals: "list_all ?ok (''lan:/'' @ role_name r) \<and> is_alnum CHR ''p''"
  proof -
    have "list_all (\<lambda>r. list_all (\<lambda>c. is_alnum c \<or> c \<in> set ''._:/-'') (''lan:/'' @ role_name r) \<and> is_alnum CHR ''p'')
        [Listings, Mobility, AreaEvidence]" by code_simp
    then show ?thesis by (cases r) simp_all
  qed
  then have ok: "list_all ?ok (''lan:'' @ h @ ''/'' @ role_name r)"
    using h(3) hex_identifier_chars(1) by (auto simp: list_all_iff)
  have "\<not> is_space c" if "?ok c" for c
    using that hex_identifier_chars(2) by (auto simp: is_space_def)
  then have "list_all (\<lambda>c. \<not> is_space c) (''plan:'' @ h @ ''/'' @ role_name r)"
    using ok literals by (simp add: list_all_iff)
  moreover have "length (role_name r) \<le> 13" by (cases r) simp_all
  ultimately show ?thesis using h(2) ok literals by (simp add: identifier_text_def strip_clean h(1) Let_def)
qed

lemma index_specs_map:
  assumes "index_specs live acc = Inr ix" "distinct (map fst acc)" "\<forall>(n, sp) \<in> set acc. ls_name sp = JStr n"
  shows "distinct (map fst ix) \<and> (\<forall>(n, sp) \<in> set ix. ls_name sp = JStr n) \<and> map snd ix = map snd acc @ live"
  using assms
proof (induction live acc rule: index_specs.induct)
  case (2 sp sps acc)
  from "2.prems"(1) obtain n where n: "ls_name sp = JStr n" "\<not> (n = [] \<or> dict_has acc n)"
    "index_specs sps (acc @ [(n, sp)]) = Inr ix"
    by (auto split: json.splits if_splits)
  have "distinct (map fst (acc @ [(n, sp)]))" "\<forall>(m, x) \<in> set (acc @ [(n, sp)]). ls_name x = JStr m"
    using "2.prems" n by (auto simp: dict_has_def)
  from "2.IH" [OF n this] show ?case by simp
qed simp

lemma truncate_name [simp]:
  "ls_name (live_spec.truncate sp) = ls_name sp" "ls_version (live_spec.truncate sp) = ls_version sp"
  "ls_side_effect (live_spec.truncate sp) = ls_side_effect sp" "ls_terminal (live_spec.truncate sp) = ls_terminal sp"
  by (simp_all add: live_spec.truncate_def)

lemma granted_snapshot:
  assumes "grant_read_only_tools_for_role sha ftext role requested live = Inr gs" "g \<in> set gs"
  shows "decode_grant (grant_json g) = Inr g"
proof -
  from assms(1) obtain r ix where "grant_each sha ftext (tool_allowlist r) ix requested = Inr gs"
    by (auto simp: grant_read_only_tools_for_role_def grant_read_only_tools_def
        simp del: tool_allowlist.simps role_of_name.simps split: option.splits if_splits sum.splits)
  from grant_each_mem [OF this assms(2)] grant_snapshot show ?thesis by blast
qed

lemma role_task_ok:
  assumes "prepare_role pr tc specs plan_id safe_root x = Inr y"
  shows "task_ok (pr_ftext pr) (fst y)"
proof -
  obtain r es tk prepared where xy: "x = (r, es)" "y = (tk, prepared)" by fastforce
  from prepare_role_Inr [OF assms [unfolded xy]] granted_snapshot task_snapshot show ?thesis
    unfolding xy by (metis fst_conv)
qed

lemma roles_plan:
  assumes "freeze_plan pr plan_id safe_root (map fst roles) = Inr p"
    and "each (prepare_role pr tc specs plan_id safe_root) bs = Inr roles"
  shows "make_plan plan_id safe_root (roles = []) (map fst roles) = Inr p"
    and "decode_plan (pr_ftext pr) (plan_json p) = Inr p"
proof -
  from assms(1) obtain q where q: "make_plan plan_id safe_root (roles = []) (map fst roles) = Inr q"
    "decode_plan (pr_ftext pr) (plan_json q) = Inr p"
    by (auto simp: freeze_plan_def split: sum.splits)
  have "task_ok (pr_ftext pr) t" if "t \<in> set (map fst roles)" for t
  proof -
    from that obtain k where k: "k < length roles" "t = fst (roles ! k)" by (auto simp: in_set_conv_nth)
    have "list_all2 (\<lambda>x y. prepare_role pr tc specs plan_id safe_root x = Inr y) bs roles"
      using assms(2) by (simp add: each_Inr)
    from role_task_ok [OF list_all2_nthD2 [OF this k(1)]] show ?thesis by (simp add: k(2))
  qed
  with plan_snapshot [OF q(1)] have "decode_plan (pr_ftext pr) (plan_json q) = Inr q" by blast
  with q show "make_plan plan_id safe_root (roles = []) (map fst roles) = Inr p"
    "decode_plan (pr_ftext pr) (plan_json p) = Inr p" by simp_all
qed

text \<open>What planning fixes for a planned call: its task, its grant, the spec it was minted from.\<close>

lemma planned_call_parts:
  assumes "prepare_specialist_batch pr calls live tc = Inr b" "map_of (pb_calls b) i = Some c" "sha_is_hex pr"
  obtains tk sp specs names where
    "validated_plan pr b = Inr (pb_plan b)" "find (\<lambda>t. tk_id t = pc_task c) (pl_tasks (pb_plan b)) = Some tk"
    "tk_role tk = pc_role c" "find (\<lambda>g. gr_name g = pc_tool c) (tk_tools tk) = Some (pc_grant c)"
    "grant_read_only_tools_for_role (pr_sha pr) (pr_ftext pr) (role_name (pc_role c)) names
       (map live_spec.truncate live) = Inr (tk_tools tk)"
    "index_specs live [] = Inr specs" "map_of specs (pc_tool c) = Some sp" "sp \<in> set live" "ls_name sp = JStr (pc_tool c)"
    "tool_spec_security_digest pr sp = Inr (pc_spec_digest c)" "gr_name (pc_grant c) = pc_tool c"
proof -
  from prepare_batch_Inr [OF assms(1)] obtain specs bs safe_root plan_id roles where
    specs: "index_specs live [] = Inr specs"
    and pid: "stable_id pr ''plan'' [plan_seed pr tc bs] = Inr plan_id"
    and roles: "each (prepare_role pr tc specs plan_id safe_root) bs = Inr roles"
    and fp: "freeze_plan pr plan_id safe_root (map fst roles) = Inr (pb_plan b)"
    and pb: "pb_calls b = concat (map snd roles)" "pb_plan_json b = plan_json (pb_plan b)" by metis
  have ix: "distinct (map fst specs)" "\<forall>(n, sp) \<in> set specs. ls_name sp = JStr n" "map snd specs = live"
    using index_specs_map [OF specs] by auto
  from map_of_SomeD [OF assms(2)] pb(1) obtain y where "y \<in> set roles" "(i, c) \<in> set (snd y)" by auto
  then obtain k where k: "k < length roles" "(i, c) \<in> set (snd (roles ! k))" by (metis in_set_conv_nth)
  obtain r es tk prepared where x: "bs ! k = (r, es)" "roles ! k = (tk, prepared)" by (metis surj_pair)
  have rel: "list_all2 (\<lambda>b y. prepare_role pr tc specs plan_id safe_root b = Inr y) bs roles"
    using roles by (simp add: each_Inr)
  have "prepare_role pr tc specs plan_id safe_root (r, es) = Inr (tk, prepared)"
    using list_all2_nthD2 [OF rel k(1)] by (simp add: x)
  from prepare_role_Inr [OF this] obtain grants inputs where
    g: "grant_read_only_tools_for_role (pr_sha pr) (pr_ftext pr) (role_name r) (dedupe (map (rc_tool \<circ> se_call) es))
      (map (live_spec.truncate \<circ> snd) specs) = Inr grants"
    and t: "make_task (pr_ftext pr) (plan_id @ ''/'' @ role_name r) safe_root r
        (''Collect manager-requested '' @ role_name r @ '' evidence'') grants [] inputs = Inr tk"
    and pre: "list_all2 (prepared_from pr tc specs plan_id) (map (Pair r) es) prepared"
    and pg: "\<forall>x \<in> set prepared. pc_grant (snd x) \<in> set grants" by blast
  note mt = make_task_Inr [OF t]
  have "(i, c) \<in> set prepared" using k(2) x(2) by simp
  then obtain m where m: "m < length prepared" "prepared ! m = (i, c)" by (auto simp: in_set_conv_nth)
  then obtain e where pf: "prepared_from pr tc specs plan_id (r, e) (i, c)"
    using list_all2_nthD2 [OF pre m(1)] list_all2_lengthD [OF pre] by simp
  have cg: "pc_grant c \<in> set grants" using pg \<open>(i, c) \<in> set prepared\<close> by force
  from pf ix(1) obtain sp where sp: "map_of specs (pc_tool c) = Some sp"
    "tool_spec_security_digest pr sp = Inr (pc_spec_digest c)"
    by (auto simp: prepared_from_def)
  have mem: "sp \<in> set live" "ls_name sp = JStr (pc_tool c)"
    using map_of_SomeD [OF sp(1)] ix by (force simp flip: ix(3))+
  note rp = roles_plan [OF fp roles]
  note mp = make_plan_Inr [OF rp(1)]
  have tid: "tk_id tk = plan_id @ ''/'' @ role_name r" using mt(1) plan_task_id [OF pid assms(3)] by simp
  have "tk \<in> set (map fst roles)" using nth_mem [OF k(1)] by (simp add: x) force
  with find_unique [OF mp(7) this] have ft: "find (\<lambda>t. tk_id t = pc_task c) (pl_tasks (pb_plan b)) = Some tk"
    using pf tid by (simp add: prepared_from_def mp(3))
  have gn: "gr_name (pc_grant c) = pc_tool c" "pc_role c = r" using pf by (simp_all add: prepared_from_def)
  have "find (\<lambda>g. gr_name g = pc_tool c) (tk_tools tk) = Some (pc_grant c)"
    using find_unique [OF mt(12) cg] gn by (simp add: mt(5))
  moreover have "grant_read_only_tools_for_role (pr_sha pr) (pr_ftext pr) (role_name (pc_role c))
      (dedupe (map (rc_tool \<circ> se_call) es)) (map live_spec.truncate live) = Inr (tk_tools tk)"
    using g gn mt(5) ix(3) by (simp flip: map_map)
  moreover have "validated_plan pr b = Inr (pb_plan b)" using rp(2) by (simp add: validated_plan_def pb)
  ultimately show thesis using that ft mt(3) gn specs sp mem by simp
qed

text \<open>
  The plan of a prepared batch survives its JSON snapshot, and on the registry it was planned
  on every planned call passes its revalidation before dispatch, unless the version text of its
  tool carries surrounding blanks, when it is refused although it was granted.
\<close>

theorem planned_call_revalidates:
  assumes "prepare_specialist_batch pr calls live tc = Inr b" "map_of (pb_calls b) i = Some c" "sha_is_hex pr"
  shows "validated_plan pr b = Inr (pb_plan b)
    \<and> (\<exists>sp \<in> set live. ls_name sp = JStr (pc_tool c)
        \<and> revalidate_specialist_call pr b i live =
            (if ls_version sp = JStr (gr_version (pc_grant c)) then Inr c else Inl ''specialist_live_spec_rejected''))"
proof -
  obtain tk sp specs names where
    p: "validated_plan pr b = Inr (pb_plan b)" "find (\<lambda>t. tk_id t = pc_task c) (pl_tasks (pb_plan b)) = Some tk"
    "tk_role tk = pc_role c" "find (\<lambda>g. gr_name g = pc_tool c) (tk_tools tk) = Some (pc_grant c)"
    and g: "grant_read_only_tools_for_role (pr_sha pr) (pr_ftext pr) (role_name (pc_role c)) names
       (map live_spec.truncate live) = Inr (tk_tools tk)"
    and s: "index_specs live [] = Inr specs" "map_of specs (pc_tool c) = Some sp" "sp \<in> set live" "ls_name sp = JStr (pc_tool c)"
    "tool_spec_security_digest pr sp = Inr (pc_spec_digest c)" "gr_name (pc_grant c) = pc_tool c"
    by (rule planned_call_parts [OF assms])
  have "pc_grant c \<in> set (tk_tools tk)" using find_member [OF p(4)] by simp
  from granted_dispatch [OF g this, of "live_spec.truncate sp"] s(3,4,6)
  have "validate_read_only_dispatch_for_role (pr_sha pr) (pr_ftext pr) (role_name (pc_role c)) (pc_grant c) (live_spec.truncate sp)
      = (if ls_version sp = JStr (gr_version (pc_grant c)) then None else Some (VersionChanged (pc_tool c)))"
    by auto
  with p s assms(2) have "revalidate_specialist_call pr b i live =
      (if ls_version sp = JStr (gr_version (pc_grant c)) then Inr c else Inl ''specialist_live_spec_rejected'')"
    by (simp add: revalidate_specialist_call_def)
  with p(1) s(3,4) show ?thesis by blast
qed

text \<open>
  A planned call is dispatched against a later registry only if that registry has a
  read-only, non-terminal tool of its name and its role whose security digest (name, version,
  effects, retry policy, schemas) is the one of the spec the call was planned with; the call that
  is dispatched is the one that was planned.
\<close>

theorem revalidated_call_is_unchanged:
  assumes "prepare_specialist_batch pr calls live tc = Inr b" "sha_is_hex pr"
    and "revalidate_specialist_call pr b i later = Inr c"
  shows "map_of (pb_calls b) i = Some c \<and> pc_tool c \<in> set (tool_allowlist (pc_role c))
    \<and> (\<exists>old \<in> set live. \<exists>new \<in> set later. ls_name old = JStr (pc_tool c) \<and> ls_name new = JStr (pc_tool c)
        \<and> ls_side_effect new = JStr ''none'' \<and> ls_terminal new = JBool False
        \<and> tool_spec_security_digest pr new = Inr (pc_spec_digest c)
        \<and> tool_spec_security_digest pr old = Inr (pc_spec_digest c))"
proof -
  from assms(3) obtain c' where c': "map_of (pb_calls b) i = Some c'"
    by (cases "map_of (pb_calls b) i") (simp_all add: revalidate_specialist_call_def)
  obtain tk sp specs names where
    p: "validated_plan pr b = Inr (pb_plan b)" "find (\<lambda>t. tk_id t = pc_task c') (pl_tasks (pb_plan b)) = Some tk"
    "tk_role tk = pc_role c'" "find (\<lambda>g. gr_name g = pc_tool c') (tk_tools tk) = Some (pc_grant c')"
    and g: "grant_read_only_tools_for_role (pr_sha pr) (pr_ftext pr) (role_name (pc_role c')) names
       (map live_spec.truncate live) = Inr (tk_tools tk)"
    and s: "index_specs live [] = Inr specs" "map_of specs (pc_tool c') = Some sp" "sp \<in> set live" "ls_name sp = JStr (pc_tool c')"
    "tool_spec_security_digest pr sp = Inr (pc_spec_digest c')" "gr_name (pc_grant c') = pc_tool c'"
    by (rule planned_call_parts [OF assms(1) c' assms(2)])
  with assms(3) c' have c: "c' = c"
    by (auto simp: revalidate_specialist_call_def and_then_Inr split: option.splits if_splits)
  from assms(3) c' p c obtain ix new where n: "index_specs later [] = Inr ix" "map_of ix (pc_tool c) = Some new"
    "validate_read_only_dispatch_for_role (pr_sha pr) (pr_ftext pr) (role_name (pc_role c)) (pc_grant c)
        (live_spec.truncate new) = None"
    "tool_spec_security_digest pr new = Inr (pc_spec_digest c)"
    by (auto simp: revalidate_specialist_call_def and_then_Inr split: option.splits if_splits)
  have "new \<in> set later" "ls_name new = JStr (pc_tool c)"
    using map_of_SomeD [OF n(2)] index_specs_map [OF n(1)] by force+
  moreover have "pc_tool c \<in> set (tool_allowlist (pc_role c)) \<and> ls_side_effect new = JStr ''none'' \<and> ls_terminal new = JBool False"
    using n(3) s(6) c by (auto simp: validate_read_only_dispatch_for_role_def validate_read_only_dispatch_def validate_live_None
        simp del: role_of_name.simps tool_allowlist.simps split: if_splits option.splits)
  ultimately show ?thesis using c c' s n(4) by blast
qed

section \<open>A concrete batch\<close>

definition demo_primitives :: primitives where
  "demo_primitives = \<lparr>pr_sha = (\<lambda>_. replicate 64 CHR ''a''), pr_hmac = (\<lambda>_ _. replicate 16 CHR ''b''),
     pr_ftext = (\<lambda>_. ''0.5''), pr_repr = (\<lambda>_. [])\<rparr>"

definition weather_spec :: full_spec where
  "weather_spec = \<lparr>ls_name = JStr ''get_weather'', ls_side_effect = JStr ''none'', ls_retry_safe = JBool True,
     ls_version = JStr ''2'', ls_terminal = JBool False, ls_input_schema = JObj [],
     fs_max_retries = JInt 2, fs_retry_on_error = JBool False, fs_input_model = JStr ''WeatherArgs'', fs_output_model = JNull\<rparr>"

definition demo_context :: turn_context where
  "demo_context = \<lparr>tc_run = ''r'', tc_root = ''turn:1'', tc_turn = 0\<rparr>"

definition weather_call :: read_call where
  "weather_call = \<lparr>rc_index = 0, rc_tool = ''get_weather'', rc_args = PyDict [(PyStr ''area'', PyStr ''E1'')],
     rc_digest = replicate 16 CHR ''0'', rc_call_id = None\<rparr>"

definition tainted_call :: read_call where
  "tainted_call = weather_call\<lparr>rc_index := 1, rc_args := PyDict [(PyStr ''user_id'', PyInt 7)]\<rparr>"

definition demo_prepared :: "string + prepared_batch" where
  "demo_prepared = prepare_specialist_batch demo_primitives [weather_call, tainted_call] [weather_spec] demo_context"

lemma demo_batch:
  "case demo_prepared of Inl e \<Rightarrow> False
   | Inr b \<Rightarrow> map fst (pb_calls b) = [0]
       \<and> (case revalidate_specialist_call demo_primitives b 0 [weather_spec] of Inl e \<Rightarrow> False | Inr c \<Rightarrow> True)"
  by code_simp

lemma demo_primitives_hex: "sha_is_hex demo_primitives"
  by (simp add: sha_is_hex_def demo_primitives_def list_all_iff is_hex_lower_def)

theorem batch_settles_every_call_witness:
  "\<exists>b. demo_prepared = Inr b \<and> map_of (pb_rejected b) 1 = Some ''specialist_reserved_argument''"
proof -
  from demo_batch obtain b where b: "demo_prepared = Inr b" by (auto split: sum.splits)
  have "specialist_eligible_role ''get_weather'' = Some AreaEvidence \<and> rc_index tainted_call = 1 \<and> rc_tool tainted_call = ''get_weather''
      \<and> snapshot_call demo_primitives tainted_call = Inl ''specialist_reserved_argument''"
    by code_simp
  with batch_settles_every_call [OF b [unfolded demo_prepared_def], of tainted_call] b show ?thesis by auto
qed

theorem planned_call_revalidates_witness:
  "\<exists>b c. demo_prepared = Inr b \<and> map_of (pb_calls b) 0 = Some c \<and> validated_plan demo_primitives b = Inr (pb_plan b)"
proof -
  from demo_batch obtain b where b: "demo_prepared = Inr b" "map fst (pb_calls b) = [0]" by (auto split: sum.splits)
  then obtain c where c: "map_of (pb_calls b) 0 = Some c" by (cases "pb_calls b") auto
  from planned_call_revalidates [OF b(1) [unfolded demo_prepared_def] c demo_primitives_hex] b(1) c show ?thesis by blast
qed

theorem revalidated_call_is_unchanged_witness:
  "\<exists>b c. demo_prepared = Inr b \<and> revalidate_specialist_call demo_primitives b 0 [weather_spec] = Inr c
     \<and> pc_tool c \<in> set (tool_allowlist (pc_role c))"
proof -
  from demo_batch obtain b c where b: "demo_prepared = Inr b" "revalidate_specialist_call demo_primitives b 0 [weather_spec] = Inr c"
    by (auto split: sum.splits)
  from revalidated_call_is_unchanged [OF b(1) [unfolded demo_prepared_def] demo_primitives_hex b(2)] b show ?thesis by blast
qed


end
