(* ===== verification/SpecialistResults.thy ===== *)
theory SpecialistResults
  imports SpecialistBatch
begin

text \<open>
  \<open>app/core/specialist_runtime.py\<close>, second half: the typed results derived from the artifact
  ledger, the digest and the evidence note the synthesiser reads, and the answer contract of the
  turn.  Artifacts, results and plans that come out of a checkpoint are JSON values; an unhashable
  value where the code looks a string up in a set raises \<open>TypeError\<close>.  \<open>str()\<close> of a value that is
  no string is the parameter \<open>pstr\<close>.
\<close>

section \<open>Results from the ledger\<close>

definition flag_of :: "json \<Rightarrow> string \<Rightarrow> bool" where
  "flag_of a name = truthy (field_or_null a name)"

definition artifact_matches :: "prepared_batch \<Rightarrow> prepared_call \<Rightarrow> json \<Rightarrow> bool" where
  "artifact_matches b c a \<longleftrightarrow>
     field_or_null a ''artifact_id'' = JStr (pc_artifact c) \<and> field_or_null a ''plan_id'' = JStr (pl_id (pb_plan b))
     \<and> field_or_null a ''task_id'' = JStr (pc_task c) \<and> field_or_null a ''agent_role'' = JStr (role_name (pc_role c))
     \<and> field_or_null a ''parent_task_id'' = JStr (pl_root (pb_plan b)) \<and> field_or_null a ''tool'' = JStr (pc_tool c)
     \<and> field_or_null a ''params_digest'' = JStr (pc_digest c)"

definition valid_ms :: "json \<Rightarrow> rat option" where
  "valid_ms v = (case v of JInt i \<Rightarrow> if 0 \<le> i then Some (of_int i) else None
     | JFloat x \<Rightarrow> if 0 \<le> x then Some x else None | _ \<Rightarrow> None)"

definition ledger_duration :: "json list \<Rightarrow> rat" where
  "ledger_duration artifacts = fold max (List.map_filter (\<lambda>a. valid_ms (field_or_null a ''elapsed_ms'')) artifacts) 0"

definition measured_duration :: "json \<Rightarrow> json list \<Rightarrow> rat" where
  "measured_duration wall_clock matched =
     (case valid_ms wall_clock of Some x \<Rightarrow> x | None \<Rightarrow> ledger_duration matched)"

text \<open>The artifacts of the calls up to the first one that is missing, duplicated or forged.\<close>

fun match_calls :: "prepared_batch \<Rightarrow> json list \<Rightarrow> prepared_call list \<Rightarrow> json list \<times> bool" where
  "match_calls b ledger [] = ([], False)"
| "match_calls b ledger (c # cs) =
     (case filter (\<lambda>a. json_get a ''artifact_id'' = Some (JStr (pc_artifact c))) ledger of
        [a] \<Rightarrow>
          if artifact_matches b c a then (let (m, bad) = match_calls b ledger cs in (a # m, bad)) else ([], True)
      | _ \<Rightarrow> ([], True))"

definition is_reliable :: "json \<Rightarrow> bool" where
  "is_reliable a \<longleftrightarrow>
     json_get a ''success'' = Some (JBool True) \<and> field_or_null a ''raw_data'' \<noteq> JNull \<and> \<not> flag_of a ''denied''
     \<and> \<not> flag_of a ''timed_out'' \<and> \<not> flag_of a ''abandoned'' \<and> \<not> flag_of a ''outcome_unknown''"

definition evidence_for :: "primitives \<Rightarrow> string \<Rightarrow> prepared_call \<Rightarrow> string + evidence" where
  "evidence_for pr task_id c =
     and_then (stable_id pr ''evidence'' [JStr (pc_artifact c)]) (\<lambda>i.
       refused_as ''ValidationError'' (make_evidence i task_id (pc_tool c) (pc_artifact c) None
         (pc_tool c @ '' returned manager-visible evidence'') None (pc_tool c \<in> set untrusted_specialist_tools)))"

definition error_text :: "(json \<Rightarrow> string) \<Rightarrow> json \<Rightarrow> string" where
  "error_text pstr v = lower (if truthy v then str_of pstr v else [])"

definition not_started :: "(json \<Rightarrow> string) \<Rightarrow> json \<Rightarrow> bool" where
  "not_started pstr a \<longleftrightarrow>
     (flag_of a ''denied''
      \<or> flag_of a ''timed_out'' \<and> json_number (field_or_null a ''elapsed_ms'') = Some 0
         \<and> \<not> flag_of a ''abandoned'' \<and> \<not> flag_of a ''outcome_unknown'')
     \<and> list_ex (contains_text (error_text pstr (field_or_null a ''error''))) [''budget exhausted'', ''time budget'']"

definition stalled :: "json \<Rightarrow> bool" where
  "stalled a \<longleftrightarrow> flag_of a ''timed_out'' \<or> flag_of a ''abandoned'' \<or> flag_of a ''outcome_unknown''"

record outcome =
  oc_status :: result_status
  oc_summary :: string
  oc_error :: "string option"
  oc_evidence :: "evidence list"

definition done_text :: "nat \<Rightarrow> nat \<Rightarrow> string" where
  "done_text succeeded calls = nat_text succeeded @ '' of '' @ nat_text calls @ '' specialist calls returned evidence''"

definition task_outcome :: "(json \<Rightarrow> string) \<Rightarrow> nat \<Rightarrow> bool \<Rightarrow> json list \<Rightarrow> evidence list \<Rightarrow> outcome" where
  "task_outcome pstr calls invalid matched evs =
     (if invalid
      then \<lparr>oc_status = FailedResult, oc_summary = [], oc_error = Some ''specialist artifact validation failed'', oc_evidence = []\<rparr>
      else if length evs = calls \<and> calls \<noteq> 0
      then \<lparr>oc_status = Succeeded, oc_summary = done_text (length evs) calls, oc_error = None, oc_evidence = evs\<rparr>
      else if evs \<noteq> []
      then \<lparr>oc_status = PartlyDone, oc_summary = done_text (length evs) calls, oc_error = Some ''one or more specialist calls were incomplete'',
            oc_evidence = evs\<rparr>
      else
        let skipped = matched \<noteq> [] \<and> list_all (not_started pstr) matched;
            timed_out = \<not> skipped \<and> list_ex stalled matched in
        \<lparr>oc_status = (if skipped then Skipped else FailedResult), oc_summary = [],
         oc_error = Some (if skipped then ''specialist task was not started because the turn budget was exhausted''
           else if timed_out then ''specialist task timed out before returning evidence''
           else ''specialist task produced no reliable evidence''), oc_evidence = evs\<rparr>)"

text \<open>Validation of the JSON text of a result: every constraint once more.\<close>

definition recheck_result :: "(rat \<Rightarrow> string) \<Rightarrow> specialist_result \<Rightarrow> contract_error + specialist_result" where
  "recheck_result ftext r =
     and_then (each (\<lambda>e. make_evidence (ev_id e) (ev_task e) (ev_tool e) (ev_artifact e) (ev_selector e) (ev_claim e)
         (ev_source e) (ev_tainted e)) (sr_evidence r)) (\<lambda>evs.
       make_result_contract ftext (sr_task r) (sr_parent r) (sr_role r) (sr_status r) (sr_summary r) (sr_data r) evs
         (sr_error r) (sr_duration_ms r))"

definition task_calls :: "prepared_batch \<Rightarrow> task \<Rightarrow> prepared_call list" where
  "task_calls b t = filter (\<lambda>c. pc_task c = tk_id t) (map snd (pb_calls b))"

definition task_result ::
  "primitives \<Rightarrow> (json \<Rightarrow> string) \<Rightarrow> prepared_batch \<Rightarrow> json list \<Rightarrow> fields \<Rightarrow> task \<Rightarrow> string + specialist_result" where
  "task_result pr pstr b ledger measured t =
     (let calls = task_calls b t; (matched, invalid) = match_calls b ledger calls;
          pairs = (if invalid then [] else filter (is_reliable \<circ> snd) (zip calls matched)) in
      and_then (each (evidence_for pr (tk_id t) \<circ> fst) pairs) (\<lambda>evs.
      let oc = task_outcome pstr (length calls) invalid matched evs in
      refused_as ''ValidationError''
        (and_then (make_result_contract (pr_ftext pr) (tk_id t) (tk_parent t) (tk_role t) (oc_status oc) (oc_summary oc)
            [(''call_count'', JInt (int (length calls))), (''succeeded'', JInt (int (length evs))),
             (''artifact_ids'', JArr (map (JStr \<circ> pc_artifact) calls))]
            (oc_evidence oc) (oc_error oc) (measured_duration (field_or_null (JObj measured) (tk_id t)) matched))
          (recheck_result (pr_ftext pr)))))"

fun option_json :: "string option \<Rightarrow> json" where
  "option_json None = JNull"
| "option_json (Some s) = JStr s"

definition evidence_json :: "evidence \<Rightarrow> json" where
  "evidence_json e = JObj [(''schema_version'', JStr ''1''), (''evidence_id'', JStr (ev_id e)), (''task_id'', JStr (ev_task e)),
     (''tool_name'', JStr (ev_tool e)), (''artifact_id'', JStr (ev_artifact e)), (''selector'', option_json (ev_selector e)),
     (''claim'', JStr (ev_claim e)), (''source_uri'', option_json (ev_source e)), (''tainted'', JBool (ev_tainted e))]"

fun status_name :: "result_status \<Rightarrow> string" where
  "status_name Succeeded = ''succeeded''"
| "status_name PartlyDone = ''partial''"
| "status_name FailedResult = ''failed''"
| "status_name Skipped = ''skipped''"

definition result_json :: "specialist_result \<Rightarrow> json" where
  "result_json r = JObj [(''schema_version'', JStr ''1''), (''task_id'', JStr (sr_task r)), (''parent_task_id'', JStr (sr_parent r)),
     (''role'', JStr (role_name (sr_role r))), (''status'', JStr (status_name (sr_status r))), (''summary'', JStr (sr_summary r)),
     (''data'', JObj (sr_data r)), (''evidence'', JArr (map evidence_json (sr_evidence r))),
     (''error'', option_json (sr_error r)), (''duration_ms'', JFloat (sr_duration_ms r))]"

definition build_specialist_results ::
  "primitives \<Rightarrow> (json \<Rightarrow> string) \<Rightarrow> prepared_batch \<Rightarrow> json list \<Rightarrow> fields \<Rightarrow> string + specialist_result list" where
  "build_specialist_results pr pstr b artifacts measured =
     and_then (validated_plan pr b) (\<lambda>p.
     and_then (each (task_result pr pstr b (filter is_dict artifacts) measured) (pl_tasks p)) (\<lambda>rs.
     and_then (canonical_text pr (JArr (map result_json rs)) ''specialist_results'' max_results_bytes) (\<lambda>_. Inr rs)))"

section \<open>Sizes\<close>

lemma length_comma_sep: "length (comma_sep xs) = sum_list (map length xs) + (length xs - 1)"
  by (induction xs rule: comma_sep.induct) auto

lemma sum_list_sort_key: "sum_list (map f (sort_key k xs)) = (sum_list (map f xs) :: nat)"
  by (metis mset_map mset_sort sum_mset_sum_list)

lemma length_canonical_obj:
  "length (canonical_json ftext (JObj fs)) \<le>
     2 + sum_list (map (\<lambda>(k, v). length (quote_text k) + length (canonical_json ftext v) + 2) fs)"
proof -
  let ?kv = "map (\<lambda>(k, v). (k, canonical_json ftext v)) fs"
  have len: "length (canonical_json ftext (JObj fs))
      = 2 + (sum_list (map (\<lambda>(k, t). length (quote_text k) + (length t + 1)) (sort_key fst ?kv)) + (length fs - 1))"
    by (simp add: length_comma_sep comp_def case_prod_unfold)
  have sorted: "sum_list (map (\<lambda>(k, t). length (quote_text k) + (length t + 1)) (sort_key fst ?kv))
      = sum_list (map (\<lambda>(k, v). length (quote_text k) + (length (canonical_json ftext v) + 1)) fs)"
    unfolding sum_list_sort_key by (induction fs) auto
  have "sum_list (map (\<lambda>(k, v). length (quote_text k) + (length (canonical_json ftext v) + 1)) fs) + length fs
      = sum_list (map (\<lambda>(k, v). length (quote_text k) + length (canonical_json ftext v) + 2) fs)"
    by (induction fs) auto
  then show ?thesis unfolding len sorted by simp
qed

lemma length_canonical_arr:
  "length (canonical_json ftext (JArr xs)) \<le> 2 + sum_list (map (\<lambda>x. length (canonical_json ftext x) + 1) xs)"
  by (induction xs) (auto simp: length_comma_sep)

lemma length_quote: "length (quote_text s) \<le> 2 + 6 * length s"
proof -
  have "length (escape_char c) \<le> 6" for c by (simp add: escape_char_def Let_def)
  then have "length (concat (map escape_char s)) \<le> 6 * length s"
    by (induction s) (auto simp: add_mono)
  then show ?thesis by (simp add: quote_text_def)
qed

lemma length_nat_text: "length (nat_text n) \<le> Suc n"
proof (induction n rule: nat_text.induct)
  case (1 n)
  then show ?case by (subst nat_text.simps) (auto simp: less_Suc_eq_le intro: order_trans)
qed

section \<open>Evidence\<close>

lemma stable_id_total:
  assumes "length (canonical_json (pr_ftext pr) (JArr parts)) \<le> max_batch_args_bytes"
  shows "\<exists>i. stable_id pr prefix parts = Inr i"
  using assms by (simp add: stable_id_def canonical_text_eq)

lemma prefixed_hex_identifier:
  assumes "p \<in> {''artifact'', ''evidence'', ''manager'', ''plan''}" "length h = 24" "list_all is_hex_lower h"
  shows "identifier_text (p @ '':'' @ h) = Some (p @ '':'' @ h)"
proof -
  let ?ok = "\<lambda>c. is_alnum c \<or> c \<in> set ''._:/-''"
  have "list_all (\<lambda>p. list_all ?ok (tl p @ '':'') \<and> is_alnum (hd p) \<and> p \<noteq> [] \<and> length p \<le> 8)
      [''artifact'', ''evidence'', ''manager'', ''plan'']" by code_simp
  then have p: "list_all ?ok (tl p @ '':'')" "is_alnum (hd p)" "p \<noteq> []" "length p \<le> 8" using assms(1) by auto
  then obtain c cs where c: "p = c # cs" by (cases p) auto
  have ok: "list_all ?ok (cs @ '':'' @ h)" using p(1) assms(3) hex_identifier_chars(1) by (auto simp: c list_all_iff)
  have "\<not> is_space x" if "?ok x" for x
    using that hex_identifier_chars(2) by (auto simp: is_space_def)
  then have "list_all (\<lambda>x. \<not> is_space x) (p @ '':'' @ h)" using ok p(2) by (auto simp: c list_all_iff)
  then show ?thesis using ok p assms(2) by (simp add: identifier_text_def strip_clean c Let_def)
qed

definition tool_claim :: "string \<Rightarrow> string" where
  "tool_claim tool = tool @ '' returned manager-visible evidence''"

lemma tool_claim_text: "tool \<in> set (tool_allowlist r) \<Longrightarrow> short_text (tool_claim tool) = Some (tool_claim tool)"
proof -
  have "list_all (\<lambda>r. list_all (\<lambda>t. short_text (tool_claim t) = Some (tool_claim t)) (tool_allowlist r))
      [Listings, Mobility, AreaEvidence]" by code_simp
  then have "list_all (\<lambda>t. short_text (tool_claim t) = Some (tool_claim t)) (tool_allowlist r)" by (cases r) simp_all
  then show "tool \<in> set (tool_allowlist r) \<Longrightarrow> ?thesis" by (simp add: list_all_iff)
qed

lemma length_id: "length (canonical_json ftext (JArr [JStr s])) \<le> 5 + 6 * length s"
  using length_quote [of s] by simp

lemma evidence_for_total:
  assumes "identifier_text task_id = Some task_id" "identifier_text (pc_artifact c) = Some (pc_artifact c)"
    and "pc_tool c \<in> set (tool_allowlist r)" "sha_is_hex pr"
  obtains i where "stable_id pr ''evidence'' [JStr (pc_artifact c)] = Inr i" "identifier_text i = Some i"
    "evidence_for pr task_id c = Inr \<lparr>ev_id = i, ev_task = task_id, ev_tool = pc_tool c, ev_artifact = pc_artifact c,
       ev_selector = None, ev_claim = tool_claim (pc_tool c), ev_source = None,
       ev_tainted = pc_tool c \<in> set untrusted_specialist_tools\<rparr>"
proof -
  have "length (pc_artifact c) \<le> 128"
    using assms(2) by (auto simp: identifier_text_def Let_def split: list.splits if_splits dest!: arg_cong [of "_ # _" _ length])
  then have "length (canonical_json (pr_ftext pr) (JArr [JStr (pc_artifact c)])) \<le> max_batch_args_bytes"
    using length_id [of "pr_ftext pr" "pc_artifact c"] by (simp add: max_batch_args_bytes_def)
  from stable_id_total [OF this] obtain i where i: "stable_id pr ''evidence'' [JStr (pc_artifact c)] = Inr i" by blast
  from stable_id_Inr [OF i assms(4)] have "identifier_text i = Some i"
    by (metis prefixed_hex_identifier insertI1 insertI2)
  with i assms(1-3) tool_claim_text [OF assms(3)] allowlist_names [OF assms(3)] show thesis
    by (intro that [OF i]) (simp_all add: evidence_for_def make_evidence_def tool_claim_def)
qed

lemma make_evidence_again:
  "make_evidence e t n a sel c src tn = Inr ev \<Longrightarrow>
   make_evidence (ev_id ev) (ev_task ev) (ev_tool ev) (ev_artifact ev) (ev_selector ev) (ev_claim ev) (ev_source ev) (ev_tainted ev)
     = Inr ev"
proof -
  have opt: "optional_text low high x = Some y \<Longrightarrow> optional_text low high y = Some y" for low high x y
    by (cases x) (auto dest: bounded_idem)
  show "make_evidence e t n a sel c src tn = Inr ev \<Longrightarrow> ?thesis"
    by (auto simp: make_evidence_def split: option.splits if_splits
        dest: identifier_idem tool_name_idem bounded_idem opt)
qed

section \<open>What a plan fixes for its results\<close>

lemma batch_size: "prepare_specialist_batch pr calls live tc = Inr b \<Longrightarrow> length (pb_calls b) \<le> 32"
proof -
  assume b: "prepare_specialist_batch pr calls live tc = Inr b"
  then have "length calls \<le> 32"
    by (auto simp: prepare_specialist_batch_def max_specialist_calls_def split: if_splits)
  from batch_accounts [OF b] obtain es specs plan_id where
    ok: "loop_ok pr calls 0 es (pb_rejected b)" and rel: "list_all2 (prepared_from pr tc specs plan_id) es (pb_calls b)" by metis
  from ok have "mset (map entry_index es) + mset (map fst (pb_rejected b)) \<subseteq># mset (map rc_index calls)"
    by (simp add: loop_ok_def)
  from size_mset_mono [OF this] have "length es \<le> length calls" by simp
  with \<open>length calls \<le> 32\<close> list_all2_lengthD [OF rel] show ?thesis by simp
qed

lemma batch_keys: "prepare_specialist_batch pr calls live tc = Inr b \<Longrightarrow> distinct (map fst (pb_calls b))"
proof -
  assume b: "prepare_specialist_batch pr calls live tc = Inr b"
  from batch_accounts [OF b] obtain es specs plan_id where
    ok: "loop_ok pr calls 0 es (pb_rejected b)" and d: "distinct (map rc_index calls)"
    and rel: "list_all2 (prepared_from pr tc specs plan_id) es (pb_calls b)" by metis
  have idx: "map fst (pb_calls b) = map entry_index es"
    using rel by (induction) (auto simp: prepared_from_def)
  have "distinct (map entry_index es @ map fst (pb_rejected b))"
    using ok by (intro distinct_sub_mset [OF _ d]) (simp add: loop_ok_def)
  then show ?thesis by (simp add: idx)
qed

lemma planned_artifact:
  assumes "prepare_specialist_batch pr calls live tc = Inr b" "x \<in> set (pb_calls b)" "sha_is_hex pr"
  shows "identifier_text (pc_artifact (snd x)) = Some (pc_artifact (snd x))"
proof -
  from batch_accounts [OF assms(1)] obtain es specs plan_id where
    rel: "list_all2 (prepared_from pr tc specs plan_id) es (pb_calls b)" by metis
  from assms(2) obtain k where k: "k < length (pb_calls b)" "pb_calls b ! k = x" by (auto simp: in_set_conv_nth)
  from list_all2_nthD2 [OF rel k(1)] obtain parts where "stable_id pr ''artifact'' parts = Inr (pc_artifact (snd x))"
    by (auto simp: k(2) prepared_from_def)
  from stable_id_Inr [OF this assms(3)] show ?thesis by (metis prefixed_hex_identifier insertI1)
qed

definition task_fixed :: "primitives \<Rightarrow> prepared_batch \<Rightarrow> task \<Rightarrow> bool" where
  "task_fixed pr b t \<longleftrightarrow> identifier_text (tk_id t) = Some (tk_id t) \<and> identifier_text (tk_parent t) = Some (tk_parent t)
     \<and> length (task_calls b t) \<le> 32
     \<and> (\<forall>c \<in> set (task_calls b t). pc_tool c \<in> set (tool_allowlist (tk_role t))
          \<and> identifier_text (pc_artifact c) = Some (pc_artifact c))"

lemma plan_tasks_fixed:
  assumes "prepare_specialist_batch pr calls live tc = Inr b" "sha_is_hex pr"
  shows "validated_plan pr b = Inr (pb_plan b) \<and> (\<forall>t \<in> set (pl_tasks (pb_plan b)). task_fixed pr b t)"
proof -
  from prepare_batch_Inr [OF assms(1)] obtain specs bs safe_root plan_id roles where
    roles: "each (prepare_role pr tc specs plan_id safe_root) bs = Inr roles"
    and fp: "freeze_plan pr plan_id safe_root (map fst roles) = Inr (pb_plan b)"
    and pj: "pb_plan_json b = plan_json (pb_plan b)" by metis
  note rp = roles_plan [OF fp roles]
  note mp = make_plan_Inr [OF rp(1)]
  have "task_fixed pr b t" if t: "t \<in> set (pl_tasks (pb_plan b))" for t
  proof -
    from t mp(3) obtain k where k: "k < length roles" "t = fst (roles ! k)" by (auto simp: in_set_conv_nth)
    have "list_all2 (\<lambda>x y. prepare_role pr tc specs plan_id safe_root x = Inr y) bs roles" using roles by (simp add: each_Inr)
    from list_all2_nthD2 [OF this k(1)] obtain r es prepared where
      "prepare_role pr tc specs plan_id safe_root (r, es) = Inr (t, prepared)" by (metis k(2) prod.collapse)
    from prepare_role_Inr [OF this] obtain grants inputs where
      mt: "make_task (pr_ftext pr) (plan_id @ ''/'' @ role_name r) safe_root r
        (''Collect manager-requested '' @ role_name r @ '' evidence'') grants [] inputs = Inr t" by blast
    note m = make_task_Inr [OF mt]
    have calls: "pc_tool c \<in> set (tool_allowlist (tk_role t)) \<and> identifier_text (pc_artifact c) = Some (pc_artifact c)"
      if "c \<in> set (task_calls b t)" for c
    proof -
      from that obtain i where ic: "(i, c) \<in> set (pb_calls b)" "pc_task c = tk_id t" by (auto simp: task_calls_def)
      then have "map_of (pb_calls b) i = Some c" using batch_keys [OF assms(1)] by simp
      from planned_call_parts [OF assms(1) this assms(2)] obtain tk where
        tk: "find (\<lambda>t. tk_id t = pc_task c) (pl_tasks (pb_plan b)) = Some tk"
        "find (\<lambda>g. gr_name g = pc_tool c) (tk_tools tk) = Some (pc_grant c)" by blast
      have "tk = t" using tk(1) find_unique [of tk_id "pl_tasks (pb_plan b)" t] mp(3,7) t ic(2) by simp
      then have "pc_tool c \<in> set (map gr_name (tk_tools t))" using find_member [OF tk(2)] by force
      moreover have "set (map gr_name (tk_tools t)) \<subseteq> set (tool_allowlist (tk_role t))"
        using m(11) by (auto simp: check_task_def Let_def filter_empty_conv split: if_splits)
      ultimately show ?thesis using planned_artifact [OF assms(1) ic(1) assms(2)] by auto
    qed
    have "length (task_calls b t) \<le> length (pb_calls b)"
      unfolding task_calls_def by (metis length_filter_le length_map)
    with batch_size [OF assms(1)] calls identifier_idem [OF m(1)] identifier_idem [OF m(2)] show ?thesis
      by (simp add: task_fixed_def)
  qed
  with rp(2) pj show ?thesis by (simp add: validated_plan_def)
qed

section \<open>Matching the ledger\<close>

definition ledger_entry :: "prepared_batch \<Rightarrow> json list \<Rightarrow> prepared_call \<Rightarrow> json option" where
  "ledger_entry b ledger c =
     (case filter (\<lambda>a. json_get a ''artifact_id'' = Some (JStr (pc_artifact c))) ledger of
        [a] \<Rightarrow> if artifact_matches b c a then Some a else None | _ \<Rightarrow> None)"

lemma match_calls_Cons:
  "match_calls b ledger (c # cs) =
     (case ledger_entry b ledger c of None \<Rightarrow> ([], True)
      | Some a \<Rightarrow> (let (m, bad) = match_calls b ledger cs in (a # m, bad)))"
  by (simp add: ledger_entry_def split: list.split)

lemma match_calls:
  "snd (match_calls b ledger cs) = (\<exists>c \<in> set cs. ledger_entry b ledger c = None)
   \<and> (\<not> snd (match_calls b ledger cs) \<longrightarrow> map Some (fst (match_calls b ledger cs)) = map (ledger_entry b ledger) cs)"
  by (induction cs)
    (auto simp: match_calls_Cons case_prod_beta simp del: match_calls.simps(2) split: option.splits)

definition evidence_calls :: "prepared_batch \<Rightarrow> json list \<Rightarrow> task \<Rightarrow> prepared_call list" where
  "evidence_calls b ledger t =
     (if \<exists>c \<in> set (task_calls b t). ledger_entry b ledger c = None then []
      else filter (\<lambda>c. case ledger_entry b ledger c of None \<Rightarrow> False | Some a \<Rightarrow> is_reliable a) (task_calls b t))"

lemma reliable_pairs:
  "map Some m = map f cs \<Longrightarrow>
   map fst (filter (P \<circ> snd) (zip cs m)) = filter (\<lambda>c. case f c of None \<Rightarrow> False | Some a \<Rightarrow> P a) cs"
proof (induction cs arbitrary: m)
  case (Cons c cs)
  then obtain a m' where "m = a # m'" "f c = Some a" "map Some m' = map f cs" by (cases m) auto
  with Cons.IH [of m'] show ?case by simp
qed simp

definition reference :: "primitives \<Rightarrow> task \<Rightarrow> prepared_call \<Rightarrow> evidence" where
  "reference pr t c = (case evidence_for pr (tk_id t) c of Inr e \<Rightarrow> e | Inl _ \<Rightarrow> undefined)"

abbreviation evidence_id :: "primitives \<Rightarrow> prepared_call \<Rightarrow> string + string" where
  "evidence_id pr c \<equiv> stable_id pr ''evidence'' [JStr (pc_artifact c)]"

lemma reference:
  assumes "task_fixed pr b t" "c \<in> set (task_calls b t)" "sha_is_hex pr"
  shows "evidence_for pr (tk_id t) c = Inr (reference pr t c)"
    and "evidence_id pr c = Inr (ev_id (reference pr t c))" "ev_task (reference pr t c) = tk_id t"
    "ev_tool (reference pr t c) = pc_tool c" "ev_artifact (reference pr t c) = pc_artifact c"
    "ev_tainted (reference pr t c) = (pc_tool c \<in> set untrusted_specialist_tools)"
    "make_evidence (ev_id (reference pr t c)) (ev_task (reference pr t c)) (ev_tool (reference pr t c))
       (ev_artifact (reference pr t c)) (ev_selector (reference pr t c)) (ev_claim (reference pr t c))
       (ev_source (reference pr t c)) (ev_tainted (reference pr t c)) = Inr (reference pr t c)"
proof -
  from assms have "identifier_text (tk_id t) = Some (tk_id t)" "identifier_text (pc_artifact c) = Some (pc_artifact c)"
    "pc_tool c \<in> set (tool_allowlist (tk_role t))" by (auto simp: task_fixed_def)
  from evidence_for_total [OF this assms(3)] obtain i where i: "evidence_id pr c = Inr i"
    "evidence_for pr (tk_id t) c = Inr \<lparr>ev_id = i, ev_task = tk_id t, ev_tool = pc_tool c, ev_artifact = pc_artifact c,
       ev_selector = None, ev_claim = tool_claim (pc_tool c), ev_source = None,
       ev_tainted = pc_tool c \<in> set untrusted_specialist_tools\<rparr>" by metis
  then show ev: "evidence_for pr (tk_id t) c = Inr (reference pr t c)" by (simp add: reference_def)
  from i show "evidence_id pr c = Inr (ev_id (reference pr t c))" "ev_task (reference pr t c) = tk_id t"
    "ev_tool (reference pr t c) = pc_tool c" "ev_artifact (reference pr t c) = pc_artifact c"
    "ev_tainted (reference pr t c) = (pc_tool c \<in> set untrusted_specialist_tools)"
    by (simp_all add: reference_def)
  from ev have "\<exists>e t' n a sel cl src tn. make_evidence e t' n a sel cl src tn = Inr (reference pr t c)"
    unfolding evidence_for_def and_then_Inr refused_as_Inr by blast
  then show "make_evidence (ev_id (reference pr t c)) (ev_task (reference pr t c)) (ev_tool (reference pr t c))
       (ev_artifact (reference pr t c)) (ev_selector (reference pr t c)) (ev_claim (reference pr t c))
       (ev_source (reference pr t c)) (ev_tainted (reference pr t c)) = Inr (reference pr t c)"
    using make_evidence_again by blast
qed

section \<open>Every task gets its result\<close>

lemma done_text_ok:
  assumes "n \<le> 32" "m \<le> 32"
  shows "bounded_text 0 4000 (done_text n m) = Some (done_text n m)" and "done_text n m \<noteq> []"
proof -
  have "strip (nat_text n @ '' of '' @ nat_text m @ '' specialist calls returned evidence'')
      = nat_text n @ '' of '' @ nat_text m @ '' specialist calls returned evidence''"
  proof (rule strip_ends)
    have "\<not> is_space (hd (nat_text n))" using nat_text_digits [of n] by (cases "nat_text n") (auto simp: is_space_def is_digit_def)
    then show "\<not> is_space (hd (nat_text n @ '' of '' @ nat_text m @ '' specialist calls returned evidence''))"
      using nat_text_digits [of n] by simp
  qed (simp_all add: is_space_def)
  with assms length_nat_text [of n] length_nat_text [of m] show "bounded_text 0 4000 (done_text n m) = Some (done_text n m)"
    by (simp add: bounded_text_def done_text_def)
qed (simp add: done_text_def)

lemma fold_max_ge: "(x :: rat) \<le> fold max xs x"
  by (induction xs arbitrary: x) (auto intro: order_trans max.cobounded2)

lemma measured_duration_nonneg: "0 \<le> measured_duration w m"
  by (auto simp: measured_duration_def ledger_duration_def valid_ms_def fold_max_ge split: option.split json.splits if_splits)

lemma outcome_texts:
  "optional_text 1 2000 (oc_error (task_outcome pstr n invalid m evs)) = Some (oc_error (task_outcome pstr n invalid m evs))"
proof -
  have "list_all (\<lambda>s. bounded_text 1 2000 s = Some s) [''specialist artifact validation failed'',
      ''one or more specialist calls were incomplete'', ''specialist task was not started because the turn budget was exhausted'',
      ''specialist task timed out before returning evidence'', ''specialist task produced no reliable evidence'']"
    by code_simp
  then show ?thesis by (simp add: task_outcome_def Let_def)
qed

definition result_data :: "prepared_call list \<Rightarrow> nat \<Rightarrow> fields" where
  "result_data calls n = [(''call_count'', JInt (int (length calls))), (''succeeded'', JInt (int n)),
     (''artifact_ids'', JArr (map (JStr \<circ> pc_artifact) calls))]"

lemma identifier_length: "identifier_text s = Some s \<Longrightarrow> length s \<le> 128"
  by (auto simp: identifier_text_def Let_def split: list.splits if_splits dest!: arg_cong [of "_ # _" _ length])

lemma result_data_size:
  assumes "length calls \<le> 32" "n \<le> 32" "\<And>c. c \<in> set calls \<Longrightarrow> length (pc_artifact c) \<le> 128"
  shows "length (canonical_json ftext (JObj (result_data calls n))) \<le> max_result_data_bytes"
proof -
  have "length (canonical_json ftext (JArr (map (JStr \<circ> pc_artifact) calls)))
      \<le> 2 + sum_list (map (\<lambda>c. length (quote_text (pc_artifact c)) + 1) calls)"
    using length_canonical_arr [of ftext "map (JStr \<circ> pc_artifact) calls"] by (simp add: comp_def)
  also have "sum_list (map (\<lambda>c. length (quote_text (pc_artifact c)) + 1) calls) \<le> sum_list (map (\<lambda>_. 771) calls)"
  proof (rule sum_list_mono)
    fix c assume "c \<in> set calls"
    with assms(3) length_quote [of "pc_artifact c"] show "length (quote_text (pc_artifact c)) + 1 \<le> 771" by fastforce
  qed
  also have "\<dots> \<le> 32 * 771" using assms(1) by (simp add: sum_list_triv)
  finally have arr: "length (canonical_json ftext (JArr (map (JStr \<circ> pc_artifact) calls))) \<le> 2 + 32 * 771" by simp
  have "length (int_text (int k)) \<le> 33" if "k \<le> 32" for k
    using that length_nat_text [of k] by (simp add: int_text_def)
  then have nums: "length (int_text (int (length calls))) \<le> 33" "length (int_text (int n)) \<le> 33" using assms(1,2) by blast+
  have keys: "length (quote_text ''call_count'') \<le> 62" "length (quote_text ''succeeded'') \<le> 56"
    "length (quote_text ''artifact_ids'') \<le> 74"
    using length_quote [of "''call_count''"] length_quote [of "''succeeded''"] length_quote [of "''artifact_ids''"] by simp_all
  show ?thesis
    using length_canonical_obj [of ftext "result_data calls n"] arr nums keys
    by (simp add: result_data_def max_result_data_bytes_def del: canonical_json.simps(6))
qed

text \<open>The result of a fixed task: total, and determined by the ledger.\<close>

definition measured_ms :: "fields \<Rightarrow> prepared_batch \<Rightarrow> json list \<Rightarrow> task \<Rightarrow> rat" where
  "measured_ms measured b ledger t =
     measured_duration (field_or_null (JObj measured) (tk_id t)) (fst (match_calls b ledger (task_calls b t)))"

definition expected_result :: "primitives \<Rightarrow> (json \<Rightarrow> string) \<Rightarrow> prepared_batch \<Rightarrow> json list \<Rightarrow> fields \<Rightarrow> task \<Rightarrow> specialist_result" where
  "expected_result pr pstr b ledger measured t =
     (let evs = map (reference pr t) (evidence_calls b ledger t);
          (matched, invalid) = match_calls b ledger (task_calls b t);
          oc = task_outcome pstr (length (task_calls b t)) invalid matched evs in
      \<lparr>sr_task = tk_id t, sr_parent = tk_parent t, sr_role = tk_role t, sr_status = oc_status oc, sr_summary = oc_summary oc,
       sr_data = result_data (task_calls b t) (length evs), sr_evidence = oc_evidence oc, sr_error = oc_error oc,
       sr_duration_ms = measured_ms measured b ledger t\<rparr>)"

lemma evidence_calls_sub: "set (evidence_calls b ledger t) \<subseteq> set (task_calls b t)"
  "length (evidence_calls b ledger t) \<le> length (task_calls b t)"
  by (auto simp: evidence_calls_def)

lemma outcome_evidence:
  "(invalid \<Longrightarrow> evs = []) \<Longrightarrow> oc_evidence (task_outcome pstr n invalid m evs) = evs"
  by (auto simp: task_outcome_def Let_def)

lemma outcome_shape:
  assumes "length evs \<le> n"
  shows "case oc_status (task_outcome pstr n invalid m evs) of
      Succeeded \<Rightarrow> \<not> invalid \<and> length evs = n \<and> n \<noteq> 0 \<and> oc_error (task_outcome pstr n invalid m evs) = None
    | PartlyDone \<Rightarrow> \<not> invalid \<and> evs \<noteq> [] \<and> length evs \<noteq> n \<and> oc_error (task_outcome pstr n invalid m evs) \<noteq> None
    | _ \<Rightarrow> (invalid \<or> evs = []) \<and> oc_error (task_outcome pstr n invalid m evs) \<noteq> None"
  using assms by (auto simp: task_outcome_def Let_def)

lemma outcome_summary:
  assumes "length evs \<le> 32" "n \<le> 32"
  shows "bounded_text 0 4000 (oc_summary (task_outcome pstr n invalid m evs)) = Some (oc_summary (task_outcome pstr n invalid m evs))"
    and "oc_status (task_outcome pstr n invalid m evs) \<in> {Succeeded, PartlyDone} \<Longrightarrow> oc_summary (task_outcome pstr n invalid m evs) \<noteq> []"
proof -
  have "bounded_text 0 4000 [] = Some []" by (simp add: bounded_text_def strip_def)
  then show "bounded_text 0 4000 (oc_summary (task_outcome pstr n invalid m evs)) = Some (oc_summary (task_outcome pstr n invalid m evs))"
    using done_text_ok(1) [OF assms] by (auto simp: task_outcome_def Let_def)
  show "oc_status (task_outcome pstr n invalid m evs) \<in> {Succeeded, PartlyDone} \<Longrightarrow> oc_summary (task_outcome pstr n invalid m evs) \<noteq> []"
    using done_text_ok(2) [OF assms] by (auto simp: task_outcome_def Let_def split: if_splits)
qed

lemma references_ok:
  assumes "task_fixed pr b t" "sha_is_hex pr" "distinct (map (evidence_id pr) (task_calls b t))"
  shows "distinct (map ev_id (map (reference pr t) (evidence_calls b ledger t)))"
    and "filter (\<lambda>e. ev_task e \<noteq> tk_id t) (map (reference pr t) (evidence_calls b ledger t)) = []"
proof -
  have "map (evidence_id pr) (evidence_calls b ledger t) = map Inr (map ev_id (map (reference pr t) (evidence_calls b ledger t)))"
    using reference(2) [OF assms(1) _ assms(2)] evidence_calls_sub(1) [of b ledger t] by auto
  moreover have "distinct (map (evidence_id pr) (evidence_calls b ledger t))"
    using assms(3) by (simp add: evidence_calls_def distinct_map_filter)
  ultimately show "distinct (map ev_id (map (reference pr t) (evidence_calls b ledger t)))"
    by (metis distinct_map)
  show "filter (\<lambda>e. ev_task e \<noteq> tk_id t) (map (reference pr t) (evidence_calls b ledger t)) = []"
    using reference(3) [OF assms(1) _ assms(2)] evidence_calls_sub(1) [of b ledger t] by (auto simp: filter_empty_conv)
qed

lemma check_result_ok:
  assumes "distinct (map ev_id (sr_evidence r))" "filter (\<lambda>e. ev_task e \<noteq> sr_task r) (sr_evidence r) = []"
    and "length (canonical_json ftext (JObj (sr_data r))) \<le> max_result_data_bytes"
    and "case sr_status r of
        Succeeded \<Rightarrow> sr_summary r \<noteq> [] \<and> sr_evidence r \<noteq> [] \<and> sr_error r = None
      | PartlyDone \<Rightarrow> sr_summary r \<noteq> [] \<and> sr_evidence r \<noteq> [] \<and> sr_error r \<noteq> None
      | _ \<Rightarrow> sr_evidence r = [] \<and> sr_error r \<noteq> None"
  shows "check_result ftext r = Inr r"
  using assms unfolding check_result_def canonical_json_bytes_def Let_def
  by (cases "sr_status r") (simp_all del: canonical_json.simps)

lemma expected_ok:
  fixes pstr ledger measured
  assumes fx: "task_fixed pr b t" and hex: "sha_is_hex pr"
    and d: "distinct (map (evidence_id pr) (task_calls b t))"
  defines "r \<equiv> expected_result pr pstr b ledger measured t"
  shows "make_result_contract (pr_ftext pr) (tk_id t) (tk_parent t) (tk_role t) (sr_status r) (sr_summary r) (sr_data r)
      (sr_evidence r) (sr_error r) (sr_duration_ms r) = Inr r"
    and "recheck_result (pr_ftext pr) r = Inr r"
proof -
  let ?evs = "map (reference pr t) (evidence_calls b ledger t)"
  obtain matched invalid where mc: "match_calls b ledger (task_calls b t) = (matched, invalid)" by fastforce
  let ?oc = "task_outcome pstr (length (task_calls b t)) invalid matched ?evs"
  have r: "r = \<lparr>sr_task = tk_id t, sr_parent = tk_parent t, sr_role = tk_role t, sr_status = oc_status ?oc, sr_summary = oc_summary ?oc,
       sr_data = result_data (task_calls b t) (length ?evs), sr_evidence = oc_evidence ?oc, sr_error = oc_error ?oc,
       sr_duration_ms = measured_ms measured b ledger t\<rparr>"
    by (simp add: r_def expected_result_def mc Let_def)
  have inv: "invalid \<Longrightarrow> ?evs = []"
    using match_calls [of b ledger "task_calls b t"] by (simp add: mc evidence_calls_def)
  note ev = outcome_evidence [of invalid ?evs, OF inv]
  have n: "length (task_calls b t) \<le> 32" "length ?evs \<le> length (task_calls b t)"
    using fx evidence_calls_sub(2) by (simp_all add: task_fixed_def)
  then have n': "length ?evs \<le> 32" by simp
  have size: "length (canonical_json (pr_ftext pr) (JObj (sr_data r))) \<le> max_result_data_bytes"
    using result_data_size [OF n(1) n'] fx by (simp add: r task_fixed_def identifier_length)
  have shape: "case oc_status ?oc of
        Succeeded \<Rightarrow> oc_summary ?oc \<noteq> [] \<and> ?evs \<noteq> [] \<and> oc_error ?oc = None
      | PartlyDone \<Rightarrow> oc_summary ?oc \<noteq> [] \<and> ?evs \<noteq> [] \<and> oc_error ?oc \<noteq> None
      | _ \<Rightarrow> ?evs = [] \<and> oc_error ?oc \<noteq> None"
    using outcome_shape [OF n(2), where pstr = pstr and invalid = invalid and m = matched] inv
      outcome_summary(2) [OF n' n(1), where pstr = pstr and invalid = invalid and m = matched]
    by (cases "oc_status ?oc") auto
  have "check_result (pr_ftext pr) r = Inr r"
    using references_ok [OF fx hex d, of ledger] size shape
    by (intro check_result_ok) (simp_all only: r specialist_result.simps ev)
  moreover have "0 \<le> sr_duration_ms r" by (simp add: r measured_ms_def measured_duration_nonneg)
  ultimately show mk: "make_result_contract (pr_ftext pr) (tk_id t) (tk_parent t) (tk_role t) (sr_status r) (sr_summary r) (sr_data r)
      (sr_evidence r) (sr_error r) (sr_duration_ms r) = Inr r"
    using fx outcome_summary(1) [OF n' n(1), where pstr = pstr and invalid = invalid and m = matched] outcome_texts
    by (simp add: make_result_contract_def task_fixed_def r)
  have "each (\<lambda>e. make_evidence (ev_id e) (ev_task e) (ev_tool e) (ev_artifact e) (ev_selector e) (ev_claim e)
         (ev_source e) (ev_tainted e)) (sr_evidence r) = Inr (sr_evidence r)"
    using reference(7) [OF fx _ hex] evidence_calls_sub(1) [of b ledger t] by (intro each_id) (auto simp: r ev)
  then show "recheck_result (pr_ftext pr) r = Inr r" using mk by (simp add: recheck_result_def r)
qed

lemma task_result_expected:
  assumes fx: "task_fixed pr b t" and hex: "sha_is_hex pr"
    and d: "distinct (map (evidence_id pr) (task_calls b t))"
  shows "task_result pr pstr b ledger measured t = Inr (expected_result pr pstr b ledger measured t)"
proof -
  obtain matched invalid where mc: "match_calls b ledger (task_calls b t) = (matched, invalid)" by fastforce
  let ?pairs = "if invalid then [] else filter (is_reliable \<circ> snd) (zip (task_calls b t) matched)"
  have pairs: "map fst ?pairs = evidence_calls b ledger t"
    using match_calls [of b ledger "task_calls b t"] reliable_pairs [of matched "ledger_entry b ledger" "task_calls b t" is_reliable]
    by (auto simp: mc evidence_calls_def)
  have "each (evidence_for pr (tk_id t)) (evidence_calls b ledger t) = Inr (map (reference pr t) (evidence_calls b ledger t))"
    using reference(1) [OF fx _ hex] evidence_calls_sub(1) [of b ledger t]
    by (simp add: each_Inr list_all2_conv_all_nth in_set_conv_nth subset_iff) blast
  then have "each (evidence_for pr (tk_id t) \<circ> fst) ?pairs = Inr (map (reference pr t) (evidence_calls b ledger t))"
    using pairs each_map [of "evidence_for pr (tk_id t)" fst ?pairs] by (simp only: comp_def)
  then show ?thesis
    using expected_ok [OF fx hex d, of pstr ledger measured]
    by (simp add: task_result_def mc Let_def expected_result_def result_data_def measured_ms_def refused_as_def)
qed

lemma expected_facts:
  fixes pstr ledger measured
  assumes fx: "task_fixed pr b t" and hex: "sha_is_hex pr"
  defines "x \<equiv> expected_result pr pstr b ledger measured t" and "good \<equiv> evidence_calls b ledger t"
  shows "sr_task x = tk_id t \<and> sr_role x = tk_role t \<and> map ev_artifact (sr_evidence x) = map pc_artifact good
    \<and> (\<forall>e \<in> set (sr_evidence x). ev_task e = tk_id t \<and> ev_tainted e = (ev_tool e \<in> set untrusted_specialist_tools))
    \<and> (sr_status x = Succeeded \<longleftrightarrow> task_calls b t \<noteq> [] \<and> length good = length (task_calls b t))
    \<and> (sr_status x = PartlyDone \<longleftrightarrow> good \<noteq> [] \<and> length good < length (task_calls b t))
    \<and> ((\<exists>c \<in> set (task_calls b t). ledger_entry b ledger c = None) \<longrightarrow>
        sr_status x = FailedResult \<and> sr_error x = Some ''specialist artifact validation failed'')"
proof -
  obtain matched invalid where mc: "match_calls b ledger (task_calls b t) = (matched, invalid)" by fastforce
  have inv: "invalid = (\<exists>c \<in> set (task_calls b t). ledger_entry b ledger c = None)" "invalid \<Longrightarrow> good = []"
    using match_calls [of b ledger "task_calls b t"] by (simp_all add: mc good_def evidence_calls_def)
  let ?evs = "map (reference pr t) good"
  let ?oc = "task_outcome pstr (length (task_calls b t)) invalid matched ?evs"
  have x: "sr_task x = tk_id t" "sr_role x = tk_role t" "sr_evidence x = oc_evidence ?oc" "sr_status x = oc_status ?oc"
    "sr_error x = oc_error ?oc"
    by (simp_all add: x_def expected_result_def mc Let_def good_def)
  have ev: "sr_evidence x = ?evs" unfolding x(3) by (rule outcome_evidence) (simp add: inv(2))
  have sub: "set good \<subseteq> set (task_calls b t)" "length good \<le> length (task_calls b t)"
    using evidence_calls_sub by (simp_all add: good_def)
  have "map ev_artifact ?evs = map pc_artifact good" using reference(5) [OF fx _ hex] sub(1) by auto
  moreover have "\<forall>e \<in> set ?evs. ev_task e = tk_id t \<and> ev_tainted e = (ev_tool e \<in> set untrusted_specialist_tools)"
    using reference(3,4,6) [OF fx _ hex] sub(1) by auto
  moreover have "(sr_status x = Succeeded \<longleftrightarrow> task_calls b t \<noteq> [] \<and> length good = length (task_calls b t))
      \<and> (sr_status x = PartlyDone \<longleftrightarrow> good \<noteq> [] \<and> length good < length (task_calls b t))"
    unfolding x(4) using sub(2) inv(2) by (cases invalid) (auto simp: task_outcome_def Let_def)
  moreover have "invalid \<longrightarrow> sr_status x = FailedResult \<and> sr_error x = Some ''specialist artifact validation failed''"
    unfolding x by (simp add: task_outcome_def)
  ultimately show ?thesis using x(1,2) ev inv(1) by simp
qed


section \<open>A concrete ledger\<close>

definition demo_artifact :: "prepared_batch \<Rightarrow> prepared_call \<Rightarrow> json" where
  "demo_artifact b c = JObj [(''artifact_id'', JStr (pc_artifact c)), (''plan_id'', JStr (pl_id (pb_plan b))),
     (''task_id'', JStr (pc_task c)), (''agent_role'', JStr (role_name (pc_role c))), (''parent_task_id'', JStr (pl_root (pb_plan b))),
     (''tool'', JStr (pc_tool c)), (''params_digest'', JStr (pc_digest c)), (''success'', JBool True), (''raw_data'', JStr ''dry'')]"

lemma demo_ledger:
  "case demo_prepared of Inl e \<Rightarrow> False
   | Inr b \<Rightarrow> length (pl_tasks (pb_plan b)) = 1 \<and> length (pb_calls b) = 1
       \<and> (case build_specialist_results demo_primitives (\<lambda>_. []) b (map (\<lambda>(i, c). demo_artifact b c) (pb_calls b)) [] of
            Inl e \<Rightarrow> False | Inr rs \<Rightarrow> True)"
  by code_simp


end
