(* ===== verification/AuthStore.thy ===== *)
theory AuthStore
  imports StoreTables
begin

text \<open>
  The credential database of \<open>src/uk_rent_agent/web/auth_store.py\<close>: accounts, login sessions, the
  one-time migration of the legacy JSON file and the erasure of an account.  Tables are row lists;
  their PRIMARY KEY and UNIQUE columns are checks of the inserts.  Usernames, passwords and display
  names are lists of code points, an argument that is no string is \<open>None\<close> (or \<open>OtherName\<close>).  What
  comes from outside is the record \<open>auth_lib\<close>: \<open>str.lower\<close>, \<open>hashlib.sha256\<close>, werkzeug's password
  hashing and \<open>str\<close> (as code points and as bytes) and \<open>int\<close> of the JSON values of the legacy file.  Tokens, uuids, salts and the two
  clock readings of a statement are arguments.
\<close>

record auth_lib =
  al_lower :: "utext \<Rightarrow> utext"
  al_sha :: "string \<Rightarrow> string"
  al_hash :: "string \<Rightarrow> utext \<Rightarrow> string"
  al_check :: "string \<Rightarrow> utext \<Rightarrow> bool"
  al_str :: "json \<Rightarrow> utext"
  al_text :: "json \<Rightarrow> string"
  al_int :: "json \<Rightarrow> int option"

section \<open>Rules for names and passwords\<close>

definition password_min :: nat where "password_min = 6"
definition password_max :: nat where "password_max = 128"
definition display_name_max :: nat where "display_name_max = 64"

definition is_name_char :: "int \<Rightarrow> bool" where
  "is_name_char c \<longleftrightarrow> 65 \<le> c \<and> c \<le> 90 \<or> 97 \<le> c \<and> c \<le> 122 \<or> 48 \<le> c \<and> c \<le> 57
     \<or> c = 95 \<or> c = 46 \<or> c = 45"

definition matches_username :: "utext \<Rightarrow> bool" where
  "matches_username s \<longleftrightarrow> 3 \<le> length s \<and> length s \<le> 32 \<and> list_all is_name_char s"

definition valid_username :: "utext option \<Rightarrow> bool" where
  "valid_username name = (case name of None \<Rightarrow> False | Some s \<Rightarrow> matches_username s)"

definition valid_password :: "utext option \<Rightarrow> bool" where
  "valid_password pw = (case pw of None \<Rightarrow> False | Some s \<Rightarrow> password_min \<le> length s \<and> length s \<le> password_max)"

section \<open>Tables\<close>

record account =
  ac_key :: utext
  ac_name :: utext
  ac_user :: string
  ac_display :: utext
  ac_hash :: string
  ac_created :: int

record auth_session =
  au_token :: string
  au_user :: string
  au_expires :: int

record auth_db =
  ad_users :: "account list"
  ad_sessions :: "auth_session list"

datatype auth_error = InvalidUsername | WeakPassword | UsernameTaken | BadDisplayName | NoSuchAccount
  | IntegrityError | ResidualRows | AuthStoreCorrupt

definition empty_auth :: auth_db where "empty_auth = \<lparr>ad_users = [], ad_sessions = []\<rparr>"

text \<open>\<open>INSERT INTO users\<close> under PRIMARY KEY(username_key) and UNIQUE(user_id).\<close>

definition insert_account :: "account \<Rightarrow> account list \<Rightarrow> auth_error + account list" where
  "insert_account a us =
     (if list_ex (\<lambda>x. ac_key x = ac_key a \<or> ac_user x = ac_user a) us then Inl IntegrityError else Inr (us @ [a]))"

definition account_named :: "auth_lib \<Rightarrow> auth_db \<Rightarrow> utext \<Rightarrow> account option" where
  "account_named L db name = find (\<lambda>a. ac_key a = al_lower L name) (ad_users db)"

section \<open>The legacy file\<close>

datatype auth_file = NoFile | SqliteFile auth_db | JsonFile json | OtherFile

definition truthy_text :: "(json \<Rightarrow> 'a) \<Rightarrow> json \<Rightarrow> string \<Rightarrow> 'a \<Rightarrow> 'a" where
  "truthy_text str r field d = (let v = field_or_null r field in if truthy v then str v else d)"

definition legacy_account :: "auth_lib \<Rightarrow> string \<times> json \<Rightarrow> auth_error + account" where
  "legacy_account L = (\<lambda>(key, r).
     let name = truthy_text (al_str L) r ''username'' (al_str L (JStr key));
         user_id = truthy_text (al_text L) r ''user_id'' [] in
     if \<not> is_dict r \<or> \<not> truthy (field_or_null r ''password_hash'') then Inl AuthStoreCorrupt
     else if \<not> matches_username name \<or> user_id = [] then Inl AuthStoreCorrupt
     else case (if truthy (field_or_null r ''created_at'') then al_int L (field_or_null r ''created_at'') else Some 0) of
       None \<Rightarrow> Inl AuthStoreCorrupt
     | Some created \<Rightarrow>
         Inr \<lparr>ac_key = al_lower L name, ac_name = name, ac_user = user_id,
           ac_display = take display_name_max (truthy_text (al_str L) r ''display_name'' name),
           ac_hash = al_text L (field_or_null r ''password_hash''), ac_created = created\<rparr>)"

fun migrate_accounts :: "auth_lib \<Rightarrow> fields \<Rightarrow> account list \<Rightarrow> auth_error + account list" where
  "migrate_accounts L [] us = Inr us"
| "migrate_accounts L (item # items) us =
     and_then (legacy_account L item) (\<lambda>a.
     and_then (refused_as AuthStoreCorrupt (insert_account a us)) (migrate_accounts L items))"

text \<open>The constructor: an existing database is opened, a legacy JSON file is replaced by its migration.\<close>

definition open_auth_store :: "auth_lib \<Rightarrow> auth_file \<Rightarrow> auth_error + auth_db" where
  "open_auth_store L file =
     (case file of
        NoFile \<Rightarrow> Inr empty_auth
      | SqliteFile db \<Rightarrow> Inr db
      | OtherFile \<Rightarrow> Inl AuthStoreCorrupt
      | JsonFile raw \<Rightarrow>
          (case field_or_null raw ''users'' of
             JObj users \<Rightarrow> and_then (migrate_accounts L users []) (\<lambda>us. Inr \<lparr>ad_users = us, ad_sessions = []\<rparr>)
           | _ \<Rightarrow> Inl AuthStoreCorrupt))"

section \<open>Queries\<close>

record auth_view =
  av_name :: utext
  av_user :: string
  av_display :: utext

definition public_view :: "account \<Rightarrow> auth_view" where
  "public_view a = \<lparr>av_name = ac_name a, av_user = ac_user a,
     av_display = (if ac_display a = [] then ac_name a else ac_display a)\<rparr>"

definition account_exists :: "auth_lib \<Rightarrow> auth_db \<Rightarrow> utext option \<Rightarrow> bool" where
  "account_exists L db name = (case name of None \<Rightarrow> False | Some s \<Rightarrow> account_named L db s \<noteq> None)"

definition get_account :: "auth_lib \<Rightarrow> auth_db \<Rightarrow> utext option \<Rightarrow> auth_view option" where
  "get_account L db name = Option.bind name (\<lambda>s. map_option public_view (account_named L db s))"

definition verify :: "auth_lib \<Rightarrow> auth_db \<Rightarrow> utext option \<Rightarrow> utext option \<Rightarrow> auth_view option" where
  "verify L db name password =
     (case Option.bind name (account_named L db) of
        None \<Rightarrow> None
      | Some a \<Rightarrow>
          (case password of
             None \<Rightarrow> None
           | Some p \<Rightarrow> if al_check L (ac_hash a) p then Some (public_view a) else None))"

section \<open>Mutations\<close>

datatype display_arg = NoDisplay | TextDisplay utext | OtherDisplay utext

text \<open>\<open>(display_name or username).strip()[:DISPLAY_NAME_MAX] or username\<close>.\<close>

definition display_of :: "utext \<Rightarrow> utext \<Rightarrow> utext" where
  "display_of name given =
     (let d = take display_name_max (u_strip (if given = [] then name else given)) in if d = [] then name else d)"

definition register_account ::
  "auth_lib \<Rightarrow> auth_db \<Rightarrow> utext option \<Rightarrow> utext option \<Rightarrow> display_arg \<Rightarrow> string \<Rightarrow> string \<Rightarrow> int
   \<Rightarrow> (auth_error + auth_view) \<times> auth_db" where
  "register_account L db name password display uuid salt now =
     (case (name, password) of
        (Some n, Some p) \<Rightarrow>
          if \<not> valid_username name then (Inl InvalidUsername, db)
          else if \<not> valid_password password then (Inl WeakPassword, db)
          else (case display of
            OtherDisplay _ \<Rightarrow> (Inl BadDisplayName, db)
          | _ \<Rightarrow>
            let a = \<lparr>ac_key = al_lower L n, ac_name = n, ac_user = uuid,
                  ac_display = display_of n (case display of TextDisplay d \<Rightarrow> d | _ \<Rightarrow> []),
                  ac_hash = al_hash L salt p, ac_created = now\<rparr> in
            (case insert_account a (ad_users db) of
               Inl _ \<Rightarrow> (Inl UsernameTaken, db)
             | Inr us \<Rightarrow> (Inr (public_view a), db\<lparr>ad_users := us\<rparr>)))
      | (None, _) \<Rightarrow> (Inl InvalidUsername, db)
      | (Some n, None) \<Rightarrow> (Inl (if valid_username name then WeakPassword else InvalidUsername), db))"

definition set_display_name ::
  "auth_lib \<Rightarrow> auth_db \<Rightarrow> utext option \<Rightarrow> display_arg \<Rightarrow> auth_view option \<times> auth_db" where
  "set_display_name L db name display =
     (let d = take display_name_max (case display of NoDisplay \<Rightarrow> [] | TextDisplay t \<Rightarrow> u_strip t | OtherDisplay t \<Rightarrow> u_strip t) in
      if d = [] then (None, db)
      else case name of
        None \<Rightarrow> (None, db)
      | Some n \<Rightarrow>
          let us = map (\<lambda>a. if ac_key a = al_lower L n then a\<lparr>ac_display := d\<rparr> else a) (ad_users db);
              db' = db\<lparr>ad_users := us\<rparr> in
          if length (filter (\<lambda>a. ac_key a = al_lower L n) (ad_users db)) \<noteq> 1 then (None, db')
          else (map_option public_view (account_named L db' n), db'))"

text \<open>A refused session leaves the transaction, and the deletion of expired sessions with it.\<close>

definition create_session ::
  "auth_lib \<Rightarrow> auth_db \<Rightarrow> string \<Rightarrow> int \<Rightarrow> string \<Rightarrow> int \<Rightarrow> int \<Rightarrow> (auth_error + string) \<times> auth_db" where
  "create_session L db user ttl token now later =
     (if \<not> list_ex (\<lambda>a. ac_user a = user) (ad_users db) then (Inl NoSuchAccount, db)
      else let live = filter (\<lambda>s. now < au_expires s) (ad_sessions db) in
      if list_ex (\<lambda>s. au_token s = al_sha L token) live then (Inl IntegrityError, db)
      else (Inr token, db\<lparr>ad_sessions := live @ [\<lparr>au_token = al_sha L token, au_user = user, au_expires = later + ttl\<rparr>]\<rparr>))"

definition token_shaped :: "string option \<Rightarrow> bool" where
  "token_shaped token = (case token of None \<Rightarrow> False | Some t \<Rightarrow> 20 \<le> length t \<and> length t \<le> 128)"

definition get_session :: "auth_lib \<Rightarrow> auth_db \<Rightarrow> string option \<Rightarrow> int \<Rightarrow> auth_view option" where
  "get_session L db token now =
     (case token of
        None \<Rightarrow> None
      | Some t \<Rightarrow>
          if \<not> token_shaped token then None
          else (case filter (\<lambda>(s, a). ac_user a = au_user s \<and> au_token s = al_sha L t \<and> now < au_expires s)
                  (List.product (ad_sessions db) (ad_users db)) of
                  [] \<Rightarrow> None | (s, a) # _ \<Rightarrow> Some (public_view a)))"

definition revoke_session :: "auth_lib \<Rightarrow> auth_db \<Rightarrow> string option \<Rightarrow> auth_db" where
  "revoke_session L db token =
     (case token of None \<Rightarrow> db
      | Some t \<Rightarrow> db\<lparr>ad_sessions := filter (\<lambda>s. au_token s \<noteq> al_sha L t) (ad_sessions db)\<rparr>)"

definition auth_inventory :: "auth_db \<Rightarrow> string \<Rightarrow> nat \<times> nat \<times> nat" where
  "auth_inventory db user =
     (let c = length (filter (\<lambda>a. ac_user a = user) (ad_users db));
          s = length (filter (\<lambda>s. au_user s = user) (ad_sessions db)) in (c, s, c + s))"

definition delete_user_id :: "auth_db \<Rightarrow> string \<Rightarrow> (auth_error + nat) \<times> auth_db" where
  "delete_user_id db user =
     (let us = filter (\<lambda>a. ac_user a \<noteq> user) (ad_users db);
          db' = \<lparr>ad_users = us, ad_sessions = filter (\<lambda>s. au_user s \<noteq> user) (ad_sessions db)\<rparr> in
      if list_ex (\<lambda>a. ac_user a = user) us then (Inl ResidualRows, db)
      else (Inr (length (ad_users db) - length us), db'))"

section \<open>Runs of the store\<close>

datatype auth_op =
    Register "utext option" "utext option" display_arg string string int
  | SetDisplay "utext option" display_arg
  | Mint string int string int int
  | Revoke "string option"
  | Erase string

fun auth_step :: "auth_lib \<Rightarrow> auth_db \<Rightarrow> auth_op \<Rightarrow> auth_db" where
  "auth_step L db (Register name pw display uuid salt now) = snd (register_account L db name pw display uuid salt now)"
| "auth_step L db (SetDisplay name display) = snd (set_display_name L db name display)"
| "auth_step L db (Mint user ttl token now later) = snd (create_session L db user ttl token now later)"
| "auth_step L db (Revoke token) = revoke_session L db token"
| "auth_step L db (Erase user) = snd (delete_user_id db user)"

definition auth_ok :: "auth_db \<Rightarrow> bool" where
  "auth_ok db \<longleftrightarrow> distinct (map ac_key (ad_users db)) \<and> distinct (map ac_user (ad_users db))
     \<and> distinct (map au_token (ad_sessions db)) \<and> au_user ` set (ad_sessions db) \<subseteq> ac_user ` set (ad_users db)"

lemma auth_ok_empty: "auth_ok empty_auth"
  by (simp add: auth_ok_def empty_auth_def)

lemma insert_account_Inr:
  "insert_account a us = Inr us' \<longleftrightarrow> us' = us @ [a] \<and> ac_key a \<notin> ac_key ` set us \<and> ac_user a \<notin> ac_user ` set us"
  by (auto simp: insert_account_def list_ex_iff intro: rev_image_eqI)

lemma register_parts:
  "snd (register_account L db name pw display uuid salt now) =
     (case fst (register_account L db name pw display uuid salt now) of
        Inl _ \<Rightarrow> db
      | Inr _ \<Rightarrow> db\<lparr>ad_users := ad_users db @ [\<lparr>ac_key = al_lower L (the name), ac_name = the name, ac_user = uuid,
          ac_display = display_of (the name) (case display of TextDisplay d \<Rightarrow> d | _ \<Rightarrow> []),
          ac_hash = al_hash L salt (the pw), ac_created = now\<rparr>]\<rparr>)"
  by (auto simp: register_account_def insert_account_def Let_def split: option.splits display_arg.splits)

lemma register_fresh:
  assumes "fst (register_account L db name pw display uuid salt now) = Inr v"
  shows "name \<noteq> None" "pw \<noteq> None" "al_lower L (the name) \<notin> ac_key ` set (ad_users db)" "uuid \<notin> ac_user ` set (ad_users db)"
    "av_name v = the name" "av_user v = uuid"
  using assms
  by (auto simp: register_account_def insert_account_def public_view_def list_ex_iff Let_def
      split: option.splits display_arg.splits if_splits)

lemma display_users:
  "\<exists>f. ad_users (snd (set_display_name L db name display)) = map f (ad_users db)
     \<and> (\<forall>a. ac_key (f a) = ac_key a \<and> ac_user (f a) = ac_user a \<and> ac_name (f a) = ac_name a \<and> ac_hash (f a) = ac_hash a)"
  "ad_sessions (snd (set_display_name L db name display)) = ad_sessions db"
proof -
  show "ad_sessions (snd (set_display_name L db name display)) = ad_sessions db"
    by (simp add: set_display_name_def Let_def split: option.splits)
  let ?id = "ad_users (snd (set_display_name L db name display)) = ad_users db"
  let ?set = "\<exists>n d. ad_users (snd (set_display_name L db name display))
      = map (\<lambda>a. if ac_key a = al_lower L n then a\<lparr>ac_display := d\<rparr> else a) (ad_users db)"
  have "?id \<or> ?set" by (cases name) (auto simp: set_display_name_def Let_def)
  then show "\<exists>f. ad_users (snd (set_display_name L db name display)) = map f (ad_users db)
     \<and> (\<forall>a. ac_key (f a) = ac_key a \<and> ac_user (f a) = ac_user a \<and> ac_name (f a) = ac_name a \<and> ac_hash (f a) = ac_hash a)"
  proof
    assume ?id
    then show ?thesis by (intro exI [of _ id]) simp
  next
    assume ?set
    then obtain n d where "ad_users (snd (set_display_name L db name display))
      = map (\<lambda>a. if ac_key a = al_lower L n then a\<lparr>ac_display := d\<rparr> else a) (ad_users db)" by blast
    then show ?thesis by (intro exI [of _ "\<lambda>a. if ac_key a = al_lower L n then a\<lparr>ac_display := d\<rparr> else a"]) simp
  qed
qed

lemma delete_user_eq: "snd (delete_user_id db user) =
  \<lparr>ad_users = filter (\<lambda>a. ac_user a \<noteq> user) (ad_users db), ad_sessions = filter (\<lambda>s. au_user s \<noteq> user) (ad_sessions db)\<rparr>"
  by (simp add: delete_user_id_def Let_def list_ex_iff)

lemma auth_ok_step: "auth_ok db \<Longrightarrow> auth_ok (auth_step L db op)"
proof (cases op)
  case (Register name pw display uuid salt now)
  assume "auth_ok db"
  then show ?thesis
    using register_parts [of L db name pw display uuid salt now] register_fresh [of L db name pw display uuid salt now]
    by (cases "fst (register_account L db name pw display uuid salt now)") (auto simp: Register auth_ok_def)
next
  case (SetDisplay name display)
  assume ok: "auth_ok db"
  obtain f where f: "ad_users (snd (set_display_name L db name display)) = map f (ad_users db)"
    "\<And>a. ac_key (f a) = ac_key a" "\<And>a. ac_user (f a) = ac_user a"
    using display_users(1) [of L db name display] by blast
  have "map ac_key (map f (ad_users db)) = map ac_key (ad_users db)" "map ac_user (map f (ad_users db)) = map ac_user (ad_users db)"
    "ac_user ` set (map f (ad_users db)) = ac_user ` set (ad_users db)"
    using f(2,3) by (simp_all add: image_image)
  then show ?thesis using ok by (simp add: SetDisplay auth_ok_def f(1) display_users(2) del: map_map)
next
  case (Mint user ttl token now later)
  assume "auth_ok db"
  then show ?thesis
    by (auto simp: Mint auth_ok_def create_session_def Let_def list_ex_iff distinct_map_filter)
next
  case (Revoke token)
  assume "auth_ok db"
  then show ?thesis by (auto simp: Revoke auth_ok_def revoke_session_def distinct_map_filter split: option.splits)
next
  case (Erase user)
  assume "auth_ok db"
  then show ?thesis by (auto simp: Erase auth_ok_def delete_user_eq distinct_map_filter)
qed

interpretation auth: invariant_machine empty_auth "\<lambda>_ _. True" "auth_step L" auth_ok for L
  by unfold_locales (auto intro: auth_ok_empty auth_ok_step)

lemma migrate_ok:
  "migrate_accounts L items us = Inr us' \<Longrightarrow> auth_ok \<lparr>ad_users = us, ad_sessions = []\<rparr>
   \<Longrightarrow> auth_ok \<lparr>ad_users = us', ad_sessions = []\<rparr>"
  by (induction L items us rule: migrate_accounts.induct)
    (auto simp: and_then_Inr insert_account_Inr auth_ok_def)

text \<open>What a store holds that was opened on no file or on a legacy file.\<close>

lemma opened_ok:
  assumes "open_auth_store L file = Inr db" "\<And>d. file \<noteq> SqliteFile d"
  shows "auth_ok db" "ad_sessions db = []"
  using assms migrate_ok [of L _ "[]"] auth_ok_empty
  by (auto simp: open_auth_store_def and_then_Inr empty_auth_def split: auth_file.splits json.splits)

section \<open>The life of a session\<close>

definition mints :: "auth_lib \<Rightarrow> auth_db \<Rightarrow> auth_op \<Rightarrow> auth_session \<Rightarrow> bool" where
  "mints L db op s \<longleftrightarrow>
     (case op of
        Mint user ttl token now later \<Rightarrow>
          fst (create_session L db user ttl token now later) = Inr token
          \<and> s = \<lparr>au_token = al_sha L token, au_user = user, au_expires = later + ttl\<rparr>
      | _ \<Rightarrow> False)"

definition ends :: "auth_lib \<Rightarrow> auth_op \<Rightarrow> auth_session \<Rightarrow> bool" where
  "ends L op s \<longleftrightarrow>
     (case op of Revoke (Some t) \<Rightarrow> au_token s = al_sha L t | Erase user \<Rightarrow> au_user s = user | _ \<Rightarrow> False)"

definition clock_at_most :: "int \<Rightarrow> auth_op \<Rightarrow> bool" where
  "clock_at_most now op \<longleftrightarrow> (case op of Mint _ _ _ t _ \<Rightarrow> t \<le> now | _ \<Rightarrow> True)"

lemma session_step:
  assumes "now < au_expires s" "clock_at_most now op"
  shows "s \<in> set (ad_sessions (auth_step L db op)) \<longleftrightarrow> mints L db op s \<or> s \<in> set (ad_sessions db) \<and> \<not> ends L op s"
proof (cases op)
  case (Register name pw display uuid salt t)
  then show ?thesis by (simp add: mints_def ends_def register_parts split: sum.splits)
next
  case (Mint user ttl token t later)
  then show ?thesis using assms by (auto simp: mints_def ends_def clock_at_most_def create_session_def Let_def)
next
  case (Revoke token)
  then show ?thesis by (cases token) (auto simp: mints_def ends_def revoke_session_def)
qed (auto simp: mints_def ends_def display_users(2) delete_user_eq)

lemma session_run:
  assumes "now < au_expires s" "list_all (clock_at_most now) ops" "ad_sessions db = []"
  shows "s \<in> set (ad_sessions (run_ops (auth_step L) db ops)) \<longleftrightarrow>
    (\<exists>as op bs. ops = as @ op # bs \<and> mints L (run_ops (auth_step L) db as) op s \<and> (\<forall>b \<in> set bs. \<not> ends L b s))"
  using assms(2)
proof (induction ops rule: rev_induct)
  case Nil
  then show ?case by (simp add: assms(3))
next
  case (snoc x ops)
  let ?run = "run_ops (auth_step L) db"
  have "s \<in> set (ad_sessions (?run (ops @ [x]))) \<longleftrightarrow> mints L (?run ops) x s \<or> s \<in> set (ad_sessions (?run ops)) \<and> \<not> ends L x s"
    using session_step [OF assms(1), of x L "?run ops"] snoc.prems by (simp add: run_ops_append)
  also have "\<dots> \<longleftrightarrow> (\<exists>as op bs. ops @ [x] = as @ op # bs \<and> mints L (?run as) op s \<and> (\<forall>b \<in> set bs. \<not> ends L b s))"
    (is "?now \<longleftrightarrow> ?split")
  proof
    assume ?now
    then show ?split
    proof
      assume "mints L (?run ops) x s"
      then show ?split by fastforce
    next
      assume old: "s \<in> set (ad_sessions (?run ops)) \<and> \<not> ends L x s"
      then obtain as op bs where "ops = as @ op # bs" "mints L (?run as) op s" "\<forall>b \<in> set bs. \<not> ends L b s"
        using snoc by auto
      with old show ?split by (intro exI [of _ as] exI [of _ op] exI [of _ "bs @ [x]"]) auto
    qed
  next
    assume ?split
    then obtain as op bs where sp: "ops @ [x] = as @ op # bs" "mints L (?run as) op s" "\<forall>b \<in> set bs. \<not> ends L b s" by blast
    show ?now
    proof (cases bs rule: rev_cases)
      case Nil
      with sp show ?thesis by simp
    next
      case (snoc bs' y)
      with sp have "ops = as @ op # bs'" "y = x" by (simp_all flip: append_Cons append_assoc)
      with sp snoc snoc.IH snoc.prems show ?thesis by auto
    qed
  qed
  finally show ?case .
qed

text \<open>With the keys of the tables, the join of \<open>get_session\<close> finds at most one row.\<close>

lemma get_session_iff:
  assumes "auth_ok db"
  shows "get_session L db (Some t) now = Some v \<longleftrightarrow>
    token_shaped (Some t) \<and> (\<exists>s \<in> set (ad_sessions db). \<exists>a \<in> set (ad_users db).
       au_token s = al_sha L t \<and> now < au_expires s \<and> ac_user a = au_user s \<and> v = public_view a)"
proof -
  let ?P = "\<lambda>(s, a). ac_user a = au_user s \<and> au_token s = al_sha L t \<and> now < au_expires s"
  let ?rows = "List.product (ad_sessions db) (ad_users db)"
  have inj: "inj_on au_token (set (ad_sessions db))" "inj_on ac_user (set (ad_users db))"
    using assms by (simp_all add: auth_ok_def distinct_map)
  have unique: "r = r'" if "r \<in> set ?rows" "?P r" "r' \<in> set ?rows" "?P r'" for r r'
  proof -
    obtain s a s' a' where r: "r = (s, a)" "r' = (s', a')" by (cases r, cases r')
    with that inj_onD [OF inj(1), of s s'] have "s = s'" by simp
    moreover from this r that inj_onD [OF inj(2), of a a'] have "a = a'" by simp
    ultimately show ?thesis using r by simp
  qed
  show ?thesis
  proof (cases "filter ?P ?rows")
    case Nil
    then have "get_session L db (Some t) now = None" by (simp add: get_session_def)
    moreover have "\<not> ?P (s, a)" if "s \<in> set (ad_sessions db)" "a \<in> set (ad_users db)" for s a
    proof -
      have "(s, a) \<in> set ?rows" using that by simp
      with Nil show ?thesis unfolding filter_empty_conv by blast
    qed
    ultimately show ?thesis by auto
  next
    case (Cons r rs)
    then have "r \<in> set (filter ?P ?rows)" by simp
    then have r: "r \<in> set ?rows" "?P r" unfolding set_filter by blast+
    obtain s a where sa: "r = (s, a)" by fastforce
    have "get_session L db (Some t) now = (if token_shaped (Some t) then Some (public_view a) else None)"
      using Cons sa by (simp add: get_session_def)
    moreover have in_db: "s \<in> set (ad_sessions db)" "a \<in> set (ad_users db)" using r(1) sa by auto
    moreover have same: "a' = a" if "s' \<in> set (ad_sessions db)" "a' \<in> set (ad_users db)" "?P (s', a')" for s' a'
      using unique [OF r, of "(s', a')"] that sa by simp
    moreover have "(\<exists>s \<in> set (ad_sessions db). \<exists>a \<in> set (ad_users db).
        au_token s = al_sha L t \<and> now < au_expires s \<and> ac_user a = au_user s \<and> v = public_view a) \<longleftrightarrow> v = public_view a"
      (is "?row \<longleftrightarrow> _")
    proof
      assume ?row
      then obtain s' a' where "s' \<in> set (ad_sessions db)" "a' \<in> set (ad_users db)" "?P (s', a')" "v = public_view a'" by auto
      then show "v = public_view a" using same by blast
    next
      assume "v = public_view a"
      then show ?row using in_db r(2) sa by auto
    qed
    ultimately show ?thesis by (auto simp only: if_True if_False option.inject option.distinct split: if_splits)
  qed
qed

text \<open>
  C20. A login token authenticates exactly while its session lives.  Whatever was done to a store
  opened on no file or on a legacy file, the token is answered with an account's public view if
  and only if some earlier call minted a session under its hash for that account, its lifetime
  has not run out, and since then neither was a token of that hash revoked nor the account erased.
\<close>

theorem token_authenticates_while_session_lives:
  assumes "open_auth_store L file = Inr db0" "\<And>d. file \<noteq> SqliteFile d"
    and "list_all (clock_at_most now) ops" "db = run_ops (auth_step L) db0 ops"
  shows "get_session L db (Some t) now = Some v \<longleftrightarrow>
    token_shaped (Some t) \<and>
    (\<exists>as user ttl t' n later bs a.
       ops = as @ Mint user ttl t' n later # bs
       \<and> fst (create_session L (run_ops (auth_step L) db0 as) user ttl t' n later) = Inr t'
       \<and> al_sha L t' = al_sha L t \<and> now < later + ttl
       \<and> (\<forall>r. Revoke (Some r) \<in> set bs \<longrightarrow> al_sha L r \<noteq> al_sha L t) \<and> Erase user \<notin> set bs
       \<and> a \<in> set (ad_users db) \<and> ac_user a = user \<and> v = public_view a)" (is "?get \<longleftrightarrow> ?shape \<and> ?lives")
proof -
  have ok: "auth_ok db" unfolding assms(4)
    using opened_ok(1) [OF assms(1,2)] by (intro auth.inv_run_from) simp_all
  note run = session_run [OF _ assms(3) opened_ok(2) [OF assms(1,2)], of _ L, folded assms(4)]
  have "(\<exists>s \<in> set (ad_sessions db). \<exists>a \<in> set (ad_users db).
      au_token s = al_sha L t \<and> now < au_expires s \<and> ac_user a = au_user s \<and> v = public_view a) \<longleftrightarrow> ?lives" (is "?row \<longleftrightarrow> _")
  proof
    assume ?row
    then obtain s a where s: "s \<in> set (ad_sessions db)" "a \<in> set (ad_users db)" "au_token s = al_sha L t" "now < au_expires s"
      "ac_user a = au_user s" "v = public_view a" by blast
    from run [OF s(4)] s(1) obtain as op bs where sp: "ops = as @ op # bs"
      "mints L (run_ops (auth_step L) db0 as) op s" "\<forall>b \<in> set bs. \<not> ends L b s" by blast
    then show ?lives using s unfolding mints_def ends_def
      by (cases op) (simp_all, fastforce)
  next
    assume ?lives
    then obtain as user ttl t' n later bs a where sp: "ops = as @ Mint user ttl t' n later # bs"
      "fst (create_session L (run_ops (auth_step L) db0 as) user ttl t' n later) = Inr t'"
      "al_sha L t' = al_sha L t" "now < later + ttl"
      "\<forall>r. Revoke (Some r) \<in> set bs \<longrightarrow> al_sha L r \<noteq> al_sha L t" "Erase user \<notin> set bs"
      and a: "a \<in> set (ad_users db)" "ac_user a = user" "v = public_view a" by blast
    let ?s = "\<lparr>au_token = al_sha L t', au_user = user, au_expires = later + ttl\<rparr>"
    have "mints L (run_ops (auth_step L) db0 as) (Mint user ttl t' n later) ?s" using sp(2) by (simp add: mints_def)
    moreover have "\<forall>b \<in> set bs. \<not> ends L b ?s"
      using sp(3,5,6) by (auto simp: ends_def split: auth_op.splits option.splits)
    ultimately have "?s \<in> set (ad_sessions db)" using run [of ?s] sp(1,4) by auto
    with a sp(3,4) show ?row by force
  qed
  then show ?thesis using get_session_iff [OF ok] by simp
qed

section \<open>The life of an account\<close>

definition holds_account :: "auth_db \<Rightarrow> utext \<Rightarrow> utext \<Rightarrow> string \<Rightarrow> string \<Rightarrow> bool" where
  "holds_account db key name user h \<longleftrightarrow>
     (\<exists>a \<in> set (ad_users db). ac_key a = key \<and> ac_name a = name \<and> ac_user a = user \<and> ac_hash a = h)"

lemma holds_step:
  assumes "holds_account db key name user h" "op \<noteq> Erase user"
  shows "holds_account (auth_step L db op) key name user h"
proof (cases op)
  case (Register name' pw display uuid salt t)
  then show ?thesis using assms(1) by (auto simp: holds_account_def register_parts split: sum.splits)
next
  case (SetDisplay name' display)
  obtain f where f: "ad_users (snd (set_display_name L db name' display)) = map f (ad_users db)"
    "\<And>a. ac_key (f a) = ac_key a \<and> ac_user (f a) = ac_user a \<and> ac_name (f a) = ac_name a \<and> ac_hash (f a) = ac_hash a"
    using display_users(1) [of L db name' display] by blast
  then show ?thesis using assms(1) by (auto simp: SetDisplay holds_account_def)
next
  case (Mint user' ttl token t later)
  then show ?thesis using assms(1) by (simp add: holds_account_def create_session_def Let_def)
next
  case (Revoke token)
  then show ?thesis using assms(1) by (simp add: holds_account_def revoke_session_def split: option.splits)
next
  case (Erase user')
  then show ?thesis using assms by (auto simp: holds_account_def delete_user_eq)
qed

lemma holds_run:
  "holds_account db key name user h \<Longrightarrow> Erase user \<notin> set ops \<Longrightarrow> holds_account (run_ops (auth_step L) db ops) key name user h"
proof (induction ops arbitrary: db)
  case (Cons op ops)
  have "holds_account (auth_step L db op) key name user h" using Cons.prems by (intro holds_step) auto
  with Cons show ?case by simp
qed simp

lemma holds_named:
  assumes "auth_ok db" "holds_account db (al_lower L n) name user h"
  shows "\<exists>a. account_named L db n = Some a \<and> ac_name a = name \<and> ac_user a = user \<and> ac_hash a = h"
proof -
  from assms(2) obtain a where a: "a \<in> set (ad_users db)" "ac_key a = al_lower L n" "ac_name a = name" "ac_user a = user" "ac_hash a = h"
    by (auto simp: holds_account_def)
  with assms(1) have "account_named L db n = Some a"
    using find_unique [of ac_key "ad_users db" a] by (simp add: account_named_def auth_ok_def)
  with a show ?thesis by blast
qed

text \<open>
  A registered account stays usable until it is erased.  After any calls that do not erase it,
  logging in under its name in any casing succeeds exactly with a password that the stored hash
  accepts, shows the name and the user id of the registration and never the hash, and every
  further registration of the name is refused as taken.
\<close>

theorem registered_account_verifies:
  assumes "auth_ok db" "register_account L db (Some n) (Some p) display uuid salt t = (Inr v, db1)"
    and "Erase uuid \<notin> set ops" "db' = run_ops (auth_step L) db1 ops" "al_lower L m = al_lower L n"
  shows "(\<exists>w. av_name w = n \<and> av_user w = uuid \<and> get_account L db' (Some m) = Some w
      \<and> (\<forall>q. verify L db' (Some m) (Some q) = (if al_check L (al_hash L salt p) q then Some w else None)))
    \<and> (\<forall>p' d' uuid' salt' t'. valid_username (Some m) \<and> valid_password (Some p') \<and> (\<forall>d. d' \<noteq> OtherDisplay d) \<longrightarrow>
         register_account L db' (Some m) (Some p') d' uuid' salt' t' = (Inl UsernameTaken, db'))"
proof -
  have reg: "fst (register_account L db (Some n) (Some p) display uuid salt t) = Inr v"
    "auth_step L db (Register (Some n) (Some p) display uuid salt t) = db1" using assms(2) by simp_all
  have "holds_account db1 (al_lower L n) n uuid (al_hash L salt p)"
    using register_parts [of L db "Some n" "Some p" display uuid salt t] assms(2) by (simp add: holds_account_def)
  then have "holds_account db' (al_lower L m) n uuid (al_hash L salt p)"
    unfolding assms(4,5) by (rule holds_run) (rule assms(3))
  moreover have ok: "auth_ok db'"
    unfolding assms(4) using auth_ok_step [OF assms(1), of L "Register (Some n) (Some p) display uuid salt t"]
    by (intro auth.inv_run_from) (simp_all add: assms(2))
  ultimately obtain a where a: "account_named L db' m = Some a" "ac_name a = n" "ac_user a = uuid" "ac_hash a = al_hash L salt p"
    using holds_named by blast
  have taken: "insert_account x (ad_users db') = Inl IntegrityError" if "ac_key x = al_lower L m" for x
    using a(1) that find_member [of _ "ad_users db'" a]
    by (auto simp: account_named_def insert_account_def list_ex_iff)
  have "register_account L db' (Some m) (Some p') d' uuid' salt' t' = (Inl UsernameTaken, db')"
    if "valid_username (Some m)" "valid_password (Some p')" "\<forall>d. d' \<noteq> OtherDisplay d" for p' d' uuid' salt' t'
    using that by (cases d') (simp_all add: register_account_def Let_def taken)
  then show ?thesis using a by (intro conjI exI [of _ "public_view a"]) (simp_all add: get_account_def verify_def public_view_def)
qed

section \<open>A concrete store\<close>

definition demo_lib :: auth_lib where
  "demo_lib = \<lparr>al_lower = map (\<lambda>c. if 65 \<le> c \<and> c \<le> 90 then c + 32 else c), al_sha = id,
     al_hash = (\<lambda>salt p. salt @ map char_of p), al_check = (\<lambda>h p. drop 4 h = map char_of p),
     al_str = (\<lambda>_. []), al_text = (\<lambda>_. []), al_int = (\<lambda>_. None)\<rparr>"

definition demo_ops :: "auth_op list" where
  "demo_ops = [Register (Some (utf ''Alice'')) (Some (utf ''secret'')) NoDisplay ''u1'' ''salt'' 10,
     Mint ''u1'' 60 ''token-token-token-token'' 20 20]"

lemma demo_session:
  "case open_auth_store demo_lib NoFile of Inl e \<Rightarrow> False
   | Inr db0 \<Rightarrow> get_session demo_lib (run_ops (auth_step demo_lib) db0 demo_ops) (Some ''token-token-token-token'') 79 \<noteq> None
       \<and> list_all (clock_at_most 79) demo_ops"
  by code_simp

theorem token_authenticates_while_session_lives_witness:
  "\<exists>db0 v. open_auth_store demo_lib NoFile = Inr db0
     \<and> get_session demo_lib (run_ops (auth_step demo_lib) db0 demo_ops) (Some ''token-token-token-token'') 79 = Some v
     \<and> token_shaped (Some ''token-token-token-token'')"
proof -
  from demo_session obtain db0 v where d: "open_auth_store demo_lib NoFile = Inr db0"
    "get_session demo_lib (run_ops (auth_step demo_lib) db0 demo_ops) (Some ''token-token-token-token'') 79 = Some v"
    "list_all (clock_at_most 79) demo_ops" by (auto split: sum.splits)
  from token_authenticates_while_session_lives [OF d(1) _ d(3) refl, of "''token-token-token-token''" v] d(2)
  have "token_shaped (Some ''token-token-token-token'')" by simp
  with d show ?thesis by blast
qed

lemma demo_registers:
  "case register_account demo_lib empty_auth (Some (utf ''Alice'')) (Some (utf ''secret'')) NoDisplay ''u1'' ''salt'' 10 of
     (Inl e, _) \<Rightarrow> False
   | (Inr v, db1) \<Rightarrow> al_lower demo_lib (utf ''ALICE'') = al_lower demo_lib (utf ''Alice'')
       \<and> al_check demo_lib (al_hash demo_lib ''salt'' (utf ''secret'')) (utf ''secret'')"
  by code_simp

theorem registered_account_verifies_witness:
  "\<exists>w. verify demo_lib
     (run_ops (auth_step demo_lib)
        (snd (register_account demo_lib empty_auth (Some (utf ''Alice'')) (Some (utf ''secret'')) NoDisplay ''u1'' ''salt'' 10))
        [Mint ''u1'' 60 ''token-token-token-token'' 20 20])
     (Some (utf ''ALICE'')) (Some (utf ''secret'')) = Some w \<and> av_user w = ''u1''"
proof -
  from demo_registers obtain v db1 where d:
    "register_account demo_lib empty_auth (Some (utf ''Alice'')) (Some (utf ''secret'')) NoDisplay ''u1'' ''salt'' 10 = (Inr v, db1)"
    "al_lower demo_lib (utf ''ALICE'') = al_lower demo_lib (utf ''Alice'')"
    "al_check demo_lib (al_hash demo_lib ''salt'' (utf ''secret'')) (utf ''secret'')" by (auto split: sum.splits prod.splits)
  from registered_account_verifies [OF auth_ok_empty d(1) _ refl d(2), of "[Mint ''u1'' 60 ''token-token-token-token'' 20 20]"] d(3)
  show ?thesis unfolding d(1) by auto
qed

end
