(* ===== verification/OtmAccess.thy ===== *)
theory OtmAccess
  imports Prelude "HOL-Library.Option_ord"
begin

text \<open>
  \<open>app/core/scraping/otm_access.py\<close>: the shared access state of one listing source (the next free
  slot, the end of a refusal, the cached robots file), the decisions on responses, the robots
  rules and the permitted GET.  A URL is held as its \<open>urlsplit\<close> parts, with the pairs that
  \<open>parse_qsl\<close> reads from its query; a \<open>Retry-After\<close> header as what \<open>float\<close> and
  \<open>parsedate_to_datetime\<close> make of it.  Clock readings, responses and failures of the state database
  are arguments.  Texts are byte strings, with case folding, white space and word boundaries of ASCII.
\<close>

section \<open>Errors and the program identity\<close>

record otm_error =
  oe_status :: string
  oe_reason :: string
  oe_code :: "int option"
  oe_retry :: "rat option"

definition unavailable :: "string \<Rightarrow> otm_error" where
  "unavailable reason = \<lparr>oe_status = ''unavailable'', oe_reason = reason, oe_code = None, oe_retry = None\<rparr>"

definition min_interval :: rat where "min_interval = 6 / 5"
definition default_block_seconds :: int where "default_block_seconds = 3600"
definition default_rate_limit_seconds :: int where "default_rate_limit_seconds = 300"
definition robots_verified_at :: rat where "robots_verified_at = 1793577600"
definition robots_policy_ttl :: rat where "robots_policy_ttl = 7 * 24 * 3600"

definition error_fields :: "otm_error \<Rightarrow> fields" where
  "error_fields e = [(''reason'', JStr (oe_reason e))]
     @ (case oe_code e of None \<Rightarrow> [] | Some c \<Rightarrow> [(''status_code'', JInt c)])
     @ (case oe_retry e of None \<Rightarrow> [] | Some r \<Rightarrow> [(''retry_after_seconds'', JInt (max 0 \<lceil>r\<rceil>))])"

definition user_agent :: "string option \<Rightarrow> otm_error + string" where
  "user_agent configured =
     (let value = strip (case configured of None \<Rightarrow> ''RentCompassBot/1.0'' | Some v \<Rightarrow> v) in
      if value = [] \<or> 256 < length value \<or> CHR 0x0D \<in> set value \<or> CHR 0x0A \<in> set value
         \<or> list_ex (contains_text (lower value)) [''mozilla'', ''chrome/'', ''safari/'', ''firefox/'']
      then Inl (unavailable ''invalid_program_user_agent'') else Inr value)"

section \<open>Admissible URLs\<close>

record url_parts =
  up_scheme :: string
  up_netloc :: string
  up_path :: string
  up_query :: string
  up_pairs :: "(string \<times> string) list"
  up_fragment :: string
  up_login :: bool

fun split_on :: "char \<Rightarrow> string \<Rightarrow> string list" where
  "split_on d [] = [[]]"
| "split_on d (c # cs) =
     (if c = d then [] # split_on d cs
      else case split_on d cs of [] \<Rightarrow> [[c]] | w # ws \<Rightarrow> (c # w) # ws)"

definition is_slug :: "string \<Rightarrow> bool" where
  "is_slug s \<longleftrightarrow> list_all (\<lambda>w. w \<noteq> [] \<and> list_all (\<lambda>c. is_lower c \<or> is_digit c) w) (split_on (CHR ''-'') s)"

definition is_channel :: "string \<Rightarrow> bool" where
  "is_channel c \<longleftrightarrow> c \<in> {''property'', ''studio'', ''house-flat-share''}
     \<or> (\<exists>n \<in> set ''12345''. c = n # ''-bed-property'')"

definition is_search_path :: "string \<Rightarrow> bool" where
  "is_search_path path \<longleftrightarrow>
     (case split_on (CHR ''/'') path of
        [before, area, channel, slug, after] \<Rightarrow>
          before = [] \<and> after = [] \<and> is_slug slug
          \<and> (area = ''to-rent'' \<and> is_channel channel \<or> area = ''student'' \<and> channel = ''property'')
      | _ \<Rightarrow> False)"

definition is_detail_path :: "string \<Rightarrow> bool" where
  "is_detail_path path \<longleftrightarrow>
     (case split_on (CHR ''/'') path of
        [before, area, listing, after] \<Rightarrow>
          before = [] \<and> after = [] \<and> area = ''details'' \<and> listing \<noteq> []
          \<and> list_all (\<lambda>c. is_alnum c \<or> c = CHR ''_'' \<or> c = CHR ''-'') listing
      | _ \<Rightarrow> False)"

definition is_page_number :: "string \<Rightarrow> bool" where
  "is_page_number v \<longleftrightarrow> v \<noteq> [] \<and> list_all is_digit v \<and> hd v \<noteq> CHR ''0''"

definition validate_url :: "url_parts \<Rightarrow> (string \<times> string) list \<Rightarrow> otm_error option" where
  "validate_url u params =
     (if up_scheme u \<noteq> ''https'' \<or> up_netloc u \<noteq> ''www.onthemarket.com'' \<or> up_fragment u \<noteq> [] \<or> up_login u
      then Some (unavailable ''url_not_allowed'')
      else let area = is_search_path (up_path u); detail = is_detail_path (up_path u); pairs = up_pairs u @ params in
      if \<not> (area \<or> detail) \<or> (detail \<and> pairs \<noteq> []) then Some (unavailable ''robots_path_not_allowed'')
      else if 1 < length pairs \<or> list_ex (\<lambda>(k, v). k \<noteq> ''page'' \<or> \<not> is_page_number v) pairs
      then Some (unavailable ''robots_query_not_allowed'')
      else None)"

section \<open>Slots and refusals\<close>

record access =
  sa_next :: time
  sa_blocked :: time
  sa_status :: string
  sa_reason :: string
  sa_code :: "int option"

definition fresh_access :: access where
  "fresh_access = \<lparr>sa_next = 0, sa_blocked = 0, sa_status = [], sa_reason = [], sa_code = None\<rparr>"

text \<open>What one turn of the waiting loop reads: both clocks, and whether the database answered.\<close>

record tick =
  tk_now :: time
  tk_mono :: time
  tk_mono_after :: time
  tk_failed :: bool

datatype slot_answer = Granted time | Refused otm_error | WaitFor rat

text \<open>One transaction of \<open>wait_for_slot\<close>, then the check before the sleep.\<close>

definition try_slot :: "time option \<Rightarrow> tick \<Rightarrow> access \<Rightarrow> slot_answer \<times> access" where
  "try_slot deadline k a =
     (if tk_failed k then (Refused (unavailable ''access_state_unavailable''), a)
      else if tk_now k < sa_blocked a
      then (Refused \<lparr>oe_status = (if sa_status a = [] then ''blocked'' else sa_status a),
              oe_reason = (if sa_reason a = [] then ''source_cooldown'' else sa_reason a),
              oe_code = sa_code a, oe_retry = Some (sa_blocked a - tk_now k)\<rparr>, a)
      else let delay = max 0 (sa_next a - tk_now k) in
      if delay = 0
      then (case deadline of
              Some d \<Rightarrow> if d \<le> tk_mono k then (Refused (unavailable ''request_budget_exhausted''), a)
                        else (Granted (tk_now k), a\<lparr>sa_next := tk_now k + min_interval\<rparr>)
            | None \<Rightarrow> (Granted (tk_now k), a\<lparr>sa_next := tk_now k + min_interval\<rparr>))
      else (case deadline of
              Some d \<Rightarrow> if d - tk_mono_after k \<le> delay then (Refused (unavailable ''request_budget_exhausted''), a)
                        else (WaitFor delay, a)
            | None \<Rightarrow> (WaitFor delay, a)))"

text \<open>The loop, one tick per turn; \<open>None\<close> while it still waits after the last tick.\<close>

fun wait_for_slot :: "time option \<Rightarrow> tick list \<Rightarrow> access \<Rightarrow> (otm_error + time) option \<times> access" where
  "wait_for_slot deadline [] a = (None, a)"
| "wait_for_slot deadline (k # ks) a =
     (case try_slot deadline k a of
        (Granted t, a') \<Rightarrow> (Some (Inr t), a')
      | (Refused e, a') \<Rightarrow> (Some (Inl e), a')
      | (WaitFor _, a') \<Rightarrow> wait_for_slot deadline ks a')"

datatype retry_header = NoHeader | Seconds rat | NotFinite | DateIn rat | Unreadable

definition retry_after_seconds :: "retry_header \<Rightarrow> int \<Rightarrow> int" where
  "retry_after_seconds h dflt =
     (case h of Seconds x \<Rightarrow> if 0 \<le> x then max 1 \<lceil>x\<rceil> else dflt
      | DateIn x \<Rightarrow> max 1 \<lceil>x\<rceil> | _ \<Rightarrow> dflt)"

text \<open>\<open>_pause\<close>; \<open>failed\<close> says that the database does not answer.\<close>

definition pause :: "otm_error \<Rightarrow> time \<Rightarrow> bool \<Rightarrow> access \<Rightarrow> otm_error option \<times> access" where
  "pause e now failed a =
     (if failed then (Some (unavailable ''access_state_unavailable''), a)
      else (None, a\<lparr>sa_blocked := max (sa_blocked a) (now + (case oe_retry e of None \<Rightarrow> 0 | Some r \<Rightarrow> r)),
                   sa_status := oe_status e, sa_reason := oe_reason e, sa_code := oe_code e\<rparr>))"

section \<open>Responses\<close>

record response =
  rs_code :: int
  rs_retry :: retry_header
  rs_text :: string

definition is_word :: "char \<Rightarrow> bool" where
  "is_word c \<longleftrightarrow> is_alnum c \<or> c = CHR ''_''"

text \<open>\<open>re.search\<close> of \<open>\b\<close> and a text that starts with a letter.\<close>

fun search_word :: "bool \<Rightarrow> string \<Rightarrow> string \<Rightarrow> bool" where
  "search_word after_word [] p = False"
| "search_word after_word (c # cs) p = (\<not> after_word \<and> starts_with (c # cs) p \<or> search_word (is_word c) cs p)"

definition has_page_data :: "string \<Rightarrow> bool" where
  "has_page_data text \<longleftrightarrow> (\<exists>q \<in> set [CHR 0x22, CHR 0x27]. \<exists>r \<in> set [CHR 0x22, CHR 0x27].
     search_word False (lower text) (''id='' @ [q] @ ''__next_data__'' @ [r]))"

definition is_challenge :: "string \<Rightarrow> bool" where
  "is_challenge text \<longleftrightarrow> \<not> has_page_data text
     \<and> list_ex (contains_text (lower text)) [''verify you are human'', ''verify that you are human'', ''checking your browser'',
         ''cf-chl-'', ''captcha'', ''access denied'', ''just a moment'']"

text \<open>The refusal that a response stands for, and whether it pauses the source.\<close>

definition refusal_of :: "response \<Rightarrow> (otm_error \<times> bool) option" where
  "refusal_of r =
     (if rs_code r \<in> {401, 403, 429}
      then let limited = rs_code r = 429 in
        Some (\<lparr>oe_status = (if limited then ''rate_limited'' else ''blocked''),
           oe_reason = (if limited then ''http_rate_limited'' else ''http_access_denied''), oe_code = Some (rs_code r),
           oe_retry = Some (of_int (retry_after_seconds (rs_retry r)
             (if limited then default_rate_limit_seconds else default_block_seconds)))\<rparr>, True)
      else if rs_code r \<noteq> 200
      then Some (\<lparr>oe_status = ''unavailable'',
           oe_reason = (if 300 \<le> rs_code r \<and> rs_code r < 400 then ''http_redirect'' else ''http_error''),
           oe_code = Some (rs_code r), oe_retry = None\<rparr>, False)
      else if is_challenge (rs_text r)
      then Some (\<lparr>oe_status = ''blocked'', oe_reason = ''challenge_response'', oe_code = Some (rs_code r),
           oe_retry = Some (of_int default_block_seconds)\<rparr>, True)
      else None)"

section \<open>Robots\<close>

datatype rule_kind = Allow | Disallow

type_synonym robot_rules = "(rule_kind \<times> string) list"
type_synonym robot_groups = "(string list \<times> robot_rules) list"

definition is_line_break :: "char \<Rightarrow> bool" where
  "is_line_break c \<longleftrightarrow> of_char c \<in> {10::int, 11, 12, 13, 28, 29, 30}"

fun lines_of :: "string \<Rightarrow> string list" where
  "lines_of [] = [[]]"
| "lines_of (c # cs) =
     (if is_line_break c then [] # lines_of cs
      else case lines_of cs of [] \<Rightarrow> [[c]] | w # ws \<Rightarrow> (c # w) # ws)"

text \<open>The key and the value of a line, without its comment.\<close>

definition directive :: "string \<Rightarrow> (string \<times> string) option" where
  "directive raw =
     (let line = strip (takeWhile (\<lambda>c. c \<noteq> CHR 0x23) raw) in
      if CHR '':'' \<notin> set line then None
      else Some (lower (strip (takeWhile (\<lambda>c. c \<noteq> CHR '':'') line)), strip (tl (dropWhile (\<lambda>c. c \<noteq> CHR '':'') line))))"

record group_state =
  gs_groups :: robot_groups
  gs_agents :: "string list"
  gs_rules :: robot_rules
  gs_directive :: bool

definition read_directive :: "string \<times> string \<Rightarrow> group_state \<Rightarrow> group_state" where
  "read_directive kv g =
     (let (key, value) = kv in
      if key = ''user-agent''
      then let g' = (if gs_directive g
                     then \<lparr>gs_groups = gs_groups g @ [(gs_agents g, gs_rules g)], gs_agents = [], gs_rules = [], gs_directive = False\<rparr>
                     else g) in
           if value = [] then g' else g'\<lparr>gs_agents := gs_agents g' @ [lower value]\<rparr>
      else if gs_agents g = [] then g
      else g\<lparr>gs_directive := True,
             gs_rules := gs_rules g @
               (if value = [] then [] else if key = ''allow'' then [(Allow, value)]
                else if key = ''disallow'' then [(Disallow, value)] else [])\<rparr>)"

definition robot_groups :: "string \<Rightarrow> robot_groups" where
  "robot_groups body =
     (let g = fold read_directive (List.map_filter directive (lines_of body))
                \<lparr>gs_groups = [], gs_agents = [], gs_rules = [], gs_directive = False\<rparr> in
      gs_groups g @ (if gs_agents g = [] then [] else [(gs_agents g, gs_rules g)]))"

text \<open>The length of the best agent text of a group that names the agent, \<open>None\<close> if it names another.\<close>

definition agent_score :: "string \<Rightarrow> string list \<Rightarrow> nat option" where
  "agent_score agent items =
     (let named = filter (\<lambda>i. i = ''*'' \<or> contains_text agent i) items in
      if named = [] then None else Some (Max (set (map (\<lambda>i. if i = ''*'' then 0 else length i) named))))"

fun select_rules :: "string \<Rightarrow> robot_groups \<Rightarrow> robot_rules \<Rightarrow> nat option \<Rightarrow> robot_rules" where
  "select_rules agent [] selected best = selected"
| "select_rules agent ((agents, rules) # gs) selected best =
     (case agent_score agent agents of
        None \<Rightarrow> select_rules agent gs selected best
      | Some score \<Rightarrow>
          if best = None \<or> the best < score then select_rules agent gs rules (Some score)
          else if the best = score then select_rules agent gs (selected @ rules) best
          else select_rules agent gs selected best)"

text \<open>The pattern as a regular expression: \<open>*\<close> any characters, a final \<open>$\<close> the end.\<close>

fun glob :: "bool \<Rightarrow> string \<Rightarrow> string \<Rightarrow> bool" where
  "glob anchored [] t = (\<not> anchored \<or> t = [] \<or> t = [CHR 0x0A])"
| "glob anchored (p # ps) [] = (p = CHR ''*'' \<and> glob anchored ps [])"
| "glob anchored (p # ps) (c # t) =
     (if p = CHR ''*'' then glob anchored ps (c # t) \<or> c \<noteq> CHR 0x0A \<and> glob anchored (p # ps) t
      else p = c \<and> glob anchored ps t)"

definition rule_matches :: "string \<Rightarrow> string \<Rightarrow> bool" where
  "rule_matches pattern target =
     (let anchored = (pattern \<noteq> [] \<and> last pattern = CHR ''$'') in
      glob anchored (if anchored then butlast pattern else pattern) target)"

definition specificity :: "string \<Rightarrow> nat" where
  "specificity pattern = length (rev (dropWhile (\<lambda>c. c = CHR ''$'') (rev (filter (\<lambda>c. c \<noteq> CHR ''*'') pattern))))"

fun decide :: "string \<Rightarrow> robot_rules \<Rightarrow> nat option \<Rightarrow> bool \<Rightarrow> bool" where
  "decide target [] best allowed = allowed"
| "decide target ((kind, pattern) # rules) best allowed =
     (if rule_matches pattern target
         \<and> (best = None \<or> the best < specificity pattern \<or> specificity pattern = the best \<and> kind = Allow)
      then decide target rules (Some (specificity pattern)) (kind = Allow)
      else decide target rules best allowed)"

definition robots_allow :: "string option \<Rightarrow> string \<Rightarrow> string \<Rightarrow> otm_error + bool" where
  "robots_allow configured body target =
     (if robot_groups body = [] then Inl (unavailable ''robots_invalid_response'')
      else and_then (user_agent configured) (\<lambda>ua.
        Inr (decide target (select_rules (lower (hd (split_on (CHR ''/'') ua))) (robot_groups body) [] None) None True)))"

section \<open>Requests\<close>

text \<open>
  What one request meets: the ticks of its wait, the monotonic clock before and after it, what the
  session answers (\<open>None\<close> for a transport error) and the circumstances of a pause.
\<close>

record request_env =
  rq_start :: time
  rq_ticks :: "tick list"
  rq_waited :: time
  rq_response :: "response option"
  rq_pause_now :: time
  rq_pause_failed :: bool

text \<open>The shared state, with the targets of the requests that went out (for the statements only).\<close>

record otm =
  ot_access :: access
  ot_robots :: "(time \<times> string) option"
  ot_sent :: "string list"

text \<open>\<open>_request\<close>; \<open>None\<close> while it waits.\<close>

definition request :: "string \<Rightarrow> rat \<Rightarrow> request_env \<Rightarrow> otm \<Rightarrow> (otm_error + response) option \<times> otm" where
  "request target timeout e s =
     (case wait_for_slot (Some (rq_start e + max 0 timeout)) (rq_ticks e) (ot_access s) of
        (None, a) \<Rightarrow> (None, s\<lparr>ot_access := a\<rparr>)
      | (Some (Inl err), a) \<Rightarrow> (Some (Inl err), s\<lparr>ot_access := a\<rparr>)
      | (Some (Inr _), a) \<Rightarrow>
          if timeout - (rq_waited e - rq_start e) \<le> 0
          then (Some (Inl (unavailable ''request_budget_exhausted'')), s\<lparr>ot_access := a\<rparr>)
          else let s' = s\<lparr>ot_access := a, ot_sent := ot_sent s @ [target]\<rparr> in
          (case rq_response e of
             None \<Rightarrow> (Some (Inl (unavailable ''transport_error'')), s')
           | Some r \<Rightarrow>
               (case refusal_of r of
                  None \<Rightarrow> (Some (Inr r), s')
                | Some (err, pauses) \<Rightarrow>
                    if \<not> pauses then (Some (Inl err), s')
                    else (case pause err (rq_pause_now e) (rq_pause_failed e) a of
                            (Some db_error, a') \<Rightarrow> (Some (Inl db_error), s')
                          | (None, a') \<Rightarrow> (Some (Inl err), s'\<lparr>ot_access := a'\<rparr>)))))"

section \<open>The robots file\<close>

datatype robots_policy = RobotsBody string | BuiltInPolicy

text \<open>\<open>_cached_robots\<close>; \<open>None\<close> when neither the cached file nor the built-in policy is current.\<close>

definition cached_robots :: "time \<Rightarrow> (time \<times> string) option \<Rightarrow> robots_policy option" where
  "cached_robots now cache =
     (let builtin = (if 0 \<le> now - robots_verified_at \<and> now - robots_verified_at \<le> robots_policy_ttl
                     then Some BuiltInPolicy else None) in
      case cache of
        None \<Rightarrow> builtin
      | Some (verified, body) \<Rightarrow>
          if 0 \<le> now - verified \<and> now - verified \<le> robots_policy_ttl then Some (RobotsBody body) else builtin)"

definition is_robots_file :: "string \<Rightarrow> bool" where
  "is_robots_file body \<longleftrightarrow> length body \<le> 512000 \<and> \<not> contains_text (lower body) ''<html'' \<and> robot_groups body \<noteq> []"

text \<open>
  What a refresh meets: the two looks into the cache (the second one under the lock, after another
  process may have replaced the file), whether the lock was free in time, the time the wait for the
  lock took, the request for the file, the time of the store, and the circumstances of a pause.
\<close>

record robots_env =
  rb_now :: time
  rb_failed :: bool
  rb_locked :: bool
  rb_refreshed :: "(time \<times> string) option"
  rb_now_locked :: time
  rb_waited :: rat
  rb_request :: request_env
  rb_stored :: time
  rb_pause_now :: time
  rb_pause_failed :: bool

text \<open>An error that carries no retry time pauses the source for a minute before it goes on.\<close>

definition robots_failure :: "robots_env \<Rightarrow> otm_error \<Rightarrow> otm \<Rightarrow> (otm_error + robots_policy) option \<times> otm" where
  "robots_failure e err s =
     (if oe_retry err \<noteq> None \<or> oe_reason err \<in> {''robots_verification_in_progress'', ''request_budget_exhausted''}
      then (Some (Inl err), s)
      else let err' = err\<lparr>oe_retry := Some 60\<rparr> in
      (case pause err' (rb_pause_now e) (rb_pause_failed e) (ot_access s) of
         (Some db_error, a) \<Rightarrow> (Some (Inl db_error), s)
       | (None, a) \<Rightarrow> (Some (Inl err'), s\<lparr>ot_access := a\<rparr>)))"

definition ensure_robots :: "rat \<Rightarrow> robots_env \<Rightarrow> otm \<Rightarrow> (otm_error + robots_policy) option \<times> otm" where
  "ensure_robots timeout e s =
     (if rb_failed e then (Some (Inl (unavailable ''access_state_unavailable'')), s)
      else case cached_robots (rb_now e) (ot_robots s) of
        Some policy \<Rightarrow> (Some (Inr policy), s)
      | None \<Rightarrow>
          if \<not> rb_locked e then robots_failure e (unavailable ''robots_verification_in_progress'') s
          else let s1 = s\<lparr>ot_robots := rb_refreshed e\<rparr> in
          (case cached_robots (rb_now_locked e) (ot_robots s1) of
             Some policy \<Rightarrow> (Some (Inr policy), s1)
           | None \<Rightarrow>
               if timeout - rb_waited e \<le> 0 then robots_failure e (unavailable ''request_budget_exhausted'') s1
               else (case request ''/robots.txt'' (timeout - rb_waited e) (rb_request e) s1 of
                       (None, s2) \<Rightarrow> (None, s2)
                     | (Some (Inl err), s2) \<Rightarrow> robots_failure e err s2
                     | (Some (Inr r), s2) \<Rightarrow>
                         if \<not> is_robots_file (rs_text r) then robots_failure e (unavailable ''robots_invalid_response'') s2
                         else (Some (Inr (RobotsBody (rs_text r))), s2\<lparr>ot_robots := Some (rb_stored e, rs_text r)\<rparr>))))"

section \<open>The permitted GET\<close>

text \<open>\<open>urlencode\<close> of the parameters that \<open>validate_url\<close> admits, which need no quoting.\<close>

fun urlencode :: "(string \<times> string) list \<Rightarrow> string" where
  "urlencode [] = []"
| "urlencode [(k, v)] = k @ ''='' @ v"
| "urlencode ((k, v) # kvs) = k @ ''='' @ v @ ''&'' @ urlencode kvs"

definition target_of :: "url_parts \<Rightarrow> (string \<times> string) list \<Rightarrow> string" where
  "target_of u params =
     (let query = (if up_query u = [] then urlencode params else up_query u) in
      up_path u @ (if query = [] then [] else ''?'' @ query))"

record get_env =
  ge_robots :: robots_env
  ge_agent :: "string option"
  ge_elapsed :: rat
  ge_request :: request_env

definition get :: "url_parts \<Rightarrow> (string \<times> string) list \<Rightarrow> rat \<Rightarrow> get_env \<Rightarrow> otm \<Rightarrow> (otm_error + response) option \<times> otm" where
  "get u params timeout e s =
     (case validate_url u params of
        Some err \<Rightarrow> (Some (Inl err), s)
      | None \<Rightarrow>
          (case ensure_robots timeout (ge_robots e) s of
             (None, s1) \<Rightarrow> (None, s1)
           | (Some (Inl err), s1) \<Rightarrow> (Some (Inl err), s1)
           | (Some (Inr policy), s1) \<Rightarrow>
               (case (case policy of BuiltInPolicy \<Rightarrow> Inr True
                      | RobotsBody body \<Rightarrow> robots_allow (ge_agent e) body (target_of u params)) of
                  Inl err \<Rightarrow> (Some (Inl err), s1)
                | Inr False \<Rightarrow> (Some (Inl \<lparr>oe_status = ''blocked'', oe_reason = ''robots_disallowed'', oe_code = None, oe_retry = None\<rparr>), s1)
                | Inr True \<Rightarrow>
                    if timeout - ge_elapsed e \<le> 0 then (Some (Inl (unavailable ''request_budget_exhausted'')), s1)
                    else request (target_of u params) (timeout - ge_elapsed e) (ge_request e) s1)))"

section \<open>Polite access\<close>

text \<open>The transactions on the access state, of any process.\<close>

datatype access_op = Slot "time option" tick | Pause otm_error time bool

fun access_step :: "access \<Rightarrow> access_op \<Rightarrow> access" where
  "access_step a (Slot deadline k) = snd (try_slot deadline k a)"
| "access_step a (Pause e now failed) = snd (pause e now failed a)"

fun granted :: "access \<Rightarrow> access_op \<Rightarrow> time list" where
  "granted a (Slot deadline k) = (case fst (try_slot deadline k a) of Granted t \<Rightarrow> [t] | _ \<Rightarrow> [])"
| "granted a (Pause e now failed) = []"

text \<open>The times of the requests that a sequence of transactions lets through.\<close>

fun grants :: "access \<Rightarrow> access_op list \<Rightarrow> time list" where
  "grants a [] = []"
| "grants a (op # ops) = granted a op @ grants (access_step a op) ops"

lemma grants_append: "grants a (xs @ ys) = grants a xs @ grants (run_ops access_step a xs) ys"
  by (induction xs arbitrary: a) simp_all

lemma granted_step:
  "granted a op = [] \<and> sa_next (access_step a op) = sa_next a
   \<or> (\<exists>t. granted a op = [t] \<and> sa_next a \<le> t \<and> sa_blocked a \<le> t \<and> sa_next (access_step a op) = t + min_interval)"
  by (cases op) (auto simp: try_slot_def pause_def Let_def max_def split: option.splits if_splits)

lemma blocked_step: "sa_blocked a \<le> sa_blocked (access_step a op)"
  by (cases op) (auto simp: try_slot_def pause_def Let_def split: option.splits if_splits)

lemma next_step: "sa_next a \<le> sa_next (access_step a op)"
  using granted_step [of a op] by (auto simp: min_interval_def)

lemma grants_from:
  "t \<in> set (grants a ops) \<Longrightarrow> sa_next a \<le> t \<and> sa_blocked a \<le> t"
proof (induction ops arbitrary: a)
  case (Cons op ops)
  show ?case
  proof (cases "t \<in> set (granted a op)")
    case True
    then show ?thesis using granted_step [of a op] by auto
  next
    case False
    with Cons.prems have "t \<in> set (grants (access_step a op) ops)" by simp
    from Cons.IH [OF this] next_step [of a op] blocked_step [of a op] show ?thesis by linarith
  qed
qed simp

text \<open>
  C21. The source is never hurried and a refusal is respected by every process.  Whatever
  transactions the processes interleave, and whatever their clocks say, the requests that are let
  through lie at least 1.2 seconds apart, and after a recorded refusal none is let through before
  the refusal has run out.
\<close>

theorem polite_access:
  "sorted_wrt (\<lambda>t t'. t + 6 / 5 \<le> t') (grants a ops)
   \<and> (\<forall>before e now after. ops = before @ Pause e now False # after \<longrightarrow>
        (\<forall>t \<in> set (grants (run_ops access_step a (before @ [Pause e now False])) after).
           now + (case oe_retry e of None \<Rightarrow> 0 | Some r \<Rightarrow> r) \<le> t))"
proof (intro conjI allI impI ballI)
  show "sorted_wrt (\<lambda>t t'. t + 6 / 5 \<le> t') (grants a ops)"
  proof (induction ops arbitrary: a)
    case (Cons op ops)
    from granted_step [of a op] show ?case
    proof
      assume "granted a op = [] \<and> sa_next (access_step a op) = sa_next a"
      with Cons show ?thesis by simp
    next
      assume "\<exists>t. granted a op = [t] \<and> sa_next a \<le> t \<and> sa_blocked a \<le> t \<and> sa_next (access_step a op) = t + min_interval"
      with Cons grants_from [of _ "access_step a op" ops] show ?thesis by (auto simp: min_interval_def)
    qed
  qed simp
next
  fix before e now after t
  assume "t \<in> set (grants (run_ops access_step a (before @ [Pause e now False])) after)"
  from grants_from [OF this] have "sa_blocked (snd (pause e now False (run_ops access_step a before))) \<le> t"
    by (simp add: run_ops_append)
  then show "now + (case oe_retry e of None \<Rightarrow> 0 | Some r \<Rightarrow> r) \<le> t" by (simp add: pause_def)
qed

theorem polite_access_witness:
  "\<exists>t. grants fresh_access [Slot None \<lparr>tk_now = 5, tk_mono = 0, tk_mono_after = 0, tk_failed = False\<rparr>,
       Pause \<lparr>oe_status = ''blocked'', oe_reason = [], oe_code = None, oe_retry = Some 60\<rparr> 6 False,
       Slot None \<lparr>tk_now = 66, tk_mono = 0, tk_mono_after = 0, tk_failed = False\<rparr>] = [5, t] \<and> 5 + 6 / 5 \<le> t"
proof -
  let ?ops = "[Slot None \<lparr>tk_now = 5, tk_mono = 0, tk_mono_after = 0, tk_failed = False\<rparr>,
       Pause \<lparr>oe_status = ''blocked'', oe_reason = [], oe_code = None, oe_retry = Some 60\<rparr> 6 False,
       Slot None \<lparr>tk_now = 66, tk_mono = 0, tk_mono_after = 0, tk_failed = False\<rparr>]"
  have g: "grants fresh_access ?ops = [5, 66]" by code_simp
  with polite_access [of fresh_access ?ops] have "sorted_wrt (\<lambda>t t'. t + 6 / 5 \<le> t') [5, 66 :: rat]" by simp
  then show ?thesis unfolding g by simp
qed

section \<open>Robots rules as the standard states them\<close>

text \<open>
  The rules that apply are those of the groups that name the agent most specifically; of the rules
  that match, one with the longest pattern decides, and an equally long Allow wins.
\<close>

definition applicable_rules :: "string \<Rightarrow> robot_groups \<Rightarrow> robot_rules" where
  "applicable_rules agent gs =
     concat (map snd (filter (\<lambda>g. agent_score agent (fst g) \<noteq> None
       \<and> (\<forall>h \<in> set gs. agent_score agent (fst h) \<le> agent_score agent (fst g))) gs))"

definition permitted :: "robot_rules \<Rightarrow> string \<Rightarrow> bool" where
  "permitted rules target \<longleftrightarrow>
     (\<forall>d. (Disallow, d) \<in> set rules \<and> rule_matches d target \<longrightarrow>
        (\<exists>p. (Allow, p) \<in> set rules \<and> rule_matches p target \<and> specificity d \<le> specificity p))"

text \<open>What the choice knows after some rules: the longest match so far, and its verdict.\<close>

definition verdict :: "string \<Rightarrow> robot_rules \<Rightarrow> nat option \<Rightarrow> bool \<Rightarrow> bool" where
  "verdict target rules best allowed \<longleftrightarrow>
     (case best of
        None \<Rightarrow> allowed \<and> (\<forall>k p. (k, p) \<in> set rules \<longrightarrow> \<not> rule_matches p target)
      | Some b \<Rightarrow>
          (\<forall>k p. (k, p) \<in> set rules \<and> rule_matches p target \<longrightarrow> specificity p \<le> b)
          \<and> (\<exists>k p. (k, p) \<in> set rules \<and> rule_matches p target \<and> specificity p = b)
          \<and> (allowed \<longleftrightarrow> (\<exists>p. (Allow, p) \<in> set rules \<and> rule_matches p target \<and> specificity p = b)))"

lemma verdict_step:
  assumes "verdict target done best allowed"
  shows "verdict target (done @ [(kind, pattern)])
     (if rule_matches pattern target \<and> (best = None \<or> the best < specificity pattern \<or> specificity pattern = the best \<and> kind = Allow)
      then Some (specificity pattern) else best)
     (if rule_matches pattern target \<and> (best = None \<or> the best < specificity pattern \<or> specificity pattern = the best \<and> kind = Allow)
      then kind = Allow else allowed)"
proof (cases best)
  case None
  with assms show ?thesis by (auto simp: verdict_def)
next
  case (Some b)
  note v = assms [unfolded Some verdict_def, simplified]
  show ?thesis
  proof (cases "rule_matches pattern target")
    case False
    with v Some show ?thesis by (auto simp: verdict_def)
  next
    case match: True
    consider "b < specificity pattern" | "specificity pattern = b" "kind = Allow" | "specificity pattern = b" "kind = Disallow"
      | "specificity pattern < b" by (cases kind) (auto intro: linorder_cases)
    then show ?thesis
    proof cases
      case 1
      then have "\<not> (rule_matches p target \<and> specificity p = specificity pattern)" if "(k, p) \<in> set done" for k p
        using v that by fastforce
      with v Some match 1 show ?thesis by (fastforce simp: verdict_def)
    qed (use v Some match in \<open>(auto simp: verdict_def)[3]\<close>)
  qed
qed

lemma verdict_permitted: "verdict target rules best allowed \<Longrightarrow> allowed \<longleftrightarrow> permitted rules target"
proof (cases best)
  case None
  assume "verdict target rules best allowed"
  with None show ?thesis by (auto simp: verdict_def permitted_def)
next
  case (Some b)
  assume "verdict target rules best allowed"
  note v = this [unfolded Some verdict_def, simplified]
  show ?thesis
  proof
    assume allowed
    with v obtain p where "(Allow, p) \<in> set rules" "rule_matches p target" "specificity p = b" by blast
    then show "permitted rules target" using v unfolding permitted_def by metis
  next
    assume perm: "permitted rules target"
    from v obtain k p where kp: "(k, p) \<in> set rules" "rule_matches p target" "specificity p = b" by blast
    then have "\<exists>q. (Allow, q) \<in> set rules \<and> rule_matches q target \<and> b \<le> specificity q"
      using perm unfolding permitted_def by (cases k) auto
    with v show allowed by (metis le_antisym)
  qed
qed

lemma decide_permitted:
  "verdict target done best allowed \<Longrightarrow> decide target rules best allowed \<longleftrightarrow> permitted (done @ rules) target"
proof (induction target rules best allowed arbitrary: "done" rule: decide.induct)
  case (1 target best allowed)
  then show ?case using verdict_permitted by simp
next
  case (2 target kind pattern rules best allowed)
  from 2(3) have step: "verdict target (done @ [(kind, pattern)])
     (if rule_matches pattern target \<and> (best = None \<or> the best < specificity pattern \<or> specificity pattern = the best \<and> kind = Allow)
      then Some (specificity pattern) else best)
     (if rule_matches pattern target \<and> (best = None \<or> the best < specificity pattern \<or> specificity pattern = the best \<and> kind = Allow)
      then kind = Allow else allowed)" by (rule verdict_step)
  let ?longer = "rule_matches pattern target
    \<and> (best = None \<or> the best < specificity pattern \<or> specificity pattern = the best \<and> kind = Allow)"
  show ?case
  proof (cases ?longer)
    case True
    from 2(1) [OF True step [unfolded if_P [OF True]]]
    show ?thesis by (simp only: decide.simps if_P [OF True]) simp
  next
    case False
    from 2(2) [OF False step [unfolded if_not_P [OF False]]]
    show ?thesis by (simp only: decide.simps if_not_P [OF False]) simp
  qed
qed

definition top_score :: "string \<Rightarrow> robot_groups \<Rightarrow> nat option \<Rightarrow> nat option" where
  "top_score agent gs best = fold max (map (\<lambda>g. agent_score agent (fst g)) gs) best"

lemma top_score_simps [simp]:
  "top_score agent [] best = best"
  "top_score agent (g # gs) best = top_score agent gs (max (agent_score agent (fst g)) best)"
  by (simp_all add: top_score_def)

lemma top_score_ge: "best \<le> top_score agent gs best"
proof (induction gs arbitrary: best)
  case (Cons g gs)
  have "best \<le> max (agent_score agent (fst g)) best" by simp
  also have "\<dots> \<le> top_score agent gs \<dots>" by (rule Cons.IH)
  finally show ?case by simp
qed simp

lemma top_score_member: "g \<in> set gs \<Longrightarrow> agent_score agent (fst g) \<le> top_score agent gs best"
  by (induction gs arbitrary: best) (auto intro: order_trans [OF _ top_score_ge])

lemma top_score_in: "top_score agent gs best = best \<or> (\<exists>g \<in> set gs. agent_score agent (fst g) = top_score agent gs best)"
proof (induction gs arbitrary: best)
  case (Cons g gs)
  from Cons.IH [of "max (agent_score agent (fst g)) best"] show ?case
    unfolding top_score_simps by (metis list.set_intros max_def)
qed simp

lemma select_rules_top:
  "select_rules agent gs selected best =
     (if top_score agent gs best = best then selected else [])
     @ concat (map snd (filter (\<lambda>g. agent_score agent (fst g) = top_score agent gs best \<and> top_score agent gs best \<noteq> None) gs))"
proof (induction agent gs selected best rule: select_rules.induct)
  case (2 agent agents rules gs selected best)
  let ?top = "top_score agent gs"
  show ?case
  proof (cases "agent_score agent agents")
    case None
    with 2(1) show ?thesis by (cases "top_score agent gs best") (simp_all add: max_def)
  next
    case (Some score)
    consider "best < Some score" | "best = Some score" | "Some score < best" using linorder_less_linear by blast
    then show ?thesis
    proof cases
      case 1
      then have "best = None \<or> the best < score" by (cases best) auto
      moreover have "max (Some score) best = Some score" "?top (Some score) \<noteq> best"
        using 1 top_score_ge [of "Some score" agent gs] by (auto simp: max_def)
      ultimately show ?thesis using 2(2) [OF Some] Some top_score_ge [of "Some score" agent gs] by auto
    next
      case 2
      then show ?thesis using "2.IH"(3) [OF Some] Some by auto
    next
      case 3
      then obtain b where "best = Some b" "score < b" by (cases best) auto
      moreover from this have "max (Some score) best = best" "?top best \<noteq> Some score"
        using top_score_ge [of best agent gs] by (auto simp: max_def)
      ultimately show ?thesis using "2.IH"(4) [OF Some] Some by auto
    qed
  qed
qed simp

lemma select_applicable: "select_rules agent gs [] None = applicable_rules agent gs"
proof -
  let ?m = "top_score agent gs None"
  have "agent_score agent (fst g) = ?m \<and> ?m \<noteq> None \<longleftrightarrow>
      agent_score agent (fst g) \<noteq> None \<and> (\<forall>h \<in> set gs. agent_score agent (fst h) \<le> agent_score agent (fst g))" if "g \<in> set gs" for g
  proof
    assume "agent_score agent (fst g) = ?m \<and> ?m \<noteq> None"
    then show "agent_score agent (fst g) \<noteq> None \<and> (\<forall>h \<in> set gs. agent_score agent (fst h) \<le> agent_score agent (fst g))"
      using top_score_member [of _ gs agent None] by auto
  next
    assume a: "agent_score agent (fst g) \<noteq> None \<and> (\<forall>h \<in> set gs. agent_score agent (fst h) \<le> agent_score agent (fst g))"
    have ge: "agent_score agent (fst g) \<le> ?m" using that by (rule top_score_member)
    moreover have "?m \<le> agent_score agent (fst g)" using top_score_in [of agent gs None] a by auto
    ultimately show "agent_score agent (fst g) = ?m \<and> ?m \<noteq> None" using a by auto
  qed
  then show ?thesis unfolding applicable_rules_def select_rules_top by (simp cong: filter_cong)
qed


section \<open>Every request is permitted\<close>

lemma wait_is_run:
  "\<exists>ops. snd (wait_for_slot deadline ks a) = run_ops access_step a ops
     \<and> (case fst (wait_for_slot deadline ks a) of Some (Inr t) \<Rightarrow> grants a ops = [t] | _ \<Rightarrow> grants a ops = [])"
proof (induction ks arbitrary: a)
  case Nil
  then show ?case by (intro exI [of _ "[]"]) simp
next
  case (Cons k ks)
  obtain ans a' where k: "try_slot deadline k a = (ans, a')" by fastforce
  show ?case
  proof (cases ans)
    case (WaitFor d)
    from Cons.IH [of a'] obtain ops where ops: "snd (wait_for_slot deadline ks a') = run_ops access_step a' ops"
      "case fst (wait_for_slot deadline ks a') of Some (Inr t) \<Rightarrow> grants a' ops = [t] | _ \<Rightarrow> grants a' ops = []" by blast
    with k WaitFor show ?thesis
      by (intro exI [of _ "Slot deadline k # ops"]) (auto split: option.splits sum.splits)
  qed (use k in \<open>(intro exI [of _ "[Slot deadline k]"], simp)+\<close>)
qed

lemma request_is_run:
  "\<exists>ops. ot_access (snd (request target timeout e s)) = run_ops access_step (ot_access s) ops
     \<and> (ot_sent (snd (request target timeout e s)) = ot_sent s
        \<or> ot_sent (snd (request target timeout e s)) = ot_sent s @ [target] \<and> grants (ot_access s) ops \<noteq> [])
     \<and> ot_robots (snd (request target timeout e s)) = ot_robots s"
proof -
  let ?deadline = "Some (rq_start e + max 0 timeout)"
  obtain r a where w: "wait_for_slot ?deadline (rq_ticks e) (ot_access s) = (r, a)" by fastforce
  from wait_is_run [of ?deadline "rq_ticks e" "ot_access s"] obtain ops where
    ops: "a = run_ops access_step (ot_access s) ops"
    "case r of Some (Inr t) \<Rightarrow> grants (ot_access s) ops = [t] | _ \<Rightarrow> grants (ot_access s) ops = []"
    unfolding w by auto
  show ?thesis
  proof (cases "\<exists>t. r = Some (Inr t) \<and> \<not> timeout - (rq_waited e - rq_start e) \<le> 0")
    case False
    then show ?thesis using w ops(1) unfolding request_def
      by (intro exI [of _ ops]) (auto split: option.splits sum.splits)
  next
    case True
    then obtain t where t: "r = Some (Inr t)" "\<not> timeout - (rq_waited e - rq_start e) \<le> 0" by blast
    show ?thesis
    proof (cases "\<exists>resp err. rq_response e = Some resp \<and> refusal_of resp = Some (err, True) \<and> \<not> rq_pause_failed e")
      case True
      then obtain resp err where p: "rq_response e = Some resp" "refusal_of resp = Some (err, True)" "\<not> rq_pause_failed e" by blast
      then show ?thesis using w ops t unfolding request_def
        by (intro exI [of _ "ops @ [Pause err (rq_pause_now e) False]"])
          (simp add: run_ops_append grants_append Let_def pause_def)
    next
      case False
      then show ?thesis using w ops t unfolding request_def
        by (intro exI [of _ ops]) (auto simp: Let_def pause_def split: option.splits)
    qed
  qed
qed

text \<open>What a step did to the shared state: transactions on the access row, and requests sent under grants.\<close>

definition did :: "otm \<Rightarrow> otm \<Rightarrow> string list \<Rightarrow> bool" where
  "did s s' sent \<longleftrightarrow>
     (\<exists>ops. ot_access s' = run_ops access_step (ot_access s) ops \<and> ot_sent s' = ot_sent s @ sent
        \<and> length sent \<le> length (grants (ot_access s) ops))"

lemma did_refl: "ot_access s' = ot_access s \<Longrightarrow> ot_sent s' = ot_sent s \<Longrightarrow> did s s' []"
  unfolding did_def by (intro exI [of _ "[]"]) simp

lemma did_trans: "did s s' xs \<Longrightarrow> did s' s'' ys \<Longrightarrow> did s s'' (xs @ ys)"
proof -
  assume "did s s' xs" "did s' s'' ys"
  then obtain ops ops' where "ot_access s' = run_ops access_step (ot_access s) ops" "ot_sent s' = ot_sent s @ xs"
    "length xs \<le> length (grants (ot_access s) ops)"
    "ot_access s'' = run_ops access_step (ot_access s') ops'" "ot_sent s'' = ot_sent s' @ ys"
    "length ys \<le> length (grants (ot_access s') ops')" by (auto simp: did_def)
  then show ?thesis unfolding did_def
    by (intro exI [of _ "ops @ ops'"]) (simp add: run_ops_append grants_append)
qed

lemma request_did: "did s (snd (request target timeout e s)) [] \<or> did s (snd (request target timeout e s)) [target]"
proof -
  obtain ops where ops: "ot_access (snd (request target timeout e s)) = run_ops access_step (ot_access s) ops"
    "ot_sent (snd (request target timeout e s)) = ot_sent s
     \<or> ot_sent (snd (request target timeout e s)) = ot_sent s @ [target] \<and> grants (ot_access s) ops \<noteq> []"
    using request_is_run [of target timeout e s] by blast
  from ops(2) show ?thesis
  proof
    assume "ot_sent (snd (request target timeout e s)) = ot_sent s"
    with ops(1) show ?thesis unfolding did_def by auto
  next
    assume "ot_sent (snd (request target timeout e s)) = ot_sent s @ [target] \<and> grants (ot_access s) ops \<noteq> []"
    with ops(1) show ?thesis unfolding did_def by (cases "grants (ot_access s) ops") auto
  qed
qed

lemma failure_did: "did s (snd (robots_failure e err s)) []"
proof (cases "ot_access (snd (robots_failure e err s)) = ot_access s")
  case True
  then show ?thesis by (intro did_refl) (auto simp: robots_failure_def Let_def split: prod.splits option.splits)
next
  case False
  then show ?thesis unfolding did_def
    by (intro exI [of _ "[Pause (err\<lparr>oe_retry := Some 60\<rparr>) (rb_pause_now e) (rb_pause_failed e)]"])
      (auto simp: robots_failure_def Let_def split: prod.splits option.splits if_splits)
qed

lemma failure_refuses: "fst (robots_failure e err s) \<noteq> Some (Inr policy)"
  by (auto simp: robots_failure_def Let_def split: prod.splits option.splits)

text \<open>Where a policy comes from: a current entry of the cache, or a file fetched just now.\<close>

definition policy_in_force :: "robots_env \<Rightarrow> otm \<Rightarrow> robots_policy \<Rightarrow> bool" where
  "policy_in_force e s policy \<longleftrightarrow>
     cached_robots (rb_now e) (ot_robots s) = Some policy
     \<or> cached_robots (rb_now_locked e) (rb_refreshed e) = Some policy
     \<or> (\<exists>r. rq_response (rb_request e) = Some r \<and> is_robots_file (rs_text r) \<and> policy = RobotsBody (rs_text r))"

lemma request_answer: "fst (request target timeout e s) = Some (Inr r) \<Longrightarrow> rq_response e = Some r"
  by (auto simp: request_def Let_def split: prod.splits option.splits sum.splits if_splits)

lemma ensure_did:
  "\<exists>sent \<in> {[], [''/robots.txt'']}. did s (snd (ensure_robots timeout e s)) sent"
proof -
  have put: "did s (s'\<lparr>ot_robots := c\<rparr>) xs" if "did s s' xs" for s s' c xs using that by (simp add: did_def)
  have get: "did s s' xs" if "did (s\<lparr>ot_robots := c\<rparr>) s' xs" for s s' c xs using that by (simp add: did_def)
  let ?s1 = "s\<lparr>ot_robots := rb_refreshed e\<rparr>" and ?t = "timeout - rb_waited e"
  obtain r s2 where q: "request ''/robots.txt'' ?t (rb_request e) ?s1 = (r, s2)" by fastforce
  have "did ?s1 s2 [] \<or> did ?s1 s2 [''/robots.txt'']" using request_did [of ?s1 "''/robots.txt''" ?t "rb_request e"] q by simp
  then obtain sent where sent: "sent \<in> {[], [''/robots.txt'']}" "did s s2 sent" using get by blast
  have fail: "did s (snd (robots_failure e err s2)) sent" for err
    using did_trans [OF sent(2) failure_did] by simp
  show ?thesis
  proof (cases "rb_failed e \<or> cached_robots (rb_now e) (ot_robots s) \<noteq> None \<or> \<not> rb_locked e
      \<or> cached_robots (rb_now_locked e) (rb_refreshed e) \<noteq> None \<or> ?t \<le> 0")
    case True
    then show ?thesis
      by (intro bexI [of _ "[]"]) (auto simp: ensure_robots_def Let_def intro: did_refl failure_did get [OF failure_did] split: option.splits)
  next
    case False
    show ?thesis
    proof (rule bexI [OF _ sent(1)])
      show "did s (snd (ensure_robots timeout e s)) sent"
        using False q fail sent(2) put [OF sent(2)] by (auto simp: ensure_robots_def Let_def split: option.splits sum.splits)
    qed
  qed
qed

lemma ensure_policy: "fst (ensure_robots timeout e s) = Some (Inr policy) \<Longrightarrow> policy_in_force e s policy"
  using request_answer [of "''/robots.txt''" "timeout - rb_waited e" "rb_request e" "s\<lparr>ot_robots := rb_refreshed e\<rparr>"]
  by (auto simp: ensure_robots_def policy_in_force_def failure_refuses Let_def split: option.splits prod.splits sum.splits if_splits)

text \<open>
  A page request goes out only with permission, and every request waits for a slot.  A call of
  \<open>get\<close> changes the access state only by slot and pause transactions, and sends at most one request
  for the robots file and one for the page, each under a slot of its own; the page only if its URL
  is on the narrow list and a robots policy in force, cached within its seven days or fetched in
  this call, allows it.
\<close>

theorem get_sends_only_permitted:
  assumes "get u params timeout e s = (r, s')"
  shows "\<exists>robots page. did s s' (robots @ page)
    \<and> robots \<in> {[], [''/robots.txt'']} \<and> page \<in> {[], [target_of u params]}
    \<and> (robots @ page \<noteq> [] \<longrightarrow> validate_url u params = None)
    \<and> (page \<noteq> [] \<longrightarrow> (\<exists>policy. policy_in_force (ge_robots e) s policy
         \<and> (\<forall>body. policy = RobotsBody body \<longrightarrow> robots_allow (ge_agent e) body (target_of u params) = Inr True)))"
proof (cases "validate_url u params")
  case (Some err)
  with assms have "s' = s" by (simp add: get_def)
  then show ?thesis by (intro exI [of _ "[]"]) (simp add: did_refl)
next
  case None
  obtain a s1 where en: "ensure_robots timeout (ge_robots e) s = (a, s1)" by fastforce
  with ensure_did [of s timeout "ge_robots e"] obtain sent where sent: "sent \<in> {[], [''/robots.txt'']}" "did s s1 sent" by auto
  show ?thesis
  proof (cases "\<exists>policy. a = Some (Inr policy) \<and> 0 < timeout - ge_elapsed e
      \<and> (case policy of BuiltInPolicy \<Rightarrow> Inr True
         | RobotsBody body \<Rightarrow> robots_allow (ge_agent e) body (target_of u params)) = Inr True")
    case False
    then have "s' = s1"
      using assms None en by (auto simp: get_def split: option.splits sum.splits bool.splits if_splits)
    with sent None show ?thesis by (intro exI [of _ sent] exI [of _ "[]"]) simp
  next
    case True
    then obtain policy where p: "a = Some (Inr policy)" "0 < timeout - ge_elapsed e"
      "(case policy of BuiltInPolicy \<Rightarrow> Inr True
        | RobotsBody body \<Rightarrow> robots_allow (ge_agent e) body (target_of u params)) = Inr True" by blast
    then have s': "s' = snd (request (target_of u params) (timeout - ge_elapsed e) (ge_request e) s1)"
      using assms None en by (simp add: get_def)
    from request_did [of s1 "target_of u params"] obtain page where
      page: "page \<in> {[], [target_of u params]}" "did s1 s' page" unfolding s' by blast
    have "policy_in_force (ge_robots e) s policy" using ensure_policy [of timeout "ge_robots e" s policy] en p(1) by simp
    with did_trans [OF sent(2) page(2)] sent(1) page(1) None p(3) show ?thesis
      by (intro exI [of _ sent] exI [of _ page]) (auto split: robots_policy.splits)
  qed
qed

section \<open>A concrete request\<close>

definition demo_url :: url_parts where
  "demo_url = \<lparr>up_scheme = ''https'', up_netloc = ''www.onthemarket.com'', up_path = ''/to-rent/2-bed-property/camden-town/'',
     up_query = [], up_pairs = [], up_fragment = [], up_login = False\<rparr>"

definition demo_env :: get_env where
  "demo_env =
     (let k = \<lparr>tk_now = 1793577700, tk_mono = 1, tk_mono_after = 1, tk_failed = False\<rparr>;
          rq = \<lparr>rq_start = 0, rq_ticks = [k], rq_waited = 2, rq_response = Some \<lparr>rs_code = 200, rs_retry = NoHeader, rs_text = ''ok''\<rparr>,
                rq_pause_now = 0, rq_pause_failed = False\<rparr> in
      \<lparr>ge_robots = \<lparr>rb_now = 1793577700, rb_failed = False, rb_locked = True, rb_refreshed = None, rb_now_locked = 1793577700,
                    rb_waited = 0, rb_request = rq, rb_stored = 0, rb_pause_now = 0, rb_pause_failed = False\<rparr>,
       ge_agent = None, ge_elapsed = 1, ge_request = rq\<rparr>)"

definition demo_state :: otm where
  "demo_state = \<lparr>ot_access = fresh_access,
     ot_robots = Some (1793577600, ''User-agent: *'' @ [CHR 0x0A] @ ''Disallow: /*/2-bed'' @ [CHR 0x0A] @ ''Allow: /to-rent/*-bed''), ot_sent = []\<rparr>"

lemma demo_get:
  "ot_sent (snd (get demo_url [(''page'', ''2'')] 25 demo_env demo_state)) = [''/to-rent/2-bed-property/camden-town/?page=2'']"
  by code_simp

theorem get_sends_only_permitted_witness:
  "\<exists>s'. ot_sent s' = [''/to-rent/2-bed-property/camden-town/?page=2''] \<and> did demo_state s' (ot_sent s')"
proof -
  let ?g = "get demo_url [(''page'', ''2'')] 25 demo_env demo_state"
  from get_sends_only_permitted [of demo_url "[(''page'', ''2'')]" 25 demo_env demo_state "fst ?g" "snd ?g"]
  obtain xs where xs: "did demo_state (snd ?g) xs" by auto
  then have "ot_sent (snd ?g) = ot_sent demo_state @ xs" by (auto simp: did_def)
  moreover have "ot_sent demo_state = []" by (simp add: demo_state_def)
  ultimately have "ot_sent (snd ?g) = xs" by simp
  with xs show ?thesis using demo_get by metis
qed

end
