(* ===== verification/StrictSchema.thy ===== *)
theory StrictSchema
  imports Prelude
begin

text \<open>
  \<open>app/core/strict_schema.py\<close>: the adapter that rewrites a tool's JSON schema into the form the
  strict endpoint accepts, the checker of that form, and the executor-side inverses
  (\<open>strip_null_args\<close>, \<open>decode_json_string_args\<close>).  A schema is a \<open>json\<close> value; what Python raises on
  a malformed schema is an error value.
\<close>

section \<open>Keywords\<close>

definition banned_keywords :: "string list" where
  "banned_keywords = [''minLength'', ''maxLength'', ''minItems'', ''maxItems'']"

definition supported_formats :: "string list" where
  "supported_formats = [''email'', ''hostname'', ''ipv4'', ''ipv6'', ''uuid'']"

definition is_unsupported_format :: "string \<Rightarrow> json \<Rightarrow> bool" where
  "is_unsupported_format key v \<longleftrightarrow>
     key = ''format'' \<and> \<not> (case v of JStr s \<Rightarrow> s \<in> set supported_formats | _ \<Rightarrow> False)"

definition dropped :: "string \<times> json \<Rightarrow> bool" where
  "dropped kv \<longleftrightarrow> fst kv \<in> set banned_keywords \<or> is_unsupported_format (fst kv) (snd kv)"

definition meta_keywords :: "string list" where
  "meta_keywords = [''description'', ''default'', ''title'', ''deprecated'', ''examples'']"

definition null_branch :: json where "null_branch = JObj [(''type'', JStr ''null'')]"

definition branch_selectors :: "string list" where
  "branch_selectors = [''type'', ''anyOf'', ''$ref'']"

fun fields_of :: "json \<Rightarrow> fields" where
  "fields_of (JObj fs) = fs"
| "fields_of _ = []"

section \<open>Branches of a union\<close>

fun member_type :: "json \<Rightarrow> string option" where
  "member_type (JBool _) = Some ''boolean''"
| "member_type (JInt _) = Some ''integer''"
| "member_type (JFloat _) = Some ''number''"
| "member_type (JStr _) = Some ''string''"
| "member_type JNull = Some ''null''"
| "member_type _ = None"

definition enum_member_type :: "json \<Rightarrow> json option" where
  "enum_member_type values =
     (case values of
        JArr vs \<Rightarrow>
          if vs = [] \<or> list_ex (\<lambda>v. member_type v = None) vs then None
          else let types = dedupe (List.map_filter member_type vs) in
          Some (if length types = 1 then JStr (hd types)
                else if set types \<subseteq> {''integer'', ''number''} then JStr ''number''
                else JArr (map JStr types))
      | _ \<Rightarrow> None)"

definition has_branch_selector :: "json \<Rightarrow> bool" where
  "has_branch_selector node \<longleftrightarrow> is_dict node \<and> list_ex (dict_has (fields_of node)) branch_selectors"

definition normalize_anyof_branch :: "json \<Rightarrow> json option" where
  "normalize_anyof_branch branch =
     (if \<not> is_dict branch \<or> has_branch_selector branch then Some branch
      else case Option.bind (json_get branch ''enum'') enum_member_type of
        None \<Rightarrow> None
      | Some t \<Rightarrow> Some (JObj (dict_set (fields_of branch) ''type'' t)))"

definition clean_anyof :: "json list \<Rightarrow> json list" where
  "clean_anyof = List.map_filter normalize_anyof_branch"

definition is_null_schema :: "json \<Rightarrow> bool" where
  "is_null_schema node \<longleftrightarrow> json_get node ''type'' = Some (JStr ''null'') \<and> json_get node ''properties'' = None"

definition is_object_node :: "fields \<Rightarrow> bool" where
  "is_object_node fs \<longleftrightarrow> map_of fs ''type'' = Some (JStr ''object'')
     \<or> (case map_of fs ''properties'' of Some v \<Rightarrow> is_dict v | None \<Rightarrow> False)"

section \<open>A property, split\<close>

text \<open>What a keyword contributes to the value keywords, to the concrete branches, and to nullability.\<close>

definition concrete_types :: "json list \<Rightarrow> json list" where
  "concrete_types = filter (\<lambda>t. t \<noteq> JStr ''null'')"

fun value_part :: "string \<times> json \<Rightarrow> fields" where
  "value_part (key, v) =
     (case v of
        JArr xs \<Rightarrow>
          if key = ''anyOf'' then []
          else if key = ''type''
          then (case concrete_types xs of [] \<Rightarrow> [] | [t] \<Rightarrow> [(key, t)] | ts \<Rightarrow> [(key, JArr ts)])
          else [(key, v)]
      | _ \<Rightarrow> [(key, v)])"

fun branch_part :: "string \<times> json \<Rightarrow> json list" where
  "branch_part (key, v) = (case v of JArr xs \<Rightarrow> if key = ''anyOf'' then filter (\<lambda>b. \<not> is_null_schema b) xs else [] | _ \<Rightarrow> [])"

fun null_part :: "string \<times> json \<Rightarrow> bool" where
  "null_part (key, v) =
     (case v of
        JArr xs \<Rightarrow> key = ''anyOf'' \<and> list_ex is_null_schema xs
          \<or> key = ''type'' \<and> length (concrete_types xs) \<noteq> length xs
      | _ \<Rightarrow> False)"

definition split_meta :: "fields \<Rightarrow> fields" where
  "split_meta fs = filter (\<lambda>kv. \<not> dropped kv \<and> fst kv \<in> set meta_keywords) fs"

definition value_keywords :: "fields \<Rightarrow> fields" where
  "value_keywords fs = filter (\<lambda>kv. \<not> dropped kv \<and> fst kv \<notin> set meta_keywords) fs"

definition split_value :: "fields \<Rightarrow> fields" where
  "split_value fs = concat (map value_part (value_keywords fs))"

definition split_branches :: "fields \<Rightarrow> json list" where
  "split_branches fs = concat (map branch_part (value_keywords fs))"

definition split_null :: "fields \<Rightarrow> bool" where
  "split_null fs = list_ex null_part (value_keywords fs)"

section \<open>The transformation\<close>

text \<open>\<open>list(v)\<close> of a value.\<close>

fun iterate :: "json \<Rightarrow> py_error + json list" where
  "iterate (JArr xs) = Inr xs"
| "iterate (JObj fs) = Inr (map (JStr \<circ> fst) fs)"
| "iterate (JStr s) = Inr (map (\<lambda>c. JStr [c]) s)"
| "iterate _ = Inl TypeError"

fun unhashable :: "json \<Rightarrow> bool" where
  "unhashable (JArr _) = True"
| "unhashable (JObj _) = True"
| "unhashable _ = False"

text \<open>The names in \<open>set(node.get("required", []))\<close>.\<close>

definition required_names :: "fields \<Rightarrow> py_error + string list" where
  "required_names fs =
     (case map_of fs ''required'' of
        None \<Rightarrow> Inr []
      | Some v \<Rightarrow>
          and_then (iterate v) (\<lambda>xs.
            if list_ex unhashable xs then Inl TypeError
            else Inr (List.map_filter (\<lambda>x. case x of JStr s \<Rightarrow> Some s | _ \<Rightarrow> None) xs)))"

definition json_string_marker :: string where
  "json_string_marker = '' (free-form JSON object '' @ [CHR 0x97] @ '' pass it JSON-encoded as a string)''"

text \<open>The end of an object node: free-form objects become strings, the others are closed.\<close>

definition finish_object :: "bool \<Rightarrow> fields \<Rightarrow> py_error + json" where
  "finish_object at_root out =
     (let props = (case map_of out ''properties'' of None \<Rightarrow> JObj [] | Some p \<Rightarrow> p) in
      if \<not> truthy props \<and> \<not> at_root
      then (let d = field_or_null (JObj out) ''description'' in
            case (if truthy d then d else JStr ''Free-form object'') of
              JStr s \<Rightarrow> Inr (JObj [(''type'', JStr ''string''), (''description'', JStr (s @ json_string_marker))])
            | _ \<Rightarrow> Inl TypeError)
      else (case props of
              JObj ps \<Rightarrow> Inr (JObj (dict_set (dict_set out ''required'' (JArr (map (JStr \<circ> fst) ps)))
                 ''additionalProperties'' (JBool False)))
            | _ \<Rightarrow> Inl AttributeError))"

definition typed_items :: "json \<Rightarrow> json" where
  "typed_items items =
     (if is_dict items \<and> \<not> has_branch_selector items then JObj (dict_set (fields_of items) ''type'' (JStr ''string'')) else items)"

text \<open>The core of a property from its transformed branches and value keywords.\<close>

definition property_core :: "json list \<Rightarrow> fields \<Rightarrow> py_error + fields" where
  "property_core branches value_core =
     (case branches of
        [] \<Rightarrow> Inr value_core
      | [b] \<Rightarrow> (case b of JObj bf \<Rightarrow> Inr (dict_merge bf value_core) | _ \<Rightarrow> Inl TypeError)
      | _ \<Rightarrow> Inr (dict_set value_core ''anyOf'' (JArr (clean_anyof branches))))"

definition finish_property :: "bool \<Rightarrow> fields \<Rightarrow> fields \<Rightarrow> py_error + json" where
  "finish_property nullable meta core =
     (if \<not> nullable then Inr (JObj (dict_merge core meta))
      else and_then (case core of [(key, v)] \<Rightarrow> if key = ''anyOf'' then iterate v else Inr [JObj core] | _ \<Rightarrow> Inr [JObj core])
        (\<lambda>bs. Inr (JObj (dict_set meta ''anyOf'' (JArr (clean_anyof bs @ [null_branch]))))))"

lemma each_cong [fundef_cong]:
  "xs = ys \<Longrightarrow> (\<And>x. x \<in> set ys \<Longrightarrow> f x = g x) \<Longrightarrow> each f xs = each g ys"
  by (induction ys arbitrary: xs) auto

lemma and_then_cong [fundef_cong]:
  "r = r' \<Longrightarrow> (\<And>v. r' = Inr v \<Longrightarrow> f v = g v) \<Longrightarrow> and_then r f = and_then r' g"
  by (cases r') auto

abbreviation fields_size :: "fields \<Rightarrow> nat" where
  "fields_size fs \<equiv> size_list (size_prod (\<lambda>_. 0) size) fs"

lemma size_concrete: "size_list size (concrete_types xs) \<le> size_list size xs"
  unfolding concrete_types_def by (induction xs) auto

lemma size_value_part: "fields_size (value_part (key, v)) \<le> Suc (Suc (size v))"
proof (cases v)
  case (JArr xs)
  then show ?thesis
    using size_concrete [of xs] by (cases "concrete_types xs" rule: remdups_adj.cases) simp_all
qed simp_all

lemma fields_size_append [simp]: "fields_size (xs @ ys) = fields_size xs + fields_size ys"
  by (induction xs) auto

lemma size_split_value: "size (JObj (split_value fs)) \<le> size (JObj fs)"
proof -
  have "fields_size (concat (map value_part (value_keywords fs))) \<le> fields_size fs"
    unfolding value_keywords_def
  proof (induction fs)
    case (Cons kv fs)
    then show ?case using size_value_part [of "fst kv" "snd kv"] by (cases kv) auto
  qed simp
  then show ?thesis by (simp add: split_value_def)
qed

lemma size_split_branch: "b \<in> set (split_branches fs) \<Longrightarrow> size b < size (JObj fs)"
proof -
  assume "b \<in> set (split_branches fs)"
  then obtain key xs where "(key, JArr xs) \<in> set fs" "b \<in> set xs"
    by (auto simp: split_branches_def value_keywords_def split: json.splits if_splits)
  with size_field [of key "JArr xs" fs] size_item [of b xs] show ?thesis by simp
qed

lemma size_fields_of: "(n, p) \<in> set (fields_of v) \<Longrightarrow> size p < size v"
  using size_field [of n p] by (cases v) auto

function (sequential) transform :: "bool \<Rightarrow> json \<Rightarrow> py_error + json"
  and transform_property :: "string list \<Rightarrow> string \<Rightarrow> json \<Rightarrow> py_error + json" where
  "transform at_root (JObj fs) =
     and_then (required_names fs) (\<lambda>req.
     and_then (each (\<lambda>(key, v).
         if key = ''properties'' \<and> is_dict v
         then and_then (each (\<lambda>(n, p). and_then (transform_property req n p) (\<lambda>p'. Inr (n, p'))) (fields_of v))
                (\<lambda>ps. Inr [(key, JObj ps)])
         else if key \<in> {''required'', ''additionalProperties''} \<and> is_object_node fs then Inr []
         else if key = ''items'' then and_then (transform False v) (\<lambda>i. Inr [(key, typed_items i)])
         else if key \<in> {''$defs'', ''definitions''} \<and> is_dict v
         then and_then (each (\<lambda>(n, d). and_then (transform False d) (\<lambda>d'. Inr (n, d'))) (fields_of v))
                (\<lambda>ds. Inr [(key, JObj ds)])
         else (case v of
             JArr bs \<Rightarrow>
               if key = ''anyOf'' then and_then (each (transform False) bs) (\<lambda>bs'. Inr [(key, JArr (clean_anyof bs'))])
               else Inr [(key, v)]
           | _ \<Rightarrow> Inr [(key, v)]))
       (filter (\<lambda>kv. \<not> dropped kv) fs)) (\<lambda>items.
     if is_object_node fs then finish_object at_root (concat items) else Inr (JObj (concat items))))"
| "transform at_root node = Inr node"
| "transform_property req name (JObj fs) =
     and_then (each (transform False) (split_branches fs)) (\<lambda>branches.
     and_then (transform False (JObj (split_value fs))) (\<lambda>value_core.
     and_then (property_core branches (fields_of value_core)) (\<lambda>core.
       finish_property (name \<notin> set req \<or> split_null fs) (split_meta fs) core)))"
| "transform_property req name node = Inr node"
  by pat_completeness auto

termination
proof (relation "measure (case_sum (\<lambda>(_, v). 2 * size v) (\<lambda>(_, _, v). Suc (2 * size v)))", goal_cases)
  case (2 at_root fs r kv key v np n p)
  then have "size p < size v" "size v < size (JObj fs)"
    using size_fields_of [of n p v] size_field [of key v fs] by simp_all
  then show ?case by simp
next
  case (3 at_root fs r kv key v)
  then show ?case using size_field [of key v fs] by simp
next
  case (4 at_root fs r kv key v nd n d)
  then have "size d < size v" "size v < size (JObj fs)"
    using size_fields_of [of n d v] size_field [of key v fs] by simp_all
  then show ?case by simp
next
  case (5 at_root fs r kv key v bs b)
  then have "size b < size v" "size v < size (JObj fs)"
    using size_item [of b bs] size_field [of key v fs] by simp_all
  then show ?case by simp
next
  case (6 req name fs b)
  then have "size b < size (JObj fs)" by (rule size_split_branch)
  then show ?case by simp
next
  case (7 req name fs bs)
  then show ?case using size_split_value [of fs] by simp
qed simp

declare transform.simps [simp del] transform_property.simps [simp del]

definition to_strict_schema :: "json \<Rightarrow> py_error + json" where
  "to_strict_schema schema = transform True schema"

section \<open>The executor side\<close>

text \<open>Null arguments are dropped before validation, at every level of nested objects.\<close>

fun strip_null_args :: "json \<Rightarrow> json" where
  "strip_null_args (JObj fs) =
     JObj (map (\<lambda>(key, v). (key, strip_null_args v)) (filter (\<lambda>kv. snd kv \<noteq> JNull) fs))"
| "strip_null_args v = v"

text \<open>The schema of a value: the first branch of a union that is not null.\<close>

definition prop_schema :: "json \<Rightarrow> json" where
  "prop_schema schema =
     (if \<not> is_dict schema then JObj []
      else case json_get schema ''anyOf'' of
        Some (JArr bs) \<Rightarrow>
          (case filter (\<lambda>b. is_dict b \<and> json_get b ''type'' \<noteq> Some (JStr ''null'')) bs of [] \<Rightarrow> schema | b # _ \<Rightarrow> b)
      | _ \<Rightarrow> schema)"

definition schema_field :: "json \<Rightarrow> string \<Rightarrow> json" where
  "schema_field schema name = (case json_get schema name of None \<Rightarrow> JObj [] | Some v \<Rightarrow> v)"

text \<open>\<open>loads\<close> is \<open>json.loads\<close>, \<open>None\<close> where it raises.\<close>

function (sequential) decode_value :: "(string \<Rightarrow> json option) \<Rightarrow> json \<Rightarrow> json \<Rightarrow> json" where
  "decode_value loads (JStr text) schema =
     (if is_object_node (fields_of (prop_schema schema))
      then (case loads text of Some (JObj fs) \<Rightarrow> JObj fs | _ \<Rightarrow> JStr text) else JStr text)"
| "decode_value loads (JObj fs) schema =
     (case json_get (prop_schema schema) ''properties'' of
        Some (JObj ps) \<Rightarrow> JObj (map (\<lambda>(key, v). (key, decode_value loads v (schema_field (JObj ps) key))) fs)
      | _ \<Rightarrow> JObj fs)"
| "decode_value loads (JArr xs) schema =
     (if \<not> is_object_node (fields_of (prop_schema schema)) \<and> json_get (prop_schema schema) ''type'' = Some (JStr ''array'')
      then JArr (map (\<lambda>v. decode_value loads v (schema_field (prop_schema schema) ''items'')) xs) else JArr xs)"
| "decode_value loads v schema = v"
  by pat_completeness auto
termination
  by (relation "measure (\<lambda>(_, v, _). size v)") (auto dest: size_field size_item)

definition decode_json_string_args :: "(string \<Rightarrow> json option) \<Rightarrow> json \<Rightarrow> json \<Rightarrow> py_error + json" where
  "decode_json_string_args loads args schema =
     (if \<not> is_dict args \<or> \<not> is_dict schema then Inr args
      else case (let p = field_or_null schema ''properties'' in if truthy p then p else JObj []) of
        JObj ps \<Rightarrow> Inr (JObj (map (\<lambda>(key, v). (key, decode_value loads v (schema_field (JObj ps) key))) (fields_of args)))
      | _ \<Rightarrow> if fields_of args = [] then Inr (JObj []) else Inl AttributeError)"

section \<open>The checker of the strict form\<close>

datatype violation =
    BannedKeyword string string
  | UnsupportedFormat string json
  | NotClosed string
  | NoProperties string
  | NotRequired string "string list"
  | UnknownRequired string "json list"
  | BranchWithoutSelector string
  | ItemsWithoutSelector string

text \<open>\<open>p in required\<close>, and the entries of \<open>required\<close> that are no property.\<close>

fun required_has :: "json \<Rightarrow> string \<Rightarrow> py_error + bool" where
  "required_has (JArr xs) p = Inr (JStr p \<in> set xs)"
| "required_has (JObj fs) p = Inr (dict_has fs p)"
| "required_has (JStr s) p = Inr (contains_text s p)"
| "required_has _ p = Inl TypeError"

definition unknown_required :: "json \<Rightarrow> fields \<Rightarrow> py_error + json list" where
  "unknown_required req props =
     and_then (iterate req) (\<lambda>xs.
       if list_ex unhashable xs then Inl TypeError
       else Inr (filter (\<lambda>x. case x of JStr s \<Rightarrow> \<not> dict_has props s | _ \<Rightarrow> True) xs))"

definition missing_required :: "json \<Rightarrow> fields \<Rightarrow> py_error + string list" where
  "missing_required req props =
     and_then (each (\<lambda>p. and_then (required_has req p) (\<lambda>b. Inr (p, b))) (map fst props)) (\<lambda>ps.
       Inr (map fst (filter (\<lambda>(p, b). \<not> b) ps)))"

text \<open>\<open>node.get(name) or empty\<close>.\<close>

definition get_or :: "fields \<Rightarrow> string \<Rightarrow> json \<Rightarrow> json" where
  "get_or fs name dflt = (let v = field_or_null (JObj fs) name in if truthy v then v else dflt)"

definition own_violations :: "string \<Rightarrow> fields \<Rightarrow> violation list" where
  "own_violations path fs =
     map (BannedKeyword path) (filter (dict_has fs) banned_keywords)
     @ (case map_of fs ''format'' of Some v \<Rightarrow> if is_unsupported_format ''format'' v then [UnsupportedFormat path v] else [] | None \<Rightarrow> [])"

text \<open>A \<open>properties\<close> value that is no dictionary fails when its items are asked for.\<close>

definition object_violations :: "string \<Rightarrow> fields \<Rightarrow> py_error + violation list" where
  "object_violations path fs =
     (case get_or fs ''properties'' (JObj []) of
        JObj ps \<Rightarrow>
          and_then (missing_required (get_or fs ''required'' (JArr [])) ps) (\<lambda>missing.
          and_then (unknown_required (get_or fs ''required'' (JArr [])) ps) (\<lambda>extra.
            Inr ((if map_of fs ''additionalProperties'' \<noteq> Some (JBool False) then [NotClosed path] else [])
              @ (if \<not> truthy (field_or_null (JObj fs) ''properties'') \<and> path \<noteq> ''$'' then [NoProperties path] else [])
              @ (if missing = [] then [] else [NotRequired path missing])
              @ (if extra = [] then [] else [UnknownRequired path extra]))))
      | JArr _ \<Rightarrow> Inl AttributeError
      | JStr _ \<Rightarrow> Inl AttributeError
      | _ \<Rightarrow> Inl TypeError)"

definition in_order :: "(py_error + violation list) list \<Rightarrow> py_error + violation list" where
  "in_order rs = and_then (each id rs) (\<lambda>vs. Inr (concat vs))"

definition branch_path :: "string \<Rightarrow> nat \<Rightarrow> string" where
  "branch_path path i = path @ ''.anyOf['' @ nat_text i @ '']''"

definition union_branches :: "fields \<Rightarrow> json list" where
  "union_branches fs = (case map_of fs ''anyOf'' of Some (JArr bs) \<Rightarrow> bs | _ \<Rightarrow> [])"

lemma size_get: "size (field_or_null (JObj fs) name) < size (JObj fs)"
  using size_field [of name _ fs] by (auto simp: field_or_null_def dest: map_of_SomeD split: option.splits)

lemma size_sub: "(n, p) \<in> set (fields_of (field_or_null (JObj fs) name)) \<Longrightarrow> size p < size (JObj fs)"
  using size_fields_of [of n p "field_or_null (JObj fs) name"] size_get [of fs name] by linarith

lemma size_branch: "b \<in> set (union_branches fs) \<Longrightarrow> size b < size (JObj fs)"
proof -
  assume "b \<in> set (union_branches fs)"
  then obtain bs where bs: "map_of fs ''anyOf'' = Some (JArr bs)" "b \<in> set bs"
    by (cases "map_of fs ''anyOf''") (auto simp: union_branches_def split: json.splits)
  from size_field [OF map_of_SomeD [OF bs(1)]] size_item [OF bs(2)] show ?thesis by simp
qed

function (sequential) walk :: "string \<Rightarrow> json \<Rightarrow> py_error + violation list" where
  "walk path (JObj fs) =
     (let props = (if is_object_node fs then fields_of (field_or_null (JObj fs) ''properties'') else []);
          branches = union_branches fs;
          items = field_or_null (JObj fs) ''items'' in
      in_order [Inr (own_violations path fs),
        if is_object_node fs then object_violations path fs else Inr [],
        in_order (map (\<lambda>(n, p). walk (path @ ''.properties.'' @ n) p) props),
        in_order (map (\<lambda>(i, b). in_order [Inr (if is_dict b \<and> \<not> has_branch_selector b then [BranchWithoutSelector (branch_path path i)] else []),
            walk (branch_path path i) b]) (List.enumerate 0 branches)),
        if is_dict items
        then in_order [Inr (if has_branch_selector items then [] else [ItemsWithoutSelector (path @ ''.items'')]), walk (path @ ''.items'') items]
        else Inr [],
        in_order (map (\<lambda>(n, d). walk (path @ ''.$defs.'' @ n) d) (fields_of (field_or_null (JObj fs) ''$defs''))),
        in_order (map (\<lambda>(n, d). walk (path @ ''.definitions.'' @ n) d) (fields_of (field_or_null (JObj fs) ''definitions'')))])"
| "walk path node = Inr []"
  by pat_completeness auto

termination
proof (relation "measure (\<lambda>(_, v). size v)", goal_cases)
  case (2 path fs props bs items np n p)
  then have "size p < size (JObj fs)" using size_sub [of n p fs "''properties''"] by (simp split: if_splits)
  then show ?case by simp
next
  case (3 path fs props bs items ib i b)
  then have "size b < size (JObj fs)" using size_branch [of b fs] by (auto dest: in_set_enumerate_eq [THEN iffD1] simp: in_set_conv_nth enumerate_eq_zip set_zip)
  then show ?case by simp
next
  case (4 path fs props bs items)
  then show ?case using size_get [of fs "''items''"] by simp
next
  case (5 path fs props bs items nd n d)
  then show ?case using size_sub [of n d fs "''$defs''"] by simp
next
  case (6 path fs props bs items nd n d)
  then show ?case using size_sub [of n d fs "''definitions''"] by simp
qed simp

declare walk.simps [simp del]

definition validate_strict_compliance :: "json \<Rightarrow> py_error + violation list" where
  "validate_strict_compliance schema = walk ''$'' schema"

section \<open>Idempotence fails on nested unions\<close>

text \<open>A required property whose type array sits in a union of one branch.\<close>

definition nested_null_schema :: json where
  "nested_null_schema = JObj [(''type'', JStr ''object''),
     (''properties'', JObj [(''area'', JObj [(''anyOf'', JArr [JObj [(''type'', JArr [JStr ''string'', JStr ''null''])]])])]),
     (''required'', JArr [JStr ''area''])]"

lemma not_idempotent:
  "\<exists>t u. to_strict_schema nested_null_schema = Inr t \<and> to_strict_schema t = Inr u \<and> u \<noteq> t"
proof -
  let ?once = "to_strict_schema nested_null_schema"
  have "case ?once of Inl e \<Rightarrow> False | Inr t \<Rightarrow> (case to_strict_schema t of Inl e \<Rightarrow> False | Inr u \<Rightarrow> u \<noteq> t)" by code_simp
  then show ?thesis by (auto split: sum.splits)
qed

section \<open>Well-formed schemas and strict schemas\<close>

text \<open>The positions of a node where a schema stands.\<close>

definition subschemas :: "(string \<rightharpoonup> json) \<Rightarrow> json set" where
  "subschemas m =
     {p. \<exists>ps n. m ''properties'' = Some (JObj ps) \<and> (n, p) \<in> set ps}
     \<union> {b. \<exists>bs. m ''anyOf'' = Some (JArr bs) \<and> b \<in> set bs}
     \<union> {i. m ''items'' = Some i}
     \<union> {d. \<exists>key \<in> {''$defs'', ''definitions''}. \<exists>ds n. m key = Some (JObj ds) \<and> (n, d) \<in> set ds}"

definition object_map :: "(string \<rightharpoonup> json) \<Rightarrow> bool" where
  "object_map m \<longleftrightarrow> m ''type'' = Some (JStr ''object'') \<or> (\<exists>ps. m ''properties'' = Some (JObj ps))"

lemma is_object_map: "is_object_node fs \<longleftrightarrow> object_map (map_of fs)"
  unfolding is_object_node_def object_map_def
  by (cases "map_of fs ''properties''"; cases "the (map_of fs ''properties'')") simp_all

text \<open>
  A schema is well formed when its keywords have the JSON types of the standard and the keywords of
  objects stand at object nodes only.
\<close>

definition plain_node :: "fields \<Rightarrow> bool" where
  "plain_node fs \<longleftrightarrow> distinct (map fst fs)
     \<and> (\<forall>v. map_of fs ''properties'' = Some v \<longrightarrow> is_dict v)
     \<and> (\<forall>v. map_of fs ''anyOf'' = Some v \<longrightarrow> (\<exists>bs. v = JArr bs \<and> list_all is_dict bs))
     \<and> (\<forall>v. map_of fs ''required'' = Some v \<longrightarrow> (\<exists>ns. v = JArr (map JStr ns)))
     \<and> (\<forall>v. map_of fs ''description'' = Some v \<longrightarrow> (\<exists>d. v = JStr d))
     \<and> (dict_has fs ''required'' \<or> dict_has fs ''additionalProperties'' \<longrightarrow> is_object_node fs)"

inductive plain_schema :: "json \<Rightarrow> bool" where
  plain_leaf: "\<not> is_dict v \<Longrightarrow> plain_schema v"
| plain_dict: "plain_node fs \<Longrightarrow> \<forall>v \<in> subschemas (map_of fs). plain_schema v \<Longrightarrow> plain_schema (JObj fs)"

inductive_simps plain_JObj: "plain_schema (JObj fs)"

text \<open>The strict form of a node, and of a schema.\<close>

definition closed_object :: "bool \<Rightarrow> (string \<rightharpoonup> json) \<Rightarrow> bool" where
  "closed_object at_root m \<longleftrightarrow>
     (\<exists>ps. (m ''properties'' = Some (JObj ps) \<or> m ''properties'' = None \<and> ps = []) \<and> (ps \<noteq> [] \<or> at_root)
       \<and> m ''required'' = Some (JArr (map (JStr \<circ> fst) ps)) \<and> m ''additionalProperties'' = Some (JBool False))"

definition strict_node :: "bool \<Rightarrow> (string \<rightharpoonup> json) \<Rightarrow> bool" where
  "strict_node at_root m \<longleftrightarrow>
     (\<forall>key v. m key = Some v \<longrightarrow> \<not> dropped (key, v))
     \<and> (object_map m \<longrightarrow> closed_object at_root m)
     \<and> (\<forall>bs b. m ''anyOf'' = Some (JArr bs) \<and> b \<in> set bs \<and> is_dict b \<longrightarrow> has_branch_selector b)
     \<and> (\<forall>i. m ''items'' = Some i \<and> is_dict i \<longrightarrow> has_branch_selector i)"

inductive strict :: "bool \<Rightarrow> json \<Rightarrow> bool" where
  strict_leaf: "\<not> is_dict v \<Longrightarrow> strict at_root v"
| strict_dict: "strict_node at_root (map_of fs) \<Longrightarrow> \<forall>v \<in> subschemas (map_of fs). strict False v \<Longrightarrow> strict at_root (JObj fs)"

inductive_simps strict_JObj: "strict at_root (JObj fs)"

section \<open>Strict schemas pass the checker\<close>

lemma in_order_Nil:
  assumes "\<And>r. r \<in> set rs \<Longrightarrow> r = Inr []"
  shows "in_order rs = Inr []"
proof -
  have "rs = replicate (length rs) (Inr [])" by (rule replicate_eqI) (auto dest: assms)
  moreover have "each id (replicate n (Inr [])) = Inr (replicate n [])" for n by (induction n) simp_all
  ultimately have "each id rs = Inr (replicate (length rs) [])" by metis
  then show ?thesis by (simp add: in_order_def)
qed

lemma dict_has_map: "dict_has fs key \<longleftrightarrow> map_of fs key \<noteq> None"
  by (simp add: dict_has_def map_of_eq_None_iff)

lemma own_strict: "strict_node at_root (map_of fs) \<Longrightarrow> own_violations path fs = []"
proof -
  assume s: "strict_node at_root (map_of fs)"
  then have "\<not> dict_has fs key" if "key \<in> set banned_keywords" for key
    using that by (cases "map_of fs key") (auto simp: strict_node_def dropped_def dict_has_map)
  moreover have "\<not> is_unsupported_format ''format'' v" if "map_of fs ''format'' = Some v" for v
    using s that unfolding strict_node_def dropped_def by fastforce
  ultimately show ?thesis by (auto simp: own_violations_def filter_empty_conv split: option.splits)
qed

lemma each_Inr_map: "each (\<lambda>x. Inr (f x)) xs = Inr (map f xs)"
  by (induction xs) auto

lemma object_strict:
  assumes "closed_object at_root (map_of fs)" "at_root \<longrightarrow> path = ''$''"
  shows "object_violations path fs = Inr []"
proof -
  obtain ps where ps: "map_of fs ''properties'' = Some (JObj ps) \<or> map_of fs ''properties'' = None \<and> ps = []"
    "ps \<noteq> [] \<or> at_root" "map_of fs ''required'' = Some (JArr (map (JStr \<circ> fst) ps))"
    "map_of fs ''additionalProperties'' = Some (JBool False)"
    using assms(1) unfolding closed_object_def by blast
  have p: "get_or fs ''properties'' (JObj []) = JObj ps" "truthy (field_or_null (JObj fs) ''properties'') \<longleftrightarrow> ps \<noteq> []"
    using ps(1) by (auto simp: get_or_def field_or_null_def)
  have r: "get_or fs ''required'' (JArr []) = JArr (map (JStr \<circ> fst) ps)"
    using ps(3) by (auto simp: get_or_def field_or_null_def)
  have "missing_required (JArr (map (JStr \<circ> fst) ps)) ps = Inr []"
    by (auto simp: missing_required_def each_Inr_map filter_empty_conv image_image)
  moreover have "unknown_required (JArr (map (JStr \<circ> fst) ps)) ps = Inr []"
    by (auto simp: unknown_required_def list_ex_iff filter_empty_conv dict_has_def)
  ultimately show ?thesis using p ps(2,4) assms(2) by (auto simp: object_violations_def r)
qed

lemma strict_walk: "strict at_root j \<Longrightarrow> at_root \<longrightarrow> path = ''$'' \<Longrightarrow> walk path j = Inr []"
proof (induction at_root j arbitrary: path rule: strict.induct)
  case (strict_leaf v)
  then show ?case by (cases v) (simp_all add: walk.simps)
next
  case (strict_dict at_root fs)
  let ?m = "map_of fs"
  have sub: "walk path' v = Inr []" if "v \<in> subschemas ?m" for v path'
    using strict_dict.IH that by blast
  have props: "(n, p) \<in> set (fields_of (field_or_null (JObj fs) ''properties'')) \<Longrightarrow> p \<in> subschemas ?m" for n p
    by (cases "?m ''properties''"; cases "the (?m ''properties'')") (auto simp: field_or_null_def subschemas_def)
  have defs: "(n, p) \<in> set (fields_of (field_or_null (JObj fs) key)) \<Longrightarrow> key \<in> {''$defs'', ''definitions''} \<Longrightarrow> p \<in> subschemas ?m" for n p key
    by (cases "?m key"; cases "the (?m key)") (auto simp: field_or_null_def subschemas_def)
  have branch: "b \<in> set (union_branches fs) \<Longrightarrow> b \<in> subschemas ?m \<and> (is_dict b \<longrightarrow> has_branch_selector b)" for b
    using strict_dict.hyps unfolding strict_node_def
    by (cases "?m ''anyOf''"; cases "the (?m ''anyOf'')") (auto simp: union_branches_def subschemas_def)
  have items: "is_dict (field_or_null (JObj fs) ''items'') \<Longrightarrow>
      field_or_null (JObj fs) ''items'' \<in> subschemas ?m \<and> has_branch_selector (field_or_null (JObj fs) ''items'')"
    using strict_dict.hyps unfolding strict_node_def
    by (cases "?m ''items''") (auto simp: field_or_null_def subschemas_def)
  have obj: "is_object_node fs \<Longrightarrow> object_violations path fs = Inr []"
    using strict_dict.hyps strict_dict.prems by (auto simp: strict_node_def is_object_map intro: object_strict)
  have own: "own_violations path fs = []" using strict_dict.hyps by (rule own_strict)
  have "i < length (union_branches fs) \<Longrightarrow> union_branches fs ! i \<in> subschemas ?m
      \<and> (is_dict (union_branches fs ! i) \<longrightarrow> has_branch_selector (union_branches fs ! i))" for i
    using branch by simp
  then show ?case unfolding walk.simps Let_def
    by (intro in_order_Nil) (auto simp: own obj items in_set_enumerate_eq intro!: in_order_Nil sub dest: props defs
        simp del: fields_of.simps)
qed

section \<open>Operations on strict nodes\<close>

declare map_of_dict_merge [simp]

lemma map_of_rev_distinct: "distinct (map fst e) \<Longrightarrow> map_of (rev e) = map_of e"
  by (intro map_of_inject_set [THEN iffD2]) (simp_all add: rev_map [symmetric])

text \<open>The keywords whose values the strict form restricts.\<close>

definition strict_keys :: "string set" where
  "strict_keys = {''type'', ''properties'', ''required'', ''additionalProperties'', ''anyOf'', ''items'', ''$defs'', ''definitions''}"

lemma strict_agree:
  assumes "strict_node at_root m" "\<And>key. key \<in> strict_keys \<Longrightarrow> m' key = m key"
    and "\<And>key v. m' key = Some v \<Longrightarrow> \<not> dropped (key, v)"
  shows "strict_node at_root m'" "subschemas m' = subschemas m"
proof -
  have e: "m' ''type'' = m ''type''" "m' ''properties'' = m ''properties''" "m' ''required'' = m ''required''"
    "m' ''additionalProperties'' = m ''additionalProperties''" "m' ''anyOf'' = m ''anyOf''" "m' ''items'' = m ''items''"
    "m' ''$defs'' = m ''$defs''" "m' ''definitions'' = m ''definitions''" by (simp_all add: assms(2) strict_keys_def)
  show "strict_node at_root m'"
    using assms(1,3) unfolding strict_node_def object_map_def closed_object_def e by blast
  show "subschemas m' = subschemas m" by (simp add: subschemas_def e)
qed

lemma meta_keys: "key \<in> set meta_keywords \<Longrightarrow> key \<notin> strict_keys"
  by (auto simp: meta_keywords_def strict_keys_def)

lemma subschemas_add: "subschemas (m ++ m') \<subseteq> subschemas m \<union> subschemas m'"
  unfolding subschemas_def map_add_def by (auto split: option.splits)

text \<open>What the value keywords of a property are besides strict: object keywords at object nodes only.\<close>

definition tidy :: "(string \<rightharpoonup> json) \<Rightarrow> bool" where
  "tidy m \<longleftrightarrow> (\<forall>v. m ''properties'' = Some v \<longrightarrow> is_dict v) \<and> (\<forall>v. m ''anyOf'' = Some v \<longrightarrow> (\<exists>bs. v = JArr bs))
     \<and> (m ''required'' \<noteq> None \<or> m ''additionalProperties'' \<noteq> None \<longrightarrow> object_map m)"

definition neat :: "fields \<Rightarrow> bool" where
  "neat fs \<longleftrightarrow> distinct (map fst fs) \<and> tidy (map_of fs)"

lemma strict_merge:
  assumes "strict_node False b" "strict_node False v" "tidy v"
  shows "strict_node False (b ++ v)"
proof -
  have "closed_object False (b ++ v)" if obj: "object_map (b ++ v)"
  proof (cases "object_map v")
    case True
    with assms(2) have "closed_object False v" by (simp add: strict_node_def)
    then show ?thesis by (auto simp: closed_object_def map_add_def)
  next
    case False
    have "v ''properties'' = None"
    proof (cases "v ''properties''")
      case (Some p)
      with assms(3) have "is_dict p" by (simp add: tidy_def)
      with Some False show ?thesis by (cases p) (auto simp: object_map_def)
    qed
    moreover have "v ''required'' = None" "v ''additionalProperties'' = None" using False assms(3) by (auto simp: tidy_def)
    ultimately have same: "(b ++ v) key = b key" if "key \<in> {''properties'', ''required'', ''additionalProperties''}" for key
      using that by (auto simp: map_add_def)
    have "object_map b"
      using obj False same by (auto simp: object_map_def map_add_def split: option.splits)
    with assms(1) have "closed_object False b" by (simp add: strict_node_def)
    then show ?thesis by (simp add: closed_object_def same)
  qed
  with assms(1,2) show ?thesis
    unfolding strict_node_def by (auto simp: map_add_def split: option.splits)
qed

lemma strict_typed:
  assumes "strict_node False m" "t \<noteq> JStr ''object''" "m ''type'' = None"
  shows "strict_node False (m(''type'' \<mapsto> t))" "subschemas (m(''type'' \<mapsto> t)) = subschemas m"
proof -
  let ?m = "m(''type'' \<mapsto> t)"
  have e: "?m ''properties'' = m ''properties''" "?m ''required'' = m ''required''"
    "?m ''additionalProperties'' = m ''additionalProperties''" "?m ''anyOf'' = m ''anyOf''" "?m ''items'' = m ''items''"
    "?m ''$defs'' = m ''$defs''" "?m ''definitions'' = m ''definitions''" by simp_all
  have "\<not> dropped (''type'', t)" by (simp add: dropped_def banned_keywords_def is_unsupported_format_def)
  then have "\<forall>key v. ?m key = Some v \<longrightarrow> \<not> dropped (key, v)" using assms(1) by (simp add: strict_node_def)
  moreover have "object_map ?m \<longrightarrow> object_map m" using assms(2) unfolding object_map_def e by simp
  ultimately show "strict_node False ?m"
    using assms(1) unfolding strict_node_def closed_object_def e by blast
  show "subschemas ?m = subschemas m" by (simp add: subschemas_def)
qed

lemma enum_type_scalar: "enum_member_type values = Some t \<Longrightarrow> t \<noteq> JStr ''object''"
proof -
  have types: "member_type v = Some s \<Longrightarrow> s \<noteq> ''object''" for v s by (cases v) auto
  assume "enum_member_type values = Some t"
  then obtain vs where vs: "vs \<noteq> []" "\<not> list_ex (\<lambda>v. member_type v = None) vs"
    and t: "t = (let types = dedupe (List.map_filter member_type vs) in
          if length types = 1 then JStr (hd types) else if set types \<subseteq> {''integer'', ''number''} then JStr ''number''
          else JArr (map JStr types))"
    by (cases "values") (auto simp: enum_member_type_def Let_def split: if_splits)
  let ?types = "dedupe (List.map_filter member_type vs)"
  have "hd ?types \<noteq> ''object''" if "length ?types = 1"
  proof -
    from that have "?types \<noteq> []" by auto
    then have "hd ?types \<in> set (List.map_filter member_type vs)" using hd_in_set by fastforce
    then obtain v where "member_type v = Some (hd ?types)" by (auto simp: List.map_filter_def)
    then show ?thesis by (rule types)
  qed
  with t show ?thesis by (auto simp: Let_def split: if_splits)
qed

lemma no_selector_type: "\<not> has_branch_selector (JObj fs) \<Longrightarrow> map_of fs ''type'' = None"
  by (auto simp: has_branch_selector_def branch_selectors_def dict_has_map)

lemma selector_typed: "map_of fs ''type'' = Some t \<Longrightarrow> has_branch_selector (JObj fs)"
  by (simp add: has_branch_selector_def branch_selectors_def dict_has_map)

lemma normalize_strict:
  assumes "normalize_anyof_branch b = Some c" "strict False b"
  shows "strict False c" "is_dict c \<longrightarrow> has_branch_selector c"
proof -
  show "strict False c" "is_dict c \<longrightarrow> has_branch_selector c"
  proof (atomize (full), cases "\<not> is_dict b \<or> has_branch_selector b")
    case True
    with assms show "strict False c \<and> (is_dict c \<longrightarrow> has_branch_selector c)" by (auto simp: normalize_anyof_branch_def)
  next
    case False
    then obtain fs where fs: "b = JObj fs" "\<not> has_branch_selector (JObj fs)" by (cases b) auto
    with assms(1) obtain e t where e: "enum_member_type e = Some t" "c = JObj (dict_set fs ''type'' t)"
      by (auto simp: normalize_anyof_branch_def split: option.splits bind_splits)
    have "strict_node False (map_of fs)" "\<forall>v \<in> subschemas (map_of fs). strict False v"
      using assms(2) fs(1) by (simp_all add: strict_JObj)
    with strict_typed [where m = "map_of fs" and t = t] enum_type_scalar [OF e(1)] no_selector_type [OF fs(2)]
    show "strict False c \<and> (is_dict c \<longrightarrow> has_branch_selector c)"
      by (simp add: e(2) strict_JObj selector_typed)
  qed
qed

lemma clean_strict:
  "(\<And>b. b \<in> set bs \<Longrightarrow> strict False b) \<Longrightarrow> c \<in> set (clean_anyof bs) \<Longrightarrow> strict False c \<and> (is_dict c \<longrightarrow> has_branch_selector c)"
  unfolding clean_anyof_def List.map_filter_def using normalize_strict by auto

lemma typed_items_strict:
  assumes "strict False i"
  shows "strict False (typed_items i) \<and> (is_dict (typed_items i) \<longrightarrow> has_branch_selector (typed_items i))"
proof (cases "is_dict i \<and> \<not> has_branch_selector i")
  case True
  then obtain fs where fs: "i = JObj fs" "\<not> has_branch_selector (JObj fs)" by (cases i) auto
  with assms strict_typed [of "map_of fs" "JStr ''string''"] no_selector_type [OF fs(2)]
  show ?thesis by (simp add: typed_items_def strict_JObj selector_typed)
next
  case False
  with assms show ?thesis by (auto simp: typed_items_def)
qed

lemma null_branch_strict: "strict False null_branch" "has_branch_selector null_branch"
  by (auto simp: null_branch_def strict_JObj strict_node_def object_map_def subschemas_def has_branch_selector_def
      branch_selectors_def dict_has_def dropped_def banned_keywords_def is_unsupported_format_def)

lemma strict_union:
  assumes "strict_node r m" "\<forall>v \<in> subschemas m. strict False v"
    and "\<And>b. b \<in> set bs \<Longrightarrow> strict False b \<and> (is_dict b \<longrightarrow> has_branch_selector b)"
  shows "strict_node r (m(''anyOf'' \<mapsto> JArr bs))" "\<forall>v \<in> subschemas (m(''anyOf'' \<mapsto> JArr bs)). strict False v"
proof -
  show "strict_node r (m(''anyOf'' \<mapsto> JArr bs))"
    using assms(1,3) by (auto simp: strict_node_def object_map_def closed_object_def dropped_def banned_keywords_def
        is_unsupported_format_def)
  have "subschemas (m(''anyOf'' \<mapsto> JArr bs)) \<subseteq> subschemas m \<union> set bs" by (auto simp: subschemas_def)
  with assms(2,3) show "\<forall>v \<in> subschemas (m(''anyOf'' \<mapsto> JArr bs)). strict False v" by blast
qed

section \<open>The transformation makes schemas strict\<close>

text \<open>One keyword of a node, as \<open>_transform\<close> treats it.\<close>

definition transform_item :: "fields \<Rightarrow> string list \<Rightarrow> string \<times> json \<Rightarrow> py_error + fields" where
  "transform_item fs req = (\<lambda>(key, v).
     if key = ''properties'' \<and> is_dict v
     then and_then (each (\<lambda>(n, p). and_then (transform_property req n p) (\<lambda>p'. Inr (n, p'))) (fields_of v))
            (\<lambda>ps. Inr [(key, JObj ps)])
     else if key \<in> {''required'', ''additionalProperties''} \<and> is_object_node fs then Inr []
     else if key = ''items'' then and_then (transform False v) (\<lambda>i. Inr [(key, typed_items i)])
     else if key \<in> {''$defs'', ''definitions''} \<and> is_dict v
     then and_then (each (\<lambda>(n, d). and_then (transform False d) (\<lambda>d'. Inr (n, d'))) (fields_of v))
            (\<lambda>ds. Inr [(key, JObj ds)])
     else (case v of
         JArr bs \<Rightarrow>
           if key = ''anyOf'' then and_then (each (transform False) bs) (\<lambda>bs'. Inr [(key, JArr (clean_anyof bs'))])
           else Inr [(key, v)]
       | _ \<Rightarrow> Inr [(key, v)]))"

lemma transform_dict:
  "transform at_root (JObj fs) =
     and_then (required_names fs) (\<lambda>req.
     and_then (each (transform_item fs req) (filter (\<lambda>kv. \<not> dropped kv) fs)) (\<lambda>items.
       if is_object_node fs then finish_object at_root (concat items) else Inr (JObj (concat items))))"
  by (subst transform.simps) (simp add: transform_item_def)

lemma transform_leaf: "\<not> is_dict v \<Longrightarrow> transform at_root v = Inr v" "\<not> is_dict v \<Longrightarrow> transform_property req n v = Inr v"
  by (cases v; simp add: transform.simps transform_property.simps)+

text \<open>What is to be shown of a schema, and what a transformed keyword looks like.\<close>

definition made_strict :: "json \<Rightarrow> bool" where
  "made_strict j \<longleftrightarrow>
     (\<forall>r. \<exists>t. transform r j = Inr t \<and> strict r t \<and> (is_dict j \<longrightarrow> is_dict t \<and> neat (fields_of t)))
     \<and> (\<forall>req n. \<exists>t. transform_property req n j = Inr t \<and> strict False t)"

definition closed_key :: "fields \<Rightarrow> string \<Rightarrow> bool" where
  "closed_key fs key \<longleftrightarrow> key \<in> {''required'', ''additionalProperties''} \<and> is_object_node fs"

definition keyword_value :: "string \<Rightarrow> json \<Rightarrow> json \<Rightarrow> bool" where
  "keyword_value key v v' \<longleftrightarrow>
     (if key \<in> {''properties'', ''$defs'', ''definitions''}
      then (case v of JObj ps \<Rightarrow> (\<exists>ps'. v' = JObj ps' \<and> map fst ps' = map fst ps \<and> (\<forall>p \<in> set ps'. strict False (snd p)))
            | _ \<Rightarrow> v' = v)
      else if key = ''items'' then strict False v' \<and> (is_dict v' \<longrightarrow> has_branch_selector v')
      else if key = ''anyOf''
      then (case v of JArr bs \<Rightarrow> (\<exists>bs'. v' = JArr bs' \<and> (\<forall>b \<in> set bs'. strict False b \<and> (is_dict b \<longrightarrow> has_branch_selector b)))
            | _ \<Rightarrow> v' = v)
      else v' = v)"

definition keyword_strict :: "fields \<Rightarrow> string \<times> json \<Rightarrow> fields \<Rightarrow> bool" where
  "keyword_strict fs kv out \<longleftrightarrow>
     (if closed_key fs (fst kv) then out = [] else \<exists>v'. out = [(fst kv, v')] \<and> keyword_value (fst kv) (snd kv) v')"

lemma each_made:
  assumes "\<And>n p. (n, p) \<in> set ps \<Longrightarrow> \<exists>p'. f n p = Inr p' \<and> strict False p'"
  shows "\<exists>ps'. each (\<lambda>(n, p). and_then (f n p) (\<lambda>p'. Inr (n, p'))) ps = Inr ps'
    \<and> map fst ps' = map fst ps \<and> (\<forall>p \<in> set ps'. strict False (snd p))"
  using assms
proof (induction ps)
  case (Cons np ps)
  obtain n p where np: "np = (n, p)" by fastforce
  obtain ps' where ps': "each (\<lambda>(n, p). and_then (f n p) (\<lambda>p'. Inr (n, p'))) ps = Inr ps'" "map fst ps' = map fst ps"
    "\<forall>p \<in> set ps'. strict False (snd p)" using Cons by force
  obtain p' where "f n p = Inr p'" "strict False p'" using Cons.prems [of n p] np by auto
  with ps' np show ?case by (intro exI [of _ "(n, p') # ps'"]) simp
qed simp

lemma each_branches:
  assumes "\<And>b. b \<in> set bs \<Longrightarrow> made_strict b"
  shows "\<exists>bs'. each (transform r) bs = Inr bs' \<and> list_all2 (\<lambda>b b'. strict r b'
    \<and> (is_dict b \<longrightarrow> is_dict b' \<and> neat (fields_of b'))) bs bs'"
  using assms
proof (induction bs)
  case (Cons b bs)
  then obtain bs' where "each (transform r) bs = Inr bs'"
    "list_all2 (\<lambda>b b'. strict r b' \<and> (is_dict b \<longrightarrow> is_dict b' \<and> neat (fields_of b'))) bs bs'" by auto
  moreover from Cons.prems [of b] obtain b' where
    "transform r b = Inr b' \<and> strict r b' \<and> (is_dict b \<longrightarrow> is_dict b' \<and> neat (fields_of b'))"
    unfolding made_strict_def by (meson list.set_intros(1))
  ultimately show ?case by (intro exI [of _ "b' # bs'"]) simp
qed simp

lemma item_strict:
  assumes "distinct (map fst fs)" "(key, v) \<in> set fs" "\<And>s. s \<in> subschemas (map_of fs) \<Longrightarrow> made_strict s"
  shows "\<exists>out. transform_item fs req (key, v) = Inr out \<and> keyword_strict fs (key, v) out"
proof -
  have m: "map_of fs key = Some v" using assms(1,2) by simp
  have cases6: "(A \<Longrightarrow> P) \<Longrightarrow> (B \<Longrightarrow> P) \<Longrightarrow> (C \<Longrightarrow> P) \<Longrightarrow> (D \<Longrightarrow> P) \<Longrightarrow> (E \<Longrightarrow> P)
      \<Longrightarrow> (\<not> A \<Longrightarrow> \<not> B \<Longrightarrow> \<not> C \<Longrightarrow> \<not> D \<Longrightarrow> \<not> E \<Longrightarrow> P) \<Longrightarrow> P" for A B C D E P by blast
  show ?thesis
  proof (rule cases6 [of "key = ''properties'' \<and> is_dict v" _ "key \<in> {''required'', ''additionalProperties''} \<and> is_object_node fs"
        "key = ''items''" "key \<in> {''$defs'', ''definitions''} \<and> is_dict v" "key = ''anyOf'' \<and> (\<exists>bs. v = JArr bs)"])
    assume props: "key = ''properties'' \<and> is_dict v"
    then obtain ps where v: "v = JObj ps" by (cases v) auto
    have "made_strict p" if "(n, p) \<in> set ps" for n p
      by (rule assms(3)) (use m props v that in \<open>auto simp: subschemas_def\<close>)
    then have "\<exists>p'. transform_property req n p = Inr p' \<and> strict False p'" if "(n, p) \<in> set ps" for n p
      using that unfolding made_strict_def by blast
    from each_made [of ps "transform_property req", OF this] obtain ps' where
      "each (\<lambda>(n, p). and_then (transform_property req n p) (\<lambda>p'. Inr (n, p'))) ps = Inr ps'"
      "map fst ps' = map fst ps" "\<forall>p \<in> set ps'. strict False (snd p)" by blast
    with props v show ?thesis by (simp add: transform_item_def keyword_strict_def keyword_value_def closed_key_def)
  next
    assume closed: "key \<in> {''required'', ''additionalProperties''} \<and> is_object_node fs"
    then show ?thesis by (auto simp: transform_item_def keyword_strict_def keyword_value_def closed_key_def)
  next
    assume items: "key = ''items''"
    have "made_strict v" by (rule assms(3)) (use m items in \<open>auto simp: subschemas_def\<close>)
    then obtain i where "transform False v = Inr i" "strict False i" unfolding made_strict_def by meson
    with items typed_items_strict [of i] show ?thesis by (simp add: transform_item_def keyword_strict_def keyword_value_def closed_key_def)
  next
    assume defs: "key \<in> {''$defs'', ''definitions''} \<and> is_dict v"
    then obtain ds where v: "v = JObj ds" by (cases v) auto
    have "made_strict d" if "(n, d) \<in> set ds" for n d
      by (rule assms(3)) (use m defs v that in \<open>auto simp: subschemas_def\<close>)
    then have "\<exists>d'. transform False d = Inr d' \<and> strict False d'" if "(n, d) \<in> set ds" for n d
      using that unfolding made_strict_def by blast
    then have "\<exists>ds'. each (\<lambda>(n, d). and_then (transform False d) (\<lambda>d'. Inr (n, d'))) ds = Inr ds'
      \<and> map fst ds' = map fst ds \<and> (\<forall>d \<in> set ds'. strict False (snd d))" by (rule each_made)
    then obtain ds' where "each (\<lambda>(n, d). and_then (transform False d) (\<lambda>d'. Inr (n, d'))) ds = Inr ds'"
      "map fst ds' = map fst ds" "\<forall>d \<in> set ds'. strict False (snd d)" by blast
    with defs v show ?thesis by (auto simp: transform_item_def keyword_strict_def keyword_value_def closed_key_def)
  next
    assume "key = ''anyOf'' \<and> (\<exists>bs. v = JArr bs)"
    then obtain bs where union: "key = ''anyOf''" "v = JArr bs" by blast
    have "made_strict b" if "b \<in> set bs" for b
      by (rule assms(3)) (use m union that in \<open>auto simp: subschemas_def\<close>)
    from each_branches [of bs False, OF this] obtain bs' where bs': "each (transform False) bs = Inr bs'"
      "list_all2 (\<lambda>b b'. strict False b' \<and> (is_dict b \<longrightarrow> is_dict b' \<and> neat (fields_of b'))) bs bs'" by blast
    then have "\<And>b. b \<in> set bs' \<Longrightarrow> strict False b" by (auto simp: list_all2_conv_all_nth in_set_conv_nth)
    from clean_strict [OF this] bs'(1) union show ?thesis by (simp add: transform_item_def keyword_strict_def keyword_value_def closed_key_def)
  next
    assume other: "\<not> (key = ''properties'' \<and> is_dict v)" "\<not> (key \<in> {''required'', ''additionalProperties''} \<and> is_object_node fs)"
      "key \<noteq> ''items''" "\<not> (key \<in> {''$defs'', ''definitions''} \<and> is_dict v)" "\<not> (key = ''anyOf'' \<and> (\<exists>bs. v = JArr bs))"
    then show ?thesis by (cases v) (auto simp: transform_item_def keyword_strict_def keyword_value_def closed_key_def)
  qed
qed

lemma each_related:
  "(\<And>x. x \<in> set xs \<Longrightarrow> \<exists>y. f x = Inr y \<and> R x y) \<Longrightarrow> \<exists>ys. each f xs = Inr ys \<and> list_all2 R xs ys"
proof (induction xs)
  case (Cons x xs)
  then obtain y ys where "f x = Inr y" "R x y" "each f xs = Inr ys" "list_all2 R xs ys" by (meson list.set_intros)
  then show ?case by simp
qed simp

lemma strings_required: "map_of fs ''required'' = Some v \<Longrightarrow> v = JArr (map JStr ns) \<Longrightarrow> \<exists>req. required_names fs = Inr req"
  by (simp add: required_names_def list_ex_iff)

lemma keyword_key: "keyword_strict fs (k, w) out \<Longrightarrow> k \<noteq> key \<or> closed_key fs k \<Longrightarrow> map_of out key = None"
  by (auto simp: keyword_strict_def split: if_splits)

lemma out_none:
  "list_all2 (keyword_strict fs) kvs items \<Longrightarrow> map_of kvs key = None \<or> closed_key fs key \<Longrightarrow> map_of (concat items) key = None"
proof (induction kvs items rule: list_all2_induct)
  case (Cons kv kvs out items)
  obtain k w where kv: "kv = (k, w)" by fastforce
  have "map_of out key = None"
    by (rule keyword_key [of fs k w]) (use Cons.hyps(1) Cons.prems kv in \<open>auto split: if_splits\<close>)
  moreover have "map_of (concat items) key = None" using Cons.IH Cons.prems kv by (auto split: if_splits)
  ultimately show ?case by (simp add: map_add_def)
qed simp

lemma out_some:
  "list_all2 (keyword_strict fs) kvs items \<Longrightarrow> map_of kvs key = Some v \<Longrightarrow> \<not> closed_key fs key
   \<Longrightarrow> \<exists>v'. map_of (concat items) key = Some v' \<and> keyword_value key v v'"
proof (induction kvs items rule: list_all2_induct)
  case (Cons kv kvs out items)
  obtain k w where kv: "kv = (k, w)" by fastforce
  show ?case
  proof (cases "k = key")
    case True
    with Cons.prems kv have "w = v" by simp
    with Cons.hyps(1) Cons.prems kv True show ?thesis by (auto simp: keyword_strict_def map_add_def)
  next
    case False
    with keyword_key [of fs k w out key] Cons.hyps(1) kv have "map_of out key = None" by blast
    with Cons False kv show ?thesis by (simp add: map_add_def)
  qed
qed simp

lemma out_distinct: "list_all2 (keyword_strict fs) kvs items \<Longrightarrow> distinct (map fst kvs) \<Longrightarrow> distinct (map fst (concat items))"
proof (induction kvs items rule: list_all2_induct)
  case (Cons kv kvs out items)
  have "out = [] \<or> (\<exists>v'. out = [(fst kv, v')])" using Cons.hyps(1) by (auto simp: keyword_strict_def split: if_splits)
  have "map_of (concat items) (fst kv) = None"
    using out_none [OF Cons.hyps(2), of "fst kv"] Cons.prems by (simp add: map_of_eq_None_iff)
  then have "fst kv \<notin> fst ` set (concat items)" by (rule map_of_eq_None_iff [THEN iffD1])
  with \<open>out = [] \<or> (\<exists>v'. out = [(fst kv, v')])\<close> show ?case using Cons.IH Cons.prems by (elim disjE exE) simp_all
qed simp

text \<open>The items of a plain node, transformed.\<close>

lemma node_items:
  assumes "plain_node fs" "\<And>s. s \<in> subschemas (map_of fs) \<Longrightarrow> made_strict s"
  obtains req items where "required_names fs = Inr req"
    "each (transform_item fs req) (filter (\<lambda>kv. \<not> dropped kv) fs) = Inr items"
    "\<And>key. map_of (concat items) key = None \<longleftrightarrow> map_of fs key = None \<or> dropped (key, the (map_of fs key)) \<or> closed_key fs key"
    "\<And>key v'. map_of (concat items) key = Some v' \<Longrightarrow>
       \<exists>v. map_of fs key = Some v \<and> \<not> dropped (key, v) \<and> \<not> closed_key fs key \<and> keyword_value key v v'"
    "distinct (map fst (concat items))"
proof -
  have dist: "distinct (map fst fs)" using assms(1) by (simp add: plain_node_def)
  let ?kept = "filter (\<lambda>kv. \<not> dropped kv) fs"
  have "\<exists>req. required_names fs = Inr req"
  proof (cases "map_of fs ''required''")
    case None
    then show ?thesis by (simp add: required_names_def)
  next
    case (Some v)
    with assms(1) obtain ns where "v = JArr (map JStr ns)" by (auto simp: plain_node_def)
    with Some show ?thesis by (rule strings_required)
  qed
  then obtain req where req: "required_names fs = Inr req" by blast
  have "\<exists>out. transform_item fs req kv = Inr out \<and> keyword_strict fs kv out" if "kv \<in> set ?kept" for kv
    using item_strict [OF dist, of "fst kv" "snd kv" req] assms(2) that by simp
  from each_related [of ?kept "transform_item fs req" "keyword_strict fs", OF this] obtain items where
    items: "each (transform_item fs req) ?kept = Inr items" "list_all2 (keyword_strict fs) ?kept items" by blast
  have kept: "map_of ?kept key = (case map_of fs key of None \<Rightarrow> None | Some v \<Rightarrow> if dropped (key, v) then None else Some v)" for key
    using dist by (induction fs) (auto simp: map_of_eq_None_iff split: option.splits)
  have none: "map_of (concat items) key = None \<longleftrightarrow> map_of fs key = None \<or> dropped (key, the (map_of fs key)) \<or> closed_key fs key" for key
    using out_none [OF items(2), of key] out_some [OF items(2), of key] kept [of key]
    by (cases "map_of fs key"; cases "closed_key fs key") (auto split: if_splits)
  have some: "\<exists>v. map_of fs key = Some v \<and> \<not> dropped (key, v) \<and> \<not> closed_key fs key \<and> keyword_value key v v'"
    if "map_of (concat items) key = Some v'" for key v'
  proof -
    from that none [of key] obtain v where v: "map_of fs key = Some v" "\<not> dropped (key, v)" "\<not> closed_key fs key" by fastforce
    with kept [of key] out_some [OF items(2), of key v] that show ?thesis by auto
  qed
  have "distinct (map fst (concat items))" using out_distinct [OF items(2)] dist by (simp add: distinct_map_filter)
  from that [OF req items(1) none some this] show thesis .
qed

lemma kept_keys: "key \<in> strict_keys \<or> key = ''description'' \<Longrightarrow> \<not> dropped (key, v)"
  by (auto simp: strict_keys_def dropped_def banned_keywords_def is_unsupported_format_def)

lemma value_same:
  "keyword_value key v v' \<Longrightarrow> key \<notin> {''properties'', ''$defs'', ''definitions'', ''items'', ''anyOf''} \<Longrightarrow> v' = v"
  by (simp add: keyword_value_def)

lemma value_dict:
  "keyword_value key v v' \<Longrightarrow> key \<in> {''properties'', ''$defs'', ''definitions''} \<Longrightarrow> v' = JObj ps' \<Longrightarrow> \<forall>p \<in> set ps'. strict False (snd p)"
  "keyword_value key v v' \<Longrightarrow> key \<in> {''properties'', ''$defs'', ''definitions''} \<Longrightarrow> is_dict v' = is_dict v"
  unfolding keyword_value_def by (cases v; auto)+

lemma value_union:
  "keyword_value ''anyOf'' v v' \<Longrightarrow> v' = JArr bs' \<Longrightarrow> \<forall>b \<in> set bs'. strict False b \<and> (is_dict b \<longrightarrow> has_branch_selector b)"
  "keyword_value ''anyOf'' (JArr bs) v' \<Longrightarrow> \<exists>bs'. v' = JArr bs'"
  unfolding keyword_value_def by (cases v; auto)+

lemma value_items: "keyword_value ''items'' v v' \<Longrightarrow> strict False v' \<and> (is_dict v' \<longrightarrow> has_branch_selector v')"
  unfolding keyword_value_def by simp

lemma node_made:
  assumes "plain_node fs" "\<And>s. s \<in> subschemas (map_of fs) \<Longrightarrow> made_strict s"
  shows "\<exists>t. transform r (JObj fs) = Inr t \<and> strict r t \<and> is_dict t \<and> neat (fields_of t)"
proof -
  obtain req items where
    t: "required_names fs = Inr req" "each (transform_item fs req) (filter (\<lambda>kv. \<not> dropped kv) fs) = Inr items"
    and none: "\<And>key. map_of (concat items) key = None \<longleftrightarrow> map_of fs key = None \<or> dropped (key, the (map_of fs key)) \<or> closed_key fs key"
    and some: "\<And>key v'. map_of (concat items) key = Some v' \<Longrightarrow>
       \<exists>v. map_of fs key = Some v \<and> \<not> dropped (key, v) \<and> \<not> closed_key fs key \<and> keyword_value key v v'"
    and dist: "distinct (map fst (concat items))"
    using node_items [OF assms] by blast
  let ?out = "concat items" and ?m = "map_of (concat items)"
  have open_key: "\<not> closed_key fs key" if "key \<notin> {''required'', ''additionalProperties''}" for key
    using that by (simp add: closed_key_def)
  have out: "?m key = Some v' \<Longrightarrow> \<not> dropped (key, v')" for key v'
  proof -
    assume "?m key = Some v'"
    then obtain v where v: "\<not> dropped (key, v)" "keyword_value key v v'" using some by blast
    show ?thesis
    proof (cases "key = ''format''")
      case True
      with value_same [OF v(2)] v(1) show ?thesis by simp
    next
      case False
      with v(1) show ?thesis by (simp add: dropped_def is_unsupported_format_def)
    qed
  qed
  have same: "?m key = map_of fs key" if "key \<in> {''type'', ''description''}" for key
  proof (cases "map_of fs key")
    case None
    then show ?thesis using none [of key] by simp
  next
    case (Some v)
    have k: "key \<notin> {''properties'', ''$defs'', ''definitions'', ''items'', ''anyOf''}" "\<not> closed_key fs key"
      using that by (auto simp: closed_key_def)
    have "\<not> dropped (key, v)" using kept_keys that by (auto simp: strict_keys_def)
    with Some k(2) none [of key] obtain v' where "?m key = Some v'" by auto
    with some [of key v'] Some value_same k(1) show ?thesis by fastforce
  qed
  have props_dict: "is_dict v'" if "?m ''properties'' = Some v'" for v'
  proof -
    from some [OF that] obtain v where "map_of fs ''properties'' = Some v" "keyword_value ''properties'' v v'" by blast
    with assms(1) value_dict(2) [of "''properties''" v v'] show ?thesis by (simp add: plain_node_def)
  qed
  have props_kept: "?m ''properties'' = None \<longleftrightarrow> map_of fs ''properties'' = None"
    using none [of "''properties''"] kept_keys [of "''properties''"] open_key [of "''properties''"] by (simp add: strict_keys_def)
  have object: "object_map ?m \<longleftrightarrow> is_object_node fs"
  proof -
    have "(\<exists>ps. ?m ''properties'' = Some (JObj ps)) \<longleftrightarrow> ?m ''properties'' \<noteq> None"
      using props_dict by (metis is_dict.elims(2) not_Some_eq)
    moreover have "(\<exists>ps. map_of fs ''properties'' = Some (JObj ps)) \<longleftrightarrow> map_of fs ''properties'' \<noteq> None"
      using assms(1) unfolding plain_node_def by (metis is_dict.elims(2) not_Some_eq)
    ultimately show ?thesis using props_kept same [of "''type''"] by (simp add: is_object_map object_map_def)
  qed
  have union: "\<exists>bs. v' = JArr bs" if "?m ''anyOf'' = Some v'" for v'
  proof -
    from some [OF that] obtain v where v: "map_of fs ''anyOf'' = Some v" "keyword_value ''anyOf'' v v'" by blast
    with assms(1) obtain bs where "v = JArr bs" by (auto simp: plain_node_def)
    with v(2) value_union(2) show ?thesis by blast
  qed
  have sub: "\<forall>v \<in> subschemas ?m. strict False v"
  proof
    fix v assume "v \<in> subschemas ?m"
    then consider (fields) key ps n where "key \<in> {''properties'', ''$defs'', ''definitions''}" "?m key = Some (JObj ps)" "(n, v) \<in> set ps"
      | (branch) bs where "?m ''anyOf'' = Some (JArr bs)" "v \<in> set bs" | (items) "?m ''items'' = Some v"
      unfolding subschemas_def by blast
    then show "strict False v"
    proof cases
      case fields
      with some [OF fields(2)] value_dict(1) show ?thesis by fastforce
    next
      case branch
      with some [OF branch(1)] value_union(1) show ?thesis by blast
    next
      case items
      with some [OF items] value_items show ?thesis by blast
    qed
  qed
  have selectors: "\<forall>bs b. ?m ''anyOf'' = Some (JArr bs) \<and> b \<in> set bs \<and> is_dict b \<longrightarrow> has_branch_selector b"
    "\<forall>i. ?m ''items'' = Some i \<and> is_dict i \<longrightarrow> has_branch_selector i"
    using some value_union(1) value_items by blast+
  show ?thesis
  proof (cases "is_object_node fs")
    case False
    then have "?m ''required'' = None \<and> ?m ''additionalProperties'' = None"
      using assms(1) none by (auto simp: plain_node_def dict_has_map)
    then have "tidy ?m" using props_dict union by (simp add: tidy_def)
    moreover have "strict_node r ?m" using out object False selectors by (simp add: strict_node_def)
    ultimately show ?thesis using sub False dist by (auto simp: transform_dict t strict_JObj neat_def)
  next
    case True
    let ?props = "case ?m ''properties'' of None \<Rightarrow> JObj [] | Some p \<Rightarrow> p"
    obtain ps where ps: "?props = JObj ps" using props_dict by (cases "?m ''properties''"; cases "the (?m ''properties'')") auto
    show ?thesis
    proof (cases "ps = [] \<and> \<not> r")
      case free: True
      have "?m ''description'' = None \<or> (\<exists>d. ?m ''description'' = Some (JStr d))"
        using same [of "''description''"] assms(1) unfolding plain_node_def by (cases "map_of fs ''description''") simp_all
      then have "\<exists>d. (if truthy (field_or_null (JObj ?out) ''description'') then field_or_null (JObj ?out) ''description''
          else JStr ''Free-form object'') = JStr d" by (elim disjE exE) (simp_all add: field_or_null_def)
      then obtain d where d: "(if truthy (field_or_null (JObj ?out) ''description'') then field_or_null (JObj ?out) ''description''
          else JStr ''Free-form object'') = JStr d" by blast
      then have "transform r (JObj fs) = Inr (JObj [(''type'', JStr ''string''), (''description'', JStr (d @ json_string_marker))])"
        using True free ps d by (simp add: transform_dict t finish_object_def Let_def)
      moreover have "strict r (JObj [(''type'', JStr ''string''), (''description'', JStr (d @ json_string_marker))])"
        by (auto simp: strict_JObj strict_node_def object_map_def subschemas_def dropped_def banned_keywords_def is_unsupported_format_def
            split: if_splits)
      moreover have "tidy (map_of [(''type'', JStr ''string''), (''description'', JStr (d @ json_string_marker))])"
        by (simp add: tidy_def)
      ultimately show ?thesis by (simp add: neat_def)
    next
      case closed: False
      let ?m' = "?m(''required'' \<mapsto> JArr (map (JStr \<circ> fst) ps), ''additionalProperties'' \<mapsto> JBool False)"
      have tr: "transform r (JObj fs) = Inr (JObj (dict_set (dict_set ?out ''required'' (JArr (map (JStr \<circ> fst) ps)))
          ''additionalProperties'' (JBool False)))"
        using True closed ps by (auto simp: transform_dict t finish_object_def Let_def)
      have e: "?m' ''properties'' = ?m ''properties''" "?m' ''anyOf'' = ?m ''anyOf''" "?m' ''items'' = ?m ''items''"
        "?m' ''type'' = ?m ''type''" by simp_all
      have "closed_object r ?m'" using closed ps by (auto simp: closed_object_def split: option.splits)
      moreover have "\<forall>key v. ?m' key = Some v \<longrightarrow> \<not> dropped (key, v)"
        using out kept_keys [of "''required''"] kept_keys [of "''additionalProperties''"] by (simp add: strict_keys_def)
      ultimately have "strict_node r ?m'" using selectors unfolding strict_node_def e by blast
      moreover have "subschemas ?m' = subschemas ?m" by (simp add: subschemas_def)
      moreover have "tidy ?m'" using props_dict union object True unfolding tidy_def object_map_def e by blast
      ultimately show ?thesis using sub dist by (simp add: tr strict_JObj neat_def distinct_dict_set)
    qed
  qed
qed

section \<open>Properties\<close>

lemma value_part_cases:
  "value_part (key, v) = [] \<or> (\<exists>w. value_part (key, v) = [(key, w)] \<and> (key \<noteq> ''type'' \<longrightarrow> w = v) \<and> \<not> (key = ''anyOf'' \<and> (\<exists>bs. v = JArr bs)))"
proof (cases v)
  case (JArr xs)
  then show ?thesis by (cases "concrete_types xs" rule: remdups_adj.cases) simp_all
qed simp_all

lemma value_part_scalar: "\<forall>bs. v \<noteq> JArr bs \<Longrightarrow> value_part (key, v) = [(key, v)]"
  by (cases v) auto

declare value_part.simps [simp del]

lemma value_part_key: "(k, w) \<in> set (value_part (key, v)) \<Longrightarrow> k = key \<and> (key \<noteq> ''type'' \<longrightarrow> w = v) \<and> \<not> (key = ''anyOf'' \<and> (\<exists>bs. v = JArr bs))"
  using value_part_cases [of key v] by (elim disjE exE conjE) simp_all

lemma distinct_split_value: "distinct (map fst fs) \<Longrightarrow> distinct (map fst (split_value fs))"
proof -
  have keys: "fst ` (\<Union>kv \<in> set kvs. set (value_part kv)) \<subseteq> fst ` set kvs" for kvs
    using value_part_key by force
  have "distinct (map fst kvs) \<Longrightarrow> distinct (map fst (concat (map value_part kvs)))" for kvs
  proof (induction kvs)
    case (Cons kv kvs)
    have "value_part kv = [] \<or> (\<exists>w. value_part kv = [(fst kv, w)])"
      using value_part_cases [of "fst kv" "snd kv"] by auto
    moreover have "fst kv \<notin> fst ` (\<Union>kv \<in> set kvs. set (value_part kv))" using Cons.prems keys by auto
    ultimately show ?case using Cons by (elim disjE exE) simp_all
  qed simp
  then show "distinct (map fst fs) \<Longrightarrow> ?thesis"
    unfolding split_value_def value_keywords_def by (simp add: distinct_map_filter)
qed

lemma split_value_member:
  "(k, w) \<in> set (split_value fs) \<Longrightarrow> \<exists>v. (k, v) \<in> set fs \<and> (k \<noteq> ''type'' \<longrightarrow> w = v) \<and> \<not> (k = ''anyOf'' \<and> (\<exists>bs. v = JArr bs))"
  unfolding split_value_def value_keywords_def using value_part_key by fastforce

lemma map_of_split_value:
  assumes "distinct (map fst fs)" "map_of (split_value fs) k = Some w"
  shows "\<exists>v. map_of fs k = Some v \<and> (k \<noteq> ''type'' \<longrightarrow> w = v) \<and> \<not> (k = ''anyOf'' \<and> (\<exists>bs. v = JArr bs))"
  using split_value_member [OF map_of_SomeD [OF assms(2)]] assms(1) by auto

lemma split_value_kept:
  assumes "distinct (map fst fs)" "map_of fs k = Some v" "\<forall>bs. v \<noteq> JArr bs" "k \<in> strict_keys"
  shows "map_of (split_value fs) k = Some v"
proof -
  have "k \<notin> set meta_keywords" "\<not> dropped (k, v)" using assms(4) meta_keys kept_keys by blast+
  then have "(k, v) \<in> set (value_keywords fs)" using map_of_SomeD [OF assms(2)] by (simp add: value_keywords_def)
  then have "(k, v) \<in> set (split_value fs)" unfolding split_value_def using value_part_scalar [OF assms(3), of k] by force
  with distinct_split_value [OF assms(1)] show ?thesis by simp
qed

lemma plain_split_value:
  assumes "plain_node fs"
  shows "plain_node (split_value fs)" "subschemas (map_of (split_value fs)) \<subseteq> subschemas (map_of fs)"
proof -
  have d: "distinct (map fst fs)" using assms by (simp add: plain_node_def)
  have same: "map_of fs k = Some w" if "map_of (split_value fs) k = Some w" "k \<noteq> ''type''" for k w
    using map_of_split_value [OF d that(1)] that(2) by auto
  have no_union: "map_of (split_value fs) ''anyOf'' = None"
  proof (rule ccontr)
    assume "map_of (split_value fs) ''anyOf'' \<noteq> None"
    then obtain w where "map_of (split_value fs) ''anyOf'' = Some w" by blast
    from map_of_split_value [OF d this] obtain v where "map_of fs ''anyOf'' = Some v" "\<nexists>bs. v = JArr bs" by auto
    with assms show False unfolding plain_node_def by meson
  qed
  have "is_object_node (split_value fs)" if "is_object_node fs"
  proof (cases "map_of fs ''type'' = Some (JStr ''object'')")
    case True
    from split_value_kept [OF d this] show ?thesis by (simp add: strict_keys_def is_object_map object_map_def)
  next
    case False
    with that obtain ps where "map_of fs ''properties'' = Some (JObj ps)" by (auto simp: is_object_map object_map_def)
    from split_value_kept [OF d this] show ?thesis by (simp add: strict_keys_def is_object_map object_map_def)
  qed
  moreover have "dict_has (split_value fs) k \<longrightarrow> dict_has fs k" if "k \<noteq> ''type''" for k
    using same [of k] that by (auto simp: dict_has_map)
  ultimately have "dict_has (split_value fs) ''required'' \<or> dict_has (split_value fs) ''additionalProperties''
      \<longrightarrow> is_object_node (split_value fs)" using assms by (simp add: plain_node_def)
  with assms no_union same [of "''properties''"] same [of "''required''"] same [of "''description''"] distinct_split_value [OF d]
  show "plain_node (split_value fs)" by (simp add: plain_node_def)
  have "s \<in> subschemas (map_of fs)" if "s \<in> subschemas (map_of (split_value fs))" for s
  proof -
    from that no_union consider (fields) key ps n where "key \<in> {''properties'', ''$defs'', ''definitions''}"
        "map_of (split_value fs) key = Some (JObj ps)" "(n, s) \<in> set ps"
      | (items) "map_of (split_value fs) ''items'' = Some s"
      unfolding subschemas_def by fastforce
    then show ?thesis
    proof cases
      case fields
      then have "map_of fs key = Some (JObj ps)" using same [of key] by auto
      with fields show ?thesis by (auto simp: subschemas_def)
    next
      case items
      then show ?thesis using same [of "''items''"] by (simp add: subschemas_def)
    qed
  qed
  then show "subschemas (map_of (split_value fs)) \<subseteq> subschemas (map_of fs)" by blast
qed

lemma split_branch: "b \<in> set (split_branches fs) \<Longrightarrow> \<exists>bs. (''anyOf'', JArr bs) \<in> set fs \<and> b \<in> set bs"
  by (auto simp: split_branches_def value_keywords_def split: json.splits if_splits)

lemma split_branches_made:
  assumes "plain_node fs" "\<And>s. s \<in> subschemas (map_of fs) \<Longrightarrow> made_strict s"
  shows "\<exists>bs'. each (transform False) (split_branches fs) = Inr bs' \<and> (\<forall>b \<in> set bs'. strict False b \<and> is_dict b \<and> neat (fields_of b))"
proof -
  have branch: "made_strict b" "is_dict b" if b: "b \<in> set (split_branches fs)" for b
  proof -
    from split_branch [OF b] obtain bs where bs: "(''anyOf'', JArr bs) \<in> set fs" "b \<in> set bs" by blast
    with assms(1) have m: "map_of fs ''anyOf'' = Some (JArr bs)" by (simp add: plain_node_def)
    with bs(2) show "made_strict b" by (intro assms(2)) (auto simp: subschemas_def)
    from m assms(1) have "list_all is_dict bs" unfolding plain_node_def by (metis json.inject(5))
    with bs(2) show "is_dict b" by (simp add: list_all_iff)
  qed
  from each_branches [of "split_branches fs" False, OF branch(1)] obtain bs' where bs':
    "each (transform False) (split_branches fs) = Inr bs'"
    "list_all2 (\<lambda>b b'. strict False b' \<and> (is_dict b \<longrightarrow> is_dict b' \<and> neat (fields_of b'))) (split_branches fs) bs'"
    by blast
  have "strict False b' \<and> is_dict b' \<and> neat (fields_of b')" if b': "b' \<in> set bs'" for b'
  proof -
    obtain i where i: "i < length bs'" "bs' ! i = b'" using b' by (auto simp: in_set_conv_nth)
    with bs'(2) have "split_branches fs ! i \<in> set (split_branches fs)" by (simp add: list_all2_lengthD)
    with branch(2) list_all2_nthD2 [OF bs'(2) i(1)] i(2) show ?thesis by blast
  qed
  with bs'(1) show ?thesis by blast
qed

lemma core_made:
  assumes "\<forall>b \<in> set bs. strict False b \<and> is_dict b \<and> neat (fields_of b)" "strict False (JObj vf)" "neat vf"
  shows "\<exists>core. property_core bs vf = Inr core \<and> strict False (JObj core)
    \<and> (\<forall>v. map_of core ''anyOf'' = Some v \<longrightarrow> (\<exists>bs. v = JArr bs))"
proof -
  note v = assms(2) [unfolded strict_JObj]
  have tidy: "tidy (map_of vf)" and vrev: "map_of (rev vf) = map_of vf"
    using assms(3) map_of_rev_distinct by (auto simp: neat_def)
  consider "bs = []" | b where "bs = [b]" | b c cs where "bs = b # c # cs" by (cases bs rule: remdups_adj.cases)
  then show ?thesis
  proof cases
    case 1
    with assms(2) tidy show ?thesis by (simp add: property_core_def tidy_def)
  next
    case (2 b)
    then obtain bf where bf: "b = JObj bf" using assms(1) by (cases b) auto
    with assms(1) 2 have b: "strict_node False (map_of bf)" "\<forall>x \<in> subschemas (map_of bf). strict False x" by (simp_all add: strict_JObj)
    have "strict False (JObj (dict_merge bf vf))"
      using strict_merge [OF b(1) conjunct1 [OF v] tidy] subschemas_add [of "map_of bf" "map_of vf"] b(2) v
      by (auto simp: strict_JObj vrev)
    moreover have "\<forall>v. map_of (dict_merge bf vf) ''anyOf'' = Some v \<longrightarrow> (\<exists>bs. v = JArr bs)"
      using assms(1) tidy 2 bf by (auto simp: neat_def tidy_def vrev map_add_def split: option.splits)
    ultimately show ?thesis by (simp add: property_core_def 2 bf)
  next
    case (3 b c cs)
    have "strict False x \<and> (is_dict x \<longrightarrow> has_branch_selector x)" if "x \<in> set (clean_anyof bs)" for x
      using clean_strict [of bs x] assms(1) that by blast
    from strict_union [OF conjunct1 [OF v] conjunct2 [OF v], of "clean_anyof bs", OF this]
    show ?thesis by (simp add: property_core_def 3 strict_JObj)
  qed
qed

lemma split_meta_keys: "map_of (split_meta fs) key = Some v \<Longrightarrow> key \<in> set meta_keywords \<and> \<not> dropped (key, v)"
  by (auto simp: split_meta_def dest!: map_of_SomeD)

lemma meta_no_strict_key: "key \<in> strict_keys \<Longrightarrow> map_of (split_meta fs) key = None"
  using split_meta_keys [of fs key] meta_keys [of key] by (cases "map_of (split_meta fs) key") auto

lemma strict_meta: "strict_node False (map_of (split_meta fs))" "subschemas (map_of (split_meta fs)) = {}"
proof -
  have "strict_node False Map.empty" by (simp add: strict_node_def object_map_def)
  from strict_agree [OF this, of "map_of (split_meta fs)"] meta_no_strict_key split_meta_keys
  show "strict_node False (map_of (split_meta fs))" "subschemas (map_of (split_meta fs)) = {}"
    by (auto simp: subschemas_def)
qed

lemma iterate_union:
  assumes "strict False (JObj [(''anyOf'', v)])" "iterate v = Inr bs" "b \<in> set bs"
  shows "strict False b"
proof (cases v)
  case (JArr xs)
  with assms show ?thesis by (auto simp: strict_JObj subschemas_def)
qed (use assms in \<open>auto simp: strict_leaf\<close>)

lemma property_finished:
  assumes "strict False (JObj core)" "distinct (map fst (split_meta fs))"
    and "\<And>v. core = [(''anyOf'', v)] \<Longrightarrow> \<exists>bs. v = JArr bs"
  shows "\<exists>t. finish_property nullable (split_meta fs) core = Inr t \<and> strict False t"
proof (cases nullable)
  case False
  have rev: "map_of (rev (split_meta fs)) = map_of (split_meta fs)" using assms(2) by (rule map_of_rev_distinct)
  let ?m = "map_of core ++ map_of (split_meta fs)"
  have same: "?m key = map_of core key" if "key \<in> strict_keys" for key
    using meta_no_strict_key [OF that] by (simp add: map_add_def)
  moreover have "\<not> dropped (key, v)" if "?m key = Some v" for key v
    using that assms(1) split_meta_keys by (auto simp: strict_JObj strict_node_def)
  ultimately have "strict_node False ?m" "subschemas ?m = subschemas (map_of core)"
    using strict_agree [of False "map_of core" ?m] assms(1) by (simp_all add: strict_JObj)
  with assms(1) False show ?thesis by (simp add: finish_property_def strict_JObj rev)
next
  case True
  obtain bs where bs: "(case core of [(key, v)] \<Rightarrow> if key = ''anyOf'' then iterate v else Inr [JObj core] | _ \<Rightarrow> Inr [JObj core]) = Inr bs"
    "\<And>b. b \<in> set bs \<Longrightarrow> strict False b"
  proof (cases "\<exists>v. core = [(''anyOf'', v)]")
    case True
    then obtain v xs where v: "core = [(''anyOf'', v)]" "v = JArr xs" using assms(3) by blast
    show thesis by (rule that [of xs]) (use v assms(1) iterate_union [of v xs] in auto)
  next
    case False
    then show thesis using that [of "[JObj core]"] assms(1) by (auto split: list.splits)
  qed
  have ok: "strict False x \<and> (is_dict x \<longrightarrow> has_branch_selector x)" if "x \<in> set (clean_anyof bs @ [null_branch])" for x
    using that clean_strict [OF bs(2)] null_branch_strict by auto
  have "\<forall>v \<in> subschemas (map_of (split_meta fs)). strict False v" by (simp add: strict_meta(2))
  from strict_union [OF strict_meta(1) this, of "clean_anyof bs @ [null_branch]", OF ok] show ?thesis
    using True bs(1) by (simp add: finish_property_def strict_JObj)
qed

lemma property_made:
  assumes "plain_node fs" "\<And>s. s \<in> subschemas (map_of fs) \<Longrightarrow> made_strict s"
  shows "\<exists>t. transform_property req n (JObj fs) = Inr t \<and> strict False t"
proof -
  obtain bs where bs: "each (transform False) (split_branches fs) = Inr bs" "\<forall>b \<in> set bs. strict False b \<and> is_dict b \<and> neat (fields_of b)"
    using split_branches_made [OF assms] by blast
  have "made_strict s" if "s \<in> subschemas (map_of (split_value fs))" for s
    using assms plain_split_value(2) [OF assms(1)] that by blast
  from node_made [OF plain_split_value(1) [OF assms(1)] this, of False] obtain t where
    t: "transform False (JObj (split_value fs)) = Inr t" "strict False t" "is_dict t" "neat (fields_of t)" by blast
  then obtain vf where vf: "t = JObj vf" by (cases t) auto
  obtain core where core: "property_core bs vf = Inr core" "strict False (JObj core)"
    "\<forall>v. map_of core ''anyOf'' = Some v \<longrightarrow> (\<exists>bs. v = JArr bs)"
    using core_made [OF bs(2), of vf] t vf by auto
  have "distinct (map fst (split_meta fs))" using assms(1) by (simp add: plain_node_def split_meta_def distinct_map_filter)
  from property_finished [OF core(2) this] core(3) show ?thesis
    by (simp add: transform_property.simps bs(1) t(1) vf core(1))
qed

lemma schema_made: "plain_schema j \<Longrightarrow> made_strict j"
proof (induction j rule: plain_schema.induct)
  case (plain_leaf v)
  then show ?case by (simp add: made_strict_def transform_leaf strict_leaf)
next
  case (plain_dict fs)
  have subs: "made_strict s" if "s \<in> subschemas (map_of fs)" for s using plain_dict that by blast
  have "\<exists>t. transform r (JObj fs) = Inr t \<and> strict r t \<and> is_dict t \<and> neat (fields_of t)" for r
    by (rule node_made [OF plain_dict.hyps(1) subs])
  moreover have "\<exists>t. transform_property req n (JObj fs) = Inr t \<and> strict False t" for req n
    by (rule property_made [OF plain_dict.hyps(1) subs])
  ultimately show ?case unfolding made_strict_def by blast
qed

text \<open>
  C23. Every well-formed schema can be adapted and the result passes the checker of the strict form:
  at every object all properties are required and additional ones are forbidden, no keyword or
  string format that the endpoint rejects is left, no nested object is without properties, and
  every branch of a union and every item schema names a type, a union or a reference.
\<close>

theorem adapted_schema_complies:
  assumes "plain_schema schema"
  shows "\<exists>t. to_strict_schema schema = Inr t \<and> validate_strict_compliance t = Inr []"
proof -
  from schema_made [OF assms] obtain t where "transform True schema = Inr t" "strict True t"
    unfolding made_strict_def by blast
  with strict_walk [of True t "''$''"] show ?thesis by (simp add: to_strict_schema_def validate_strict_compliance_def)
qed

text \<open>The schema of a search tool with an optional bounded number and a free-form object.\<close>

definition search_tool_schema :: json where
  "search_tool_schema = JObj [(''type'', JStr ''object''),
     (''properties'', JObj [(''area'', JObj [(''type'', JStr ''string''), (''minLength'', JInt 1)]),
        (''rooms'', JObj [(''anyOf'', JArr [JObj [(''enum'', JArr [JInt 1, JInt 2])], JObj [(''type'', JStr ''null'')]])]),
        (''params'', JObj [(''type'', JStr ''object''), (''description'', JStr ''extra'')])]),
     (''required'', JArr [JStr ''area''])]"

lemma plain_by_fields:
  assumes "plain_node fs" "subschemas (map_of fs) \<subseteq> set vs" "list_all plain_schema vs"
  shows "plain_schema (JObj fs)"
  by (rule plain_dict) (use assms in \<open>auto simp: list_all_iff\<close>)

lemma search_tool_plain: "plain_schema search_tool_schema"
proof -
  have leaf: "plain_schema (JObj [(''type'', JStr t)])" "plain_schema (JObj [(''type'', JStr t), (''minLength'', JInt n)])"
    "plain_schema (JObj [(''type'', JStr t), (''description'', JStr d)])" "plain_schema (JObj [(''enum'', JArr xs)])" for t n d xs
    by (rule plain_by_fields [where vs = "[]"]; simp add: plain_node_def subschemas_def dict_has_def)+
  have union: "plain_schema (JObj [(''anyOf'', JArr [JObj [(''enum'', JArr [JInt 1, JInt 2])], JObj [(''type'', JStr ''null'')]])])"
    by (rule plain_by_fields [where vs = "[JObj [(''enum'', JArr [JInt 1, JInt 2])], JObj [(''type'', JStr ''null'')]]"])
      (auto simp: plain_node_def subschemas_def dict_has_def leaf)
  have names: "\<exists>ns. JArr [JStr ''area''] = JArr (map JStr ns)" by (rule exI [of _ "[''area'']"]) simp
  show ?thesis unfolding search_tool_schema_def
    by (rule plain_by_fields [where vs = "[JObj [(''type'', JStr ''string''), (''minLength'', JInt 1)],
        JObj [(''anyOf'', JArr [JObj [(''enum'', JArr [JInt 1, JInt 2])], JObj [(''type'', JStr ''null'')]])],
        JObj [(''type'', JStr ''object''), (''description'', JStr ''extra'')]]"])
      (use names in \<open>auto simp: plain_node_def subschemas_def dict_has_def is_object_node_def leaf union\<close>)
qed

theorem adapted_schema_complies_witness:
  "\<exists>t. to_strict_schema search_tool_schema = Inr t \<and> validate_strict_compliance t = Inr []"
  using search_tool_plain by (rule adapted_schema_complies)

end
