(* ===== verification/OutboxWorker.thy ===== *)
theory OutboxWorker
  imports StoreGuarantees
begin

text \<open>
  The consumer of the background outbox: \<open>web/background_jobs.py\<close> (\<open>OutboxWorker.run_once\<close>), the two
  kinds of job in \<open>app/app.py\<close> (\<open>_apply_background_job\<close>), and the rolling summary of
  \<open>app/core/context_assembler.py\<close>.  Between the transactions of one run other threads and processes
  may issue any store operations (\<open>we_started\<close>, \<open>we_before\<close>, \<open>we_between\<close>).  The language model and the long-term
  memory are asked through \<open>we_complete\<close> and \<open>we_remember\<close>; every question is recorded.  The text of
  an exception that Python itself words is \<open>we_exception\<close>.
\<close>

section \<open>The rolling summary\<close>

definition summary_max_chars :: nat where "summary_max_chars = 1600"

text \<open>The first \<open>n\<close> characters of a UTF-8 text.\<close>

fun take_chars :: "nat \<Rightarrow> string \<Rightarrow> string" where
  "take_chars n [] = []"
| "take_chars n (c # cs) =
     (if 128 \<le> (of_char c :: nat) \<and> (of_char c :: nat) < 192 then c # take_chars n cs
      else case n of 0 \<Rightarrow> [] | Suc m \<Rightarrow> c # take_chars m cs)"

definition text_chars :: "string \<Rightarrow> nat" where
  "text_chars s = length (filter (\<lambda>c. \<not> (128 \<le> (of_char c :: nat) \<and> (of_char c :: nat) < 192)) s)"

definition newline :: string where "newline = [CHR 0x0A]"
definition long_dash :: string where "long_dash = [CHR 0xE2, CHR 0x80, CHR 0x94]"

definition turn_text :: "(json \<Rightarrow> string) \<Rightarrow> json \<Rightarrow> string" where
  "turn_text pstr h =
     ''User: '' @ str_of pstr (case json_get h ''user'' of None \<Rightarrow> JStr [] | Some v \<Rightarrow> v) @ newline
     @ ''Alex: '' @ str_of pstr (case json_get h ''assistant'' of None \<Rightarrow> JStr [] | Some v \<Rightarrow> v)"

fun join_by :: "string \<Rightarrow> string list \<Rightarrow> string" where
  "join_by sep [] = []"
| "join_by sep [x] = x"
| "join_by sep (x # y # ys) = x @ sep @ join_by sep (y # ys)"

definition build_summary_prompt :: "(json \<Rightarrow> string) \<Rightarrow> string \<Rightarrow> json list \<Rightarrow> json \<Rightarrow> string" where
  "build_summary_prompt pstr prior_summary folded reply_language =
     (let lang = (if starts_with (lower (str_of pstr reply_language)) ''zh'' then ''Chinese'' else ''English'');
          prior = (if strip prior_summary = [] then ''(none)'' else strip prior_summary);
          joined = join_by (newline @ newline) (map (turn_text pstr) (filter is_dict folded));
          turns_text = (if joined = [] then ''(none)'' else joined) in
      ''You maintain a rolling memory of a UK rental search conversation. Write the updated summary in '' @ lang @ ''.''
      @ newline @ newline
      @ ''Merge the PRIOR SUMMARY with the OLDER TURNS being trimmed out of the live history. Produce a compact, ''
      @ ''structured plain-text summary of AT MOST 1600 characters using exactly these labeled lines ''
      @ ''(omit a line only if it has no content):'' @ newline
      @ ''Goals: <what the user is ultimately trying to do>'' @ newline
      @ ''Hard criteria: <budget / area / room type / commute / dates '' @ long_dash
      @ '' keep each with the turn it was stated in if the origin is clear>'' @ newline
      @ ''Soft preferences: <nice-to-haves, vibe, amenities>'' @ newline
      @ ''Rejected: <areas or listings the user ruled out>'' @ newline
      @ ''Unresolved: <open questions or pending decisions>'' @ newline @ newline
      @ ''Rules: keep hard criteria verbatim and attributed; drop greetings and chit-chat; never invent facts ''
      @ ''the user did not state; prefer the most recent value when a criterion changed.'' @ newline @ newline
      @ ''PRIOR SUMMARY:'' @ newline @ prior @ newline @ newline
      @ ''OLDER TURNS:'' @ newline @ turns_text @ newline @ newline
      @ ''Return ONLY the summary text, no preamble.'')"

text \<open>What a completion answers: an exception, \<open>None\<close>, or a text.\<close>

datatype completion = CompletionRaises | NoCompletion | CompletionText string

text \<open>The turns to fold as the loop sees them; a value that cannot be iterated raises.\<close>

fun folded_items :: "json \<Rightarrow> json list option" where
  "folded_items (JArr hs) = Some hs"
| "folded_items (JObj _) = Some []"
| "folded_items (JStr _) = Some []"
| "folded_items v = (if truthy v then None else Some [])"

text \<open>
  \<open>update_rolling_summary\<close>: the new summary, and the prompt if the model was asked.  A prior summary
  that is no text, or turns that are no sequence, raise inside the \<open>try\<close>, before the question.
\<close>

definition update_rolling_summary ::
  "(json \<Rightarrow> string) \<Rightarrow> (string \<Rightarrow> completion) \<Rightarrow> json \<Rightarrow> json \<Rightarrow> json \<Rightarrow> json \<times> string option" where
  "update_rolling_summary pstr ask prior folded reply_language =
     (case (if truthy prior then prior else JStr [], folded_items folded) of
        (JStr p, Some hs) \<Rightarrow>
          let prompt = build_summary_prompt pstr p hs reply_language in
          ((case ask prompt of
              CompletionText out \<Rightarrow>
                if strip out = [] then prior
                else if summary_max_chars < text_chars (strip out) then JStr (take_chars summary_max_chars (strip out))
                else JStr (strip out)
            | _ \<Rightarrow> prior), Some prompt)
      | _ \<Rightarrow> (prior, None))"

section \<open>Applying a job\<close>

text \<open>The arguments of \<open>AgentMemory.remember_turn\<close>.\<close>

record memory_turn =
  mt_user_message :: json
  mt_assistant_message :: json
  mt_session :: json
  mt_user :: string
  mt_tool_used :: json
  mt_key :: json
  mt_conv :: string
  mt_turn :: string
  mt_started :: json
  mt_tainted :: bool
  mt_changes :: "json option"
  mt_withdrawn :: "json option"
  mt_withheld :: "bool option"

datatype memory_answer = Acknowledged | NotAcknowledged | MemoryRaises string

datatype question = AskSummary string | AskMemory memory_turn

record worker_env =
  we_claim :: time
  we_started :: "store_op list"
  we_before :: "store_op list"
  we_between :: "store_op list"
  we_saved :: time
  we_patched :: time
  we_finished :: time
  we_complete :: "string \<Rightarrow> completion"
  we_remember :: "memory_turn \<Rightarrow> memory_answer"
  we_exception :: string

datatype job_end = Finished | Gone | Raised string

record applied =
  ap_end :: job_end
  ap_asked :: "question list"
  ap_session :: "(string \<times> string) option"
  ap_store :: store

fun failure_of :: "string \<Rightarrow> store_error \<Rightarrow> job_end" where
  "failure_of what BackgroundJobGone = Gone"
| "failure_of what JobLeaseLost = Raised (''RuntimeError: background job lease was lost before '' @ what)"
| "failure_of what e = Raised what"

definition or_json :: "json option \<Rightarrow> json \<Rightarrow> json" where
  "or_json x d = (case x of None \<Rightarrow> d | Some v \<Rightarrow> if truthy v then v else d)"

text \<open>From the result on: the patch of the latest snapshot, then the hot session.\<close>

definition apply_summary :: "(json \<Rightarrow> string) \<Rightarrow> worker_env \<Rightarrow> job \<Rightarrow> fields \<Rightarrow> question list \<Rightarrow> store \<Rightarrow> applied" where
  "apply_summary pstr e j result asked s0 =
     (let s = run_ops (store_step pstr) s0 (we_between e);
          through = str_or pstr (map_of result ''through_turn_id'') (jb_turn j);
          summary = str_or pstr (map_of result ''summary'') [] in
      case patch_latest_snapshot_summary (jb_user j) (jb_conv j) summary through (we_patched e) s of
        (Inl _, s1) \<Rightarrow> \<lparr>ap_end = Raised (we_exception e), ap_asked = asked, ap_session = None, ap_store = s1\<rparr>
      | (Inr True, s1) \<Rightarrow> \<lparr>ap_end = Finished, ap_asked = asked, ap_session = Some (summary, through), ap_store = s1\<rparr>
      | (Inr False, s1) \<Rightarrow>
          \<lparr>ap_end = (if get_conversation s1 (jb_user j) (jb_conv j) = None then Gone
                    else Raised ''RuntimeError: no completed snapshot exists for summary job''),
           ap_asked = asked, ap_session = None, ap_store = s1\<rparr>)"

definition apply_rolling_summary ::
  "(json \<Rightarrow> string) \<Rightarrow> worker_env \<Rightarrow> string \<Rightarrow> job \<Rightarrow> fields \<Rightarrow> store \<Rightarrow> applied" where
  "apply_rolling_summary pstr e worker j payload s =
     (case jb_result j of
        Some (JObj result) \<Rightarrow> apply_summary pstr e j result [] s
      | _ \<Rightarrow>
          (case or_json (latest_snapshot s (jb_user j) (jb_conv j)) (JObj []) of
             JObj latest \<Rightarrow>
               let (summary, prompt) = update_rolling_summary pstr (we_complete e)
                     (case map_of latest ''summary'' of None \<Rightarrow> JNull | Some v \<Rightarrow> v)
                     (or_json (map_of payload ''dropped_turns'') (JArr []))
                     (or_json (map_of payload ''reply_language'') (JStr ''en''));
                   asked = (case prompt of None \<Rightarrow> [] | Some p \<Rightarrow> [AskSummary p]);
                   result = [(''summary'', summary),
                     (''through_turn_id'', or_json (map_of payload ''through_turn_id'') (JStr (jb_turn j)))];
                   s1 = run_ops (store_step pstr) s (we_before e) in
               (case save_background_job_result (jb_id j) worker (JObj result) (we_saved e) s1 of
                  (Inl err, s2) \<Rightarrow> \<lparr>ap_end = failure_of ''saving result'' err, ap_asked = asked, ap_session = None, ap_store = s2\<rparr>
                | (Inr _, s2) \<Rightarrow> apply_summary pstr e j result asked s2)
           | _ \<Rightarrow> \<lparr>ap_end = Raised (we_exception e), ap_asked = [], ap_session = None, ap_store = s\<rparr>))"

definition memory_request :: "job \<Rightarrow> fields \<Rightarrow> memory_turn" where
  "memory_request j payload =
     (let get = (\<lambda>name. case map_of payload name of None \<Rightarrow> JNull | Some v \<Rightarrow> v);
          given = (\<lambda>name. if truthy (get name) then Some (get name) else None) in
      \<lparr>mt_user_message = or_json (map_of payload ''user_message'') (JStr []),
       mt_assistant_message = or_json (map_of payload ''assistant_message'') (JStr []),
       mt_session = or_json (map_of payload ''session_id'') (JStr (jb_user j)),
       mt_user = jb_user j, mt_tool_used = get ''tool_used'', mt_key = get ''idempotency_key'',
       mt_conv = jb_conv j, mt_turn = jb_turn j, mt_started = get ''turn_started_at'',
       mt_tainted = truthy (get ''context_tainted''), mt_changes = given ''criteria_changes'',
       mt_withdrawn = given ''withdrawn_requirements'',
       mt_withheld = map_option truthy (map_of payload ''memory_withheld'')\<rparr>)"

definition apply_memory_turn ::
  "(json \<Rightarrow> string) \<Rightarrow> worker_env \<Rightarrow> string \<Rightarrow> job \<Rightarrow> fields \<Rightarrow> store \<Rightarrow> applied" where
  "apply_memory_turn pstr e worker j payload s =
     (case jb_result j of
        Some (JObj _) \<Rightarrow> \<lparr>ap_end = Finished, ap_asked = [], ap_session = None, ap_store = s\<rparr>
      | _ \<Rightarrow>
          let m = memory_request j payload;
              s1 = run_ops (store_step pstr) s (we_before e) in
          (case we_remember e m of
             MemoryRaises err \<Rightarrow> \<lparr>ap_end = Raised err, ap_asked = [AskMemory m], ap_session = None, ap_store = s1\<rparr>
           | NotAcknowledged \<Rightarrow>
               \<lparr>ap_end = Raised ''RuntimeError: memory store did not acknowledge the turn'',
                ap_asked = [AskMemory m], ap_session = None, ap_store = s1\<rparr>
           | Acknowledged \<Rightarrow>
               (case save_background_job_result (jb_id j) worker (JObj [(''stored'', JBool True)]) (we_saved e) s1 of
                  (Inl err, s2) \<Rightarrow> \<lparr>ap_end = failure_of ''saving result'' err, ap_asked = [AskMemory m], ap_session = None, ap_store = s2\<rparr>
                | (Inr _, s2) \<Rightarrow> \<lparr>ap_end = Finished, ap_asked = [AskMemory m], ap_session = None, ap_store = s2\<rparr>)))"

definition apply_background_job :: "(json \<Rightarrow> string) \<Rightarrow> worker_env \<Rightarrow> string \<Rightarrow> job \<Rightarrow> store \<Rightarrow> applied" where
  "apply_background_job pstr e worker j s =
     (case (if truthy (jb_payload j) then jb_payload j else JObj []) of
        JObj payload \<Rightarrow>
          if jb_kind j = ''rolling_summary'' then apply_rolling_summary pstr e worker j payload s
          else if jb_kind j = ''memory_turn'' then apply_memory_turn pstr e worker j payload s
          else \<lparr>ap_end = Raised (we_exception e), ap_asked = [], ap_session = None, ap_store = s\<rparr>
      | _ \<Rightarrow> \<lparr>ap_end = Raised ''ValueError: background job payload is invalid'', ap_asked = [], ap_session = None, ap_store = s\<rparr>)"

text \<open>The request the work of a job is accounted to.\<close>

definition job_correlation :: "job \<Rightarrow> string" where
  "job_correlation j =
     (case json_get (jb_payload j) ''request_id'' of
        Some (JStr r) \<Rightarrow> if r = [] then ''job:'' @ nat_text (jb_id j) else r
      | _ \<Rightarrow> ''job:'' @ nat_text (jb_id j))"

section \<open>One run of the worker\<close>

record outbox_worker =
  ow_worker :: string
  ow_lease_seconds :: int
  ow_max_attempts :: int

definition make_worker :: "string \<Rightarrow> int \<Rightarrow> int \<Rightarrow> outbox_worker" where
  "make_worker worker lease_seconds max_attempts =
     \<lparr>ow_worker = worker, ow_lease_seconds = max 1 lease_seconds, ow_max_attempts = max 1 max_attempts\<rparr>"

datatype run_end = Idle | Completed | Dropped | Retried retry_outcome

record worker_run =
  wr_job :: "job option"
  wr_end :: run_end
  wr_asked :: "question list"
  wr_session :: "(string \<times> string) option"

definition settle_job :: "outbox_worker \<Rightarrow> job \<Rightarrow> time \<Rightarrow> job_end \<Rightarrow> store \<Rightarrow> run_end \<times> store" where
  "settle_job w j now ending s =
     (let retry = (\<lambda>err s. let (outcome, s') = retry_background_job (jb_id j) (ow_worker w) err (ow_max_attempts w) now s
                           in (Retried outcome, s'));
          drop_job = (\<lambda>s. (Dropped, snd (complete_background_job (jb_id j) (ow_worker w) now s))) in
      case ending of
        Gone \<Rightarrow> drop_job s
      | Raised err \<Rightarrow> retry err s
      | Finished \<Rightarrow>
          (case complete_background_job (jb_id j) (ow_worker w) now s of
             (Inr _, s1) \<Rightarrow> (Completed, s1)
           | (Inl err, s1) \<Rightarrow>
               (case failure_of ''completion'' err of
                  Gone \<Rightarrow> drop_job s1 | Raised text \<Rightarrow> retry text s1 | Finished \<Rightarrow> (Completed, s1))))"

definition run_once :: "(json \<Rightarrow> string) \<Rightarrow> outbox_worker \<Rightarrow> worker_env \<Rightarrow> store \<Rightarrow> worker_run \<times> store" where
  "run_once pstr w e s =
     (case claim_background_job (ow_worker w) (of_int (ow_lease_seconds w)) (we_claim e) s of
        (None, s1) \<Rightarrow> (\<lparr>wr_job = None, wr_end = Idle, wr_asked = [], wr_session = None\<rparr>, s1)
      | (Some j, s1) \<Rightarrow>
          let a = apply_background_job pstr e (ow_worker w) j (run_ops (store_step pstr) s1 (we_started e));
              (r, s2) = settle_job w j (we_finished e) (ap_end a) (ap_store a) in
          (\<lparr>wr_job = Some j, wr_end = r, wr_asked = ap_asked a, wr_session = ap_session a\<rparr>, s2))"

section \<open>What later operations leave of a job\<close>

definition settled :: "job \<Rightarrow> bool" where
  "settled j \<longleftrightarrow> jb_status j = JCompleted \<or> jb_status j = JDead"

definition checkpointed :: "job \<Rightarrow> bool" where
  "checkpointed j \<longleftrightarrow> (\<exists>fs. jb_result j = Some (JObj fs))"

text \<open>The same job at a later time.\<close>

definition continues :: "job \<Rightarrow> job \<Rightarrow> bool" where
  "continues j k \<longleftrightarrow> jb_id k = jb_id j \<and> jb_attempts j \<le> jb_attempts k \<and> (settled j \<longrightarrow> settled k)
     \<and> (checkpointed j \<longrightarrow> settled k \<or> checkpointed k)"

lemma continues_refl [simp]: "continues j j"
  by (simp add: continues_def)

lemma continues_trans: "continues i j \<Longrightarrow> continues j k \<Longrightarrow> continues i k"
  by (auto simp: continues_def)

definition queue :: "store \<Rightarrow> job list \<times> nat" where
  "queue s = (st_jobs s, st_next_job s)"

text \<open>Every job of the later store is new or continues one of the earlier store.\<close>

definition history :: "store \<Rightarrow> store \<Rightarrow> bool" where
  "history s s' \<longleftrightarrow> st_next_job s \<le> st_next_job s'
     \<and> (\<forall>k \<in> set (st_jobs s'). st_next_job s \<le> jb_id k \<or> (\<exists>j \<in> set (st_jobs s). continues j k))"

lemma history_queue: "queue s' = queue s \<Longrightarrow> history s s'"
  by (force simp: queue_def history_def)

lemma history_refl [simp]: "history s s"
  by (rule history_queue) simp

lemma history_trans: "history s t \<Longrightarrow> history t u \<Longrightarrow> history s u"
proof -
  assume h: "history s t" "history t u"
  have "st_next_job s \<le> jb_id k \<or> (\<exists>j \<in> set (st_jobs s). continues j k)" if k: "k \<in> set (st_jobs u)" for k
  proof -
    from h(2) k consider "st_next_job t \<le> jb_id k" | j where "j \<in> set (st_jobs t)" "continues j k"
      by (auto simp: history_def)
    then show ?thesis
    proof cases
      case 1
      then show ?thesis using h(1) by (simp add: history_def)
    next
      case (2 j)
      with h(1) consider "st_next_job s \<le> jb_id j" | i where "i \<in> set (st_jobs s)" "continues i j"
        by (auto simp: history_def)
      then show ?thesis
        by cases (use 2 in \<open>auto simp: continues_def intro: continues_trans\<close>)
    qed
  qed
  then show ?thesis using h by (simp add: history_def)
qed

lemma history_changed:
  assumes "queue s' = (update_where P f (st_jobs s), st_next_job s)"
    and "\<And>j. j \<in> set (st_jobs s) \<Longrightarrow> P j \<Longrightarrow> continues j (f j)"
  shows "history s s'"
  using assms by (auto simp: queue_def history_def intro: continues_refl)

lemma history_update:
  "(\<And>j. j \<in> set (st_jobs s) \<Longrightarrow> P j \<Longrightarrow> continues j (f j)) \<Longrightarrow> history s (s\<lparr>st_jobs := update_where P f (st_jobs s)\<rparr>)"
  by (rule history_changed [where P = P and f = f]) (simp_all add: queue_def)

lemma history_delete: "queue s' = (delete_where P (st_jobs s), st_next_job s) \<Longrightarrow> history s s'"
  by (auto simp: queue_def history_def intro: continues_refl)

subsection \<open>Operations that leave the outbox alone\<close>

lemma queue_frame [simp]:
  "queue (touch_conversation u c now s) = queue s"
  "queue (fail_running u t now s) = queue s"
  "queue (drop_lease_of_turn u t s) = queue s"
  "queue (replace_snapshot n s) = queue s"
  "queue (set_metadata m v s) = queue s"
  "queue (register_owner p now s) = queue s"
  "queue (heartbeat p now s) = queue s"
  "queue (release_request u r s) = queue s"
  "queue (name_conversation u c title s) = queue s"
  "queue (snd (insert_message u c mrole content kind recs ts tid s)) = queue s"
  "queue (update_conversation u c f s) = queue s"
  "queue (set_message_turn u mid tag s) = queue s"
  "queue (add_favorite u url prop now s) = queue s"
  "queue (record_fork u key child fp later s) = queue s"
  "queue (end_privacy_erasure u s) = queue s"
  by (simp_all add: queue_def touch_conversation_def fail_running_def drop_lease_of_turn_def replace_snapshot_def
      set_metadata_def register_owner_def heartbeat_def release_request_def name_conversation_def insert_message_def
      update_conversation_def set_message_turn_def add_favorite_def record_fork_def end_privacy_erasure_def Let_def
      split: option.split)

lemma queue_inserts:
  "insert_conversation c s = Inr s' \<Longrightarrow> queue s' = queue s"
  "insert_turn t s = Inr s' \<Longrightarrow> queue s' = queue s"
  "insert_request r s = Inr s' \<Longrightarrow> queue s' = queue s"
  "insert_lease l s = Inr s' \<Longrightarrow> queue s' = queue s"
  "update_turns P f s = Inr s' \<Longrightarrow> queue s' = queue s"
  by (auto simp: queue_def insert_conversation_def insert_turn_def insert_request_def insert_lease_def update_turns_def
      split: if_splits)

lemma queue_reap [simp]: "queue (reap_replayed_turn p u t now s) = queue s"
  by (simp add: reap_replayed_turn_def split: option.split)

lemma queue_replay: "replay_request p u cid req content now s = Inr (r, s') \<Longrightarrow> queue s' = queue s"
  by (auto simp: replay_request_def Let_def split: option.splits if_splits)

lemma queue_ensure: "ensure_conversation u cid new title now v s = Inr (r, s') \<Longrightarrow> queue s' = queue s"
  by (auto simp: ensure_conversation_def and_then_Inr queue_inserts split: option.splits if_splits)

lemma queue_claim: "claim_lease p u cid now s = Inr s' \<Longrightarrow> queue s' = queue s"
  by (auto simp: claim_lease_def queue_def fail_running_def Let_def split: option.splits if_splits)

lemma queue_open:
  assumes "open_turn p u cid tid req content now expires s = Inr (t, s')"
  shows "queue s' = queue s"
proof -
  obtain mid s1 where m: "insert_message u cid ''user'' content None None now (Some tid) s = (mid, s1)" by fastforce
  then have "queue s1 = queue s" using queue_frame(10) by (metis snd_conv)
  with assms m show ?thesis
    by (auto simp: open_turn_def Let_def and_then_Inr dest!: queue_inserts)
qed

lemma queue_start: "queue (snd (start_request_turn p q new_cid tid now s)) = queue s"
proof (cases "start_request_turn p q new_cid tid now s")
  case (Pair r s')
  show ?thesis
  proof (cases "s' = s")
    case False
    with Pair obtain v where "and_then (replay_request p (sq_user q) (sq_conv q) (strip (sq_id q)) (sq_content q) now s) (\<lambda>(r, s1).
          case r of
            Replayed t \<Rightarrow> Inr (\<lparr>sd_turn = t, sd_replayed = True, sd_created = False\<rparr>, s1)
          | RunIn cid \<Rightarrow> start_claimed p q (strip (sq_id q)) new_cid tid now cid s1) = Inr (v, s')"
      by (cases r) (auto simp: start_request_turn_def Let_def transact_Inr transact_Inl split: if_splits)
    then obtain r1 s1 where 1: "replay_request p (sq_user q) (sq_conv q) (strip (sq_id q)) (sq_content q) now s = Inr (r1, s1)"
      and 2: "(case r1 of Replayed t \<Rightarrow> Inr (\<lparr>sd_turn = t, sd_replayed = True, sd_created = False\<rparr>, s1)
          | RunIn cid \<Rightarrow> start_claimed p q (strip (sq_id q)) new_cid tid now cid s1) = Inr (v, s')"
      by (auto simp: and_then_Inr simp del: split_paired_Ex)
    have "queue s' = queue s1"
    proof (cases r1)
      case (RunIn cid)
      with 2 show ?thesis
        by (auto simp: and_then_Inr start_claimed_def dest!: queue_ensure queue_claim queue_open)
    qed (use 2 in simp)
    then have "queue s' = queue s" using queue_replay [OF 1] by simp
    then show ?thesis using Pair by simp
  qed (use Pair in simp)
qed

lemma queue_insert_turns: "insert_turns ts s = Inr s' \<Longrightarrow> queue s' = queue s"
  by (induction ts arbitrary: s) (auto simp: and_then_Inr dest!: queue_inserts)

lemma queue_copies [simp]:
  "queue (snd (copy_messages user child nt ih ms acc s)) = queue s"
  "queue (copy_snapshots user child nt later ts s) = queue s"
proof -
  show "queue (snd (copy_messages user child nt ih ms acc s)) = queue s"
  proof (induction ms arbitrary: acc s)
    case (Cons m ms)
    then show ?case by (simp add: case_prod_beta)
  qed simp
  show "queue (copy_snapshots user child nt later ts s) = queue s"
    by (induction ts arbitrary: s) (auto split: option.split)
qed

lemma queue_branch_off:
  assumes "branch_off user source key fp row ih cutoff ids s = Inr (r, s')" shows "queue s' = queue s"
proof -
  from assms obtain s1 s2 where 1: "insert_conversation row s = Inr s1"
    and 2: "materialize_branch user source (bi_child ids) ih cutoff (bi_turn ids) (bi_later ids) s1 = Inr s2"
    and s': "queue s' = queue s2"
    by (auto simp: branch_off_def and_then_Inr)
  from 2 obtain s3 c where "insert_turns c (snd (copy_messages user (bi_child ids) (bi_turn ids) ih
      (filter (inherits_message ih (other_turns s1 user source ih) cutoff) (get_messages s1 user source)) [] s1)) = Inr s3"
    and "queue s2 = queue s3"
    by (auto simp: materialize_branch_def Let_def case_prod_beta and_then_Inr)
  with queue_inserts(1) [OF 1] s' show ?thesis using queue_insert_turns by fastforce
qed

lemma queue_branches [simp]:
  "queue (snd (fork_conversation user source tid title key ids s)) = queue s"
  "queue (snd (branch_for_edit user source i title key ids s)) = queue s"
proof -
  show "queue (snd (fork_conversation user source tid title key ids s)) = queue s"
    by (cases "fork_conversation user source tid title key ids s")
      (auto dest!: fork_conversation_cases queue_branch_off)
  show "queue (snd (branch_for_edit user source i title key ids s)) = queue s"
    by (cases "branch_for_edit user source i title key ids s")
      (auto dest!: branch_for_edit_cases queue_branch_off)
qed

lemma queue_steps [simp]:
  "queue (snd (complete_turn u t mid now s)) = queue s"
  "queue (fail_turn u t now s) = queue s"
  "queue (snd (create_conversation u title arch v strict cid now s)) = queue s"
  "queue (set_agent_assignment u cid arch v strict s) = queue s"
  "queue (snd (rename_conversation u cid name now s)) = queue s"
  "queue (snd (add_message u cid mrole content kind recs ts tid s)) = queue s"
  "queue (snd (remove_favorite u url s)) = queue s"
  "queue (snd (delete_all_favorites u s)) = queue s"
  "queue (save_turn_snapshot u cid t snap ver now s) = queue s"
  "queue (snd (patch_latest_snapshot_summary u cid summary t now s)) = queue s"
  by (auto simp: complete_turn_def fail_turn_def create_conversation_def set_agent_assignment_def rename_conversation_def
      add_message_def remove_favorite_def delete_all_favorites_def save_turn_snapshot_def patch_latest_snapshot_summary_def
      queue_def update_turns_def drop_lease_of_turn_def insert_conversation_def update_conversation_def insert_message_def
      touch_conversation_def replace_snapshot_def Let_def transact_def split: option.split sum.split)

subsection \<open>Operations on the outbox\<close>

lemma history_append:
  "jb_id j = st_next_job s \<Longrightarrow> history s (s\<lparr>st_jobs := st_jobs s @ [j], st_next_job := st_next_job s + 1\<rparr>)"
  by (auto simp: history_def intro: continues_refl)

lemma history_enqueue: "enqueue_jobs pstr user cid tid now xs s = Inr s' \<Longrightarrow> history s s'"
proof (induction xs arbitrary: s)
  case (Cons x xs)
  from Cons.prems obtain s1 where 1: "enqueue_job pstr user cid tid now x s = Inr s1"
    and 2: "enqueue_jobs pstr user cid tid now xs s1 = Inr s'"
    by (auto simp: and_then_Inr)
  from 1 have "history s s1"
    by (auto simp: enqueue_job_def Let_def split: if_splits intro!: history_append [simplified])
  then show ?case using Cons.IH [OF 2] by (rule history_trans)
qed simp

lemma history_finalize: "history s (snd (finalize_request_turn pstr u t a now s))"
proof (cases "finalize_request_turn pstr u t a now s")
  case (Pair r s')
  show ?thesis
  proof (cases "s' = s")
    case False
    with Pair obtain row where "finalize_running pstr u row a now s = Inr s'"
      by (cases r) (auto simp: finalize_request_turn_def transact_Inr transact_Inl and_then_Inr split: option.splits if_splits)
    moreover obtain mid s1 where m: "insert_message u (tn_conv row) ''assistant'' (fa_content a) (fa_type a) (fa_recs a)
          now (Some (tn_id row)) s = (mid, s1)" by fastforce
    ultimately obtain s3 s4 where u: "update_turns (\<lambda>w. tn_user w = u \<and> tn_id w = tn_id row \<and> tn_status w = TRunning)
          (settle_turn a mid now) (set_metadata mid (fa_metadata a) s1) = Inr s3"
      and c: "store_completion pstr u row a now s3 = Inr s4" and s': "queue s' = queue s4"
      by (auto simp: finalize_running_def Let_def and_then_Inr split: if_splits)
    have "queue s1 = queue s" using m queue_frame(10) by (metis snd_conv)
    then have "queue s3 = queue s" using queue_inserts(5) [OF u] by simp
    moreover have "history s3 s4"
    proof (cases "fa_snapshot a")
      case None
      with c show ?thesis by (simp add: store_completion_def)
    next
      case (Some snap)
      let ?r = "replace_snapshot \<lparr>sn_turn = tn_id row, sn_user = u, sn_conv = tn_conv row,
          sn_version = fa_version a, sn_json = snap, sn_created = now\<rparr> s3"
      have "history s3 ?r" by (simp add: history_queue)
      moreover have "history ?r s4 \<or> s4 = s3"
        using c Some by (auto simp: store_completion_def split: if_splits dest: history_enqueue)
      ultimately show ?thesis using history_trans by fastforce
    qed
    ultimately have "history s s'" using s' by (metis history_queue history_trans)
    then show ?thesis using Pair by simp
  qed (use Pair in simp)
qed

lemma history_orphans: "history s (snd (close_orphans pstr now ls s))"
proof (induction ls arbitrary: s)
  case (Cons l ls)
  let ?a = "\<lparr>fa_completed = False, fa_content = if conversation_is_zh s (lz_user l) (lz_conv l) then cancelled_text_zh else cancelled_text_en,
     fa_type = Some ''error'', fa_recs = Some (JArr []), fa_snapshot = None, fa_version = 1, fa_jobs = [], fa_metadata = None\<rparr>"
  obtain r s1 where run: "finalize_request_turn pstr (lz_user l) (lz_turn l) ?a now s = (r, s1)" by fastforce
  then have first: "history s s1" using history_finalize by (metis snd_conv)
  show ?case
  proof (cases r)
    case (Inl e)
    with run Cons.IH show ?thesis by simp
  next
    case (Inr w)
    obtain n s2 where rest: "close_orphans pstr now ls s1 = (n, s2)" by fastforce
    then have "history s1 s2" using Cons.IH by (metis snd_conv)
    with first have "history s s2" by (rule history_trans)
    then show ?thesis using run Inr rest by simp
  qed
qed simp

lemma reap_leases_frame: "reap_user_leases p u now ls s = Inr s' \<Longrightarrow> queue s' = queue s"
  by (induction p u now ls s rule: reap_user_leases.induct) (auto split: if_splits)

lemma history_erasure: "history s (snd (begin_privacy_erasure p u now s))"
proof (cases "begin_privacy_erasure p u now s")
  case (Pair r s')
  show ?thesis
  proof (cases "s' = s")
    case False
    let ?held = "map (\<lambda>l. (l, lease_status s l)) (filter (\<lambda>l. lz_user l = u) (st_leases s))"
    from False Pair obtain s1 where 1: "reap_user_leases p u now ?held s = Inr s1"
      and q: "queue s' = queue s1 \<or> queue s' = (update_where (\<lambda>j. jb_user j = u \<and> jb_status j = JRunning)
                (\<lambda>j. j\<lparr>jb_status := JPending, jb_claimed := None, jb_lease := None, jb_updated := now\<rparr>) (st_jobs s1), st_next_job s1)"
      by (cases r) (auto simp: begin_privacy_erasure_def queue_def transact_Inr transact_Inl and_then_Inr split: if_splits option.splits)
    from q have "history s1 s'"
    proof
      assume "queue s' = (update_where (\<lambda>j. jb_user j = u \<and> jb_status j = JRunning)
                (\<lambda>j. j\<lparr>jb_status := JPending, jb_claimed := None, jb_lease := None, jb_updated := now\<rparr>) (st_jobs s1), st_next_job s1)"
      then show ?thesis by (rule history_changed) (simp add: continues_def settled_def checkpointed_def)
    qed (rule history_queue)
    with history_queue [OF reap_leases_frame [OF 1]] have "history s s'" by (rule history_trans)
    then show ?thesis using Pair by simp
  qed (use Pair in simp)
qed

lemma history_deletes:
  "history s (snd (delete_all_user_data u s))"
  "history s (snd (delete_conversation p u cid now s))"
  "history s (snd (delete_all_conversations p u now s))"
  "history s (snd (clear_conversation_messages p u cid now later s))"
  by (auto simp: delete_all_user_data_def delete_conversation_def delete_all_conversations_def clear_conversation_messages_def
      drop_user_rows_def drop_conversation_rows_def drop_user_conversations_def Let_def queue_def touch_conversation_def
      split: option.split intro!: history_delete)

lemma history_release: "history s (release_expired_jobs now s)"
  unfolding release_expired_jobs_def
  by (rule history_update) (simp add: continues_def settled_def checkpointed_def)

lemma history_claim: "history s (snd (claim_background_job w secs now s))"
proof -
  let ?s = "release_expired_jobs now s"
  have "history ?s (snd (claim_background_job w secs now s)) \<or> snd (claim_background_job w secs now s) = s"
    unfolding claim_background_job_def Let_def
    by (auto split: option.split intro!: history_update simp: continues_def settled_def checkpointed_def)
  then show ?thesis using history_trans [OF history_release] by auto
qed

lemma history_owned:
  assumes "\<And>j. jb_status j = JRunning \<Longrightarrow> continues j (f j)"
  shows "history s (snd (update_owned_job i w f s))"
proof -
  have "history s (s\<lparr>st_jobs := update_where (owned_running i w) f (st_jobs s)\<rparr>)"
    by (rule history_update) (simp add: assms owned_running_def)
  then show ?thesis by (simp add: update_owned_job_def Let_def)
qed

lemma history_save: "is_dict result \<Longrightarrow> history s (snd (save_background_job_result i w result now s))"
  unfolding save_background_job_result_def
  by (rule history_owned) (cases result, auto simp: continues_def settled_def checkpointed_def)

lemma history_complete: "history s (snd (complete_background_job i w now s))"
  unfolding complete_background_job_def
  by (rule history_owned) (simp add: continues_def settled_def checkpointed_def)

text \<open>A worker holds running jobs only.\<close>

lemma held_runs:
  assumes "store_ok s" "j \<in> set (st_jobs s)" "job_worker i w j" shows "jb_status j = JRunning"
  using store_okD(4) [OF assms(1)] assms(2,3) by (auto simp: jobs_ok_def job_worker_def)

lemma history_retry: "store_ok s \<Longrightarrow> history s (snd (retry_background_job i w err limit now s))"
proof -
  assume ok: "store_ok s"
  have "history s (s\<lparr>st_jobs := update_where (job_worker i w) f (st_jobs s)\<rparr>)"
    if "\<And>j. jb_status j = JRunning \<Longrightarrow> continues j (f j)" for f
    by (rule history_update) (use that held_runs [OF ok] in blast)
  then show ?thesis
    by (auto simp: retry_background_job_def Let_def continues_def settled_def checkpointed_def split: option.split)
qed

text \<open>Results are dictionaries, as \<open>save_background_job_result\<close> declares and its callers pass.\<close>

fun saves_dict :: "store_op \<Rightarrow> bool" where
  "saves_dict (OpSaveJob i w result now) = is_dict result"
| "saves_dict _ = True"

lemma history_step: "store_ok s \<Longrightarrow> saves_dict op \<Longrightarrow> history s (store_step pstr s op)"
  by (cases op)
    (simp_all add: history_queue queue_start history_finalize history_orphans close_orphaned_turns_def history_erasure
      history_deletes history_claim history_save history_complete history_retry)

lemma history_run: "store_ok s \<Longrightarrow> list_all saves_dict ops \<Longrightarrow> history s (run_ops (store_step pstr) s ops)"
proof (induction ops arbitrary: s)
  case (Cons op ops)
  then have "history s (store_step pstr s op)" by (simp add: history_step)
  moreover have "history (store_step pstr s op) (run_ops (store_step pstr) (store_step pstr s op) ops)"
    using Cons by (intro Cons.IH) (simp_all add: store_step_ok)
  ultimately show ?case by (simp, rule history_trans)
qed simp

section \<open>What is finished stays finished\<close>

definition finished_in :: "store \<Rightarrow> nat \<Rightarrow> bool" where
  "finished_in s i \<longleftrightarrow> i < st_next_job s \<and> (\<forall>j \<in> set (st_jobs s). jb_id j = i \<longrightarrow> settled j)"

definition answered_in :: "store \<Rightarrow> nat \<Rightarrow> bool" where
  "answered_in s i \<longleftrightarrow> i < st_next_job s \<and> (\<forall>j \<in> set (st_jobs s). jb_id j = i \<longrightarrow> settled j \<or> checkpointed j)"

lemma history_job:
  assumes "history s s'" "k \<in> set (st_jobs s')" "jb_id k < st_next_job s"
  obtains j where "j \<in> set (st_jobs s)" "continues j k"
  using assms by (auto simp: history_def)

lemma finished_later: "finished_in s i \<Longrightarrow> history s s' \<Longrightarrow> finished_in s' i"
  unfolding finished_in_def
  by (auto simp: history_def continues_def)

lemma answered_later: "answered_in s i \<Longrightarrow> history s s' \<Longrightarrow> answered_in s' i"
proof -
  assume a: "answered_in s i" and h: "history s s'"
  have "settled k \<or> checkpointed k" if k: "k \<in> set (st_jobs s')" "jb_id k = i" for k
  proof -
    obtain j where "j \<in> set (st_jobs s)" "continues j k"
      by (rule history_job [OF h k(1)]) (use a k(2) in \<open>auto simp: answered_in_def\<close>)
    then show ?thesis using a k(2) by (auto simp: answered_in_def continues_def)
  qed
  then show ?thesis using a h by (simp add: answered_in_def history_def)
qed

lemma claimed_job:
  assumes "store_ok s" "claim_background_job w secs now s = (Some k, s')"
  shows "k \<in> set (st_jobs s')" "jb_status k = JRunning" "jb_claimed k = Some w"
proof -
  let ?s = "release_expired_jobs now s"
  let ?run = "\<lambda>k. k\<lparr>jb_status := JRunning, jb_attempts := jb_attempts k + 1, jb_claimed := Some w,
                         jb_lease := Some (now + max 1 (of_int (py_int secs))), jb_updated := now\<rparr>"
  from assms(2) obtain j where n: "next_ready_job ?s now = Some j"
    and k: "find (\<lambda>k. jb_id k = jb_id j) (update_where (\<lambda>k. jb_id k = jb_id j \<and> jb_status k = JPending) ?run (st_jobs ?s)) = Some k"
    and s': "st_jobs s' = update_where (\<lambda>k. jb_id k = jb_id j \<and> jb_status k = JPending) ?run (st_jobs ?s)"
    by (auto simp: claim_background_job_def Let_def split: option.splits if_splits)
  note j = next_ready_jobD [OF n]
  from find_member [OF k] have k': "k \<in> set (st_jobs s')" "jb_id k = jb_id j" unfolding s' by blast+
  then show "k \<in> set (st_jobs s')" by simp
  from k' have "k \<in> set (update_where (\<lambda>k. jb_id k = jb_id j \<and> jb_status k = JPending) ?run (st_jobs ?s))" by (simp add: s')
  then have "jb_status k = JRunning \<and> jb_claimed k = Some w"
  proof (cases rule: update_whereE)
    case 2
    with j k'(2) have "k = j" using job_unique [OF store_okD(4) [OF release_expired_jobs_ok [OF assms(1)]]] by blast
    with 2 j show ?thesis by (simp add: job_ready_def)
  qed simp
  then show "jb_status k = JRunning" "jb_claimed k = Some w" by simp_all
qed

lemma finished_not_claimed:
  assumes "store_ok s" "finished_in s i" "claim_background_job w secs now s = (Some k, s')"
  shows "jb_id k \<noteq> i"
proof
  assume "jb_id k = i"
  moreover have "finished_in s' i"
    using finished_later [OF assms(2)] history_claim by (metis assms(3) snd_conv)
  ultimately have "settled k" using claimed_job(1) [OF assms(1,3)] by (simp add: finished_in_def)
  then show False using claimed_job(2) [OF assms(1,3)] by (simp add: settled_def)
qed

text \<open>The two updates a worker makes on its own job.\<close>

lemma owned_update:
  assumes "store_ok s" "update_owned_job i w f s = (Inr u, s')" "\<And>j. jb_id (f j) = jb_id j"
  obtains j where "j \<in> set (st_jobs s)" "jb_id j = i" "jb_status j = JRunning"
    "\<forall>k \<in> set (st_jobs s'). jb_id k = i \<longrightarrow> k = f j" "f j \<in> set (st_jobs s')" "i < st_next_job s'"
proof -
  from assms(2) have one: "length (filter (owned_running i w) (st_jobs s)) = 1"
    and s': "s' = s\<lparr>st_jobs := update_where (owned_running i w) f (st_jobs s)\<rparr>"
    by (auto simp: update_owned_job_def Let_def split: if_splits)
  from one obtain j where "filter (owned_running i w) (st_jobs s) = [j]" by (auto simp: length_Suc_conv)
  then have "j \<in> set (filter (owned_running i w) (st_jobs s))" by simp
  then have j: "j \<in> set (st_jobs s)" "owned_running i w j" by simp_all
  note ok = store_okD(4) [OF assms(1)]
  have id: "jb_id j = i" "jb_status j = JRunning" using j(2) by (simp_all add: owned_running_def job_worker_def)
  have "k = f j" if k: "k \<in> set (st_jobs s')" "jb_id k = i" for k
  proof -
    from k(1) have "k \<in> set (update_where (owned_running i w) f (st_jobs s))" by (simp add: s')
    then show ?thesis
    proof (cases rule: update_whereE)
      case (1 q)
      with k(2) assms(3) have "q = j" using job_unique [OF ok 1(1) j(1)] id(1) by simp
      with 1 show ?thesis by simp
    next
      case 2
      with k(2) have "k = j" using job_unique [OF ok 2(1) j(1)] id(1) by simp
      with 2 j(2) show ?thesis by simp
    qed
  qed
  moreover have "f j \<in> set (st_jobs s')" using j by (force simp: s')
  moreover have "i < st_next_job s'" using ok j(1) id(1) by (auto simp: jobs_ok_def s')
  ultimately show thesis using that [OF j(1) id] by blast
qed

lemma completed_is_finished:
  assumes "store_ok s" "complete_background_job i w now s = (Inr u, s')"
  shows "finished_in s' i \<and> (\<exists>k \<in> set (st_jobs s'). jb_id k = i \<and> jb_status k = JCompleted \<and> jb_payload k = JObj [] \<and> jb_result k = None)"
proof (rule owned_update [OF assms(1) assms(2) [unfolded complete_background_job_def]])
  let ?f = "\<lambda>j. j\<lparr>jb_status := JCompleted, jb_payload := JObj [], jb_result := None, jb_claimed := None,
               jb_lease := None, jb_error := None, jb_updated := now\<rparr>"
  fix j
  assume j: "jb_id j = i" "\<forall>k \<in> set (st_jobs s'). jb_id k = i \<longrightarrow> k = ?f j" "?f j \<in> set (st_jobs s')" "i < st_next_job s'"
  have "settled k" if "k \<in> set (st_jobs s')" "jb_id k = i" for k
  proof -
    from j(2) that have "k = ?f j" by blast
    then show ?thesis by (simp add: settled_def)
  qed
  moreover have "jb_id (?f j) = i \<and> jb_status (?f j) = JCompleted \<and> jb_payload (?f j) = JObj [] \<and> jb_result (?f j) = None"
    using j(1) by simp
  ultimately show ?thesis using j(3,4) unfolding finished_in_def by blast
qed simp

lemma saved_is_answered:
  assumes "store_ok s" "save_background_job_result i w result now s = (Inr u, s')" "is_dict result"
  shows "answered_in s' i"
proof (rule owned_update [OF assms(1) assms(2) [unfolded save_background_job_result_def]])
  fix j
  assume j: "\<forall>k \<in> set (st_jobs s'). jb_id k = i \<longrightarrow> k = j\<lparr>jb_result := Some result, jb_updated := now\<rparr>" "i < st_next_job s'"
  have "checkpointed k" if "k \<in> set (st_jobs s')" "jb_id k = i" for k
  proof -
    from j(1) that have "k = j\<lparr>jb_result := Some result, jb_updated := now\<rparr>" by blast
    then show ?thesis using assms(3) by (cases result) (simp_all add: checkpointed_def)
  qed
  then show ?thesis using j(2) unfolding answered_in_def by blast
qed simp

lemma answered_job_is_not_asked:
  assumes "store_ok s" "answered_in s (jb_id k)" "claim_background_job w secs now s = (Some k, s')"
  shows "checkpointed k"
proof -
  have "answered_in s' (jb_id k)"
    using answered_later [OF assms(2)] history_claim by (metis assms(3) snd_conv)
  then have "settled k \<or> checkpointed k" using claimed_job(1) [OF assms(1,3)] by (simp add: answered_in_def)
  then show ?thesis using claimed_job(2) [OF assms(1,3)] by (simp add: settled_def)
qed

lemma owned_refused:
  assumes "store_ok s" "update_owned_job i w f s = (Inl e, s')"
  shows "s' = s" "\<forall>k \<in> set (st_jobs s). \<not> job_worker i w k" "e = BackgroundJobGone \<or> e = JobLeaseLost"
proof -
  note ok = store_okD(4) [OF assms(1)]
  from assms(2) have many: "length (filter (owned_running i w) (st_jobs s)) \<noteq> 1"
    and s': "s' = s\<lparr>st_jobs := update_where (owned_running i w) f (st_jobs s)\<rparr>"
    and e: "e = BackgroundJobGone \<or> e = JobLeaseLost"
    by (auto simp: update_owned_job_def Let_def split: if_splits)
  have none: "\<not> owned_running i w k" if "k \<in> set (st_jobs s)" for k
  proof
    assume "owned_running i w k"
    then have "filter (owned_running i w) (st_jobs s) = [k]"
      by (intro filter_unique [where f = jb_id]) (use ok that in \<open>auto simp: jobs_ok_def owned_running_def job_worker_def\<close>)
    then show False using many by simp
  qed
  then show "\<forall>k \<in> set (st_jobs s). \<not> job_worker i w k"
    using held_runs [OF assms(1)] by (auto simp: owned_running_def)
  have "update_where (owned_running i w) f (st_jobs s) = st_jobs s"
    using none by (auto simp: update_where_def intro: map_idI)
  then show "s' = s" by (simp add: s')
  show "e = BackgroundJobGone \<or> e = JobLeaseLost" by (rule e)
qed

lemma finished_not_held: "store_ok s \<Longrightarrow> finished_in s i \<Longrightarrow> \<forall>k \<in> set (st_jobs s). \<not> job_worker i w k"
  using held_runs by (fastforce simp: finished_in_def settled_def job_worker_def)

text \<open>What \<open>retry_background_job\<close> leaves.\<close>

definition backed_off :: "int \<Rightarrow> time \<Rightarrow> nat \<Rightarrow> store \<Rightarrow> bool" where
  "backed_off limit now i s \<longleftrightarrow> (\<exists>k \<in> set (st_jobs s). jb_id k = i \<and> jb_status k = JPending
     \<and> int (jb_attempts k) < limit \<and> jb_available k = now + min 300 (2 ^ (jb_attempts k - 1)))"

definition buried :: "int \<Rightarrow> nat \<Rightarrow> store \<Rightarrow> bool" where
  "buried limit i s \<longleftrightarrow> (\<exists>k \<in> set (st_jobs s). jb_id k = i \<and> jb_status k = JDead \<and> limit \<le> int (jb_attempts k))"

lemma retried_job:
  assumes "store_ok s" "retry_background_job i w err limit now s = (outcome, s')"
  shows "\<forall>k \<in> set (st_jobs s'). \<not> job_worker i w k"
    and "outcome = Quarantined \<Longrightarrow> finished_in s' i \<and> buried (max 1 limit) i s'"
    and "outcome = Requeued \<Longrightarrow> backed_off (max 1 limit) now i s'"
proof -
  note ok = store_okD(4) [OF assms(1)]
  have all: "(\<forall>k \<in> set (st_jobs s'). \<not> job_worker i w k)
      \<and> (outcome = Quarantined \<longrightarrow> finished_in s' i \<and> buried (max 1 limit) i s')
      \<and> (outcome = Requeued \<longrightarrow> backed_off (max 1 limit) now i s')"
  proof (cases "find (job_worker i w) (st_jobs s)")
    case None
    with assms(2) show ?thesis by (auto simp: retry_background_job_def find_None_iff)
  next
    case (Some j)
    let ?dead = "max 1 limit \<le> int (jb_attempts j)"
    let ?f = "\<lambda>k. k\<lparr>jb_status := (if ?dead then JDead else JPending), jb_available := now + backoff_seconds (jb_attempts j),
                 jb_claimed := None, jb_lease := None, jb_error := Some (take 1000 err), jb_updated := now\<rparr>"
    have j: "j \<in> set (st_jobs s)" "job_worker i w j" using find_member [OF Some] by simp_all
    have s': "s' = s\<lparr>st_jobs := update_where (job_worker i w) ?f (st_jobs s)\<rparr>"
      and out: "outcome = (if ?dead then Quarantined else Requeued)"
      using assms(2) Some by (simp_all add: retry_background_job_def Let_def)
    have id: "jb_id j = i" using j(2) by (simp add: job_worker_def)
    have row: "k = ?f j" if k: "k \<in> set (st_jobs s')" "jb_id k = i" for k
    proof -
      from k(1) have "k \<in> set (update_where (job_worker i w) ?f (st_jobs s))" by (simp add: s')
      then show ?thesis
      proof (cases rule: update_whereE)
        case (1 q)
        with k(2) have "q = j" using job_unique [OF ok 1(1) j(1)] id by simp
        with 1 show ?thesis by simp
      next
        case 2
        with k(2) have "k = j" using job_unique [OF ok 2(1) j(1)] id by simp
        with 2 j(2) show ?thesis by simp
      qed
    qed
    have mem: "?f j \<in> set (st_jobs s')" using j by (force simp: s')
    have "\<not> job_worker i w k" if "k \<in> set (st_jobs s')" for k
    proof
      assume h: "job_worker i w k"
      then have "k = ?f j" by (intro row that) (simp add: job_worker_def)
      then have "jb_claimed k = None" by simp
      with h show False by (simp add: job_worker_def)
    qed
    moreover have "finished_in s' i" if ?dead
    proof -
      have "settled k" if "k \<in> set (st_jobs s')" "jb_id k = i" for k
      proof -
        have "k = ?f j" using that by (rule row)
        then show ?thesis using \<open>?dead\<close> by (simp add: settled_def)
      qed
      moreover have "i < st_next_job s'" using ok j(1) id by (auto simp: jobs_ok_def s')
      ultimately show ?thesis unfolding finished_in_def by blast
    qed
    moreover have "buried (max 1 limit) i s'" if ?dead
      unfolding buried_def by (rule bexI [OF _ mem]) (use that id in simp)
    moreover have "backed_off (max 1 limit) now i s'" if "\<not> ?dead"
    proof -
      from that have lt: "int (jb_attempts j) < max 1 limit" by linarith
      show ?thesis unfolding backed_off_def
        by (intro bexI [OF _ mem]) (use that id lt in \<open>simp add: backoff_seconds_def\<close>)
    qed
    ultimately show ?thesis using out by simp
  qed
  then show "\<forall>k \<in> set (st_jobs s'). \<not> job_worker i w k"
    "outcome = Quarantined \<Longrightarrow> finished_in s' i \<and> buried (max 1 limit) i s'"
    "outcome = Requeued \<Longrightarrow> backed_off (max 1 limit) now i s'" by simp_all
qed

section \<open>One run, from claim to release\<close>

lemma failure_of_lost: "failure_of what BackgroundJobGone = Gone"
  "failure_of what JobLeaseLost \<noteq> Gone" "failure_of what JobLeaseLost \<noteq> Finished"
  by simp_all

text \<open>Every path of \<open>run_once\<close> after the claim lets go of the job.\<close>

definition run_outcome :: "outbox_worker \<Rightarrow> time \<Rightarrow> nat \<Rightarrow> run_end \<Rightarrow> store \<Rightarrow> bool" where
  "run_outcome w now i r s \<longleftrightarrow> (\<forall>k \<in> set (st_jobs s). \<not> job_worker i (ow_worker w) k)
     \<and> (r = Completed \<longrightarrow> finished_in s i \<and> (\<exists>k \<in> set (st_jobs s). jb_id k = i \<and> jb_status k = JCompleted
            \<and> jb_payload k = JObj [] \<and> jb_result k = None))
     \<and> (r = Retried Quarantined \<longrightarrow> finished_in s i \<and> buried (max 1 (ow_max_attempts w)) i s)
     \<and> (r = Retried Requeued \<longrightarrow> backed_off (max 1 (ow_max_attempts w)) now i s)"

lemma retry_outcome:
  assumes "store_ok s" "retry_background_job i (ow_worker w) err (ow_max_attempts w) now s = (outcome, s')"
  shows "run_outcome w now i (Retried outcome) s'"
  using retried_job [OF assms] by (auto simp: run_outcome_def)

lemma settled_outcome:
  assumes "store_ok s" "settle_job w j now ending s = (r, s')"
  shows "run_outcome w now (jb_id j) r s'"
proof -
  let ?i = "jb_id j"
  have retry: "run_outcome w now ?i r s'"
    if "(let (outcome, s') = retry_background_job ?i (ow_worker w) err (ow_max_attempts w) now s in (Retried outcome, s')) = (r, s')" for err
    using that retry_outcome [OF assms(1)] by (auto simp: Let_def split: prod.splits)
  have refused: "s2 = s \<and> (\<forall>k \<in> set (st_jobs s). \<not> job_worker ?i (ow_worker w) k) \<and> (e = BackgroundJobGone \<or> e = JobLeaseLost)"
    if "complete_background_job ?i (ow_worker w) now s = (Inl e, s2)" for e s2
    using owned_refused [OF assms(1) that [unfolded complete_background_job_def]] by blast
  have completes: "run_outcome w now ?i q s2" if c: "complete_background_job ?i (ow_worker w) now s = (Inr u, s2)"
    and q: "q = Completed \<or> q = Dropped" for q u s2
  proof -
    have "store_ok s2" using complete_background_job_ok [OF assms(1)] by (metis c snd_conv)
    with completed_is_finished [OF assms(1) c] q show ?thesis
      by (auto simp: run_outcome_def dest: finished_not_held)
  qed
  have drop: "run_outcome w now ?i r s'" if "(r, s') = (Dropped, snd (complete_background_job ?i (ow_worker w) now s))"
  proof (cases "complete_background_job ?i (ow_worker w) now s")
    case (Pair c s2)
    show ?thesis
    proof (cases c)
      case (Inl e)
      with refused [of e s2] Pair that show ?thesis by (auto simp: run_outcome_def)
    next
      case (Inr u)
      with Pair that show ?thesis using completes [of u s2 Dropped] by simp
    qed
  qed
  show ?thesis
  proof (cases ending)
    case Finished
    show ?thesis
    proof (cases "complete_background_job ?i (ow_worker w) now s")
      case (Pair c s2)
      show ?thesis
      proof (cases c)
        case (Inl e)
        with refused [of e s2] Pair have "s2 = s" "e = BackgroundJobGone \<or> e = JobLeaseLost" by simp_all
        then show ?thesis
        proof (elim disjE)
          assume "e = BackgroundJobGone"
          with Inl Pair Finished assms(2) \<open>s2 = s\<close> show ?thesis by (intro drop) (simp add: settle_job_def)
        next
          assume "e = JobLeaseLost"
          with Inl Pair Finished assms(2) \<open>s2 = s\<close> show ?thesis by (intro retry) (simp add: settle_job_def)
        qed
      next
        case (Inr u)
        with Pair Finished assms(2) show ?thesis using completes [of u s2 Completed] by (simp add: settle_job_def)
      qed
    qed
  next
    case Gone
    with assms(2) show ?thesis by (intro drop) (simp add: settle_job_def)
  next
    case (Raised err)
    with assms(2) show ?thesis by (intro retry [of err]) (simp add: settle_job_def)
  qed
qed

lemma settle_ok: "store_ok s \<Longrightarrow> settle_job w j now ending s = (r, s') \<Longrightarrow> store_ok s'"
proof -
  assume ok: "store_ok s" and run: "settle_job w j now ending s = (r, s')"
  have "store_ok (snd (settle_job w j now ending s))"
    using complete_background_job_ok [OF ok] retry_background_job_ok [OF ok]
      complete_background_job_ok [OF complete_background_job_ok [OF ok]] retry_background_job_ok [OF complete_background_job_ok [OF ok]]
    by (auto simp: settle_job_def Let_def split: job_end.split prod.split sum.split) (metis snd_conv)+
  then show ?thesis by (simp add: run)
qed

lemma patch_ok: "store_ok s \<Longrightarrow> patch_latest_snapshot_summary u cid summary t now s = (r, s') \<Longrightarrow> store_ok s'"
  using patch_latest_snapshot_summary_ok by (metis snd_conv)

lemma run_store_ok: "store_ok s \<Longrightarrow> store_ok (run_ops (store_step pstr) s ops)"
  by (rule store_machine.inv_run_from) simp_all

lemma apply_summary_parts:
  assumes "store_ok s"
  shows "store_ok (ap_store (apply_summary pstr e j result asked s))" "ap_asked (apply_summary pstr e j result asked s) = asked"
proof -
  obtain r s1 where p: "patch_latest_snapshot_summary (jb_user j) (jb_conv j) (str_or pstr (map_of result ''summary'') [])
      (str_or pstr (map_of result ''through_turn_id'') (jb_turn j)) (we_patched e) (run_ops (store_step pstr) s (we_between e)) = (r, s1)"
    by fastforce
  have "store_ok s1" by (rule patch_ok [OF run_store_ok [OF assms] p])
  then show "store_ok (ap_store (apply_summary pstr e j result asked s))" "ap_asked (apply_summary pstr e j result asked s) = asked"
    unfolding apply_summary_def Let_def p by (simp_all split: sum.split bool.split)
qed

lemma save_ok: "store_ok s \<Longrightarrow> save_background_job_result i w result now s = (r, s') \<Longrightarrow> store_ok s'"
  using save_background_job_result_ok by (metis snd_conv)

lemma apply_job_ok:
  assumes "store_ok s" shows "store_ok (ap_store (apply_background_job pstr e w j s))"
proof -
  have "store_ok (ap_store (apply_rolling_summary pstr e w j payload s))" for payload
    by (auto simp: apply_rolling_summary_def Let_def assms split: option.split json.split prod.split sum.split
        intro!: apply_summary_parts(1) dest!: save_ok [OF run_store_ok [OF assms]])
  moreover have "store_ok (ap_store (apply_memory_turn pstr e w j payload s))" for payload
    by (auto simp: apply_memory_turn_def Let_def assms run_store_ok split: option.split json.split prod.split sum.split memory_answer.split
        dest!: save_ok [OF run_store_ok [OF assms]])
  ultimately show ?thesis
    by (auto simp: apply_background_job_def assms split: json.split)
qed

text \<open>A job that was claimed with a result is applied without a question.\<close>

lemma checkpointed_asks_nothing:
  assumes "checkpointed j" "store_ok s" shows "ap_asked (apply_background_job pstr e w j s) = []"
proof -
  from assms(1) obtain fs where r: "jb_result j = Some (JObj fs)" by (auto simp: checkpointed_def)
  then have "ap_asked (apply_rolling_summary pstr e w j payload s) = []" "ap_asked (apply_memory_turn pstr e w j payload s) = []" for payload
    by (simp_all add: apply_rolling_summary_def apply_memory_turn_def apply_summary_parts(2) [OF assms(2)])
  then show ?thesis unfolding apply_background_job_def by (simp split: json.split)
qed

text \<open>
  C24. Work that is paid for once is not paid for twice.  After a job's result was saved, whatever
  operations follow, crashes and expired leases included, a later run of any worker on that job
  asks neither the language model nor the memory again.
\<close>

theorem saved_work_is_not_repeated:
  assumes "s = run_ops (store_step pstr) empty_store ops"
    and "save_background_job_result i worker result now s = (Inr (), s1)" "is_dict result" "list_all saves_dict later"
    and "run_once pstr w e (run_ops (store_step pstr) s1 later) = (r, s2)" "wr_job r = Some j" "jb_id j = i"
  shows "wr_asked r = []"
proof -
  let ?t = "run_ops (store_step pstr) s1 later"
  have ok: "store_ok s" unfolding assms(1) by (rule run_store_ok [OF store_ok_empty])
  have ok1: "store_ok s1" by (rule save_ok [OF ok assms(2)])
  have "answered_in ?t i"
    by (rule answered_later [OF saved_is_answered [OF ok assms(2,3)] history_run [OF ok1 assms(4)]])
  moreover obtain s3 where c: "claim_background_job (ow_worker w) (of_int (ow_lease_seconds w)) (we_claim e) ?t = (Some j, s3)"
    and a: "wr_asked r = ap_asked (apply_background_job pstr e (ow_worker w) j (run_ops (store_step pstr) s3 (we_started e)))"
    using assms(5,6) by (auto simp: run_once_def Let_def split: prod.splits option.splits)
  ultimately have "checkpointed j" using answered_job_is_not_asked [OF run_store_ok [OF ok1]] assms(7) by blast
  moreover have "store_ok s3" using claim_background_job_ok [OF run_store_ok [OF ok1]] by (metis c snd_conv)
  ultimately show ?thesis using a checkpointed_asks_nothing run_store_ok by metis
qed

text \<open>
  A worker always lets go.  Whatever happens while a worker processes a job, at the end of the
  run it holds the job no longer: the job is completed and emptied, or pending again after the
  backoff of its attempts, which are fewer than the limit, or dead at the limit, or gone or with
  another worker.  A job that a run completed or buried is never claimed again.
\<close>

theorem run_settles_job:
  assumes "s = run_ops (store_step pstr) empty_store ops"
    and "run_once pstr w e s = (r, s1)" "wr_job r = Some j"
  shows "run_outcome w (we_finished e) (jb_id j) (wr_end r) s1
    \<and> (wr_end r = Completed \<or> wr_end r = Retried Quarantined \<longrightarrow>
         (\<forall>later v secs now k s2. list_all saves_dict later
            \<longrightarrow> claim_background_job v secs now (run_ops (store_step pstr) s1 later) = (Some k, s2) \<longrightarrow> jb_id k \<noteq> jb_id j))"
proof -
  have ok: "store_ok s" unfolding assms(1) by (rule run_store_ok [OF store_ok_empty])
  obtain s0 where c: "claim_background_job (ow_worker w) (of_int (ow_lease_seconds w)) (we_claim e) s = (Some j, s0)"
    and f: "settle_job w j (we_finished e) (ap_end (apply_background_job pstr e (ow_worker w) j (run_ops (store_step pstr) s0 (we_started e))))
              (ap_store (apply_background_job pstr e (ow_worker w) j (run_ops (store_step pstr) s0 (we_started e)))) = (wr_end r, s1)"
    using assms(2,3) by (auto simp: run_once_def Let_def split: prod.splits option.splits)
  have "store_ok s0" using claim_background_job_ok [OF ok] by (metis c snd_conv)
  then have applied: "store_ok (ap_store (apply_background_job pstr e (ow_worker w) j (run_ops (store_step pstr) s0 (we_started e))))"
    by (intro apply_job_ok run_store_ok)
  have out: "run_outcome w (we_finished e) (jb_id j) (wr_end r) s1" by (rule settled_outcome [OF applied f])
  moreover have "jb_id k \<noteq> jb_id j"
    if "wr_end r = Completed \<or> wr_end r = Retried Quarantined" "list_all saves_dict later"
      "claim_background_job v secs now (run_ops (store_step pstr) s1 later) = (Some k, s2)" for later v secs now k s2
  proof -
    have "finished_in s1 (jb_id j)" using out that(1) by (auto simp: run_outcome_def)
    moreover have ok1: "store_ok s1" using settle_ok [OF applied f] .
    ultimately have "finished_in (run_ops (store_step pstr) s1 later) (jb_id j)"
      using finished_later history_run [OF ok1 that(2)] by blast
    then show ?thesis using finished_not_claimed [OF run_store_ok [OF ok1] _ that(3)] by blast
  qed
  ultimately show ?thesis by blast
qed

section \<open>Runs\<close>

definition demo_worker :: outbox_worker where "demo_worker = make_worker ''b'' 300 5"

definition demo_worker_env :: "time \<Rightarrow> memory_answer \<Rightarrow> worker_env" where
  "demo_worker_env now answer = \<lparr>we_claim = now, we_started = [], we_before = [], we_between = [], we_saved = now + 1, we_patched = now + 2,
     we_finished = now + 3, we_complete = (\<lambda>_. CompletionText ''sum''), we_remember = (\<lambda>_. answer), we_exception = ''x''\<rparr>"

definition demo_crashed :: "(store_error + unit) \<times> store" where
  "demo_crashed = save_background_job_result 1 ''a'' (JObj [(''stored'', JBool True)]) 11
     (demo_store (demo_turn ''r1'' ''c1'' ''t1'' 0 @ [OpClaimJob ''a'' 300 10]))"

definition demo_rerun :: "worker_run \<times> store" where
  "demo_rerun = run_once (\<lambda>_. []) demo_worker (demo_worker_env 400 Acknowledged) (snd demo_crashed)"

theorem saved_work_is_not_repeated_witness:
  "wr_asked (fst demo_rerun) = [] \<and> map_option jb_id (wr_job (fst demo_rerun)) = Some 1"
proof -
  have i: "map_option jb_id (wr_job (fst demo_rerun)) = Some 1" and s: "fst demo_crashed = Inr ()" by code_simp+
  then obtain j where j: "wr_job (fst demo_rerun) = Some j" "jb_id j = 1" by auto
  have c: "save_background_job_result 1 ''a'' (JObj [(''stored'', JBool True)]) 11
     (demo_store (demo_turn ''r1'' ''c1'' ''t1'' 0 @ [OpClaimJob ''a'' 300 10])) = (Inr (), snd demo_crashed)"
    using s by (simp add: demo_crashed_def prod_eq_iff)
  have r: "run_once (\<lambda>_. []) demo_worker (demo_worker_env 400 Acknowledged) (run_ops (store_step (\<lambda>_. [])) (snd demo_crashed) [])
      = (fst demo_rerun, snd demo_rerun)" by (simp add: demo_rerun_def)
  have "wr_asked (fst demo_rerun) = []"
    by (rule saved_work_is_not_repeated [OF demo_store_def c _ _ r j]) simp_all
  with i show ?thesis by simp
qed

definition demo_failing :: "worker_run \<times> store" where
  "demo_failing = run_once (\<lambda>_. []) demo_worker (demo_worker_env 10 NotAcknowledged) (demo_store (demo_turn ''r1'' ''c1'' ''t1'' 0))"

theorem run_settles_job_witness:
  "wr_end (fst demo_failing) = Retried Requeued \<and> backed_off 5 13 1 (snd demo_failing)"
proof -
  have i: "map_option jb_id (wr_job (fst demo_failing)) = Some 1" and e: "wr_end (fst demo_failing) = Retried Requeued"
    by code_simp+
  then obtain j where j: "wr_job (fst demo_failing) = Some j" "jb_id j = 1" by auto
  have "run_once (\<lambda>_. []) demo_worker (demo_worker_env 10 NotAcknowledged) (demo_store (demo_turn ''r1'' ''c1'' ''t1'' 0))
      = (fst demo_failing, snd demo_failing)" by (simp add: demo_failing_def)
  from run_settles_job [OF demo_store_def this j(1)] e j(2) show ?thesis
    by (auto simp: run_outcome_def demo_worker_def make_worker_def demo_worker_env_def)
qed

text \<open>
  The patch of the snapshot is not fenced by the lease.  A worker that is held up between the claim of a
  job with a saved result and the patch comes back after another worker took the job over, finished it, and folded the
  next turn as well: the older summary replaces the newer one.
\<close>

definition summary_turn :: "string \<Rightarrow> string \<Rightarrow> string option \<Rightarrow> time \<Rightarrow> store_op list" where
  "summary_turn req tid cid now =
     [OpStart demo_process ((demo_request req [104])\<lparr>sq_conv := cid\<rparr>) ''c1'' tid now,
      OpFinalize ''u'' tid (demo_answer\<lparr>fa_jobs := [JObj [(''kind'', JStr ''rolling_summary''),
        (''payload'', JObj [(''through_turn_id'', JStr tid)])]]\<rparr>) (now + 1)]"

definition overtaking :: "store_op list" where
  "overtaking = [OpClaimJob ''b'' 300 400, OpPatchSummary ''u'' ''c1'' ''first'' ''t1'' 401, OpFinishJob 1 ''b'' 402,
     OpClaimJob ''b'' 300 403, OpSaveJob 2 ''b'' (JObj [(''summary'', JStr ''both''), (''through_turn_id'', JStr ''t2'')]) 404,
     OpPatchSummary ''u'' ''c1'' ''both'' ''t2'' 405, OpFinishJob 2 ''b'' 406]"

definition held_up :: worker_env where
  "held_up = (demo_worker_env 10 Acknowledged)\<lparr>we_between := overtaking, we_patched := 500, we_finished := 501\<rparr>"

definition taken :: "job option \<times> store" where
  "taken = claim_background_job ''a'' 300 10
     (demo_store (summary_turn ''r1'' ''t1'' None 0 @ summary_turn ''r2'' ''t2'' (Some ''c1'') 2
        @ [OpClaimJob ''z'' 5 4, OpSaveJob 1 ''z'' (JObj [(''summary'', JStr ''first''), (''through_turn_id'', JStr ''t1'')]) 5]))"

definition overtaken :: store where
  "overtaken = ap_store (apply_background_job (\<lambda>_. []) held_up ''a'' (the (fst taken)) (snd taken))"

lemma late_patch_overwrites:
  "list_all (\<lambda>j. jb_status j = JCompleted) (st_jobs overtaken)"
  "map_option (\<lambda>v. json_get v ''summary_through_turn_id'') (latest_snapshot overtaken ''u'' ''c1'') = Some (Some (JStr ''t1''))"
  by code_simp+

end
