(* ===== verification/MemoryStore.thy ===== *)
theory MemoryStore
  imports SpecialistContracts
begin

text \<open>
  \<open>app/rag/sqlite_memory_store.py\<close>: the durable collection behind the agent's long-term memory.  It
  keeps native records and copies of a legacy database, which it synchronises whenever the legacy
  file changed; tombstones keep deleted rows from coming back, and the lineage table remembers every
  id the legacy file ever held.  Tables are row lists in rowid order.  What the operating system
  answers about the files and the clock is an observation (\<open>legacy_env\<close>); SHA-256, the text of floats
  and \<open>str()\<close> are the record \<open>memory_lib\<close>.  A stored JSON text is the value it denotes, with its keys
  sorted.
\<close>

record memory_lib =
  ml_sha :: "string \<Rightarrow> string"
  ml_float :: "rat \<Rightarrow> string"
  ml_str :: "json \<Rightarrow> string"

datatype legacy_reason =
    CannotRead
  | MissingTables "string list"
  | MetadataSegments nat
  | NoDocument string
  | ChangedRepeatedly
  | MarkerUnreadable
  | MarkerInvalid
  | RetirementPending
  | SourceReappeared
  | RowMissing string
  | RowDiffers string
  | QuarantineLeft
  | OrphanedArtifacts
  | SourceDisappeared

datatype memory_error = LegacyMemoryError legacy_reason | Wrong py_error | DuplicateId

section \<open>Metadata\<close>

fun is_scalar :: "json \<Rightarrow> bool" where
  "is_scalar (JArr _) = False"
| "is_scalar (JObj _) = False"
| "is_scalar _ = True"

definition canonical_metadata :: "memory_lib \<Rightarrow> json \<Rightarrow> memory_error + fields" where
  "canonical_metadata L v =
     (case v of
        JNull \<Rightarrow> Inr []
      | JObj fs \<Rightarrow>
          if list_ex (\<lambda>(k, _). k = []) fs then Inl (Wrong ValueError)
          else Inr (map (\<lambda>(k, x). (k, if is_scalar x then x else JStr (ml_str L x))) (filter (\<lambda>(_, x). x \<noteq> JNull) fs))
      | _ \<Rightarrow> Inl (Wrong TypeError))"

text \<open>The text \<open>json.dumps(cleaned, sort_keys=True)\<close>, and what \<open>json.loads\<close> makes of it.\<close>

definition stored :: "fields \<Rightarrow> fields" where
  "stored md = sort_key fst md"

definition meta_get :: "fields \<Rightarrow> string \<Rightarrow> json" where
  "meta_get md name = (case map_of md name of None \<Rightarrow> JNull | Some v \<Rightarrow> v)"

definition record_columns :: "fields \<Rightarrow> json list" where
  "record_columns md = map (meta_get md) [''user_id'', ''mtype'', ''hash'', ''idempotency_key'', ''created_at'', ''last_access'']"

section \<open>The where filter\<close>

text \<open>\<open>==\<close> of a metadata value, which is a scalar, with a JSON value.\<close>

definition scalar_eq :: "json \<Rightarrow> json \<Rightarrow> bool" where
  "scalar_eq a b =
     (case (json_number a, json_number b) of
        (Some x, Some y) \<Rightarrow> x = y
      | (None, None) \<Rightarrow> a = b
      | _ \<Rightarrow> False)"

text \<open>\<open>all\<close> and \<open>any\<close> over a test that may raise.\<close>

fun every :: "('a \<Rightarrow> 'e + bool) \<Rightarrow> 'a list \<Rightarrow> 'e + bool" where
  "every f [] = Inr True"
| "every f (x # xs) = and_then (f x) (\<lambda>b. if b then every f xs else Inr False)"

fun some_of :: "('a \<Rightarrow> 'e + bool) \<Rightarrow> 'a list \<Rightarrow> 'e + bool" where
  "some_of f [] = Inr False"
| "some_of f (x # xs) = and_then (f x) (\<lambda>b. if b then Inr True else some_of f xs)"

lemma every_cong [fundef_cong]: "xs = ys \<Longrightarrow> (\<And>x. x \<in> set ys \<Longrightarrow> f x = g x) \<Longrightarrow> every f xs = every g ys"
  by (induction ys arbitrary: xs) (auto simp: and_then_def split: sum.split)

lemma some_of_cong [fundef_cong]: "xs = ys \<Longrightarrow> (\<And>x. x \<in> set ys \<Longrightarrow> f x = g x) \<Longrightarrow> some_of f xs = some_of g ys"
  by (induction ys arbitrary: xs) (auto simp: and_then_def split: sum.split)

fun key_matches :: "fields \<Rightarrow> string \<times> json \<Rightarrow> memory_error + bool" where
  "key_matches md (key, expected) =
     (if starts_with key ''$'' then Inl (Wrong ValueError)
      else case expected of
          JObj ps \<Rightarrow>
            if ps \<noteq> [] \<and> list_all (\<lambda>(k, _). k = ''$eq'') ps
            then Inr (scalar_eq (meta_get md key) (meta_get ps ''$eq'')) else Inl (Wrong ValueError)
        | v \<Rightarrow> Inr (scalar_eq (meta_get md key) v))"

function (sequential) matches_where :: "fields \<Rightarrow> json \<Rightarrow> memory_error + bool" where
  "matches_where md (JObj fs) =
     (if fs = [] then Inr True
      else case map_of fs ''$and'' of
        Some v \<Rightarrow> (case v of JArr cs \<Rightarrow> every (matches_where md) cs | _ \<Rightarrow> Inl (Wrong ValueError))
      | None \<Rightarrow>
          (case map_of fs ''$or'' of
             Some v \<Rightarrow> (case v of JArr cs \<Rightarrow> some_of (matches_where md) cs | _ \<Rightarrow> Inl (Wrong ValueError))
           | None \<Rightarrow> every (key_matches md) fs))"
| "matches_where md v = (if truthy v then Inl (Wrong TypeError) else Inr True)"
  by pat_completeness auto
termination
proof (relation "measure (\<lambda>(_, v). size v)", goal_cases)
  have smaller: "size c < size (JObj fs)" if "map_of fs k = Some v" "v = JArr cs" "c \<in> set cs" for fs k v cs c
    using size_field [OF map_of_SomeD [OF that(1)]] size_item [OF that(3)] that(2) by simp
  {
    case (2 md fs v cs c)
    then show ?case using smaller [of fs "''$or''" v cs c] by simp
  next
    case (3 md fs v cs c)
    then show ?case using smaller [of fs "''$and''" v cs c] by simp
  }
qed simp

section \<open>The legacy database\<close>

text \<open>One row of the join of \<open>embeddings\<close> and \<open>embedding_metadata\<close>, in the order of the query.\<close>

record legacy_cell =
  lc_segment :: string
  lc_id :: string
  lc_key :: "string option"
  lc_text :: "string option"
  lc_int :: "int option"
  lc_float :: "rat option"
  lc_bool :: "int option"

record legacy_segment =
  lg_id :: string
  lg_collection :: string
  lg_scope :: string
  lg_type :: string

record legacy_db =
  ld_tables :: "string list"
  ld_collections :: "(string \<times> string) list"
  ld_segments :: "legacy_segment list"
  ld_cells :: "legacy_cell list"

type_synonym memory_item = "string \<times> string \<times> fields"

definition cell_value :: "legacy_cell \<Rightarrow> json option" where
  "cell_value c =
     (case lc_text c of Some s \<Rightarrow> Some (JStr s) | None \<Rightarrow>
      case lc_int c of Some i \<Rightarrow> Some (JInt i) | None \<Rightarrow>
      case lc_float c of Some x \<Rightarrow> Some (JFloat x) | None \<Rightarrow>
      map_option (\<lambda>b. JBool (b \<noteq> 0)) (lc_bool c))"

definition add_cell :: "memory_lib \<Rightarrow> legacy_cell \<Rightarrow> string option \<times> fields \<Rightarrow> string option \<times> fields" where
  "add_cell L c entry =
     (case (lc_key c, cell_value c) of
        (Some key, Some v) \<Rightarrow>
          if key = ''chroma:document'' then (Some (str_of (ml_str L) v), snd entry)
          else (fst entry, dict_set (snd entry) key v)
      | _ \<Rightarrow> entry)"

definition group_cells :: "memory_lib \<Rightarrow> legacy_cell list \<Rightarrow> (string \<times> string option \<times> fields) list" where
  "group_cells L cells =
     fold (\<lambda>c groups. dict_set groups (lc_id c)
       (add_cell L c (case map_of groups (lc_id c) of None \<Rightarrow> (None, []) | Some entry \<Rightarrow> entry))) cells []"

definition legacy_record :: "memory_lib \<Rightarrow> string \<times> string option \<times> fields \<Rightarrow> memory_error + memory_item" where
  "legacy_record L = (\<lambda>(i, doc, md).
     case doc of
       None \<Rightarrow> Inl (LegacyMemoryError (NoDocument i))
     | Some d \<Rightarrow> and_then (canonical_metadata L (JObj md)) (\<lambda>md'. Inr (i, d, md')))"

definition required_tables :: "string list" where
  "required_tables = [''collections'', ''embedding_metadata'', ''embeddings'', ''segments'']"

definition read_legacy_once :: "memory_lib \<Rightarrow> legacy_db option \<Rightarrow> memory_error + memory_item list" where
  "read_legacy_once L source =
     (case source of
        None \<Rightarrow> Inl (LegacyMemoryError CannotRead)
      | Some d \<Rightarrow>
          let missing = filter (\<lambda>t. t \<notin> set (ld_tables d)) required_tables in
          if missing \<noteq> [] then Inl (LegacyMemoryError (MissingTables missing))
          else (case map_of (ld_collections d) ''agent_memory'' of
             None \<Rightarrow> Inr []
           | Some cid \<Rightarrow>
               (case filter (\<lambda>g. lg_collection g = cid
                       \<and> (lower (lg_scope g) = ''metadata'' \<or> contains_text (lower (lg_type g)) ''metadata'')) (ld_segments d) of
                  [g] \<Rightarrow> each (legacy_record L)
                    (sort_key fst (group_cells L (filter (\<lambda>c. lc_segment c = lg_id g) (ld_cells d))))
                | gs \<Rightarrow> Inl (LegacyMemoryError (MetadataSegments (length gs))))))"

definition records_digest :: "memory_lib \<Rightarrow> memory_item list \<Rightarrow> string" where
  "records_digest L items =
     ml_sha L (concat (map (\<lambda>(i, d, md). canonical_json (ml_float L) (JArr [JStr i, JStr d, JObj md]) @ [CHR 0x0A]) items))"

text \<open>One attempt of the stable read: the fingerprints around it and what the file held.\<close>

record legacy_try =
  lt_before :: "string option"
  lt_source :: "legacy_db option"
  lt_after :: "string option"

fun read_tries :: "memory_lib \<Rightarrow> legacy_try list \<Rightarrow> memory_error + string \<times> memory_item list" where
  "read_tries L [] = Inl (LegacyMemoryError ChangedRepeatedly)"
| "read_tries L (t # ts) =
     (case lt_before t of
        None \<Rightarrow> Inr ([], [])
      | Some b \<Rightarrow> and_then (read_legacy_once L (lt_source t)) (\<lambda>items.
          if lt_after t = Some b then Inr (b, items) else read_tries L ts))"

definition read_stable_legacy :: "memory_lib \<Rightarrow> legacy_try list \<Rightarrow> memory_error + string \<times> memory_item list" where
  "read_stable_legacy L tries = read_tries L (take 3 tries)"

section \<open>Tables\<close>

record memory_row =
  mr_id :: string
  mr_document :: string
  mr_metadata :: fields
  mr_columns :: "json list"
  mr_native :: bool

record sync_state =
  sy_version :: int
  sy_fingerprint :: string
  sy_count :: nat
  sy_digest :: string
  sy_at :: int

record memory_db =
  md_rows :: "memory_row list"
  md_tombstones :: "(string \<times> int) list"
  md_lineage :: "(string \<times> int) list"
  md_sync :: "sync_state option"

definition empty_memory :: memory_db where
  "empty_memory = \<lparr>md_rows = [], md_tombstones = [], md_lineage = [], md_sync = None\<rparr>"

definition schema_version :: int where "schema_version = 2"

definition memory_row_of :: "memory_item \<Rightarrow> bool \<Rightarrow> memory_row" where
  "memory_row_of item native = (case item of (i, d, md) \<Rightarrow>
     \<lparr>mr_id = i, mr_document = d, mr_metadata = stored md, mr_columns = record_columns md, mr_native = native\<rparr>)"

definition find_row :: "memory_db \<Rightarrow> string \<Rightarrow> memory_row option" where
  "find_row db i = find (\<lambda>r. mr_id r = i) (md_rows db)"

definition bury :: "int \<Rightarrow> string list \<Rightarrow> (string \<times> int) list \<Rightarrow> (string \<times> int) list" where
  "bury now ids ts = fold (\<lambda>i ts. filter (\<lambda>t. fst t \<noteq> i) ts @ [(i, now)]) ids ts"

section \<open>Synchronisation\<close>

datatype marker_file = NoMarker | UnreadableMarker | Marker json

record legacy_env =
  le_marker :: marker_file
  le_exists :: bool
  le_fingerprint :: "string option"
  le_tries :: "legacy_try list"
  le_now :: int

definition retirement_marker :: "marker_file \<Rightarrow> memory_error + json option" where
  "retirement_marker m =
     (case m of
        NoMarker \<Rightarrow> Inr None
      | UnreadableMarker \<Rightarrow> Inl (LegacyMemoryError MarkerUnreadable)
      | Marker v \<Rightarrow>
          if \<not> is_dict v then Inl (LegacyMemoryError MarkerInvalid)
          else (case field_or_null v ''status'' of
             JStr s \<Rightarrow> if s = ''pending'' \<or> s = ''retired'' then Inr (Some v) else Inl (LegacyMemoryError MarkerInvalid)
           | JArr _ \<Rightarrow> Inl (Wrong TypeError)
           | JObj _ \<Rightarrow> Inl (Wrong TypeError)
           | _ \<Rightarrow> Inl (LegacyMemoryError MarkerInvalid)))"

datatype sync_report = Retired int json | Absent | Current nat string | Synced nat string

text \<open>One record of the stable snapshot: its lineage, then the upsert that never touches a native row.\<close>

definition import_record :: "int \<Rightarrow> string list \<Rightarrow> memory_item \<Rightarrow> memory_db \<Rightarrow> memory_db" where
  "import_record now tombstones item db =
     (let i = fst item;
          db1 = (if i \<in> fst ` set (md_lineage db) then db else db\<lparr>md_lineage := md_lineage db @ [(i, now)]\<rparr>);
          new = memory_row_of item False in
      if i \<in> set tombstones then db1
      else if find_row db1 i = None then db1\<lparr>md_rows := md_rows db1 @ [new]\<rparr>
      else db1\<lparr>md_rows := map (\<lambda>r. if mr_id r = i \<and> \<not> mr_native r then new else r) (md_rows db1)\<rparr>)"

text \<open>Ids that left the legacy file are erased here as well, native versions included.\<close>

definition import_snapshot :: "memory_lib \<Rightarrow> int \<Rightarrow> string \<Rightarrow> memory_item list \<Rightarrow> memory_db \<Rightarrow> memory_db" where
  "import_snapshot L now fingerprint items db =
     (let db1 = fold (import_record now (map fst (md_tombstones db))) items db;
          removed = filter (\<lambda>i. i \<notin> fst ` set items) (map fst (md_lineage db1)) in
      db1\<lparr>md_tombstones := bury now removed (md_tombstones db1),
          md_rows := filter (\<lambda>r. mr_id r \<notin> set removed) (md_rows db1),
          md_sync := Some \<lparr>sy_version = schema_version, sy_fingerprint = fingerprint, sy_count = length items,
             sy_digest = records_digest L items, sy_at = now\<rparr>\<rparr>)"

definition source_count :: "json \<Rightarrow> memory_error + int" where
  "source_count marker =
     (case json_get marker ''source_count'' of
        None \<Rightarrow> Inr 0
      | Some v \<Rightarrow> (case json_int v of
           Some n \<Rightarrow> Inr n
         | None \<Rightarrow> Inl (Wrong (case v of JStr _ \<Rightarrow> ValueError | _ \<Rightarrow> TypeError))))"

definition sync_current :: "bool \<Rightarrow> string \<Rightarrow> memory_db \<Rightarrow> sync_state option" where
  "sync_current force fingerprint db =
     (case md_sync db of
        Some y \<Rightarrow> if \<not> force \<and> sy_version y = schema_version \<and> sy_fingerprint y = fingerprint then Some y else None
      | None \<Rightarrow> None)"

definition sync_legacy :: "memory_lib \<Rightarrow> bool \<Rightarrow> legacy_env \<Rightarrow> memory_db \<Rightarrow> (memory_error + sync_report) \<times> memory_db" where
  "sync_legacy L force e db =
     (case retirement_marker (le_marker e) of
        Inl err \<Rightarrow> (Inl err, db)
      | Inr (Some m) \<Rightarrow>
          if field_or_null m ''status'' = JStr ''pending'' then (Inl (LegacyMemoryError RetirementPending), db)
          else if le_exists e then (Inl (LegacyMemoryError SourceReappeared), db)
          else (case source_count m of
             Inl err \<Rightarrow> (Inl err, db)
           | Inr n \<Rightarrow> (Inr (Retired n (field_or_null m ''source_digest'')), db))
      | Inr None \<Rightarrow>
          (case le_fingerprint e of
             None \<Rightarrow> (Inr Absent, db)
           | Some fp \<Rightarrow>
               (case sync_current force fp db of
                  Some y \<Rightarrow> (Inr (Current (sy_count y) (sy_digest y)), db)
                | None \<Rightarrow>
                    (case read_stable_legacy L (le_tries e) of
                       Inl err \<Rightarrow> (Inl err, db)
                     | Inr (seen, items) \<Rightarrow>
                         (Inr (Synced (length items) (records_digest L items)),
                          import_snapshot L (le_now e) seen items db)))))"

section \<open>Operations\<close>

definition item_of :: "memory_row \<Rightarrow> memory_item" where
  "item_of r = (mr_id r, mr_document r, mr_metadata r)"

fun position :: "string list \<Rightarrow> string \<Rightarrow> nat" where
  "position [] i = 0"
| "position (x # xs) i = (if i \<in> set xs then Suc (position xs i) else if x = i then 0 else Suc (position xs i))"

definition select_rows :: "string list option \<Rightarrow> memory_db \<Rightarrow> memory_row list" where
  "select_rows ids db =
     (case ids of
        None \<Rightarrow> md_rows db
      | Some xs \<Rightarrow> sort_key (\<lambda>r. position xs (mr_id r)) (filter (\<lambda>r. mr_id r \<in> set xs) (md_rows db)))"

fun keep_matching :: "json \<Rightarrow> memory_item list \<Rightarrow> memory_error + memory_item list" where
  "keep_matching wh [] = Inr []"
| "keep_matching wh (x # xs) =
     and_then (matches_where (snd (snd x)) wh) (\<lambda>b. and_then (keep_matching wh xs) (\<lambda>ys. Inr (if b then x # ys else ys)))"

definition get_items ::
  "memory_lib \<Rightarrow> legacy_env \<Rightarrow> string list option \<Rightarrow> json \<Rightarrow> memory_db \<Rightarrow> (memory_error + memory_item list) \<times> memory_db" where
  "get_items L e ids wh db =
     (case sync_legacy L False e db of
        (Inl err, db1) \<Rightarrow> (Inl err, db1)
      | (Inr _, db1) \<Rightarrow> (keep_matching wh (map item_of (select_rows ids db1)), db1))"

definition validate_batch :: "string list \<Rightarrow> nat option \<Rightarrow> nat option \<Rightarrow> bool" where
  "validate_batch ids documents metadatas \<longleftrightarrow> ids \<noteq> [] \<and> distinct ids
     \<and> (documents = None \<or> documents = Some (length ids)) \<and> (metadatas = None \<or> metadatas = Some (length ids))"

definition insert_item :: "memory_lib \<Rightarrow> string \<times> string \<times> json \<Rightarrow> memory_db \<Rightarrow> memory_error + memory_db" where
  "insert_item L = (\<lambda>(i, doc, meta) db.
     if i = [] then Inl (Wrong ValueError)
     else and_then (canonical_metadata L meta) (\<lambda>md.
       if find_row db i \<noteq> None then Inl DuplicateId
       else Inr (db\<lparr>md_rows := md_rows db @ [memory_row_of (i, doc, md) True],
                    md_tombstones := filter (\<lambda>t. fst t \<noteq> i) (md_tombstones db)\<rparr>)))"

fun insert_items :: "memory_lib \<Rightarrow> (string \<times> string \<times> json) list \<Rightarrow> memory_db \<Rightarrow> memory_error + memory_db" where
  "insert_items L [] db = Inr db"
| "insert_items L (x # xs) db = and_then (insert_item L x db) (insert_items L xs)"

definition add_items ::
  "memory_lib \<Rightarrow> legacy_env \<Rightarrow> string list \<Rightarrow> string list \<Rightarrow> json list \<Rightarrow> memory_db \<Rightarrow> (memory_error + unit) \<times> memory_db" where
  "add_items L e ids documents metadatas db =
     (if \<not> validate_batch ids (Some (length documents)) (Some (length metadatas)) then (Inl (Wrong ValueError), db)
      else case sync_legacy L False e db of
        (Inl err, db1) \<Rightarrow> (Inl err, db1)
      | (Inr _, db1) \<Rightarrow>
          (case insert_items L (zip ids (zip documents metadatas)) db1 of
             Inl err \<Rightarrow> (Inl err, db1) | Inr db2 \<Rightarrow> (Inr (), db2)))"

definition change_item ::
  "memory_lib \<Rightarrow> string \<times> string option \<times> json option \<Rightarrow> memory_db \<Rightarrow> memory_error + memory_db" where
  "change_item L = (\<lambda>(i, doc, meta) db.
     case find_row db i of
       None \<Rightarrow> Inr db
     | Some r \<Rightarrow>
         and_then (canonical_metadata L (case meta of None \<Rightarrow> JObj (mr_metadata r) | Some m \<Rightarrow> m)) (\<lambda>md.
           let new = memory_row_of (i, (case doc of None \<Rightarrow> mr_document r | Some d \<Rightarrow> d), md) True in
           Inr (db\<lparr>md_rows := map (\<lambda>x. if mr_id x = i then new else x) (md_rows db),
                   md_tombstones := filter (\<lambda>t. fst t \<noteq> i) (md_tombstones db)\<rparr>)))"

fun change_items ::
  "memory_lib \<Rightarrow> (string \<times> string option \<times> json option) list \<Rightarrow> memory_db \<Rightarrow> memory_error + memory_db" where
  "change_items L [] db = Inr db"
| "change_items L (x # xs) db = and_then (change_item L x db) (change_items L xs)"

definition optional :: "nat \<Rightarrow> 'a list option \<Rightarrow> 'a option list" where
  "optional n xs = (case xs of None \<Rightarrow> replicate n None | Some ys \<Rightarrow> map Some ys)"

definition update_items ::
  "memory_lib \<Rightarrow> legacy_env \<Rightarrow> string list \<Rightarrow> string list option \<Rightarrow> json list option \<Rightarrow> memory_db
   \<Rightarrow> (memory_error + unit) \<times> memory_db" where
  "update_items L e ids documents metadatas db =
     (if \<not> validate_batch ids (map_option length documents) (map_option length metadatas) then (Inl (Wrong ValueError), db)
      else case sync_legacy L False e db of
        (Inl err, db1) \<Rightarrow> (Inl err, db1)
      | (Inr _, db1) \<Rightarrow>
          (case change_items L (zip ids (zip (optional (length ids) documents) (optional (length ids) metadatas))) db1 of
             Inl err \<Rightarrow> (Inl err, db1) | Inr db2 \<Rightarrow> (Inr (), db2)))"

definition erase_rows :: "int \<Rightarrow> string list \<Rightarrow> memory_db \<Rightarrow> memory_db" where
  "erase_rows now doomed db =
     db\<lparr>md_tombstones := bury now doomed (md_tombstones db), md_rows := filter (\<lambda>r. mr_id r \<notin> set doomed) (md_rows db)\<rparr>"

definition delete_items ::
  "memory_lib \<Rightarrow> legacy_env \<Rightarrow> int \<Rightarrow> string list option \<Rightarrow> json \<Rightarrow> memory_db \<Rightarrow> (memory_error + unit) \<times> memory_db" where
  "delete_items L e now ids wh db =
     (case get_items L e ids wh db of
        (Inl err, db1) \<Rightarrow> (Inl err, db1)
      | (Inr items, db1) \<Rightarrow>
          (let doomed = map fst items in
           if doomed = [] then (Inr (), db1)
           else (Inr (), erase_rows now doomed db1)))"

definition count_items :: "memory_lib \<Rightarrow> legacy_env \<Rightarrow> memory_db \<Rightarrow> (memory_error + nat) \<times> memory_db" where
  "count_items L e db =
     (case sync_legacy L False e db of
        (Inl err, db1) \<Rightarrow> (Inl err, db1) | (Inr _, db1) \<Rightarrow> (Inr (length (md_rows db1)), db1))"

section \<open>Lexical search\<close>

text \<open>\<open>unicodedata.normalize("NFKC", text).casefold()\<close> as code points, and \<open>str.isalnum\<close>.\<close>

record lexicon =
  lx_fold :: "string \<Rightarrow> int list"
  lx_alnum :: "int \<Rightarrow> bool"

datatype feature = WordOf "int list" | CharOf int | PairOf "int list" | GramOf "int list"

definition word_code :: "int \<Rightarrow> bool" where
  "word_code c \<longleftrightarrow> 97 \<le> c \<and> c \<le> 122 \<or> 48 \<le> c \<and> c \<le> 57 \<or> c = 0xA3"

definition cjk_code :: "int \<Rightarrow> bool" where
  "cjk_code c \<longleftrightarrow> 0x3400 \<le> c \<and> c \<le> 0x9FFF"

text \<open>\<open>re.findall(r"[...]+")\<close>: the maximal runs.\<close>

fun runs_of :: "(int \<Rightarrow> bool) \<Rightarrow> int list \<Rightarrow> int list \<Rightarrow> int list list" where
  "runs_of P run [] = (if run = [] then [] else [rev run])"
| "runs_of P run (c # cs) =
     (if P c then runs_of P (c # run) cs else (if run = [] then [] else [rev run]) @ runs_of P [] cs)"

definition windows :: "nat \<Rightarrow> int list \<Rightarrow> int list list" where
  "windows n cs = map (\<lambda>p. take n (drop p cs)) [0..<length cs + 1 - n]"

fun bump :: "(feature \<times> rat) \<Rightarrow> (feature \<times> rat) list \<Rightarrow> (feature \<times> rat) list" where
  "bump (k, w) [] = [(k, w)]"
| "bump (k, w) ((l, v) # xs) = (if l = k then (l, v + w) # xs else (l, v) # bump (k, w) xs)"

definition features :: "lexicon \<Rightarrow> string \<Rightarrow> (feature \<times> rat) list" where
  "features X text =
     (let value = lx_fold X text;
          words = map (\<lambda>t. (WordOf t, 2)) (runs_of word_code [] value);
          cjk = concat (map (\<lambda>run. map (\<lambda>c. (CharOf c, 3 / 2)) run @ map (\<lambda>b. (PairOf b, 2)) (windows 2 run))
                  (runs_of cjk_code [] value));
          grams = map (\<lambda>g. (GramOf g, 1 / 4)) (windows 3 (filter (\<lambda>c. lx_alnum X c \<or> cjk_code c) value)) in
      fold bump (words @ cjk @ grams) [])"

definition weight :: "(feature \<times> rat) list \<Rightarrow> feature \<Rightarrow> rat" where
  "weight xs k = (case map_of xs k of None \<Rightarrow> 0 | Some v \<Rightarrow> v)"

definition norm_square :: "(feature \<times> rat) list \<Rightarrow> rat" where
  "norm_square xs = sum_list (map (\<lambda>(_, v). v * v) xs)"

definition dot_product :: "(feature \<times> rat) list \<Rightarrow> (feature \<times> rat) list \<Rightarrow> rat" where
  "dot_product xs ys = sum_list (map (\<lambda>(k, v). v * weight ys k) xs)"

definition cosine :: "(feature \<times> rat) list \<Rightarrow> (feature \<times> rat) list \<Rightarrow> real" where
  "cosine xs ys =
     (if xs = [] \<or> ys = [] \<or> norm_square xs = 0 \<or> norm_square ys = 0 then 0
      else of_rat (dot_product xs ys) / (sqrt (of_rat (norm_square xs)) * sqrt (of_rat (norm_square ys))))"

definition rank_items :: "lexicon \<Rightarrow> nat \<Rightarrow> memory_item list \<Rightarrow> string \<Rightarrow> (real \<times> memory_item) list" where
  "rank_items X n items text =
     take n (sort_key fst (sort_key (\<lambda>x. fst (snd x))
       (map (\<lambda>item. (1 - cosine (features X text) (features X (fst (snd item))), item)) items)))"

definition query_items ::
  "memory_lib \<Rightarrow> lexicon \<Rightarrow> legacy_env \<Rightarrow> string list \<Rightarrow> int \<Rightarrow> json \<Rightarrow> memory_db
   \<Rightarrow> (memory_error + (real \<times> memory_item) list list) \<times> memory_db" where
  "query_items L X e texts n wh db =
     (if n < 1 then (Inl (Wrong ValueError), db)
      else case get_items L e None wh db of
        (Inl err, db1) \<Rightarrow> (Inl err, db1)
      | (Inr items, db1) \<Rightarrow> (Inr (map (rank_items X (nat n) items) texts), db1))"

section \<open>Verification and health\<close>

text \<open>The raw rows of the legacy file, for a privacy inventory.\<close>

definition legacy_residual_records ::
  "memory_lib \<Rightarrow> legacy_env \<Rightarrow> bool \<Rightarrow> legacy_try list \<Rightarrow> json \<Rightarrow> memory_db \<Rightarrow> (memory_error + memory_item list) \<times> memory_db" where
  "legacy_residual_records L e present tries wh db =
     (case sync_legacy L False e db of
        (Inl err, db1) \<Rightarrow> (Inl err, db1)
      | (Inr _, db1) \<Rightarrow>
          if \<not> present then (Inr [], db1)
          else (and_then (read_stable_legacy L tries) (\<lambda>(fp, items). keep_matching wh items), db1))"

record verification =
  vf_source :: nat
  vf_verified :: nat
  vf_tombstoned :: nat
  vf_exact :: nat
  vf_native :: nat
  vf_digest :: string

text \<open>The pass over the legacy rows: exact copies and native overrides counted.\<close>

fun verify_items :: "memory_db \<Rightarrow> memory_item list \<Rightarrow> memory_error + nat \<times> nat" where
  "verify_items db [] = Inr (0, 0)"
| "verify_items db (x # xs) =
     (if fst x \<in> fst ` set (md_tombstones db) then verify_items db xs
      else case find_row db (fst x) of
        None \<Rightarrow> Inl (LegacyMemoryError (RowMissing (fst x)))
      | Some r \<Rightarrow>
          if mr_native r then and_then (verify_items db xs) (\<lambda>(exact, native). Inr (exact, native + 1))
          else if mr_document r \<noteq> fst (snd x) \<or> mr_metadata r \<noteq> stored (snd (snd x))
          then Inl (LegacyMemoryError (RowDiffers (fst x)))
          else and_then (verify_items db xs) (\<lambda>(exact, native). Inr (exact + 1, native)))"

definition verify_legacy_copy ::
  "memory_lib \<Rightarrow> legacy_env \<Rightarrow> legacy_try list \<Rightarrow> memory_db \<Rightarrow> (memory_error + verification option) \<times> memory_db" where
  "verify_legacy_copy L e tries db =
     (if \<not> le_exists e then (Inr None, db)
      else case sync_legacy L True e db of
        (Inl err, db1) \<Rightarrow> (Inl err, db1)
      | (Inr _, db1) \<Rightarrow>
          (and_then (read_stable_legacy L tries) (\<lambda>(fp, items).
             and_then (verify_items db1 items) (\<lambda>(exact, native).
               Inr (Some \<lparr>vf_source = length items, vf_verified = exact + native, vf_tombstoned = length items - (exact + native),
                 vf_exact = exact, vf_native = native, vf_digest = records_digest L items\<rparr>))), db1))"

record memory_health =
  mh_records :: nat
  mh_native :: nat
  mh_legacy :: nat
  mh_lineage :: nat
  mh_source :: "sync_report option"

definition memory_health ::
  "memory_lib \<Rightarrow> legacy_env \<Rightarrow> marker_file \<Rightarrow> bool \<Rightarrow> bool \<Rightarrow> bool \<Rightarrow> memory_db \<Rightarrow> (memory_error + memory_health) \<times> memory_db" where
  "memory_health L e marker quarantine present artifacts db =
     (case sync_legacy L False e db of
        (Inl err, db1) \<Rightarrow> (Inl err, db1)
      | (Inr report, db1) \<Rightarrow>
          (and_then (retirement_marker marker) (\<lambda>m.
             let status = (case m of None \<Rightarrow> JNull | Some v \<Rightarrow> field_or_null v ''status''); retired = (status = JStr ''retired'') in
             if quarantine then Inl (LegacyMemoryError QuarantineLeft)
             else if status = JStr ''pending'' then Inl (LegacyMemoryError RetirementPending)
             else if \<not> present \<and> artifacts then Inl (LegacyMemoryError OrphanedArtifacts)
             else if \<not> present \<and> md_lineage db1 \<noteq> [] \<and> \<not> retired then Inl (LegacyMemoryError SourceDisappeared)
             else if present \<and> retired then Inl (LegacyMemoryError SourceReappeared)
             else let native = length (filter mr_native (md_rows db1)) in
               Inr \<lparr>mh_records = length (md_rows db1), mh_native = native, mh_legacy = length (md_rows db1) - native,
                    mh_lineage = length (md_lineage db1), mh_source = (if retired then None else Some report)\<rparr>), db1))"

section \<open>The collection as a state machine\<close>

datatype memory_op =
    Sync bool legacy_env
  | Add legacy_env "string list" "string list" "json list"
  | Update legacy_env "string list" "string list option" "json list option"
  | Delete legacy_env int "string list option" json

text \<open>Reading operations change the tables only by the synchronisation they begin with.\<close>

fun memory_step :: "memory_lib \<Rightarrow> memory_db \<Rightarrow> memory_op \<Rightarrow> memory_db" where
  "memory_step L db (Sync force e) = snd (sync_legacy L force e db)"
| "memory_step L db (Add e ids docs metas) = snd (add_items L e ids docs metas db)"
| "memory_step L db (Update e ids docs metas) = snd (update_items L e ids docs metas db)"
| "memory_step L db (Delete e now ids wh) = snd (delete_items L e now ids wh db)"

fun op_env :: "memory_op \<Rightarrow> legacy_env" where
  "op_env (Sync force e) = e"
| "op_env (Add e ids docs metas) = e"
| "op_env (Update e ids docs metas) = e"
| "op_env (Delete e now ids wh) = e"

definition ids_of :: "memory_db \<Rightarrow> string list" where
  "ids_of db = map mr_id (md_rows db)"

definition entombed :: "memory_db \<Rightarrow> string set" where
  "entombed db = fst ` set (md_tombstones db)"

definition lineage_of :: "memory_db \<Rightarrow> string set" where
  "lineage_of db = fst ` set (md_lineage db)"

text \<open>Ids are unique, a tombstone excludes its row, and a legacy row descends from the legacy file.\<close>

definition memory_ok :: "memory_db \<Rightarrow> bool" where
  "memory_ok db \<longleftrightarrow> distinct (ids_of db) \<and> entombed db \<inter> set (ids_of db) = {}
     \<and> (\<forall>r \<in> set (md_rows db). \<not> mr_native r \<longrightarrow> mr_id r \<in> lineage_of db)"

lemma entombed_bury: "fst ` set (bury now ids ts) = fst ` set ts \<union> set ids"
proof (induction ids arbitrary: ts)
  case (Cons i ids)
  have "fst ` set (filter (\<lambda>t. fst t \<noteq> i) ts @ [(i, now)]) = insert i (fst ` set ts)" by force
  with Cons show ?case by (simp add: bury_def)
qed (simp add: bury_def)

lemma mr_id_row [simp]: "mr_id (memory_row_of item b) = fst item"
  by (simp add: memory_row_of_def split: prod.split)

lemma find_row_None: "find_row db i = None \<longleftrightarrow> i \<notin> set (ids_of db)"
  by (auto simp: find_row_def find_None_iff ids_of_def)

text \<open>Importing one record.\<close>

definition legacy_write :: "memory_item \<Rightarrow> memory_row \<Rightarrow> memory_row" where
  "legacy_write item r = (if mr_id r = fst item \<and> \<not> mr_native r then memory_row_of item False else r)"

lemma legacy_write_id [simp]: "mr_id (legacy_write item r) = mr_id r" "mr_native (legacy_write item r) = mr_native r"
  by (auto simp: legacy_write_def memory_row_of_def split: prod.split)

lemma import_record_rows:
  "md_rows (import_record now ts item db) =
     (if fst item \<in> set ts then md_rows db
      else if fst item \<in> set (ids_of db) then map (legacy_write item) (md_rows db)
      else md_rows db @ [memory_row_of item False])"
proof -
  have "find_row (if fst item \<in> fst ` set (md_lineage db) then db else db\<lparr>md_lineage := md_lineage db @ [(fst item, now)]\<rparr>) (fst item) = None
      \<longleftrightarrow> fst item \<notin> set (ids_of db)"
    using find_row_None [of db "fst item"] by (simp add: find_row_def)
  then show ?thesis by (simp add: import_record_def Let_def legacy_write_def [abs_def])
qed

lemma import_record_parts:
  "md_tombstones (import_record now ts item db) = md_tombstones db"
  "lineage_of (import_record now ts item db) = insert (fst item) (lineage_of db)"
  by (auto simp: import_record_def Let_def lineage_of_def)

lemma import_record_ids:
  "ids_of (import_record now ts item db) =
     (if fst item \<in> set ts \<or> fst item \<in> set (ids_of db) then ids_of db else ids_of db @ [fst item])"
  by (simp add: ids_of_def import_record_rows comp_def)

lemma import_records_parts:
  "md_tombstones (fold (import_record now ts) items db) = md_tombstones db"
  "lineage_of (fold (import_record now ts) items db) = fst ` set items \<union> lineage_of db"
  "set (ids_of (fold (import_record now ts) items db)) = set (ids_of db) \<union> (fst ` set items - set ts)"
  "distinct (ids_of db) \<Longrightarrow> distinct (ids_of (fold (import_record now ts) items db))"
  by (induction items arbitrary: db) (auto simp: import_record_parts import_record_ids)

lemma import_records_legacy:
  "(\<And>r. r \<in> set (md_rows db) \<Longrightarrow> \<not> mr_native r \<Longrightarrow> mr_id r \<in> lineage_of db)
   \<Longrightarrow> r \<in> set (md_rows (fold (import_record now ts) items db)) \<Longrightarrow> \<not> mr_native r
   \<Longrightarrow> mr_id r \<in> lineage_of (fold (import_record now ts) items db)"
proof (induction items arbitrary: db)
  case (Cons item items)
  show ?case
    unfolding fold_Cons o_apply
    by (rule Cons.IH) (use Cons.prems in \<open>auto simp: import_record_rows import_record_parts split: if_splits\<close>)
qed simp

text \<open>The whole snapshot.\<close>

lemma snapshot_parts:
  "entombed (import_snapshot L now fp items db) = entombed db \<union> (lineage_of db - fst ` set items)"
  "lineage_of (import_snapshot L now fp items db) = lineage_of db \<union> fst ` set items"
  "set (ids_of (import_snapshot L now fp items db)) =
     (set (ids_of db) \<union> (fst ` set items - entombed db)) - (lineage_of db - fst ` set items)"
proof -
  let ?db1 = "fold (import_record now (map fst (md_tombstones db))) items db"
  let ?gone = "filter (\<lambda>i. i \<notin> fst ` set items) (map fst (md_lineage ?db1))"
  have gone: "set ?gone = lineage_of db - fst ` set items"
    using import_records_parts(2) [of now "map fst (md_tombstones db)" items db] by (auto simp: lineage_of_def)
  show "entombed (import_snapshot L now fp items db) = entombed db \<union> (lineage_of db - fst ` set items)"
    using gone import_records_parts(1) [of now "map fst (md_tombstones db)" items db]
    by (simp add: import_snapshot_def Let_def entombed_def entombed_bury)
  show "lineage_of (import_snapshot L now fp items db) = lineage_of db \<union> fst ` set items"
    using import_records_parts(2) [of now "map fst (md_tombstones db)" items db]
    by (simp add: import_snapshot_def Let_def lineage_of_def Un_commute)
  have "set (ids_of (import_snapshot L now fp items db)) = set (ids_of ?db1) - set ?gone"
    by (auto simp: import_snapshot_def Let_def ids_of_def)
  with gone import_records_parts(3) [of now "map fst (md_tombstones db)" items db]
  show "set (ids_of (import_snapshot L now fp items db)) =
     (set (ids_of db) \<union> (fst ` set items - entombed db)) - (lineage_of db - fst ` set items)"
    by (simp add: entombed_def)
qed

lemma snapshot_ok: "memory_ok db \<Longrightarrow> memory_ok (import_snapshot L now fp items db)"
proof -
  assume ok: "memory_ok db"
  let ?db1 = "fold (import_record now (map fst (md_tombstones db))) items db"
  let ?db2 = "import_snapshot L now fp items db"
  have rows: "md_rows ?db2 = filter (\<lambda>r. mr_id r \<notin> set (filter (\<lambda>i. i \<notin> fst ` set items) (map fst (md_lineage ?db1)))) (md_rows ?db1)"
    by (simp add: import_snapshot_def Let_def)
  have "distinct (ids_of ?db1)" using ok import_records_parts(4) by (auto simp: memory_ok_def)
  then have "distinct (ids_of ?db2)" unfolding ids_of_def rows by (rule distinct_map_filter)
  moreover have "entombed ?db2 \<inter> set (ids_of ?db2) = {}"
    using ok unfolding snapshot_parts memory_ok_def by blast
  moreover have "mr_id r \<in> lineage_of ?db2" if "r \<in> set (md_rows ?db2)" "\<not> mr_native r" for r
  proof -
    have "r \<in> set (md_rows ?db1)" using that(1) by (simp add: rows)
    then have "mr_id r \<in> lineage_of ?db1"
      using import_records_legacy [of db r now "map fst (md_tombstones db)" items] ok that(2) by (simp add: memory_ok_def)
    then show ?thesis by (auto simp: snapshot_parts import_records_parts)
  qed
  ultimately show ?thesis unfolding memory_ok_def by blast
qed

text \<open>A synchronisation leaves the tables alone or imports a snapshot.\<close>

lemma sync_cases:
  assumes "sync_legacy L force e db = (r, db')"
  shows "db' = db \<or> (\<exists>fp items. read_stable_legacy L (le_tries e) = Inr (fp, items) \<and> db' = import_snapshot L (le_now e) fp items db)"
  using assms by (auto simp: sync_legacy_def split: sum.splits option.splits if_splits)

lemma sync_ok: "memory_ok db \<Longrightarrow> sync_legacy L force e db = (r, db') \<Longrightarrow> memory_ok db'"
  by (auto dest!: sync_cases intro: snapshot_ok)

text \<open>Inserting, changing and deleting rows.\<close>

lemma insert_item_Inr:
  assumes "insert_item L (i, doc, meta) db = Inr db'"
  obtains md where "canonical_metadata L meta = Inr md" "i \<notin> set (ids_of db)"
    "db' = db\<lparr>md_rows := md_rows db @ [memory_row_of (i, doc, md) True],
              md_tombstones := filter (\<lambda>t. fst t \<noteq> i) (md_tombstones db)\<rparr>"
proof -
  from assms obtain md where "canonical_metadata L meta = Inr md" and "find_row db i = None" and
    "db' = db\<lparr>md_rows := md_rows db @ [memory_row_of (i, doc, md) True],
              md_tombstones := filter (\<lambda>t. fst t \<noteq> i) (md_tombstones db)\<rparr>"
    by (auto simp: insert_item_def and_then_Inr split: if_splits)
  then show ?thesis using that find_row_None by blast
qed

lemma insert_item_parts:
  assumes "insert_item L (i, doc, meta) db = Inr db'"
  shows "ids_of db' = ids_of db @ [i]" "i \<notin> set (ids_of db)" "entombed db' = entombed db - {i}"
    "lineage_of db' = lineage_of db" "\<And>r. r \<in> set (md_rows db') \<Longrightarrow> \<not> mr_native r \<Longrightarrow> r \<in> set (md_rows db)"
proof -
  from assms obtain md where new: "i \<notin> set (ids_of db)"
    "db' = db\<lparr>md_rows := md_rows db @ [memory_row_of (i, doc, md) True],
              md_tombstones := filter (\<lambda>t. fst t \<noteq> i) (md_tombstones db)\<rparr>"
    by (rule insert_item_Inr)
  show "i \<notin> set (ids_of db)" by (rule new)
  show "ids_of db' = ids_of db @ [i]" by (simp add: new(2) ids_of_def)
  show "entombed db' = entombed db - {i}" by (auto simp: new(2) entombed_def)
  show "lineage_of db' = lineage_of db" by (simp add: new(2) lineage_of_def)
  show "r \<in> set (md_rows db)" if "r \<in> set (md_rows db')" "\<not> mr_native r" for r
    using that by (auto simp: new(2) memory_row_of_def)
qed

lemma insert_item_ok:
  assumes "memory_ok db" "insert_item L x db = Inr db'"
  shows "memory_ok db'"
proof -
  obtain i doc meta where x: "x = (i, doc, meta)" by (cases x)
  note p = insert_item_parts [OF assms(2) [unfolded x]]
  show ?thesis using assms(1) p(5) unfolding memory_ok_def p(1,3,4) using p(2) by auto
qed

lemma insert_items_ok: "memory_ok db \<Longrightarrow> insert_items L xs db = Inr db' \<Longrightarrow> memory_ok db'"
  by (induction xs arbitrary: db) (auto simp: and_then_Inr dest: insert_item_ok)

lemma change_item_parts:
  assumes "change_item L (i, doc, meta) db = Inr db'"
  shows "ids_of db' = ids_of db" "lineage_of db' = lineage_of db"
    "entombed db' = (if i \<in> set (ids_of db) then entombed db - {i} else entombed db)"
    "\<And>r. r \<in> set (md_rows db') \<Longrightarrow> \<not> mr_native r \<Longrightarrow> r \<in> set (md_rows db)"
proof -
  have "(db' = db \<and> i \<notin> set (ids_of db))
    \<or> (i \<in> set (ids_of db) \<and> (\<exists>d md. db' = db\<lparr>md_rows := map (\<lambda>x. if mr_id x = i then memory_row_of (i, d, md) True else x) (md_rows db),
                 md_tombstones := filter (\<lambda>t. fst t \<noteq> i) (md_tombstones db)\<rparr>))"
  proof (cases "find_row db i")
    case None
    with assms find_row_None show ?thesis by (auto simp: change_item_def)
  next
    case (Some r)
    then have "i \<in> set (ids_of db)" using find_row_None [of db i] by auto
    with assms Some show ?thesis by (auto simp: change_item_def and_then_Inr Let_def)
  qed
  then show "ids_of db' = ids_of db" "lineage_of db' = lineage_of db"
    "entombed db' = (if i \<in> set (ids_of db) then entombed db - {i} else entombed db)"
    "\<And>r. r \<in> set (md_rows db') \<Longrightarrow> \<not> mr_native r \<Longrightarrow> r \<in> set (md_rows db)"
    by (auto simp: ids_of_def lineage_of_def entombed_def memory_row_of_def split: if_splits)
qed

lemma change_item_ok:
  assumes "memory_ok db" "change_item L x db = Inr db'"
  shows "memory_ok db'"
proof -
  obtain i doc meta where x: "x = (i, doc, meta)" by (cases x)
  note p = change_item_parts [OF assms(2) [unfolded x]]
  show ?thesis using assms(1) p(4) unfolding memory_ok_def p(1,2,3) by auto
qed

lemma change_items_ok: "memory_ok db \<Longrightarrow> change_items L xs db = Inr db' \<Longrightarrow> memory_ok db'"
  by (induction xs arbitrary: db) (auto simp: and_then_Inr dest: change_item_ok)

lemma erase_rows_parts:
  "entombed (erase_rows now doomed db) = entombed db \<union> set doomed"
  "ids_of (erase_rows now doomed db) = filter (\<lambda>i. i \<notin> set doomed) (ids_of db)"
  "lineage_of (erase_rows now doomed db) = lineage_of db"
  "set (md_rows (erase_rows now doomed db)) \<subseteq> set (md_rows db)"
  by (auto simp: erase_rows_def entombed_def entombed_bury ids_of_def lineage_of_def filter_map comp_def)

lemma erase_rows_ok: "memory_ok db \<Longrightarrow> memory_ok (erase_rows now doomed db)"
  using erase_rows_parts(4) [of now doomed db] unfolding memory_ok_def erase_rows_parts(1-3) by auto

text \<open>The four operations: what they leave is a synchronised store, changed row by row.\<close>

lemma add_cases:
  assumes "add_items L e ids docs metas db = (r, db')"
  shows "db' = db \<or> (\<exists>q db1. sync_legacy L False e db = (q, db1)
     \<and> (db' = db1 \<or> insert_items L (zip ids (zip docs metas)) db1 = Inr db'))"
  using assms by (auto simp: add_items_def split: if_splits prod.splits sum.splits)

lemma update_cases:
  assumes "update_items L e ids docs metas db = (r, db')"
  shows "db' = db \<or> (\<exists>q db1. sync_legacy L False e db = (q, db1)
     \<and> (db' = db1 \<or> (\<exists>xs. change_items L xs db1 = Inr db')))"
  using assms by (auto simp: update_items_def split: if_splits prod.splits sum.splits)

lemma get_sync: "get_items L e ids wh db = (r, db1) \<Longrightarrow> \<exists>q. sync_legacy L False e db = (q, db1)"
  by (auto simp: get_items_def split: prod.splits sum.splits)

lemma delete_cases:
  assumes "delete_items L e now ids wh db = (r, db')"
  shows "\<exists>q db1. sync_legacy L False e db = (q, db1) \<and> (db' = db1 \<or> (\<exists>doomed. db' = erase_rows now doomed db1))"
proof -
  obtain g db1 where g: "get_items L e ids wh db = (g, db1)" by (cases "get_items L e ids wh db")
  then obtain q where q: "sync_legacy L False e db = (q, db1)" using get_sync by blast
  have "db' = db1 \<or> (\<exists>doomed. db' = erase_rows now doomed db1)"
    using assms by (auto simp: delete_items_def g Let_def split: sum.splits if_splits)
  with q show ?thesis by blast
qed

lemma memory_step_cases:
  obtains "memory_step L db op = db"
  | q db1 force where "sync_legacy L force (op_env op) db = (q, db1)" "memory_step L db op = db1"
  | q db1 e ids docs metas where "op = Add e ids docs metas" "sync_legacy L False (op_env op) db = (q, db1)"
      "insert_items L (zip ids (zip docs metas)) db1 = Inr (memory_step L db op)"
  | q db1 xs where "sync_legacy L False (op_env op) db = (q, db1)" "change_items L xs db1 = Inr (memory_step L db op)"
  | q db1 now doomed where "sync_legacy L False (op_env op) db = (q, db1)" "memory_step L db op = erase_rows now doomed db1"
proof (cases op)
  case (Sync force e)
  then have "sync_legacy L force (op_env op) db = (fst (sync_legacy L force e db), memory_step L db op)" by simp
  then show ?thesis using that(2) by blast
next
  case (Add e ids docs metas)
  then have "add_items L (op_env op) ids docs metas db = (fst (add_items L e ids docs metas db), memory_step L db op)" by simp
  from add_cases [OF this] show ?thesis using that(1) that(2) that(3) [OF Add] by blast
next
  case (Update e ids docs metas)
  then have "update_items L (op_env op) ids docs metas db = (fst (update_items L e ids docs metas db), memory_step L db op)" by simp
  from update_cases [OF this] show ?thesis using that(1) that(2) that(4) by blast
next
  case (Delete e now ids wh)
  then have "delete_items L (op_env op) now ids wh db = (fst (delete_items L e now ids wh db), memory_step L db op)" by simp
  from delete_cases [OF this] show ?thesis using that(2) that(5) by blast
qed

lemma memory_step_ok: "memory_ok db \<Longrightarrow> memory_ok (memory_step L db op)"
  by (rule memory_step_cases [of L db op])
    (auto dest: sync_ok insert_items_ok change_items_ok intro: erase_rows_ok)

interpretation memory: invariant_machine empty_memory "\<lambda>_ _. True" "memory_step L" memory_ok for L
  by unfold_locales (simp add: memory_ok_def empty_memory_def ids_of_def entombed_def, rule memory_step_ok)

section \<open>Deleted rows\<close>

definition erased :: "string \<Rightarrow> memory_db \<Rightarrow> bool" where
  "erased i db \<longleftrightarrow> i \<in> entombed db \<and> i \<notin> set (ids_of db)"

fun adds_id :: "string \<Rightarrow> memory_op \<Rightarrow> bool" where
  "adds_id i (Add e ids docs metas) = (i \<in> set ids)"
| "adds_id i _ = False"

lemma erased_sync: "erased i db \<Longrightarrow> sync_legacy L force e db = (r, db') \<Longrightarrow> erased i db'"
  by (auto dest!: sync_cases simp: erased_def snapshot_parts)

lemma erased_inserts: "erased i db \<Longrightarrow> i \<notin> fst ` set xs \<Longrightarrow> insert_items L xs db = Inr db' \<Longrightarrow> erased i db'"
proof (induction xs arbitrary: db)
  case (Cons x xs)
  obtain j doc meta where x: "x = (j, doc, meta)" by (cases x)
  from Cons.prems(3) obtain db1 where step: "insert_item L (j, doc, meta) db = Inr db1" "insert_items L xs db1 = Inr db'"
    by (auto simp: x and_then_Inr)
  from insert_item_parts(1,3) [OF step(1)] Cons.prems(1,2) have "erased i db1" by (auto simp: erased_def x)
  with Cons show ?case using step(2) by simp
qed simp

lemma erased_changes: "erased i db \<Longrightarrow> change_items L xs db = Inr db' \<Longrightarrow> erased i db'"
proof (induction xs arbitrary: db)
  case (Cons x xs)
  obtain j doc meta where x: "x = (j, doc, meta)" by (cases x)
  from Cons.prems(2) obtain db1 where step: "change_item L (j, doc, meta) db = Inr db1" "change_items L xs db1 = Inr db'"
    by (auto simp: x and_then_Inr)
  from change_item_parts(1,3) [OF step(1)] Cons.prems(1) have "erased i db1" by (auto simp: erased_def)
  with Cons show ?case using step(2) by simp
qed simp

lemma erased_step: "erased i db \<Longrightarrow> \<not> adds_id i op \<Longrightarrow> erased i (memory_step L db op)"
proof (rule memory_step_cases [of L db op], goal_cases)
  case 1
  then show ?case by simp
next
  case (2 q db1 force)
  then show ?case using erased_sync [OF 2(1,3)] by simp
next
  case (3 q db1 e ids docs metas)
  have "i \<notin> fst ` set (zip ids (zip docs metas))" using 3(2,3) by (auto dest: set_zip_leftD)
  with erased_inserts [OF erased_sync [OF 3(1,4)] _ 3(5)] show ?case .
next
  case (4 q db1 xs)
  show ?case by (rule erased_changes [OF erased_sync [OF 4(1,3)] 4(4)])
next
  case (5 q db1 now doomed)
  have "erased i db1" using erased_sync [OF 5(1,3)] .
  then show ?case unfolding 5(4) by (simp add: erased_def erase_rows_parts)
qed

lemma erased_run: "erased i db \<Longrightarrow> (\<forall>op \<in> set ops. \<not> adds_id i op) \<Longrightarrow> erased i (run_ops (memory_step L) db ops)"
  by (induction ops arbitrary: db) (simp_all add: erased_step)

lemma keep_matching_subset: "keep_matching wh xs = Inr ys \<Longrightarrow> set ys \<subseteq> set xs"
  by (induction xs arbitrary: ys) (force simp: and_then_Inr split: if_splits)+

lemma get_items_rows:
  assumes "get_items L e ids wh db = (Inr items, db1)"
  shows "fst ` set items \<subseteq> set (ids_of db1)"
proof -
  from assms have "keep_matching wh (map item_of (select_rows ids db1)) = Inr items"
    by (auto simp: get_items_def split: prod.splits sum.splits)
  from keep_matching_subset [OF this] have "fst ` set items \<subseteq> mr_id ` set (select_rows ids db1)"
    by (force simp: item_of_def)
  also have "\<dots> \<subseteq> set (ids_of db1)" by (auto simp: select_rows_def ids_of_def split: option.splits)
  finally show ?thesis .
qed

lemma delete_erases:
  assumes "get_items L e ids wh db = (Inr items, db1)" "i \<in> fst ` set items"
  shows "erased i (memory_step L db (Delete e now ids wh))"
proof -
  have "delete_items L e now ids wh db = (Inr (), erase_rows now (map fst items) db1)"
    using assms by (auto simp: delete_items_def Let_def)
  then show ?thesis using assms(2) by (simp add: erased_def erase_rows_parts)
qed

text \<open>Sample files: no legacy database, and one that holds the single memory \<open>m\<close>.\<close>

definition sample_memory :: memory_lib where
  "sample_memory = \<lparr>ml_sha = (\<lambda>_. ''digest''), ml_float = (\<lambda>_. ''1.0''), ml_str = (\<lambda>_. ''text'')\<rparr>"

definition no_legacy :: legacy_env where
  "no_legacy = \<lparr>le_marker = NoMarker, le_exists = False, le_fingerprint = None, le_tries = [], le_now = 5\<rparr>"

definition one_cell :: "string \<Rightarrow> string \<Rightarrow> legacy_cell" where
  "one_cell key value = \<lparr>lc_segment = ''s'', lc_id = ''m'', lc_key = Some key, lc_text = Some value, lc_int = None,
     lc_float = None, lc_bool = None\<rparr>"

definition one_try :: legacy_try where
  "one_try = \<lparr>lt_before = Some ''f'', lt_source = Some \<lparr>ld_tables = required_tables,
     ld_collections = [(''agent_memory'', ''c'')], ld_segments = [\<lparr>lg_id = ''s'', lg_collection = ''c'', lg_scope = ''METADATA'', lg_type = []\<rparr>],
     ld_cells = [one_cell ''chroma:document'' ''likes parks'', one_cell ''user_id'' ''u'']\<rparr>, lt_after = Some ''f''\<rparr>"

definition one_legacy :: legacy_env where
  "one_legacy = \<lparr>le_marker = NoMarker, le_exists = True, le_fingerprint = Some ''f'', le_tries = [one_try], le_now = 5\<rparr>"

text \<open>
  C25. A memory that \<open>delete\<close> selected does not come back: whatever the legacy file still holds, and whatever
  synchronisations, updates, deletions and additions of other ids follow, no later \<open>get\<close> returns it.
\<close>

lemma erased_stays_erased:
  assumes "get_items L e ids wh db = (Inr items, db1)" "i \<in> fst ` set items"
    and "\<forall>op \<in> set later. \<not> adds_id i op"
    and "get_items L e' ids' wh' (run_ops (memory_step L) (memory_step L db (Delete e now ids wh)) later) = (Inr found, db2)"
  shows "i \<notin> fst ` set found"
proof -
  have "erased i (run_ops (memory_step L) (memory_step L db (Delete e now ids wh)) later)"
    using delete_erases [OF assms(1,2)] assms(3) by (rule erased_run)
  moreover obtain q where "sync_legacy L False e' (run_ops (memory_step L) (memory_step L db (Delete e now ids wh)) later) = (q, db2)"
    using get_sync [OF assms(4)] by blast
  ultimately have "erased i db2" using erased_sync by blast
  then show ?thesis using get_items_rows [OF assms(4)] by (auto simp: erased_def)
qed

lemma erased_stays_erased_witness:
  "''m'' \<notin> fst ` set (case get_items sample_memory one_legacy None JNull
     (memory_step sample_memory (memory_step sample_memory empty_memory (Delete one_legacy 7 (Some [''m'']) JNull)) (Sync True one_legacy))
     of (Inr found, _) \<Rightarrow> found | (Inl _, _) \<Rightarrow> [])"
proof -
  have selected: "get_items sample_memory one_legacy (Some [''m'']) JNull empty_memory
      = (Inr [(''m'', ''likes parks'', [(''user_id'', JStr ''u'')])], snd (sync_legacy sample_memory True one_legacy empty_memory))"
    by code_simp
  have found: "get_items sample_memory one_legacy None JNull
      (memory_step sample_memory (memory_step sample_memory empty_memory (Delete one_legacy 7 (Some [''m'']) JNull)) (Sync True one_legacy))
      = (Inr [], (memory_step sample_memory (memory_step sample_memory empty_memory (Delete one_legacy 7 (Some [''m'']) JNull)) (Sync True one_legacy)))"
    by code_simp
  show ?thesis
    unfolding found prod.case sum.case
    by (rule erased_stays_erased [OF selected, where later = "[Sync True one_legacy]" and now = 7])
      (simp, simp, unfold run_ops.simps, rule found)
qed

section \<open>Verification of the migration\<close>

definition has_copy :: "memory_item \<Rightarrow> memory_db \<Rightarrow> bool" where
  "has_copy x db \<longleftrightarrow> (\<exists>r \<in> set (md_rows db). mr_id r = fst x \<and> (mr_native r \<or> r = memory_row_of x False))"

definition native_id :: "memory_db \<Rightarrow> string \<Rightarrow> bool" where
  "native_id db i \<longleftrightarrow> (\<exists>r \<in> set (md_rows db). mr_id r = i \<and> mr_native r)"

lemma native_import: "native_id (import_record now ts x db) i \<longleftrightarrow> native_id db i"
proof -
  have "\<not> mr_native (memory_row_of x False)" by (simp add: memory_row_of_def split: prod.split)
  then show ?thesis by (auto simp: native_id_def import_record_rows)
qed

lemma native_imports: "native_id (fold (import_record now ts) xs db) i \<longleftrightarrow> native_id db i"
  by (induction xs arbitrary: db) (simp_all add: native_import)

lemma copy_import: "fst x \<notin> set ts \<Longrightarrow> has_copy x (import_record now ts x db)"
proof -
  assume out: "fst x \<notin> set ts"
  show ?thesis
  proof (cases "fst x \<in> set (ids_of db)")
    case True
    then obtain r where r: "r \<in> set (md_rows db)" "mr_id r = fst x" by (auto simp: ids_of_def)
    have "legacy_write x r \<in> set (md_rows (import_record now ts x db))" using True out r(1) by (simp add: import_record_rows)
    moreover have "mr_native (legacy_write x r) \<or> legacy_write x r = memory_row_of x False" using r(2) by (simp add: legacy_write_def)
    moreover have "mr_id (legacy_write x r) = fst x" using r(2) by simp
    ultimately show ?thesis unfolding has_copy_def by blast
  qed (use out in \<open>simp add: has_copy_def import_record_rows\<close>)
qed

lemma copy_kept: "has_copy x db \<Longrightarrow> fst y \<noteq> fst x \<Longrightarrow> has_copy x (import_record now ts y db)"
proof -
  assume "has_copy x db" and other: "fst y \<noteq> fst x"
  then obtain r where r: "r \<in> set (md_rows db)" "mr_id r = fst x" "mr_native r \<or> r = memory_row_of x False"
    by (auto simp: has_copy_def)
  have "legacy_write y r = r" using r(2) other by (simp add: legacy_write_def)
  with r(1) have "r \<in> set (md_rows (import_record now ts y db))" by (force simp: import_record_rows)
  with r show ?thesis by (auto simp: has_copy_def)
qed

lemma copies_kept: "has_copy x db \<Longrightarrow> fst x \<notin> fst ` set ys \<Longrightarrow> has_copy x (fold (import_record now ts) ys db)"
proof (induction ys arbitrary: db)
  case (Cons y ys)
  have "fst y \<noteq> fst x" using Cons.prems(2) by auto
  with Cons copy_kept show ?case by simp
qed simp

lemma imports_copy:
  "distinct (map fst xs) \<Longrightarrow> x \<in> set xs \<Longrightarrow> fst x \<notin> set ts \<Longrightarrow> has_copy x (fold (import_record now ts) xs db)"
proof (induction xs arbitrary: db)
  case (Cons y xs)
  show ?case
  proof (cases "y = x")
    case True
    with Cons.prems show ?thesis by (simp add: copies_kept copy_import)
  next
    case False
    with Cons show ?thesis by simp
  qed
qed simp

lemma snapshot_copies:
  assumes "distinct (map fst xs)" "x \<in> set xs" "fst x \<notin> entombed db"
  shows "has_copy x (import_snapshot L now fp xs db)"
    and "native_id (import_snapshot L now fp xs db) (fst x) \<longleftrightarrow> native_id db (fst x)"
proof -
  let ?db1 = "fold (import_record now (map fst (md_tombstones db))) xs db"
  have "has_copy x ?db1" using assms by (intro imports_copy) (auto simp: entombed_def)
  then show "has_copy x (import_snapshot L now fp xs db)"
    using assms(2) by (auto simp: has_copy_def import_snapshot_def Let_def)
  have "native_id (import_snapshot L now fp xs db) (fst x) \<longleftrightarrow> native_id ?db1 (fst x)"
    using assms(2) by (auto simp: native_id_def import_snapshot_def Let_def)
  then show "native_id (import_snapshot L now fp xs db) (fst x) \<longleftrightarrow> native_id db (fst x)" by (simp add: native_imports)
qed

text \<open>The rows of a legacy file have distinct ids.\<close>

lemma group_cells_distinct: "distinct (map fst (group_cells L cells))"
proof -
  have "distinct (map fst (fold (\<lambda>c groups. dict_set groups (lc_id c)
       (add_cell L c (case map_of groups (lc_id c) of None \<Rightarrow> (None, []) | Some entry \<Rightarrow> entry))) cells gs))"
    if "distinct (map fst gs)" for gs
    using that by (induction cells arbitrary: gs) (simp_all add: distinct_dict_set)
  then show ?thesis by (simp add: group_cells_def)
qed

lemma legacy_record_id: "legacy_record L g = Inr x \<Longrightarrow> fst x = fst g"
  by (auto simp: legacy_record_def and_then_Inr split: prod.splits option.splits)

lemma each_legacy_ids: "each (legacy_record L) gs = Inr xs \<Longrightarrow> map fst xs = map fst gs"
proof (induction gs arbitrary: xs)
  case (Cons g gs)
  then obtain x ys where "legacy_record L g = Inr x" "each (legacy_record L) gs = Inr ys" "xs = x # ys"
    by (auto simp: and_then_Inr)
  with Cons.IH legacy_record_id show ?case by simp
qed simp

lemma read_once_distinct: "read_legacy_once L source = Inr xs \<Longrightarrow> distinct (map fst xs)"
proof -
  have sorted_distinct: "distinct (map fst (sort_key fst gs))" if "distinct (map fst gs)" for gs :: "(string \<times> string option \<times> fields) list"
    using that by (simp add: distinct_map)
  assume "read_legacy_once L source = Inr xs"
  then show ?thesis
    by (auto simp: read_legacy_once_def Let_def each_legacy_ids sorted_distinct group_cells_distinct
        split: option.splits if_splits list.splits)
qed

lemma read_tries_distinct: "read_tries L ts = Inr (fp, xs) \<Longrightarrow> distinct (map fst xs)"
  by (induction ts) (auto simp: and_then_Inr read_once_distinct split: option.splits if_splits)

lemma read_stable_distinct: "read_stable_legacy L ts = Inr (fp, xs) \<Longrightarrow> distinct (map fst xs)"
  unfolding read_stable_legacy_def by (rule read_tries_distinct)

text \<open>The pass over copied items finds every one of them.\<close>

lemma copy_found:
  assumes "distinct (ids_of db)" "has_copy x db"
  obtains r where "find_row db (fst x) = Some r" "mr_native r \<longleftrightarrow> native_id db (fst x)"
    "mr_native r \<or> r = memory_row_of x False"
proof -
  from assms(2) obtain r where r: "r \<in> set (md_rows db)" "mr_id r = fst x" "mr_native r \<or> r = memory_row_of x False"
    by (auto simp: has_copy_def)
  have found: "find_row db (mr_id q) = Some q" if "q \<in> set (md_rows db)" for q
    using find_unique [OF assms(1) [unfolded ids_of_def] that] by (simp add: find_row_def)
  have "find_row db (fst x) = Some r" using found [OF r(1)] r(2) by simp
  moreover have "mr_native r \<longleftrightarrow> native_id db (fst x)"
  proof
    show "native_id db (fst x)" if "mr_native r" using that r(1,2) by (auto simp: native_id_def)
    show "mr_native r" if "native_id db (fst x)"
    proof -
      from that obtain q where "q \<in> set (md_rows db)" "mr_id q = fst x" "mr_native q" by (auto simp: native_id_def)
      with found [of q] found [OF r(1)] r(2) show ?thesis by simp
    qed
  qed
  ultimately show ?thesis using r(3) by (rule that)
qed

lemma verify_items_copied:
  assumes "distinct (ids_of db)" "\<And>x. x \<in> set xs \<Longrightarrow> fst x \<notin> entombed db \<Longrightarrow> has_copy x db"
  shows "verify_items db xs =
    Inr (length (filter (\<lambda>x. fst x \<notin> entombed db \<and> \<not> native_id db (fst x)) xs),
         length (filter (\<lambda>x. fst x \<notin> entombed db \<and> native_id db (fst x)) xs))"
  using assms(2)
proof (induction xs)
  case (Cons x xs)
  show ?case
  proof (cases "fst x \<in> entombed db")
    case True
    with Cons show ?thesis by (simp add: entombed_def)
  next
    case False
    with Cons.prems have "has_copy x db" by simp
    then obtain r where r: "find_row db (fst x) = Some r" "mr_native r \<longleftrightarrow> native_id db (fst x)"
        "mr_native r \<or> r = memory_row_of x False"
      using copy_found [OF assms(1)] by blast
    have "mr_document r = fst (snd x) \<and> mr_metadata r = stored (snd (snd x))" if "\<not> mr_native r"
      using r(3) that by (simp add: memory_row_of_def split: prod.split)
    with r(1,2) False Cons show ?thesis by (simp add: entombed_def)
  qed
qed simp

lemma sync_imports:
  assumes "retirement_marker (le_marker e) = Inr None" "le_fingerprint e = Some fp" "sync_current force fp db = None"
    and "read_stable_legacy L (le_tries e) = Inr (seen, items)"
  shows "sync_legacy L force e db =
    (Inr (Synced (length items) (records_digest L items)), import_snapshot L (le_now e) seen items db)"
  using assms by (simp add: sync_legacy_def)

lemma sync_current_force [simp]: "sync_current True fp db = None"
  by (simp add: sync_current_def split: option.split)

lemma length_filter_partition:
  "length (filter (\<lambda>x. P x \<and> \<not> Q x) xs) = length (filter P xs) - length (filter (\<lambda>x. P x \<and> Q x) xs)"
  "length (filter (\<lambda>x. P x \<and> Q x) xs) \<le> length (filter P xs)"
proof -
  have "length (filter (\<lambda>x. P x \<and> \<not> Q x) xs) + length (filter (\<lambda>x. P x \<and> Q x) xs) = length (filter P xs)"
    by (induction xs) auto
  then show "length (filter (\<lambda>x. P x \<and> \<not> Q x) xs) = length (filter P xs) - length (filter (\<lambda>x. P x \<and> Q x) xs)"
    "length (filter (\<lambda>x. P x \<and> Q x) xs) \<le> length (filter P xs)" by simp_all
qed

lemma undisturbed_verification:
  assumes "memory_ok db" "retirement_marker (le_marker e) = Inr None" "le_exists e" "le_fingerprint e = Some fp"
    and "read_stable_legacy L (le_tries e) = Inr (seen, items)" "read_stable_legacy L tries = Inr (seen', items)"
  shows "\<exists>v. let kept = filter (\<lambda>x. fst x \<notin> entombed db) items in
      verify_legacy_copy L e tries db = (Inr (Some v), import_snapshot L (le_now e) seen items db)
      \<and> vf_source v = length items \<and> vf_digest v = records_digest L items
      \<and> vf_verified v + vf_tombstoned v = length items \<and> vf_verified v = length kept
      \<and> vf_native v = length (filter (\<lambda>x. native_id db (fst x)) kept) \<and> vf_exact v + vf_native v = length kept"
proof -
  let ?db1 = "import_snapshot L (le_now e) seen items db"
  have sync: "sync_legacy L True e db = (Inr (Synced (length items) (records_digest L items)), ?db1)"
    using assms(2,4,5) by (intro sync_imports) simp_all
  have dist: "distinct (map fst items)" using assms(5) by (rule read_stable_distinct)
  have tombs: "fst x \<in> entombed ?db1 \<longleftrightarrow> fst x \<in> entombed db" if "x \<in> set items" for x
    using that by (auto simp: snapshot_parts)
  have native: "native_id ?db1 (fst x) \<longleftrightarrow> native_id db (fst x)" if "x \<in> set items" "fst x \<notin> entombed db" for x
    by (rule snapshot_copies [OF dist that])
  let ?n = "length (filter (\<lambda>x. fst x \<notin> entombed db \<and> native_id db (fst x)) items)"
  let ?x = "length (filter (\<lambda>x. fst x \<notin> entombed db \<and> \<not> native_id db (fst x)) items)"
  let ?k = "length (filter (\<lambda>x. fst x \<notin> entombed db) items)"
  have "verify_items ?db1 items =
      Inr (length (filter (\<lambda>x. fst x \<notin> entombed ?db1 \<and> \<not> native_id ?db1 (fst x)) items),
           length (filter (\<lambda>x. fst x \<notin> entombed ?db1 \<and> native_id ?db1 (fst x)) items))"
    using snapshot_ok [OF assms(1)] snapshot_copies(1) [OF dist] tombs
    by (intro verify_items_copied) (auto simp: memory_ok_def)
  also have "filter (\<lambda>x. fst x \<notin> entombed ?db1 \<and> \<not> native_id ?db1 (fst x)) items
      = filter (\<lambda>x. fst x \<notin> entombed db \<and> \<not> native_id db (fst x)) items"
    using tombs native by (intro filter_cong) auto
  also have "filter (\<lambda>x. fst x \<notin> entombed ?db1 \<and> native_id ?db1 (fst x)) items
      = filter (\<lambda>x. fst x \<notin> entombed db \<and> native_id db (fst x)) items"
    using tombs native by (intro filter_cong) auto
  finally have v: "verify_items ?db1 items = Inr (?x, ?n)" .
  have parts: "?x + ?n = ?k" "?k \<le> length items"
    using length_filter_partition [of "\<lambda>x. fst x \<notin> entombed db" "\<lambda>x. native_id db (fst x)" items] by simp_all
  let ?v = "\<lparr>vf_source = length items, vf_verified = ?x + ?n, vf_tombstoned = length items - (?x + ?n),
     vf_exact = ?x, vf_native = ?n, vf_digest = records_digest L items\<rparr>"
  have "verify_legacy_copy L e tries db = (Inr (Some ?v), ?db1)"
    using assms(3,6) by (simp add: verify_legacy_copy_def sync v)
  with parts show ?thesis by (intro exI [of _ ?v]) (simp add: Let_def conj_commute)
qed

text \<open>
  On every reachable store, with a legacy file that is read without interference and holds the same rows
  both times, \<open>verify_legacy_copy\<close> succeeds: every row is either tombstoned or verified (so the retirement's
  account is complete), the verified ones are those no tombstone names, and the native overrides
  among them are exactly the rows that were already native before the forced synchronisation.
\<close>

lemma verification_accounts_for_every_row:
  assumes "retirement_marker (le_marker e) = Inr None" "le_exists e" "le_fingerprint e = Some fp"
    and "read_stable_legacy L (le_tries e) = Inr (seen, items)" "read_stable_legacy L tries = Inr (seen', items)"
  shows "\<exists>v. let db = run_ops (memory_step L) empty_memory ops; kept = filter (\<lambda>x. fst x \<notin> entombed db) items in
      fst (verify_legacy_copy L e tries db) = Inr (Some v)
      \<and> vf_verified v + vf_tombstoned v = length items \<and> vf_verified v = length kept
      \<and> vf_native v = length (filter (\<lambda>x. native_id db (fst x)) kept) \<and> vf_exact v + vf_native v = length kept"
proof -
  have "memory_ok (run_ops (memory_step L) empty_memory ops)" by (rule memory.inv_run) simp
  from undisturbed_verification [OF this assms] obtain v where v: "let db = run_ops (memory_step L) empty_memory ops;
      kept = filter (\<lambda>x. fst x \<notin> entombed db) items in
      verify_legacy_copy L e tries db = (Inr (Some v), import_snapshot L (le_now e) seen items db)
      \<and> vf_source v = length items \<and> vf_digest v = records_digest L items
      \<and> vf_verified v + vf_tombstoned v = length items \<and> vf_verified v = length kept
      \<and> vf_native v = length (filter (\<lambda>x. native_id db (fst x)) kept) \<and> vf_exact v + vf_native v = length kept"
    unfolding Let_def by blast
  show ?thesis by (rule exI [of _ v]) (use v in \<open>simp add: Let_def\<close>)
qed

lemma verification_accounts_for_every_row_witness:
  "\<exists>v. fst (verify_legacy_copy sample_memory one_legacy [one_try] empty_memory) = Inr (Some v)
     \<and> vf_verified v + vf_tombstoned v = 1"
proof -
  have "read_stable_legacy sample_memory [one_try] = Inr (''f'', [(''m'', ''likes parks'', [(''user_id'', JStr ''u'')])])"
    by code_simp
  moreover have "retirement_marker (le_marker one_legacy) = Inr None" "le_exists one_legacy" "le_fingerprint one_legacy = Some ''f''"
    "le_tries one_legacy = [one_try]"
    by (simp_all add: one_legacy_def retirement_marker_def)
  ultimately show ?thesis
    using verification_accounts_for_every_row [of one_legacy "''f''" sample_memory _ _ "[one_try]" _ "[]"] by (fastforce simp: Let_def)
qed

section \<open>Added rows\<close>

lemma insert_item_rows:
  assumes "insert_item L (i, doc, meta) db = Inr db'"
  shows "\<exists>md. canonical_metadata L meta = Inr md \<and> set (md_rows db') = insert (memory_row_of (i, doc, md) True) (set (md_rows db))"
  using assms by (rule insert_item_Inr) simp

lemma insert_items_keep: "insert_items L xs db = Inr db' \<Longrightarrow> set (md_rows db) \<subseteq> set (md_rows db')"
proof (induction xs arbitrary: db)
  case (Cons x xs)
  obtain j d m where x: "x = (j, d, m)" by (cases x)
  from Cons.prems obtain db1 where "insert_item L (j, d, m) db = Inr db1" "insert_items L xs db1 = Inr db'"
    by (auto simp: x and_then_Inr)
  then show ?case using Cons.IH insert_item_rows by blast
qed simp

lemma insert_items_rows:
  "insert_items L xs db = Inr db' \<Longrightarrow> (i, doc, meta) \<in> set xs
   \<Longrightarrow> \<exists>md. canonical_metadata L meta = Inr md \<and> memory_row_of (i, doc, md) True \<in> set (md_rows db')"
proof (induction xs arbitrary: db)
  case (Cons x xs)
  obtain j d m where x: "x = (j, d, m)" by (cases x)
  from Cons.prems(1) obtain db1 where step: "insert_item L (j, d, m) db = Inr db1" "insert_items L xs db1 = Inr db'"
    by (auto simp: x and_then_Inr)
  show ?case
  proof (cases "(i, doc, meta) = x")
    case True
    with x insert_item_rows [OF step(1)] insert_items_keep [OF step(2)] show ?thesis by blast
  next
    case False
    with Cons.prems(2) Cons.IH [OF step(2)] show ?thesis by simp
  qed
qed simp

lemma absent_sync: "sync_legacy L force e db = (Inr Absent, db') \<Longrightarrow> db' = db"
  by (auto simp: sync_legacy_def split: sum.splits option.splits if_splits)

lemma get_one:
  assumes "distinct (ids_of db)" "r \<in> set (md_rows db)" "sync_legacy L False e db = (Inr Absent, db1)"
  shows "get_items L e (Some [mr_id r]) JNull db = (Inr [item_of r], db)"
proof -
  have "filter (\<lambda>x. mr_id x = mr_id r) (md_rows db) = [r]"
    using assms(1,2) unfolding ids_of_def by (intro filter_unique [where f = mr_id]) simp_all
  then show ?thesis using assms(3) absent_sync [OF assms(3)] by (simp add: get_items_def select_rows_def)
qed

text \<open>
  A stored memory is read back: after an \<open>add\<close> that succeeded on a reachable store, once no legacy file is left,
  \<open>get\<close> of any added id returns exactly its document and its canonical metadata.
\<close>

lemma added_is_found:
  assumes "add_items L e ids docs metas (run_ops (memory_step L) empty_memory ops) = (Inr (), db)"
    and "n < length ids" "fst (sync_legacy L False e' db) = Inr Absent"
  shows "\<exists>md. canonical_metadata L (metas ! n) = Inr md
    \<and> get_items L e' (Some [ids ! n]) JNull db = (Inr [(ids ! n, docs ! n, stored md)], db)"
proof -
  let ?db = "run_ops (memory_step L) empty_memory ops"
  have ok: "memory_ok ?db" by (rule memory.inv_run) simp
  have valid: "length docs = length ids" "length metas = length ids"
    using assms(1) by (auto simp: add_items_def validate_batch_def split: if_splits)
  from assms(1) obtain q db1 where sync: "sync_legacy L False e ?db = (Inr q, db1)"
    and ins: "insert_items L (zip ids (zip docs metas)) db1 = Inr db"
    by (auto simp: add_items_def split: if_splits prod.splits sum.splits)
  have "memory_ok db" using insert_items_ok [OF sync_ok [OF ok sync] ins] .
  have "(ids ! n, docs ! n, metas ! n) \<in> set (zip ids (zip docs metas))"
    using assms(2) valid by (force simp: set_zip)
  then obtain md where md: "canonical_metadata L (metas ! n) = Inr md" "memory_row_of (ids ! n, docs ! n, md) True \<in> set (md_rows db)"
    using insert_items_rows [OF ins] by blast
  obtain db2 where "sync_legacy L False e' db = (Inr Absent, db2)"
    using assms(3) by (cases "sync_legacy L False e' db") simp
  then have "get_items L e' (Some [ids ! n]) JNull db = (Inr [item_of (memory_row_of (ids ! n, docs ! n, md) True)], db)"
    using get_one [OF _ md(2)] \<open>memory_ok db\<close> by (simp add: memory_ok_def)
  with md(1) show ?thesis by (simp add: item_of_def memory_row_of_def)
qed

definition sample_added :: memory_db where
  "sample_added = snd (add_items sample_memory no_legacy [''n''] [''hates stairs''] [JObj [(''user_id'', JStr ''u''), (''x'', JNull)]]
     (memory_step sample_memory empty_memory (Sync True one_legacy)))"

lemma added_is_found_witness:
  "get_items sample_memory no_legacy (Some [''n'']) JNull sample_added
     = (Inr [(''n'', ''hates stairs'', [(''user_id'', JStr ''u'')])], sample_added)"
proof -
  have "fst (add_items sample_memory no_legacy [''n''] [''hates stairs''] [JObj [(''user_id'', JStr ''u''), (''x'', JNull)]]
     (memory_step sample_memory empty_memory (Sync True one_legacy))) = Inr ()"
    by code_simp
  then have added: "add_items sample_memory no_legacy [''n''] [''hates stairs''] [JObj [(''user_id'', JStr ''u''), (''x'', JNull)]]
     (run_ops (memory_step sample_memory) empty_memory [Sync True one_legacy]) = (Inr (), sample_added)"
    unfolding sample_added_def by (simp only: run_ops.simps prod_eq_iff fst_conv snd_conv simp_thms)
  have absent: "fst (sync_legacy sample_memory False no_legacy sample_added) = Inr Absent" by code_simp
  have meta: "canonical_metadata sample_memory (JObj [(''user_id'', JStr ''u''), (''x'', JNull)]) = Inr [(''user_id'', JStr ''u'')]"
    by code_simp
  obtain md where md: "Inr [(''user_id'', JStr ''u'')] = (Inr md :: memory_error + fields)"
    "get_items sample_memory no_legacy (Some [''n'']) JNull sample_added = (Inr [(''n'', ''hates stairs'', stored md)], sample_added)"
    using added_is_found [OF added _ absent, of 0, unfolded nth_Cons_0 meta] by blast
  have "stored md = [(''user_id'', JStr ''u'')]" unfolding sum.inject(2) [THEN iffD1, OF md(1), symmetric] by (simp add: stored_def)
  with md(2) show ?thesis by (simp only:)
qed

section \<open>Two ways to lose native rows\<close>

text \<open>
  A source that disappears between the fingerprint and the stable read reads as an empty snapshot: every
  id of the lineage is erased, exact copies and native versions alike, and tombstoned.
\<close>

lemma vanished_source_erases_copies:
  assumes "retirement_marker (le_marker e) = Inr None" "le_fingerprint e = Some fp" "sync_current force fp db = None"
    and "le_tries e = t # ts" "lt_before t = None"
  shows "\<exists>db'. sync_legacy L force e db = (Inr (Synced 0 (ml_sha L [])), db')
    \<and> set (ids_of db') = set (ids_of db) - lineage_of db \<and> lineage_of db \<subseteq> entombed db'"
proof -
  have "read_stable_legacy L (le_tries e) = Inr ([], [])" using assms(4,5) by (simp add: read_stable_legacy_def)
  from sync_imports [OF assms(1-3) this] show ?thesis
    by (simp add: records_digest_def snapshot_parts)
qed

text \<open>
  Lineage outlives a deletion: an id the legacy file once held is erased by the next import without it,
  even when the row was added again natively since.
\<close>

lemma readded_memory_is_erased:
  assumes "i \<in> lineage_of db" "i \<notin> fst ` set items"
    and "retirement_marker (le_marker e) = Inr None" "le_fingerprint e = Some fp" "sync_current force fp db = None"
    and "read_stable_legacy L (le_tries e) = Inr (seen, items)"
  shows "\<exists>r db'. sync_legacy L force e db = (r, db') \<and> erased i db'"
  using sync_imports [OF assms(3-6)] assms(1,2) by (simp add: erased_def snapshot_parts)

end
