(* ===== verification/CrashRuns.thy ===== *)
theory CrashRuns
  imports Prelude
begin

text \<open>
  Programs that change a shared state by a sequence of atomic steps and can be killed between any two
  of them.  A run is the list of the states it passes through, the first and the last included, with
  its result; what a crash leaves is any state of that list.  Two triples speak of runs: \<open>guards\<close>
  (the condition \<open>C\<close> holds in every state passed through, \<open>Q\<close> when the run returns) and
  \<open>completes\<close> (the run returns, and \<open>Q\<close> holds then).
\<close>

type_synonym ('s, 'e, 'a) run = "'s \<Rightarrow> 's list \<times> ('e + 'a)"

definition give :: "'a \<Rightarrow> ('s, 'e, 'a) run" where
  "give a = (\<lambda>s. ([s], Inr a))"

definition refuse :: "'e \<Rightarrow> ('s, 'e, 'a) run" where
  "refuse e = (\<lambda>s. ([s], Inl e))"

text \<open>One atomic change, and a look at the state that may refuse to go on.\<close>

definition change :: "('s \<Rightarrow> 's) \<Rightarrow> ('s, 'e, unit) run" where
  "change f = (\<lambda>s. ([s, f s], Inr ()))"

definition look :: "('s \<Rightarrow> 'e + 'a) \<Rightarrow> ('s, 'e, 'a) run" where
  "look f = (\<lambda>s. ([s], f s))"

definition chain :: "('s, 'e, 'a) run \<Rightarrow> ('a \<Rightarrow> ('s, 'e, 'b) run) \<Rightarrow> ('s, 'e, 'b) run" where
  "chain m k = (\<lambda>s. case m s of
      (ss, Inl e) \<Rightarrow> (ss, Inl e)
    | (ss, Inr a) \<Rightarrow> (let (ts, r) = k a (last ss) in (ss @ ts, r)))"

fun for_each :: "('x \<Rightarrow> ('s, 'e, unit) run) \<Rightarrow> 'x list \<Rightarrow> ('s, 'e, unit) run" where
  "for_each f [] = give ()"
| "for_each f (x # xs) = chain (f x) (\<lambda>_. for_each f xs)"

definition pick_run :: "('s \<Rightarrow> bool) \<Rightarrow> ('s, 'e, 'a) run \<Rightarrow> ('s, 'e, 'a) run \<Rightarrow> ('s, 'e, 'a) run" where
  "pick_run b m k = (\<lambda>s. if b s then m s else k s)"

text \<open>The state after a crash: at most \<open>n\<close> changes were made.\<close>

definition crashed :: "nat \<Rightarrow> ('s, 'e, 'a) run \<Rightarrow> 's \<Rightarrow> 's" where
  "crashed n m s = last (take (Suc n) (fst (m s)))"

definition after :: "('s, 'e, 'a) run \<Rightarrow> 's \<Rightarrow> 's" where
  "after m s = last (fst (m s))"

section \<open>Triples\<close>

definition guards :: "('s \<Rightarrow> bool) \<Rightarrow> ('s \<Rightarrow> bool) \<Rightarrow> ('s, 'e, 'a) run \<Rightarrow> ('a \<Rightarrow> 's \<Rightarrow> bool) \<Rightarrow> bool" where
  "guards C P m Q \<longleftrightarrow> (\<forall>s. P s \<longrightarrow> fst (m s) \<noteq> [] \<and> (\<forall>t \<in> set (fst (m s)). C t)
     \<and> (\<forall>a. snd (m s) = Inr a \<longrightarrow> Q a (last (fst (m s)))))"

definition completes :: "('s \<Rightarrow> bool) \<Rightarrow> ('s, 'e, 'a) run \<Rightarrow> ('a \<Rightarrow> 's \<Rightarrow> bool) \<Rightarrow> bool" where
  "completes P m Q \<longleftrightarrow> (\<forall>s. P s \<longrightarrow> fst (m s) \<noteq> [] \<and> (\<exists>a. snd (m s) = Inr a \<and> Q a (last (fst (m s)))))"

lemma guards_give: "(\<And>s. P s \<Longrightarrow> C s \<and> Q a s) \<Longrightarrow> guards C P (give a) Q"
  by (simp add: guards_def give_def)

lemma guards_refuse: "(\<And>s. P s \<Longrightarrow> C s) \<Longrightarrow> guards C P (refuse e) Q"
  by (simp add: guards_def refuse_def)

lemma guards_change: "(\<And>s. P s \<Longrightarrow> C s \<and> C (f s) \<and> Q () (f s)) \<Longrightarrow> guards C P (change f) Q"
  by (simp add: guards_def change_def)

lemma guards_look: "(\<And>s. P s \<Longrightarrow> C s) \<Longrightarrow> (\<And>s a. P s \<Longrightarrow> f s = Inr a \<Longrightarrow> Q a s) \<Longrightarrow> guards C P (look f) Q"
  by (simp add: guards_def look_def)

lemma guards_chain:
  assumes "guards C P m R" "\<And>a. guards C (R a) (k a) Q"
  shows "guards C P (chain m k) Q"
  unfolding guards_def
proof (intro allI impI)
  fix s assume "P s"
  with assms(1) have m: "fst (m s) \<noteq> []" "\<forall>t \<in> set (fst (m s)). C t" "\<And>a. snd (m s) = Inr a \<Longrightarrow> R a (last (fst (m s)))"
    by (auto simp: guards_def)
  obtain ss r where run: "m s = (ss, r)" by (cases "m s")
  show "fst (chain m k s) \<noteq> [] \<and> (\<forall>t \<in> set (fst (chain m k s)). C t)
      \<and> (\<forall>a. snd (chain m k s) = Inr a \<longrightarrow> Q a (last (fst (chain m k s))))"
  proof (cases r)
    case (Inl e)
    then show ?thesis using m run by (simp add: chain_def)
  next
    case (Inr a)
    then have "R a (last ss)" using m(3) run by simp
    with assms(2) have "fst (k a (last ss)) \<noteq> []" "\<forall>t \<in> set (fst (k a (last ss))). C t"
      "\<And>b. snd (k a (last ss)) = Inr b \<Longrightarrow> Q b (last (fst (k a (last ss))))" unfolding guards_def by blast+
    then show ?thesis using m run Inr by (auto simp: chain_def split: prod.split)
  qed
qed

lemma guards_for_each:
  assumes "\<And>x. x \<in> set xs \<Longrightarrow> guards C P (f x) (\<lambda>_. P)" "\<And>s. P s \<Longrightarrow> C s"
  shows "guards C P (for_each f xs) (\<lambda>_. P)"
  using assms(1)
proof (induction xs)
  case Nil
  show ?case using assms(2) by (simp add: guards_give)
next
  case (Cons x xs)
  have "guards C P (f x) (\<lambda>_. P)" "guards C P (for_each f xs) (\<lambda>_. P)" using Cons by simp_all
  then show ?case by (simp add: guards_chain [where R = "\<lambda>_. P"])
qed

lemma guards_for_list:
  assumes "\<And>x ys. guards C (I (x # ys)) (f x) (\<lambda>_. I ys)" "\<And>s. I [] s \<Longrightarrow> C s"
  shows "guards C (I xs) (for_each f xs) (\<lambda>_. I [])"
proof (induction xs)
  case Nil
  show ?case using assms(2) by (simp add: guards_give)
next
  case (Cons x xs)
  then show ?case by (simp add: guards_chain [where R = "\<lambda>_. I xs"] assms(1))
qed

lemma guards_pick:
  "guards C (\<lambda>s. P s \<and> b s) m Q \<Longrightarrow> guards C (\<lambda>s. P s \<and> \<not> b s) k Q \<Longrightarrow> guards C P (pick_run b m k) Q"
  by (auto simp: guards_def pick_run_def)

lemma guards_pre: "guards C P m Q \<Longrightarrow> (\<And>s. P' s \<Longrightarrow> P s) \<Longrightarrow> guards C P' m Q"
  by (auto simp: guards_def)

lemma guards_post: "guards C P m Q \<Longrightarrow> (\<And>a s. Q a s \<Longrightarrow> Q' a s) \<Longrightarrow> guards C P m Q'"
  by (auto simp: guards_def)

lemma guards_crashed:
  assumes "guards C P m Q" "P s"
  shows "C (crashed n m s)"
proof -
  have "fst (m s) \<noteq> []" "\<forall>t \<in> set (fst (m s)). C t" using assms by (auto simp: guards_def)
  moreover have "last (take (Suc n) (fst (m s))) \<in> set (take (Suc n) (fst (m s)))" using calculation(1) by (intro last_in_set) simp
  ultimately show ?thesis using in_set_takeD unfolding crashed_def by fast
qed

lemma completes_give: "(\<And>s. P s \<Longrightarrow> Q a s) \<Longrightarrow> completes P (give a) Q"
  by (simp add: completes_def give_def)

lemma completes_change: "(\<And>s. P s \<Longrightarrow> Q () (f s)) \<Longrightarrow> completes P (change f) Q"
  by (simp add: completes_def change_def)

lemma completes_look: "(\<And>s. P s \<Longrightarrow> \<exists>a. f s = Inr a \<and> Q a s) \<Longrightarrow> completes P (look f) Q"
  by (simp add: completes_def look_def)

lemma completes_chain:
  assumes "completes P m R" "\<And>a. completes (R a) (k a) Q"
  shows "completes P (chain m k) Q"
  unfolding completes_def
proof (intro allI impI)
  fix s assume "P s"
  with assms(1) obtain a where m: "fst (m s) \<noteq> []" "snd (m s) = Inr a" "R a (last (fst (m s)))"
    by (auto simp: completes_def)
  with assms(2) obtain b where k: "fst (k a (last (fst (m s)))) \<noteq> []" "snd (k a (last (fst (m s)))) = Inr b"
    "Q b (last (fst (k a (last (fst (m s))))))" unfolding completes_def by blast
  obtain ss where run: "m s = (ss, Inr a)" using m(2) by (cases "m s") simp
  obtain ts where next_run: "k a (last ss) = (ts, Inr b)" using k(2) run by (cases "k a (last ss)") simp
  show "fst (chain m k s) \<noteq> [] \<and> (\<exists>a. snd (chain m k s) = Inr a \<and> Q a (last (fst (chain m k s))))"
    using m k by (simp add: chain_def run next_run)
qed

lemma completes_for_list:
  assumes "\<And>x ys. completes (I (x # ys)) (f x) (\<lambda>_. I ys)"
  shows "completes (I xs) (for_each f xs) (\<lambda>_. I [])"
proof (induction xs)
  case Nil
  show ?case by (simp add: completes_give)
next
  case (Cons x xs)
  then show ?case by (simp add: completes_chain [where R = "\<lambda>_. I xs"] assms)
qed

lemma completes_pick:
  "completes (\<lambda>s. P s \<and> b s) m Q \<Longrightarrow> completes (\<lambda>s. P s \<and> \<not> b s) k Q \<Longrightarrow> completes P (pick_run b m k) Q"
  by (auto simp: completes_def pick_run_def)

lemma completes_pre: "completes P m Q \<Longrightarrow> (\<And>s. P' s \<Longrightarrow> P s) \<Longrightarrow> completes P' m Q"
  by (auto simp: completes_def)

lemma completes_post: "completes P m Q \<Longrightarrow> (\<And>a s. Q a s \<Longrightarrow> Q' a s) \<Longrightarrow> completes P m Q'"
  by (auto simp: completes_def)

lemma completes_run: "completes P m Q \<Longrightarrow> P s \<Longrightarrow> \<exists>a. snd (m s) = Inr a \<and> Q a (after m s)"
  by (auto simp: completes_def after_def)

text \<open>Both at once.\<close>

definition secures :: "('s \<Rightarrow> bool) \<Rightarrow> ('s \<Rightarrow> bool) \<Rightarrow> ('s, 'e, 'a) run \<Rightarrow> ('a \<Rightarrow> 's \<Rightarrow> bool) \<Rightarrow> bool" where
  "secures C P m Q \<longleftrightarrow> guards C P m Q \<and> completes P m Q"

lemma secures_give: "(\<And>s. P s \<Longrightarrow> C s \<and> Q a s) \<Longrightarrow> secures C P (give a) Q"
  by (simp add: secures_def guards_give completes_give)

lemma secures_change: "(\<And>s. P s \<Longrightarrow> C s \<and> C (f s) \<and> Q () (f s)) \<Longrightarrow> secures C P (change f) Q"
  by (simp add: secures_def guards_change completes_change)

lemma secures_look: "(\<And>s. P s \<Longrightarrow> C s \<and> (\<exists>a. f s = Inr a \<and> Q a s)) \<Longrightarrow> secures C P (look f) Q"
  unfolding secures_def by (auto intro!: guards_look completes_look) fastforce

lemma secures_chain: "secures C P m R \<Longrightarrow> (\<And>a. secures C (R a) (k a) Q) \<Longrightarrow> secures C P (chain m k) Q"
  by (simp add: secures_def guards_chain [where R = R] completes_chain [where R = R])

lemma secures_for_list:
  "(\<And>x ys. secures C (I (x # ys)) (f x) (\<lambda>_. I ys)) \<Longrightarrow> (\<And>s. I [] s \<Longrightarrow> C s)
   \<Longrightarrow> secures C (I xs) (for_each f xs) (\<lambda>_. I [])"
  by (simp add: secures_def guards_for_list completes_for_list)

lemma secures_pick:
  "secures C (\<lambda>s. P s \<and> b s) m Q \<Longrightarrow> secures C (\<lambda>s. P s \<and> \<not> b s) k Q \<Longrightarrow> secures C P (pick_run b m k) Q"
  by (simp add: secures_def guards_pick completes_pick)

lemma secures_pre: "secures C P m Q \<Longrightarrow> (\<And>s. P' s \<Longrightarrow> P s) \<Longrightarrow> secures C P' m Q"
  by (auto simp: secures_def intro: guards_pre completes_pre)

lemma secures_post: "secures C P m Q \<Longrightarrow> (\<And>a s. Q a s \<Longrightarrow> Q' a s) \<Longrightarrow> secures C P m Q'"
  unfolding secures_def by (blast intro: guards_post completes_post)

lemma secures_state: "(\<And>x. secures C (\<lambda>s. P s \<and> f s = x) (m x) Q) \<Longrightarrow> secures C P (\<lambda>s. m (f s) s) Q"
  by (simp add: secures_def guards_def completes_def)

lemma secures_guards: "secures C P m Q \<Longrightarrow> guards C P m Q"
  by (simp add: secures_def)

lemma secures_completes: "secures C P m Q \<Longrightarrow> completes P m Q"
  by (simp add: secures_def)

end
