(* ===== verification/Retirement.thy ===== *)
theory Retirement
  imports MemoryStore CrashRuns
begin

text \<open>
  \<open>scripts/migrate_agent_memory.py\<close>: the operator's command that verifies the copies of the legacy
  memory files and then retires the files, in steps that can be interrupted: a pending marker,
  the move into a quarantine directory, its removal, the final marker.  The disk holds the names of
  the legacy artifacts at the root and in the quarantine, the marker and the new store.  What the
  legacy database says does not change while its old processes are stopped, which the operator
  confirms; it is read only where no artifact has been moved.
\<close>

record disk =
  dk_files :: "string list"
  dk_quarantine :: "string list option"
  dk_marker :: marker_file
  dk_memory :: memory_db

record legacy_source =
  ls_db :: "legacy_db option"
  ls_print :: string

record retire_args =
  ra_count :: int
  ra_digest :: string
  ra_confirmed :: bool
  ra_symlink :: bool
  ra_directory :: bool
  ra_lock :: bool
  ra_links :: bool
  ra_now :: int

datatype retire_error =
    RootSymlink
  | RootMissing
  | ExpectedInvalid
  | NotConfirmed
  | AnotherMigration
  | MarkerUnparsable
  | MarkerNoObject
  | CountChanged
  | DigestChanged
  | Unaccounted int int
  | NumberInvalid py_error
  | SourceReturned
  | BothCopies string
  | NoSource
  | SourceNotListed
  | SymbolicArtifact
  | QuarantineExists
  | FilesReappeared
  | StoreRefused memory_error

definition source_file :: string where
  "source_file = ''chroma.sqlite3''"

definition is_digest :: "string \<Rightarrow> bool" where
  "is_digest s \<longleftrightarrow> length s = 64 \<and> list_all is_hex_lower s"

text \<open>What a process of the new application finds on the disk.\<close>

definition one_read :: "legacy_source \<Rightarrow> legacy_try" where
  "one_read S = \<lparr>lt_before = Some (ls_print S), lt_source = ls_db S, lt_after = Some (ls_print S)\<rparr>"

definition env_of :: "legacy_source \<Rightarrow> int \<Rightarrow> disk \<Rightarrow> legacy_env" where
  "env_of S now d = \<lparr>le_marker = dk_marker d, le_exists = source_file \<in> set (dk_files d),
     le_fingerprint = (if source_file \<in> set (dk_files d) then Some (ls_print S) else None),
     le_tries = [one_read S], le_now = now\<rparr>"

section \<open>Reports and markers\<close>

definition report_of :: "verification option \<Rightarrow> fields" where
  "report_of v = (case v of
      None \<Rightarrow> [(''status'', JStr ''absent''), (''source_count'', JInt 0), (''verified_count'', JInt 0)]
    | Some w \<Rightarrow> [(''status'', JStr ''verified''), (''source_count'', JInt (int (vf_source w))),
        (''verified_count'', JInt (int (vf_verified w))), (''tombstoned_count'', JInt (int (vf_tombstoned w))),
        (''exact_copy_count'', JInt (int (vf_exact w))), (''native_override_count'', JInt (int (vf_native w))),
        (''source_digest'', JStr (vf_digest w))])"

definition read_marker :: "marker_file \<Rightarrow> retire_error + json option" where
  "read_marker m =
     (case m of
        NoMarker \<Rightarrow> Inr None
      | UnreadableMarker \<Rightarrow> Inl MarkerUnparsable
      | Marker v \<Rightarrow> if is_dict v then Inr (Some v) else Inl MarkerNoObject)"

text \<open>\<open>int(report.get(name, 0))\<close>.\<close>

definition int_or_zero :: "json \<Rightarrow> string \<Rightarrow> retire_error + int" where
  "int_or_zero report name =
     (case json_get report name of
        None \<Rightarrow> Inr 0
      | Some v \<Rightarrow> (case json_int v of
           Some n \<Rightarrow> Inr n
         | None \<Rightarrow> Inl (NumberInvalid (case v of JStr _ \<Rightarrow> ValueError | _ \<Rightarrow> TypeError))))"

definition assert_expected :: "json \<Rightarrow> retire_args \<Rightarrow> retire_error + unit" where
  "assert_expected report a =
     (if json_number (field_or_null report ''source_count'') \<noteq> Some (of_int (ra_count a)) then Inl CountChanged
      else if field_or_null report ''source_digest'' \<noteq> JStr (ra_digest a) then Inl DigestChanged
      else and_then (int_or_zero report ''verified_count'') (\<lambda>v.
           and_then (int_or_zero report ''tombstoned_count'') (\<lambda>t.
             if v + t \<noteq> ra_count a then Inl (Unaccounted (v + t) (ra_count a)) else Inr ())))"

definition pending_marker :: "fields \<Rightarrow> int \<Rightarrow> fields" where
  "pending_marker report now =
     dict_merge report [(''status'', JStr ''pending''), (''schema'', JInt 1), (''verified_at'', JInt now)]"

definition retired_marker :: "fields \<Rightarrow> int \<Rightarrow> fields" where
  "retired_marker pending now = dict_merge pending [(''status'', JStr ''retired''), (''retired_at'', JInt now)]"

fun items_of :: "json \<Rightarrow> fields" where
  "items_of (JObj fs) = fs"
| "items_of _ = []"

definition write_marker :: "fields \<Rightarrow> (disk, retire_error, unit) run" where
  "write_marker fs = change (\<lambda>d. d\<lparr>dk_marker := Marker (JObj fs)\<rparr>)"

section \<open>Moves\<close>

definition into_quarantine :: "string \<Rightarrow> disk \<Rightarrow> disk" where
  "into_quarantine n d = d\<lparr>dk_files := filter (\<lambda>m. m \<noteq> n) (dk_files d), dk_quarantine := map_option (\<lambda>q. q @ [n]) (dk_quarantine d)\<rparr>"

definition out_of_quarantine :: "string \<Rightarrow> disk \<Rightarrow> disk" where
  "out_of_quarantine n d = d\<lparr>dk_files := dk_files d @ [n], dk_quarantine := map_option (filter (\<lambda>m. m \<noteq> n)) (dk_quarantine d)\<rparr>"

definition restore_child :: "string \<Rightarrow> (disk, retire_error, unit) run" where
  "restore_child n = chain (look (\<lambda>d. if n \<in> set (dk_files d) then Inl (BothCopies n) else Inr ())) (\<lambda>_. change (out_of_quarantine n))"

definition quarantined :: "disk \<Rightarrow> string list" where
  "quarantined d = (case dk_quarantine d of None \<Rightarrow> [] | Some q \<Rightarrow> q)"

definition restore_quarantine :: "(disk, retire_error, unit) run" where
  "restore_quarantine = (\<lambda>d. chain (for_each restore_child (sort (quarantined d))) (\<lambda>_. change (dk_quarantine_update (\<lambda>_. None))) d)"

text \<open>\<open>shutil.rmtree(quarantine)\<close>: the children in the order of the directory, then the directory.\<close>

definition remove_quarantine :: "(disk, retire_error, unit) run" where
  "remove_quarantine = (\<lambda>d. chain
     (for_each (\<lambda>n. change (dk_quarantine_update (map_option (filter (\<lambda>m. m \<noteq> n))))) (quarantined d))
     (\<lambda>_. change (dk_quarantine_update (\<lambda>_. None))) d)"

section \<open>Inspection and retirement\<close>

definition open_store :: "memory_lib \<Rightarrow> legacy_source \<Rightarrow> retire_args \<Rightarrow> (disk, retire_error, unit) run" where
  "open_store L S a = (\<lambda>d. case sync_legacy L False (env_of S (ra_now a) d) (dk_memory d) of
      (Inl err, db) \<Rightarrow> ([d, d\<lparr>dk_memory := db\<rparr>], Inl (StoreRefused err))
    | (Inr _, db) \<Rightarrow> ([d, d\<lparr>dk_memory := db\<rparr>], Inr ()))"

definition verify_store :: "memory_lib \<Rightarrow> legacy_source \<Rightarrow> retire_args \<Rightarrow> (disk, retire_error, verification option) run" where
  "verify_store L S a = (\<lambda>d. case verify_legacy_copy L (env_of S (ra_now a) d) [one_read S] (dk_memory d) of
      (Inl err, db) \<Rightarrow> ([d, d\<lparr>dk_memory := db\<rparr>], Inl (StoreRefused err))
    | (Inr v, db) \<Rightarrow> ([d, d\<lparr>dk_memory := db\<rparr>], Inr v))"

definition store_health :: "memory_lib \<Rightarrow> legacy_source \<Rightarrow> retire_args \<Rightarrow> (disk, retire_error, memory_health) run" where
  "store_health L S a = (\<lambda>d. case memory_health L (env_of S (ra_now a) d) (dk_marker d) (dk_quarantine d \<noteq> None)
        (source_file \<in> set (dk_files d)) (dk_files d \<noteq> []) (dk_memory d) of
      (Inl err, db) \<Rightarrow> ([d, d\<lparr>dk_memory := db\<rparr>], Inl (StoreRefused err))
    | (Inr h, db) \<Rightarrow> ([d, d\<lparr>dk_memory := db\<rparr>], Inr h))"

definition inspect_legacy ::
  "memory_lib \<Rightarrow> legacy_source \<Rightarrow> retire_args \<Rightarrow> (disk, retire_error, fields \<times> string list \<times> memory_health) run" where
  "inspect_legacy L S a =
     chain (open_store L S a) (\<lambda>_. chain (verify_store L S a) (\<lambda>v. chain (look (\<lambda>d. Inr (sort (dk_files d)))) (\<lambda>files.
       chain (store_health L S a) (\<lambda>h. give (report_of v, files, h)))))"

definition resume_pending :: "retire_args \<Rightarrow> json \<Rightarrow> (disk, retire_error, json option) run" where
  "resume_pending a marker =
     (if field_or_null marker ''status'' \<noteq> JStr ''pending'' then give None
      else chain (look (\<lambda>_. assert_expected marker a)) (\<lambda>_.
        pick_run (\<lambda>d. source_file \<in> set (dk_files d))
          (chain (pick_run (\<lambda>d. dk_quarantine d \<noteq> None) restore_quarantine (give ())) (\<lambda>_.
             chain (change (dk_marker_update (\<lambda>_. NoMarker))) (\<lambda>_. give None)))
          (chain (pick_run (\<lambda>d. dk_quarantine d \<noteq> None) remove_quarantine (give ())) (\<lambda>_.
             let final = retired_marker (items_of marker) (ra_now a) in
             chain (write_marker final) (\<lambda>_. give (Some (JObj final)))))))"

definition check_artifacts :: "retire_args \<Rightarrow> (disk, retire_error, string list) run" where
  "check_artifacts a = look (\<lambda>d.
     if source_file \<notin> set (dk_files d) then Inl SourceNotListed
     else if ra_links a then Inl SymbolicArtifact else Inr (sort (dk_files d)))"

definition move_and_seal :: "retire_args \<Rightarrow> fields \<Rightarrow> string list \<Rightarrow> (disk, retire_error, json) run" where
  "move_and_seal a report artifacts =
     (let pending = pending_marker report (ra_now a); final = retired_marker pending (ra_now a) in
      chain (write_marker pending) (\<lambda>_.
      chain (look (\<lambda>d. if dk_quarantine d \<noteq> None then Inl QuarantineExists else Inr ())) (\<lambda>_.
      chain (change (dk_quarantine_update (\<lambda>_. Some []))) (\<lambda>_.
      chain (for_each (\<lambda>n. change (into_quarantine n)) artifacts) (\<lambda>_.
      chain (look (\<lambda>d. if dk_files d \<noteq> [] then Inl FilesReappeared else Inr ())) (\<lambda>_.
      chain remove_quarantine (\<lambda>_.
      chain (write_marker final) (\<lambda>_. give (JObj final)))))))))"

definition fresh_retirement :: "memory_lib \<Rightarrow> legacy_source \<Rightarrow> retire_args \<Rightarrow> (disk, retire_error, json) run" where
  "fresh_retirement L S a =
     chain (open_store L S a) (\<lambda>_.
     chain (verify_store L S a) (\<lambda>v.
     chain (look (\<lambda>_. if v = None then Inl NoSource else assert_expected (JObj (report_of v)) a)) (\<lambda>_.
     chain (check_artifacts a) (\<lambda>artifacts. move_and_seal a (report_of v) artifacts))))"

definition check_arguments :: "retire_args \<Rightarrow> retire_error + unit" where
  "check_arguments a =
     (if ra_symlink a then Inl RootSymlink
      else if \<not> ra_directory a then Inl RootMissing
      else if ra_count a < 0 \<or> \<not> is_digest (ra_digest a) then Inl ExpectedInvalid
      else if \<not> ra_confirmed a then Inl NotConfirmed
      else if \<not> ra_lock a then Inl AnotherMigration
      else Inr ())"

definition already_retired :: "retire_args \<Rightarrow> json \<Rightarrow> (disk, retire_error, json) run" where
  "already_retired a marker =
     chain (look (\<lambda>_. assert_expected marker a)) (\<lambda>_.
     chain (look (\<lambda>d. if source_file \<in> set (dk_files d) then Inl SourceReturned else Inr ())) (\<lambda>_. give marker))"

definition retire_legacy :: "memory_lib \<Rightarrow> legacy_source \<Rightarrow> retire_args \<Rightarrow> (disk, retire_error, json) run" where
  "retire_legacy L S a =
     chain (look (\<lambda>_. check_arguments a)) (\<lambda>_.
     chain (look (\<lambda>d. read_marker (dk_marker d))) (\<lambda>m.
       case m of
         None \<Rightarrow> fresh_retirement L S a
       | Some v \<Rightarrow>
           if \<not> truthy v then fresh_retirement L S a
           else if field_or_null v ''status'' = JStr ''retired'' then already_retired a v
           else chain (resume_pending a v) (\<lambda>done_marker.
             case done_marker of Some final \<Rightarrow> give final | None \<Rightarrow> fresh_retirement L S a)))"

section \<open>Runs, crashes and the application beside them\<close>

fun in_env :: "(int \<Rightarrow> legacy_env) \<Rightarrow> memory_op \<Rightarrow> memory_op" where
  "in_env f (Sync force e) = Sync force (f (le_now e))"
| "in_env f (Add e ids docs metas) = Add (f (le_now e)) ids docs metas"
| "in_env f (Update e ids docs metas) = Update (f (le_now e)) ids docs metas"
| "in_env f (Delete e now ids wh) = Delete (f (le_now e)) now ids wh"

datatype retirement_event = App memory_op | Retire retire_args | Killed nat retire_args

fun retirement_step :: "memory_lib \<Rightarrow> legacy_source \<Rightarrow> disk \<Rightarrow> retirement_event \<Rightarrow> disk" where
  "retirement_step L S d (App op) = d\<lparr>dk_memory := memory_step L (dk_memory d) (in_env (\<lambda>now. env_of S now d) op)\<rparr>"
| "retirement_step L S d (Retire a) = after (retire_legacy L S a) d"
| "retirement_step L S d (Killed n a) = crashed n (retire_legacy L S a) d"

lemma op_env_in_env: "\<exists>now. op_env (in_env f op) = f now"
  by (cases op) auto

text \<open>Every row of the legacy file is erased, exactly copied or owned by the new application.\<close>

definition accounted :: "memory_item list \<Rightarrow> memory_db \<Rightarrow> bool" where
  "accounted items db \<longleftrightarrow> (\<forall>x \<in> set items. fst x \<in> entombed db \<or> has_copy x db)"

definition source_items :: "memory_lib \<Rightarrow> legacy_source \<Rightarrow> memory_error + string \<times> memory_item list" where
  "source_items L S = read_stable_legacy L [one_read S]"

lemma accounted_snapshot:
  assumes "distinct (map fst items)"
  shows "accounted items (import_snapshot L now fp items db)"
  unfolding accounted_def
proof
  fix x assume x: "x \<in> set items"
  show "fst x \<in> entombed (import_snapshot L now fp items db) \<or> has_copy x (import_snapshot L now fp items db)"
  proof (cases "fst x \<in> entombed db")
    case True
    then show ?thesis by (simp add: snapshot_parts)
  next
    case False
    then show ?thesis using snapshot_copies(1) [OF assms x] by blast
  qed
qed

lemma native_copy: "r \<in> set (md_rows db) \<Longrightarrow> mr_id r = fst x \<Longrightarrow> mr_native r \<Longrightarrow> has_copy x db"
  unfolding has_copy_def by blast

lemma accounted_insert: "accounted items db \<Longrightarrow> insert_items L xs db = Inr db' \<Longrightarrow> accounted items db'"
proof (induction xs arbitrary: db)
  case (Cons x xs)
  obtain j d m where x: "x = (j, d, m)" by (cases x)
  from Cons.prems(2) obtain db1 where step: "insert_item L (j, d, m) db = Inr db1" "insert_items L xs db1 = Inr db'"
    by (auto simp: x and_then_Inr)
  obtain md where rows: "set (md_rows db1) = insert (memory_row_of (j, d, md) True) (set (md_rows db))"
    using insert_item_rows [OF step(1)] by blast
  have "fst y \<in> entombed db1 \<or> has_copy y db1" if "fst y \<in> entombed db \<or> has_copy y db" for y
  proof (cases "fst y = j")
    case True
    have "mr_native (memory_row_of (j, d, md) True)" by (simp add: memory_row_of_def)
    then have "has_copy y db1" using True rows by (intro native_copy [of "memory_row_of (j, d, md) True"]) simp_all
    then show ?thesis ..
  next
    case False
    with that show ?thesis using insert_item_parts(3) [OF step(1)] rows by (auto simp: has_copy_def)
  qed
  then have "accounted items db1" using Cons.prems(1) by (simp add: accounted_def)
  with Cons.IH step(2) show ?case by blast
qed simp

lemma change_item_rows:
  assumes "change_item L (i, doc, meta) db = Inr db'"
  shows "db' = db \<or> (i \<in> set (ids_of db) \<and> (\<exists>d md. md_rows db' = map (\<lambda>x. if mr_id x = i then memory_row_of (i, d, md) True else x) (md_rows db)))"
proof (cases "find_row db i")
  case None
  with assms show ?thesis by (simp add: change_item_def)
next
  case (Some r)
  then have "i \<in> set (ids_of db)" using find_row_None [of db i] by auto
  with assms Some obtain md where "db' = db\<lparr>md_rows := map (\<lambda>x. if mr_id x = i
      then memory_row_of (i, (case doc of None \<Rightarrow> mr_document r | Some d \<Rightarrow> d), md) True else x) (md_rows db),
      md_tombstones := filter (\<lambda>t. fst t \<noteq> i) (md_tombstones db)\<rparr>"
    by (auto simp: change_item_def and_then_Inr Let_def)
  then have "md_rows db' = map (\<lambda>x. if mr_id x = i
      then memory_row_of (i, (case doc of None \<Rightarrow> mr_document r | Some d \<Rightarrow> d), md) True else x) (md_rows db)" by simp
  with \<open>i \<in> set (ids_of db)\<close> show ?thesis by blast
qed

lemma accounted_change: "accounted items db \<Longrightarrow> change_items L xs db = Inr db' \<Longrightarrow> accounted items db'"
proof (induction xs arbitrary: db)
  case (Cons x xs)
  obtain j doc meta where x: "x = (j, doc, meta)" by (cases x)
  from Cons.prems(2) obtain db1 where step: "change_item L (j, doc, meta) db = Inr db1" "change_items L xs db1 = Inr db'"
    by (auto simp: x and_then_Inr)
  have "accounted items db1"
  proof (cases "db1 = db")
    case False
    then obtain d md where rows: "j \<in> set (ids_of db)"
      "md_rows db1 = map (\<lambda>x. if mr_id x = j then memory_row_of (j, d, md) True else x) (md_rows db)"
      using change_item_rows [OF step(1)] by blast
    let ?new = "memory_row_of (j, d, md) True"
    have native: "mr_native ?new" by (simp add: memory_row_of_def)
    have "?new \<in> set (md_rows db1)" using rows by (force simp: ids_of_def)
    have "fst y \<in> entombed db1 \<or> has_copy y db1" if "fst y \<in> entombed db \<or> has_copy y db" for y
    proof (cases "fst y = j")
      case True
      then have "has_copy y db1" using \<open>?new \<in> set (md_rows db1)\<close> native by (intro native_copy [of ?new]) simp_all
      then show ?thesis ..
    next
      case False
      with that show ?thesis using change_item_parts(3) [OF step(1)] rows by (force simp: has_copy_def)
    qed
    then show ?thesis using Cons.prems(1) by (simp add: accounted_def)
  qed (use Cons.prems in simp)
  with Cons.IH step(2) show ?case by blast
qed simp

lemma accounted_erase: "accounted items db \<Longrightarrow> accounted items (erase_rows now doomed db)"
proof -
  have "fst x \<in> set doomed \<or> has_copy x (erase_rows now doomed db)" if "has_copy x db" for x
    using that unfolding has_copy_def erase_rows_def by auto
  then show "accounted items db \<Longrightarrow> accounted items (erase_rows now doomed db)"
    unfolding accounted_def erase_rows_parts by blast
qed

text \<open>Without the legacy file no synchronisation changes the store; a forced one with it accounts for every row.\<close>

lemma sync_without_source:
  "source_file \<notin> set (dk_files d) \<Longrightarrow> sync_legacy L force (env_of S now d) db = (r, db') \<Longrightarrow> db' = db"
  by (auto simp: sync_legacy_def env_of_def split: sum.splits option.splits if_splits)

lemma sync_with_source:
  assumes "source_file \<in> set (dk_files d)" "sync_legacy L True (env_of S now d) db = (Inr q, db')"
  shows "\<exists>fp items. source_items L S = Inr (fp, items) \<and> q = Synced (length items) (records_digest L items) \<and> accounted items db'"
proof -
  from assms obtain fp items where read: "source_items L S = Inr (fp, items)"
    and db': "db' = import_snapshot L now fp items db" and q: "q = Synced (length items) (records_digest L items)"
    by (auto simp: sync_legacy_def env_of_def source_items_def split: sum.splits option.splits if_splits)
  have "distinct (map fst items)" using read unfolding source_items_def by (rule read_stable_distinct)
  with read db' q show ?thesis by (simp add: accounted_snapshot)
qed

section \<open>The invariant\<close>

definition sealed :: "memory_lib \<Rightarrow> legacy_source \<Rightarrow> disk \<Rightarrow> bool" where
  "sealed L S d \<longleftrightarrow> (\<exists>fp items. source_items L S = Inr (fp, items) \<and> accounted items (dk_memory d))"

definition kept :: "memory_lib \<Rightarrow> legacy_source \<Rightarrow> disk \<Rightarrow> bool" where
  "kept L S d \<longleftrightarrow> source_file \<in> set (dk_files d) \<or> sealed L S d"

lemma kept_app: "kept L S d \<Longrightarrow> kept L S (retirement_step L S d (App op))"
proof (cases "source_file \<in> set (dk_files d)")
  case False
  assume "kept L S d"
  then obtain fp items where items: "source_items L S = Inr (fp, items)" "accounted items (dk_memory d)"
    using False by (auto simp: kept_def sealed_def)
  let ?op = "in_env (\<lambda>now. env_of S now d) op"
  obtain now where env: "op_env ?op = env_of S now d" using op_env_in_env by blast
  have same: "db1 = dk_memory d" if "sync_legacy L force (op_env ?op) (dk_memory d) = (q, db1)" for force q db1
    using sync_without_source [OF False] that unfolding env by blast
  have "accounted items (memory_step L (dk_memory d) ?op)"
  proof (rule memory_step_cases [of L "dk_memory d" ?op], goal_cases)
    case 1
    then show ?case using items(2) by simp
  next
    case (2 q db1 force)
    then show ?case using items(2) same [OF 2(1)] by simp
  next
    case (3 q db1 e ids docs metas)
    then show ?case using items(2) same [OF 3(2)] accounted_insert by blast
  next
    case (4 q db1 xs)
    then show ?case using items(2) same [OF 4(1)] accounted_change by blast
  next
    case (5 q db1 now doomed)
    show ?case unfolding 5(2) same [OF 5(1)] using items(2) by (rule accounted_erase)
  qed
  with items(1) show ?thesis by (auto simp: kept_def sealed_def)
qed (simp add: kept_def)

lemma kept_moves [simp]:
  "kept L S (d\<lparr>dk_marker := m\<rparr>) \<longleftrightarrow> kept L S d" "kept L S (d\<lparr>dk_quarantine := q\<rparr>) \<longleftrightarrow> kept L S d"
  "kept L S (dk_marker_update f d) \<longleftrightarrow> kept L S d" "kept L S (dk_quarantine_update g d) \<longleftrightarrow> kept L S d"
  "sealed L S (d\<lparr>dk_marker := m\<rparr>) \<longleftrightarrow> sealed L S d" "sealed L S (dk_quarantine_update g d) \<longleftrightarrow> sealed L S d"
  "sealed L S (into_quarantine n d) \<longleftrightarrow> sealed L S d"
  by (simp_all add: kept_def sealed_def into_quarantine_def)

lemma sealed_kept: "sealed L S d \<Longrightarrow> kept L S d"
  by (simp add: kept_def)

lemma kept_restored: "kept L S d \<Longrightarrow> kept L S (out_of_quarantine n d)"
  by (auto simp: kept_def sealed_def out_of_quarantine_def)

lemma guards_marker: "guards (kept L S) (kept L S) (write_marker fs) (\<lambda>_. kept L S)"
  "guards (kept L S) (sealed L S) (write_marker fs) (\<lambda>_. sealed L S)"
  unfolding write_marker_def by (rule guards_change; simp add: sealed_kept)+

lemma guards_restore: "guards (kept L S) (kept L S) restore_quarantine (\<lambda>_. kept L S)"
proof -
  have child: "guards (kept L S) (kept L S) (restore_child n) (\<lambda>_. kept L S)" for n
    unfolding restore_child_def
    by (rule guards_chain [OF guards_look [where Q = "\<lambda>_. kept L S"]]) (auto intro: guards_change simp: kept_restored)
  have "guards (kept L S) (kept L S) (chain (for_each restore_child xs) (\<lambda>_. change (dk_quarantine_update (\<lambda>_. None)))) (\<lambda>_. kept L S)" for xs
    by (rule guards_chain [OF guards_for_each]) (auto intro: guards_change child)
  then show ?thesis unfolding restore_quarantine_def guards_def by blast
qed

lemma guards_remove:
  "guards (kept L S) (kept L S) remove_quarantine (\<lambda>_. kept L S)" "guards (kept L S) (sealed L S) remove_quarantine (\<lambda>_. sealed L S)"
proof -
  let ?del = "\<lambda>n. change (dk_quarantine_update (map_option (filter (\<lambda>m. m \<noteq> n)))) :: (disk, retire_error, unit) run"
  have "guards (kept L S) (kept L S) (chain (for_each ?del xs) (\<lambda>_. change (dk_quarantine_update (\<lambda>_. None)))) (\<lambda>_. kept L S)" for xs
    by (rule guards_chain [OF guards_for_each]) (auto intro: guards_change)
  then show "guards (kept L S) (kept L S) remove_quarantine (\<lambda>_. kept L S)" unfolding remove_quarantine_def guards_def by blast
  have "guards (kept L S) (sealed L S) (chain (for_each ?del xs) (\<lambda>_. change (dk_quarantine_update (\<lambda>_. None)))) (\<lambda>_. sealed L S)" for xs
    by (rule guards_chain [OF guards_for_each]) (auto intro!: guards_change simp: sealed_kept)
  then show "guards (kept L S) (sealed L S) remove_quarantine (\<lambda>_. sealed L S)" unfolding remove_quarantine_def guards_def by blast
qed

lemma guards_resume: "guards (kept L S) (kept L S) (resume_pending a m) (\<lambda>_. kept L S)"
proof -
  have restore: "guards (kept L S) (\<lambda>d. kept L S d \<and> source_file \<in> set (dk_files d))
      (chain (pick_run (\<lambda>d. dk_quarantine d \<noteq> None) restore_quarantine (give ())) (\<lambda>_.
        chain (change (dk_marker_update (\<lambda>_. NoMarker))) (\<lambda>_. give None))) (\<lambda>_. kept L S)"
    by (rule guards_chain [where R = "\<lambda>_. kept L S"] guards_pick guards_change | rule guards_pre [OF guards_restore] guards_give | simp)+
  have seal: "guards (kept L S) (\<lambda>d. kept L S d \<and> source_file \<notin> set (dk_files d))
      (chain (pick_run (\<lambda>d. dk_quarantine d \<noteq> None) remove_quarantine (give ())) (\<lambda>_.
        let final = retired_marker (items_of m) (ra_now a) in
        chain (write_marker final) (\<lambda>_. give (Some (JObj final))))) (\<lambda>_. kept L S)"
    unfolding Let_def
    by (rule guards_chain [where R = "\<lambda>_. kept L S"] guards_pick guards_marker | rule guards_pre [OF guards_remove(1)] guards_give | simp)+
  show ?thesis
  proof (cases "field_or_null m ''status'' = JStr ''pending''")
    case True
    show ?thesis
      unfolding resume_pending_def
      using True by (simp only: if_False simp_thms) (rule guards_chain [where R = "\<lambda>_. kept L S"] guards_look guards_pick restore seal | assumption)+
  qed (simp add: resume_pending_def guards_give)
qed

lemma kept_with_source: "source_file \<in> set (dk_files d) \<Longrightarrow> kept L S (d\<lparr>dk_memory := db\<rparr>)"
  by (simp add: kept_def)

lemma kept_same: "kept L S d \<Longrightarrow> kept L S (d\<lparr>dk_memory := dk_memory d\<rparr>)"
  by (simp add: kept_def sealed_def)

lemma kept_synced:
  assumes "kept L S d" "sync_legacy L force (env_of S now d) (dk_memory d) = (r, db)"
  shows "kept L S (d\<lparr>dk_memory := db\<rparr>)"
proof (cases "source_file \<in> set (dk_files d)")
  case True
  then show ?thesis by (rule kept_with_source)
next
  case False
  with sync_without_source [OF False assms(2)] assms(1) show ?thesis by (simp add: kept_same)
qed

lemma guards_open: "guards (kept L S) (kept L S) (open_store L S a) (\<lambda>_. kept L S)"
  unfolding guards_def open_store_def
  by (auto simp: kept_synced split: prod.split sum.split)

lemma verify_seals:
  assumes "verify_legacy_copy L (env_of S now d) [one_read S] (dk_memory d) = (Inr (Some v), db)"
  shows "sealed L S (d\<lparr>dk_memory := db\<rparr>)"
proof -
  have there: "source_file \<in> set (dk_files d)"
    using assms by (auto simp: verify_legacy_copy_def env_of_def split: if_splits)
  with assms obtain q where "sync_legacy L True (env_of S now d) (dk_memory d) = (Inr q, db)"
    by (auto simp: verify_legacy_copy_def env_of_def split: prod.splits sum.splits)
  from sync_with_source [OF there this] show ?thesis by (auto simp: sealed_def)
qed

lemma verify_syncs:
  assumes "verify_legacy_copy L (env_of S now d) tries (dk_memory d) = (r, db)"
  shows "db = dk_memory d \<or> (\<exists>q. sync_legacy L True (env_of S now d) (dk_memory d) = (q, db))"
  using assms by (auto simp: verify_legacy_copy_def split: if_splits prod.splits sum.splits)

lemma guards_verify:
  "guards (kept L S) (kept L S) (verify_store L S a) (\<lambda>v d. kept L S d \<and> (v \<noteq> None \<longrightarrow> sealed L S d))"
  unfolding guards_def
proof (intro allI impI)
  fix d assume k: "kept L S d"
  obtain r db where v: "verify_legacy_copy L (env_of S (ra_now a) d) [one_read S] (dk_memory d) = (r, db)"
    by (cases "verify_legacy_copy L (env_of S (ra_now a) d) [one_read S] (dk_memory d)")
  have after_db: "kept L S (d\<lparr>dk_memory := db\<rparr>)"
    using verify_syncs [OF v] kept_synced [OF k] kept_same [OF k] by blast
  have run: "verify_store L S a d = ([d, d\<lparr>dk_memory := db\<rparr>], case r of Inl err \<Rightarrow> Inl (StoreRefused err) | Inr v \<Rightarrow> Inr v)"
    by (simp add: verify_store_def v split: sum.split)
  have "w \<noteq> None \<longrightarrow> sealed L S (d\<lparr>dk_memory := db\<rparr>)" if "r = Inr w" for w
    using verify_seals [of L S "ra_now a" d _ db] v that by auto
  then show "fst (verify_store L S a d) \<noteq> [] \<and> (\<forall>t \<in> set (fst (verify_store L S a d)). kept L S t)
      \<and> (\<forall>w. snd (verify_store L S a d) = Inr w \<longrightarrow>
           kept L S (last (fst (verify_store L S a d))) \<and> (w \<noteq> None \<longrightarrow> sealed L S (last (fst (verify_store L S a d)))))"
    using k after_db by (auto simp: run split: sum.splits)
qed

lemma guards_move: "guards (kept L S) (sealed L S) (move_and_seal a report artifacts) (\<lambda>_. kept L S)"
proof -
  have move: "guards (kept L S) (sealed L S) (for_each (\<lambda>n. change (into_quarantine n)) artifacts) (\<lambda>_. sealed L S)"
    by (rule guards_for_each) (auto intro!: guards_change simp: sealed_kept)
  have look: "guards (kept L S) (sealed L S) (look f) (\<lambda>_. sealed L S)" for f :: "disk \<Rightarrow> retire_error + 'a"
    by (rule guards_look) (simp_all add: sealed_kept)
  have mkdir: "guards (kept L S) (sealed L S) (change (dk_quarantine_update f)) (\<lambda>_. sealed L S)" for f
    by (rule guards_change) (simp add: sealed_kept)
  show ?thesis
    unfolding move_and_seal_def Let_def
    by (rule guards_chain [where R = "\<lambda>_. sealed L S"] guards_marker guards_remove move look mkdir guards_give conjI sealed_kept | assumption)+
qed

lemma guards_fresh: "guards (kept L S) (kept L S) (fresh_retirement L S a) (\<lambda>_. kept L S)"
proof -
  have reported: "guards (kept L S) (\<lambda>d. kept L S d \<and> (v \<noteq> None \<longrightarrow> sealed L S d))
      (look (\<lambda>_. if v = None then Inl NoSource else assert_expected (JObj (report_of v)) a)) (\<lambda>_. sealed L S)" for v
    by (rule guards_look) (auto split: if_splits)
  have listed: "guards (kept L S) (sealed L S) (check_artifacts a) (\<lambda>_. sealed L S)"
    unfolding check_artifacts_def by (rule guards_look) (simp_all add: sealed_kept)
  show ?thesis
    unfolding fresh_retirement_def
    by (rule guards_chain [OF guards_open] guards_chain [OF guards_verify] guards_chain [OF reported]
        guards_chain [OF listed] guards_move)+
qed

lemma guards_retire: "guards (kept L S) (kept L S) (retire_legacy L S a) (\<lambda>_. kept L S)"
proof -
  have look: "guards (kept L S) (kept L S) (look f) (\<lambda>_. kept L S)" for f :: "disk \<Rightarrow> retire_error + 'a"
    by (rule guards_look)
  have retired: "guards (kept L S) (kept L S) (already_retired a v) (\<lambda>_. kept L S)" for v
    unfolding already_retired_def
    by (rule guards_chain [OF look] guards_give conjI | assumption)+
  have resumed: "guards (kept L S) (kept L S) (chain (resume_pending a v) (\<lambda>done_marker.
      case done_marker of Some final \<Rightarrow> give final | None \<Rightarrow> fresh_retirement L S a)) (\<lambda>_. kept L S)" for v
    by (rule guards_chain [OF guards_resume]) (auto intro: guards_give guards_fresh split: option.split)
  show ?thesis
    unfolding retire_legacy_def
    by (rule guards_chain [OF look])+ (auto intro: guards_fresh retired resumed split: option.split)
qed

lemma kept_step: "kept L S d \<Longrightarrow> kept L S (retirement_step L S d ev)"
proof (cases ev)
  case (Retire a)
  assume k: "kept L S d"
  from guards_retire [of L S a] k have "fst (retire_legacy L S a d) \<noteq> []" "\<forall>t \<in> set (fst (retire_legacy L S a d)). kept L S t"
    by (auto simp: guards_def)
  then show ?thesis by (simp add: Retire after_def)
next
  case (Killed n a)
  then show "kept L S d \<Longrightarrow> ?thesis" using guards_crashed [OF guards_retire] by simp
qed (simp only: kept_app)

text \<open>The disk before any retirement: the legacy database, its companions and the new store.\<close>

definition legacy_disk :: "string list \<Rightarrow> disk" where
  "legacy_disk companions = \<lparr>dk_files = source_file # companions, dk_quarantine = None, dk_marker = NoMarker, dk_memory = empty_memory\<rparr>"

text \<open>A sample: a legacy database with its write-ahead log, and an operator who gives the right account.\<close>

definition hex_memory :: memory_lib where
  "hex_memory = \<lparr>ml_sha = (\<lambda>_. replicate 64 CHR ''a''), ml_float = (\<lambda>_. ''1.0''), ml_str = (\<lambda>_. ''text'')\<rparr>"

definition one_source :: legacy_source where
  "one_source = \<lparr>ls_db = lt_source one_try, ls_print = ''f''\<rparr>"

definition right_account :: retire_args where
  "right_account = \<lparr>ra_count = 1, ra_digest = replicate 64 CHR ''a'', ra_confirmed = True, ra_symlink = False, ra_directory = True,
     ra_lock = True, ra_links = False, ra_now = 9\<rparr>"

interpretation retirement: invariant_machine "legacy_disk companions" "\<lambda>_ _. True" "retirement_step L S" "kept L S" for L S companions
  by unfold_locales (simp add: kept_def legacy_disk_def, rule kept_step)

text \<open>
  C26. No memory is lost to the retirement: whatever runs of the command were started and killed at whatever
  point, and whatever the application did in between, once the legacy database has left its place every row
  of it is accounted for in the new store: erased under a tombstone, copied exactly, or owned by the
  new application.
\<close>

lemma retirement_loses_no_row:
  assumes "source_file \<notin> set (dk_files (run_ops (retirement_step L S) (legacy_disk companions) events))"
  shows "\<exists>fp items. source_items L S = Inr (fp, items)
    \<and> accounted items (dk_memory (run_ops (retirement_step L S) (legacy_disk companions) events))"
  using retirement.inv_run [of L S companions events] assms by (simp add: kept_def sealed_def)

lemma retirement_loses_no_row_witness:
  "\<exists>fp items. source_items hex_memory one_source = Inr (fp, items)
    \<and> accounted items (dk_memory (run_ops (retirement_step hex_memory one_source) (legacy_disk [])
        [App (Add no_legacy [''n''] [''likes quiet''] [JNull]), Killed 14 right_account]))"
  by (rule retirement_loses_no_row) code_simp

section \<open>Interrupted runs can be finished\<close>

text \<open>The account of a verification, as the marker repeats it.\<close>

definition complete_report :: "memory_lib \<Rightarrow> memory_item list \<Rightarrow> verification \<Rightarrow> bool" where
  "complete_report L items w \<longleftrightarrow> vf_source w = length items \<and> vf_digest w = records_digest L items
     \<and> vf_verified w + vf_tombstoned w = length items"

definition tells :: "string \<Rightarrow> memory_lib \<Rightarrow> memory_item list \<Rightarrow> json \<Rightarrow> bool" where
  "tells status L items m \<longleftrightarrow> truthy m \<and> is_dict m \<and> field_or_null m ''status'' = JStr status
     \<and> field_or_null m ''source_count'' = JInt (int (length items)) \<and> field_or_null m ''source_digest'' = JStr (records_digest L items)
     \<and> (\<exists>v t. json_get m ''verified_count'' = Some (JInt v) \<and> json_get m ''tombstoned_count'' = Some (JInt t) \<and> v + t = int (length items))"

lemma dict_merge_nonempty: "d \<noteq> [] \<Longrightarrow> dict_merge d e \<noteq> []"
proof (induction e arbitrary: d)
  case (Cons x e)
  obtain n v where x: "x = (n, v)" by (cases x)
  have "dict_set d n v \<noteq> []" by (cases d) (auto split: if_splits)
  then show ?case using Cons.IH by (simp add: dict_merge_def x)
qed (simp add: dict_merge_def)

lemma pending_tells: "complete_report L items w \<Longrightarrow> tells ''pending'' L items (JObj (pending_marker (report_of (Some w)) t))"
  unfolding tells_def pending_marker_def field_or_null_def json_get.simps map_of_dict_merge truthy.simps is_dict.simps
  by (simp add: dict_merge_nonempty report_of_def complete_report_def)

lemma retired_tells:
  assumes "tells status L items m"
  shows "tells ''retired'' L items (JObj (retired_marker (items_of m) t))"
proof -
  from assms obtain fs where m: "m = JObj fs" "fs \<noteq> []" by (cases m) (auto simp: tells_def)
  show ?thesis
    using assms
    unfolding tells_def retired_marker_def field_or_null_def json_get.simps map_of_dict_merge truthy.simps is_dict.simps m items_of.simps
    by (simp add: dict_merge_nonempty m(2))
qed

definition rightly :: "memory_lib \<Rightarrow> memory_item list \<Rightarrow> retire_args \<Rightarrow> bool" where
  "rightly L items a \<longleftrightarrow> check_arguments a = Inr () \<and> \<not> ra_links a \<and> ra_count a = int (length items) \<and> ra_digest a = records_digest L items"

lemma told_is_expected: "tells status L items m \<Longrightarrow> rightly L items a \<Longrightarrow> assert_expected m a = Inr ()"
  by (auto simp: tells_def rightly_def assert_expected_def int_or_zero_def)

lemma report_is_expected:
  "complete_report L items w \<Longrightarrow> rightly L items a \<Longrightarrow> assert_expected (JObj (report_of (Some w))) a = Inr ()"
  by (simp add: complete_report_def rightly_def assert_expected_def int_or_zero_def field_or_null_def report_of_def)

text \<open>The stages a retirement can be found in.\<close>

definition tidy_disk :: "disk \<Rightarrow> bool" where
  "tidy_disk d \<longleftrightarrow> memory_ok (dk_memory d) \<and> distinct (dk_files d @ quarantined d)"

definition unmarked :: "disk \<Rightarrow> bool" where
  "unmarked d \<longleftrightarrow> tidy_disk d \<and> dk_marker d = NoMarker \<and> source_file \<in> set (dk_files d) \<and> dk_quarantine d = None"

definition pending :: "memory_lib \<Rightarrow> memory_item list \<Rightarrow> disk \<Rightarrow> bool" where
  "pending L items d \<longleftrightarrow> tidy_disk d \<and> (\<exists>m. dk_marker d = Marker m \<and> tells ''pending'' L items m)"

definition retired :: "memory_lib \<Rightarrow> memory_item list \<Rightarrow> disk \<Rightarrow> bool" where
  "retired L items d \<longleftrightarrow> tidy_disk d \<and> (\<exists>m. dk_marker d = Marker m \<and> tells ''retired'' L items m)
     \<and> source_file \<notin> set (dk_files d) \<and> dk_quarantine d = None"

definition resumable :: "memory_lib \<Rightarrow> memory_item list \<Rightarrow> disk \<Rightarrow> bool" where
  "resumable L items d \<longleftrightarrow> unmarked d \<or> pending L items d \<or> retired L items d"

lemma resumableI:
  "unmarked d \<Longrightarrow> resumable L items d" "pending L items d \<Longrightarrow> resumable L items d" "retired L items d \<Longrightarrow> resumable L items d"
  by (simp_all add: resumable_def)

lemma stage_markers:
  "unmarked d \<Longrightarrow> read_marker (dk_marker d) = Inr None"
  "pending L items d \<Longrightarrow> \<exists>m. read_marker (dk_marker d) = Inr (Some m) \<and> tells ''pending'' L items m"
  "retired L items d \<Longrightarrow> \<exists>m. read_marker (dk_marker d) = Inr (Some m) \<and> tells ''retired'' L items m"
  by (auto simp: unmarked_def pending_def retired_def read_marker_def tells_def)

lemma tidy_simps [simp]:
  "tidy_disk (dk_marker_update f d) \<longleftrightarrow> tidy_disk d"
  "tidy_disk (d\<lparr>dk_marker := m\<rparr>) \<longleftrightarrow> tidy_disk d"
  by (simp_all add: tidy_disk_def quarantined_def)

lemma tidy_memory: "tidy_disk d \<Longrightarrow> memory_ok db \<Longrightarrow> tidy_disk (d\<lparr>dk_memory := db\<rparr>)"
  by (simp add: tidy_disk_def quarantined_def)

lemma unmarked_memory: "unmarked d \<Longrightarrow> memory_ok db \<Longrightarrow> unmarked (d\<lparr>dk_memory := db\<rparr>)"
  by (simp add: unmarked_def tidy_memory)

lemma unmarked_ok: "unmarked d \<Longrightarrow> memory_ok (dk_memory d)"
  by (simp add: unmarked_def tidy_disk_def)

lemma resumable_app: "resumable L items d \<Longrightarrow> resumable L items (retirement_step L S d (App op))"
  using memory_step_ok by (auto simp: resumable_def unmarked_def pending_def retired_def tidy_disk_def quarantined_def)

lemma open_unmarked:
  assumes "source_items L S = Inr (fp, items)" "unmarked d"
  shows "\<exists>db. open_store L S a d = ([d, d\<lparr>dk_memory := db\<rparr>], Inr ()) \<and> memory_ok db"
proof -
  obtain r db where sync: "sync_legacy L False (env_of S (ra_now a) d) (dk_memory d) = (r, db)"
    by (cases "sync_legacy L False (env_of S (ra_now a) d) (dk_memory d)")
  have "\<exists>q. r = Inr q"
    using sync assms by (auto simp: sync_legacy_def env_of_def unmarked_def retirement_marker_def source_items_def split: option.splits)
  moreover have "memory_ok db" using sync_ok [OF unmarked_ok [OF assms(2)] sync] .
  ultimately show ?thesis using sync by (auto simp: open_store_def)
qed

lemma secures_open:
  assumes "source_items L S = Inr (fp, items)"
  shows "secures (resumable L items) unmarked (open_store L S a) (\<lambda>_. unmarked)"
  unfolding secures_def guards_def completes_def
  using open_unmarked [OF assms, of _ a] by (fastforce intro: resumableI unmarked_memory)

lemma verify_unmarked:
  assumes "source_items L S = Inr (fp, items)" "unmarked d"
  shows "\<exists>w db. verify_store L S a d = ([d, d\<lparr>dk_memory := db\<rparr>], Inr (Some w)) \<and> memory_ok db \<and> complete_report L items w"
proof -
  let ?e = "env_of S (ra_now a) d"
  have e: "retirement_marker (le_marker ?e) = Inr None" "le_exists ?e" "le_fingerprint ?e = Some (ls_print S)"
    "read_stable_legacy L (le_tries ?e) = Inr (fp, items)" "read_stable_legacy L [one_read S] = Inr (fp, items)"
    using assms by (simp_all add: env_of_def unmarked_def retirement_marker_def source_items_def)
  obtain v where "verify_legacy_copy L ?e [one_read S] (dk_memory d) = (Inr (Some v), import_snapshot L (le_now ?e) fp items (dk_memory d))"
      "complete_report L items v"
    using undisturbed_verification [OF unmarked_ok [OF assms(2)] e] by (auto simp: Let_def complete_report_def)
  moreover have "memory_ok (import_snapshot L (le_now ?e) fp items (dk_memory d))"
    by (rule snapshot_ok [OF unmarked_ok [OF assms(2)]])
  ultimately show ?thesis by (auto simp: verify_store_def)
qed

lemma secures_verify:
  assumes "source_items L S = Inr (fp, items)"
  shows "secures (resumable L items) unmarked (verify_store L S a) (\<lambda>v d. unmarked d \<and> (\<exists>w. v = Some w \<and> complete_report L items w))"
  unfolding secures_def guards_def completes_def
proof (intro conjI allI impI)
  fix d assume u: "unmarked d"
  then obtain w db where w: "verify_store L S a d = ([d, d\<lparr>dk_memory := db\<rparr>], Inr (Some w))" "memory_ok db" "complete_report L items w"
    using verify_unmarked [OF assms] by blast
  have u': "unmarked (d\<lparr>dk_memory := db\<rparr>)" by (rule unmarked_memory [OF u w(2)])
  show "fst (verify_store L S a d) \<noteq> []" "fst (verify_store L S a d) \<noteq> []" using w(1) by simp_all
  show "\<forall>t \<in> set (fst (verify_store L S a d)). resumable L items t" using w(1) u u' by (simp add: resumableI)
  show "unmarked (last (fst (verify_store L S a d)))" using w(1) u' by simp
  show "\<exists>w. v = Some w \<and> complete_report L items w" if "snd (verify_store L S a d) = Inr v" for v
    using that w by auto
  show "\<exists>v. snd (verify_store L S a d) = Inr v
      \<and> unmarked (last (fst (verify_store L S a d))) \<and> (\<exists>w. v = Some w \<and> complete_report L items w)"
    using w u' by simp
qed

text \<open>The moves out of the root.\<close>

definition moving :: "memory_lib \<Rightarrow> memory_item list \<Rightarrow> string list \<Rightarrow> disk \<Rightarrow> bool" where
  "moving L items ys d \<longleftrightarrow> pending L items d \<and> dk_quarantine d \<noteq> None \<and> distinct ys \<and> set ys = set (dk_files d)"

lemma moving_step: "moving L items (y # ys) d \<Longrightarrow> moving L items ys (into_quarantine y d)"
  by (auto simp: moving_def pending_def tidy_disk_def into_quarantine_def quarantined_def)

lemma moving_resumable: "moving L items ys d \<Longrightarrow> resumable L items d"
  by (simp add: moving_def resumable_def)

lemma pending_emptied: "pending L items d \<Longrightarrow> pending L items (dk_quarantine_update (map_option (filter P)) d)"
  by (auto simp: pending_def tidy_disk_def quarantined_def split: option.splits)

lemma pending_removed: "pending L items d \<Longrightarrow> pending L items (dk_quarantine_update (\<lambda>_. None) d)"
  by (auto simp: pending_def tidy_disk_def quarantined_def)

definition moved :: "memory_lib \<Rightarrow> memory_item list \<Rightarrow> disk \<Rightarrow> bool" where
  "moved L items d \<longleftrightarrow> pending L items d \<and> source_file \<notin> set (dk_files d)"

lemma moved_stays:
  "moved L items d \<Longrightarrow> resumable L items d"
  "moved L items d \<Longrightarrow> moved L items (dk_quarantine_update (map_option (filter P)) d)"
  "moved L items d \<Longrightarrow> moved L items (dk_quarantine_update (\<lambda>_. None) d)"
  by (simp_all add: moved_def resumableI pending_emptied pending_removed)

lemma secures_remove:
  "secures (resumable L items) (moved L items) remove_quarantine (\<lambda>_ d. moved L items d \<and> dk_quarantine d = None)"
proof -
  have one: "secures (resumable L items) (moved L items) (change (dk_quarantine_update (map_option (filter (\<lambda>m. m \<noteq> n))))) (\<lambda>_. moved L items)" for n
    by (rule secures_change) (simp add: moved_stays)
  have last: "secures (resumable L items) (moved L items) (change (dk_quarantine_update (\<lambda>_. None))) (\<lambda>_ d. moved L items d \<and> dk_quarantine d = None)"
    by (rule secures_change) (simp add: moved_stays)
  have all: "secures (resumable L items) (moved L items)
      (for_each (\<lambda>n. change (dk_quarantine_update (map_option (filter (\<lambda>m. m \<noteq> n))))) xs) (\<lambda>_. moved L items)" for xs
    by (rule secures_for_list [where I = "\<lambda>_. moved L items"]) (rule one, rule moved_stays(1))
  show ?thesis unfolding remove_quarantine_def
    by (rule secures_state, rule secures_pre [OF secures_chain [OF all last]]) simp
qed

lemma secures_seal:
  assumes "tells ''pending'' L items m"
  shows "secures (resumable L items) (\<lambda>d. moved L items d \<and> dk_quarantine d = None)
    (chain (write_marker (retired_marker (items_of m) t)) (\<lambda>_. give (g (JObj (retired_marker (items_of m) t)))))
    (\<lambda>v d. retired L items d \<and> (\<exists>n. v = g n \<and> dk_marker d = Marker n))"
proof (rule secures_chain)
  show "secures (resumable L items) (\<lambda>d. moved L items d \<and> dk_quarantine d = None) (write_marker (retired_marker (items_of m) t))
      (\<lambda>_ d. retired L items d \<and> dk_marker d = Marker (JObj (retired_marker (items_of m) t)))"
    unfolding write_marker_def using retired_tells [OF assms, of t]
    by (intro secures_change) (auto simp: moved_def pending_def retired_def resumable_def)
qed (rule secures_give, auto simp: resumableI)

lemma secures_move:
  assumes "complete_report L items w"
  shows "secures (resumable L items) (\<lambda>d. unmarked d \<and> artifacts = sort (dk_files d)) (move_and_seal a (report_of (Some w)) artifacts)
    (\<lambda>m d. retired L items d \<and> (\<exists>n. m = n \<and> dk_marker d = Marker n))"
proof -
  note told = pending_tells [OF assms, of "ra_now a"]
  let ?pre = "\<lambda>d. pending L items d \<and> dk_quarantine d = None \<and> artifacts = sort (dk_files d)"
  have mark: "secures (resumable L items) (\<lambda>d. unmarked d \<and> artifacts = sort (dk_files d))
      (write_marker (pending_marker (report_of (Some w)) (ra_now a))) (\<lambda>_. ?pre)"
    unfolding write_marker_def using told
    by (intro secures_change) (auto simp: unmarked_def pending_def resumable_def)
  have free: "secures (resumable L items) ?pre (look (\<lambda>d. if dk_quarantine d \<noteq> None then Inl QuarantineExists else Inr ())) (\<lambda>_. ?pre)"
    by (rule secures_look) (simp add: resumableI)
  have mkdir: "secures (resumable L items) ?pre (change (dk_quarantine_update (\<lambda>_. Some []))) (\<lambda>_. moving L items artifacts)"
    by (rule secures_change) (auto simp: moving_def pending_def tidy_disk_def quarantined_def resumable_def)
  have move: "secures (resumable L items) (moving L items artifacts) (for_each (\<lambda>n. change (into_quarantine n)) artifacts) (\<lambda>_. moving L items [])"
    by (rule secures_for_list) (auto intro!: secures_change moving_step simp: moving_resumable dest: moving_resumable [OF moving_step])
  have empty_root: "secures (resumable L items) (moving L items []) (look (\<lambda>d. if dk_files d \<noteq> [] then Inl FilesReappeared else Inr ()))
      (\<lambda>_. moved L items)"
    by (rule secures_look) (auto simp: moved_def moving_def resumableI)
  note final = secures_seal [OF told, of "ra_now a" "\<lambda>v. v", unfolded items_of.simps]
  show ?thesis
    unfolding move_and_seal_def Let_def
    by (rule secures_chain [OF mark] secures_chain [OF free] secures_chain [OF mkdir] secures_chain [OF move]
        secures_chain [OF empty_root] secures_chain [OF secures_remove] final)+
qed

text \<open>The way back out of the quarantine.\<close>

definition restoring :: "memory_lib \<Rightarrow> memory_item list \<Rightarrow> string list \<Rightarrow> disk \<Rightarrow> bool" where
  "restoring L items ys d \<longleftrightarrow> pending L items d \<and> source_file \<in> set (dk_files d) \<and> distinct ys \<and> set ys \<inter> set (dk_files d) = {}"

lemma restoring_step: "restoring L items (y # ys) d \<Longrightarrow> restoring L items ys (out_of_quarantine y d)"
  by (auto simp: restoring_def pending_def tidy_disk_def out_of_quarantine_def quarantined_def split: option.splits)

lemma restoring_resumable: "restoring L items ys d \<Longrightarrow> resumable L items d"
  by (simp add: restoring_def resumableI)

lemma secures_restore:
  "secures (resumable L items) (\<lambda>d. pending L items d \<and> source_file \<in> set (dk_files d)) restore_quarantine
     (\<lambda>_ d. restoring L items [] d \<and> dk_quarantine d = None)"
proof -
  have child: "secures (resumable L items) (restoring L items (y # ys)) (restore_child y) (\<lambda>_. restoring L items ys)" for y ys
    unfolding restore_child_def
  proof (rule secures_chain)
    show "secures (resumable L items) (restoring L items (y # ys)) (look (\<lambda>d. if y \<in> set (dk_files d) then Inl (BothCopies y) else Inr ()))
        (\<lambda>_. restoring L items (y # ys))"
      by (rule secures_look) (auto simp: restoring_resumable, simp add: restoring_def)
    show "secures (resumable L items) (restoring L items (y # ys)) (change (out_of_quarantine y)) (\<lambda>_. restoring L items ys)"
      by (rule secures_change) (use restoring_step restoring_resumable in blast)
  qed
  have rmdir: "secures (resumable L items) (restoring L items []) (change (dk_quarantine_update (\<lambda>_. None)))
      (\<lambda>_ d. restoring L items [] d \<and> dk_quarantine d = None)"
    by (rule secures_change) (auto simp: restoring_def pending_removed resumableI)
  have all: "secures (resumable L items) (restoring L items xs) (for_each restore_child xs) (\<lambda>_. restoring L items [])" for xs
    by (rule secures_for_list) (rule child, rule restoring_resumable)
  show ?thesis unfolding restore_quarantine_def
    by (rule secures_state, rule secures_pre [OF secures_chain [OF all rmdir]])
      (auto simp: restoring_def pending_def tidy_disk_def)
qed

lemma secures_resume:
  assumes "tells ''pending'' L items m" "assert_expected m a = Inr ()"
  shows "secures (resumable L items) (pending L items) (resume_pending a m)
    (\<lambda>v d. case v of None \<Rightarrow> unmarked d | Some n \<Rightarrow> retired L items d \<and> dk_marker d = Marker n)"
proof -
  let ?Q = "\<lambda>v d. case v of None \<Rightarrow> unmarked d | Some n \<Rightarrow> retired L items d \<and> dk_marker d = Marker n"
  let ?stays = "\<lambda>d. pending L items d \<and> source_file \<in> set (dk_files d)"
  have expected: "secures (resumable L items) (pending L items) (look (\<lambda>_. assert_expected m a)) (\<lambda>_. pending L items)"
    using assms(2) by (intro secures_look) (simp add: resumableI)
  have restored: "secures (resumable L items) ?stays (pick_run (\<lambda>d. dk_quarantine d \<noteq> None) restore_quarantine (give ()))
      (\<lambda>_ d. restoring L items [] d \<and> dk_quarantine d = None)"
    by (rule secures_pick) (rule secures_pre [OF secures_restore], simp, rule secures_give, auto simp: restoring_def resumableI)
  have unlink: "secures (resumable L items) (\<lambda>d. restoring L items [] d \<and> dk_quarantine d = None) (change (dk_marker_update (\<lambda>_. NoMarker))) (\<lambda>_. unmarked)"
    by (rule secures_change) (auto simp: restoring_def unmarked_def pending_def resumable_def)
  have again: "secures (resumable L items) (\<lambda>d. pending L items d \<and> source_file \<in> set (dk_files d))
      (chain (pick_run (\<lambda>d. dk_quarantine d \<noteq> None) restore_quarantine (give ())) (\<lambda>_.
        chain (change (dk_marker_update (\<lambda>_. NoMarker))) (\<lambda>_. give None))) ?Q"
    by (rule secures_chain [OF restored] secures_chain [OF unlink])+ (rule secures_give, simp add: resumableI)
  have gone: "secures (resumable L items) (\<lambda>d. pending L items d \<and> source_file \<notin> set (dk_files d))
      (pick_run (\<lambda>d. dk_quarantine d \<noteq> None) remove_quarantine (give ())) (\<lambda>_ d. moved L items d \<and> dk_quarantine d = None)"
    by (rule secures_pick) (rule secures_pre [OF secures_remove], simp add: moved_def, rule secures_give, auto simp: moved_def resumableI)
  have seal: "secures (resumable L items) (\<lambda>d. moved L items d \<and> dk_quarantine d = None)
      (chain (write_marker (retired_marker (items_of m) (ra_now a))) (\<lambda>_. give (Some (JObj (retired_marker (items_of m) (ra_now a)))))) ?Q"
    by (rule secures_post [OF secures_seal [OF assms(1), of "ra_now a" Some]]) auto
  have pending_status: "field_or_null m ''status'' = JStr ''pending''" using assms(1) by (simp add: tells_def)
  show ?thesis
    unfolding resume_pending_def Let_def
    by (simp only: pending_status simp_thms if_False)
      (rule secures_chain [OF expected] secures_pick again secures_chain [OF gone] seal)+
qed

lemma fresh_parts:
  assumes "source_items L S = Inr (fp, items)"
  shows "guards (resumable L items) unmarked (fresh_retirement L S a) (\<lambda>_. resumable L items)"
    and "rightly L items a \<Longrightarrow> completes unmarked (fresh_retirement L S a) (\<lambda>m d. retired L items d \<and> dk_marker d = Marker m)"
proof -
  let ?verified = "\<lambda>v d. unmarked d \<and> (\<exists>w. v = Some w \<and> complete_report L items w)"
  let ?listed = "\<lambda>artifacts d. unmarked d \<and> artifacts = sort (dk_files d)"
  have expected: "guards (resumable L items) (?verified v) (look (\<lambda>_. if v = None then Inl NoSource else assert_expected (JObj (report_of v)) a)) (\<lambda>_. ?verified v)" for v
    by (rule guards_look) (simp_all add: resumableI)
  have listed: "guards (resumable L items) (?verified v) (check_artifacts a) (\<lambda>artifacts d. ?listed artifacts d \<and> (\<exists>w. v = Some w \<and> complete_report L items w))" for v
    unfolding check_artifacts_def by (rule guards_look) (auto simp: resumableI split: if_splits)
  have move: "guards (resumable L items) (\<lambda>d. ?listed artifacts d \<and> (\<exists>w. v = Some w \<and> complete_report L items w))
      (move_and_seal a (report_of v) artifacts) (\<lambda>_. resumable L items)" for v artifacts
  proof (cases "\<exists>w. v = Some w \<and> complete_report L items w")
    case True
    then obtain w where w: "v = Some w" "complete_report L items w" by blast
    show ?thesis unfolding w(1)
      by (rule guards_pre [OF guards_post [OF secures_guards [OF secures_move [OF w(2)]]]]) (auto simp: resumableI)
  qed (unfold guards_def, blast)
  show "guards (resumable L items) unmarked (fresh_retirement L S a) (\<lambda>_. resumable L items)"
    unfolding fresh_retirement_def
    by (rule guards_chain [OF secures_guards [OF secures_open [OF assms]]] guards_chain [OF secures_guards [OF secures_verify [OF assms]]]
        guards_chain [OF expected] guards_chain [OF listed] move)+
  assume right: "rightly L items a"
  have expected': "completes (?verified v) (look (\<lambda>_. if v = None then Inl NoSource else assert_expected (JObj (report_of v)) a)) (\<lambda>_. ?verified v)" for v
    by (rule completes_look) (use report_is_expected [OF _ right] in auto)
  have listed': "completes (?verified v) (check_artifacts a) (\<lambda>artifacts d. ?listed artifacts d \<and> (\<exists>w. v = Some w \<and> complete_report L items w))" for v
    unfolding check_artifacts_def using right by (intro completes_look) (auto simp: unmarked_def rightly_def)
  have move': "completes (\<lambda>d. ?listed artifacts d \<and> (\<exists>w. v = Some w \<and> complete_report L items w))
      (move_and_seal a (report_of v) artifacts) (\<lambda>m d. retired L items d \<and> dk_marker d = Marker m)" for v artifacts
  proof (cases "\<exists>w. v = Some w \<and> complete_report L items w")
    case True
    then obtain w where w: "v = Some w" "complete_report L items w" by blast
    show ?thesis unfolding w(1)
      by (rule completes_pre [OF completes_post [OF secures_completes [OF secures_move [OF w(2)]]]]) auto
  qed (unfold completes_def, blast)
  show "completes unmarked (fresh_retirement L S a) (\<lambda>m d. retired L items d \<and> dk_marker d = Marker m)"
    unfolding fresh_retirement_def
    by (rule completes_chain [OF secures_completes [OF secures_open [OF assms]]] completes_chain [OF secures_completes [OF secures_verify [OF assms]]]
        completes_chain [OF expected'] completes_chain [OF listed'] move')+
qed

text \<open>The marker decides how a run goes on.\<close>

definition at_marker :: "memory_lib \<Rightarrow> memory_item list \<Rightarrow> json option \<Rightarrow> disk \<Rightarrow> bool" where
  "at_marker L items m d \<longleftrightarrow> resumable L items d \<and> read_marker (dk_marker d) = Inr m"

lemma at_marker_cases:
  assumes "at_marker L items m d"
  obtains "m = None" "unmarked d"
  | v where "m = Some v" "tells ''pending'' L items v" "pending L items d"
  | v where "m = Some v" "tells ''retired'' L items v" "retired L items d" "dk_marker d = Marker v"
proof -
  have read: "read_marker (Marker v) = Inr (Some v)" if "tells status L items v" for status v
    using that by (simp add: tells_def read_marker_def)
  from assms consider "unmarked d" | "pending L items d" | "retired L items d" by (auto simp: at_marker_def resumable_def)
  then show thesis
  proof cases
    case 1
    with assms stage_markers(1) have "m = None" by (simp add: at_marker_def)
    with 1 show thesis by (rule that(1) [rotated])
  next
    case 2
    then obtain v where v: "dk_marker d = Marker v" "tells ''pending'' L items v" by (auto simp: pending_def)
    with assms read have "m = Some v" by (simp add: at_marker_def)
    from that(2) [OF this v(2) 2] show thesis .
  next
    case 3
    then obtain v where v: "dk_marker d = Marker v" "tells ''retired'' L items v" by (auto simp: retired_def)
    with assms read have "m = Some v" by (simp add: at_marker_def)
    from that(3) [OF this v(2) 3 v(1)] show thesis .
  qed
qed

definition go_on :: "memory_lib \<Rightarrow> legacy_source \<Rightarrow> retire_args \<Rightarrow> json option \<Rightarrow> (disk, retire_error, json) run" where
  "go_on L S a m = (case m of
      None \<Rightarrow> fresh_retirement L S a
    | Some v \<Rightarrow>
        if \<not> truthy v then fresh_retirement L S a
        else if field_or_null v ''status'' = JStr ''retired'' then already_retired a v
        else chain (resume_pending a v) (\<lambda>done_marker.
          case done_marker of Some final \<Rightarrow> give final | None \<Rightarrow> fresh_retirement L S a))"

lemma retire_legacy_go_on:
  "retire_legacy L S a = chain (look (\<lambda>_. check_arguments a)) (\<lambda>_. chain (look (\<lambda>d. read_marker (dk_marker d))) (go_on L S a))"
  by (simp add: retire_legacy_def go_on_def [abs_def])

lemma resume_kept:
  assumes "tells ''pending'' L items v"
  shows "guards (resumable L items) (pending L items) (resume_pending a v)
    (\<lambda>r d. case r of None \<Rightarrow> unmarked d | Some n \<Rightarrow> retired L items d \<and> dk_marker d = Marker n)"
proof (cases "assert_expected v a")
  case (Inl e)
  have "resume_pending a v d = ([d], Inl e)" for d
    using assms Inl by (simp add: resume_pending_def tells_def chain_def look_def)
  then show ?thesis by (simp add: guards_def resumableI)
next
  case (Inr u)
  then show ?thesis using secures_resume [OF assms] by (simp add: secures_guards)
qed

lemma retired_again:
  assumes "tells ''retired'' L items v"
  shows "guards (resumable L items) (\<lambda>d. retired L items d \<and> dk_marker d = Marker v) (already_retired a v) (\<lambda>_. resumable L items)"
    and "rightly L items a \<Longrightarrow> completes (\<lambda>d. retired L items d \<and> dk_marker d = Marker v) (already_retired a v)
      (\<lambda>m d. retired L items d \<and> dk_marker d = Marker m)"
proof -
  let ?P = "\<lambda>d. retired L items d \<and> dk_marker d = Marker v"
  have look: "guards (resumable L items) ?P (look f) (\<lambda>_. ?P)" for f :: "disk \<Rightarrow> retire_error + 'a"
    by (rule guards_look) (simp_all add: resumableI)
  show "guards (resumable L items) ?P (already_retired a v) (\<lambda>_. resumable L items)"
    unfolding already_retired_def by (rule guards_chain [OF look])+ (rule guards_give, simp add: resumableI)
  assume right: "rightly L items a"
  have expected: "completes ?P (look (\<lambda>_. assert_expected v a)) (\<lambda>_. ?P)"
    and away: "completes ?P (look (\<lambda>d. if source_file \<in> set (dk_files d) then Inl SourceReturned else Inr ())) (\<lambda>_. ?P)"
    using told_is_expected [OF assms right] by (auto intro!: completes_look simp: retired_def)
  show "completes ?P (already_retired a v) (\<lambda>m d. retired L items d \<and> dk_marker d = Marker m)"
    unfolding already_retired_def
    by (rule completes_chain [OF expected] completes_chain [OF away])+ (rule completes_give, simp)
qed

lemma go_on_parts:
  assumes "source_items L S = Inr (fp, items)"
  shows "guards (resumable L items) (at_marker L items m) (go_on L S a m) (\<lambda>_. resumable L items)"
    and "rightly L items a \<Longrightarrow> completes (at_marker L items m) (go_on L S a m) (\<lambda>m d. retired L items d \<and> dk_marker d = Marker m)"
proof -
  note fresh = fresh_parts [OF assms, of a]
  let ?sealed = "\<lambda>m d. retired L items d \<and> dk_marker d = Marker m"
  consider "m = None" | v where "m = Some v" "tells ''pending'' L items v" | v where "m = Some v" "tells ''retired'' L items v"
    | "\<And>d. \<not> at_marker L items m d"
    using at_marker_cases by metis
  then have "guards (resumable L items) (at_marker L items m) (go_on L S a m) (\<lambda>_. resumable L items)
    \<and> (rightly L items a \<longrightarrow> completes (at_marker L items m) (go_on L S a m) ?sealed)"
  proof cases
    case 1
    then have "unmarked d" if "at_marker L items m d" for d using at_marker_cases [OF that] by auto
    then show ?thesis using fresh guards_pre completes_pre by (simp add: go_on_def 1) blast
  next
    case (2 v)
    have pend: "pending L items d" if "at_marker L items m d" for d
      using at_marker_cases [OF that] 2 by (auto simp: tells_def)
    have run: "go_on L S a m = chain (resume_pending a v) (\<lambda>r. case r of Some final \<Rightarrow> give final | None \<Rightarrow> fresh_retirement L S a)"
      using 2 by (simp add: go_on_def tells_def)
    have "guards (resumable L items) (pending L items) (go_on L S a m) (\<lambda>_. resumable L items)"
      unfolding run
      by (rule guards_chain [OF resume_kept [OF 2(2)]]) (auto split: option.split intro: fresh guards_give simp: resumableI)
    moreover have "completes (pending L items) (go_on L S a m) ?sealed" if right: "rightly L items a"
      unfolding run
      by (rule completes_chain [OF secures_completes [OF secures_resume [OF 2(2) told_is_expected [OF 2(2) right]]]])
        (auto split: option.split intro: fresh right completes_give)
    ultimately show ?thesis using pend guards_pre completes_pre by blast
  next
    case (3 v)
    have ret: "retired L items d \<and> dk_marker d = Marker v" if "at_marker L items m d" for d
      using at_marker_cases [OF that] 3 by (auto simp: tells_def)
    have run: "go_on L S a m = already_retired a v" using 3 by (simp add: go_on_def tells_def)
    show ?thesis unfolding run using ret retired_again [OF 3(2), of a] guards_pre completes_pre by blast
  next
    case 4
    then show ?thesis by (simp add: guards_def completes_def)
  qed
  then show "guards (resumable L items) (at_marker L items m) (go_on L S a m) (\<lambda>_. resumable L items)"
    "rightly L items a \<Longrightarrow> completes (at_marker L items m) (go_on L S a m) ?sealed" by simp_all
qed

lemma readable_marker: "resumable L items d \<Longrightarrow> \<exists>m. read_marker (dk_marker d) = Inr m"
  unfolding resumable_def using stage_markers by blast

lemma retire_parts:
  assumes "source_items L S = Inr (fp, items)"
  shows "guards (resumable L items) (resumable L items) (retire_legacy L S a) (\<lambda>_. resumable L items)"
    and "rightly L items a \<Longrightarrow> completes (resumable L items) (retire_legacy L S a) (\<lambda>m d. retired L items d \<and> dk_marker d = Marker m)"
proof -
  have check: "guards (resumable L items) (resumable L items) (look (\<lambda>_. check_arguments a)) (\<lambda>_. resumable L items)"
    by (rule guards_look)
  have read: "guards (resumable L items) (resumable L items) (look (\<lambda>d. read_marker (dk_marker d))) (at_marker L items)"
    by (rule guards_look) (simp_all add: at_marker_def)
  show "guards (resumable L items) (resumable L items) (retire_legacy L S a) (\<lambda>_. resumable L items)"
    unfolding retire_legacy_go_on by (rule guards_chain [OF check] guards_chain [OF read] go_on_parts(1) [OF assms])+
  assume right: "rightly L items a"
  have checked: "completes (resumable L items) (look (\<lambda>_. check_arguments a)) (\<lambda>_. resumable L items)"
    using right by (intro completes_look) (simp add: rightly_def)
  have told: "completes (resumable L items) (look (\<lambda>d. read_marker (dk_marker d))) (at_marker L items)"
    by (rule completes_look) (use readable_marker in \<open>auto simp: at_marker_def\<close>)
  show "completes (resumable L items) (retire_legacy L S a) (\<lambda>m d. retired L items d \<and> dk_marker d = Marker m)"
    unfolding retire_legacy_go_on
    by (rule completes_chain [OF checked] completes_chain [OF told] go_on_parts(2) [OF assms right])+
qed

lemma resumable_step:
  assumes "source_items L S = Inr (fp, items)" "resumable L items d"
  shows "resumable L items (retirement_step L S d ev)"
proof (cases ev)
  case (Retire a)
  from retire_parts(1) [OF assms(1), of a] assms(2)
  have "fst (retire_legacy L S a d) \<noteq> []" "\<forall>t \<in> set (fst (retire_legacy L S a d)). resumable L items t" by (auto simp: guards_def)
  then show ?thesis by (simp add: Retire after_def)
next
  case (Killed n a)
  then show ?thesis using guards_crashed [OF retire_parts(1) [OF assms(1)] assms(2)] by simp
qed (simp only: resumable_app assms(2))

lemma resumable_run:
  assumes "source_items L S = Inr (fp, items)"
  shows "resumable L items d \<Longrightarrow> resumable L items (run_ops (retirement_step L S) d events)"
  by (induction events arbitrary: d) (simp_all add: resumable_step [OF assms])

text \<open>
  C27. An interrupted retirement can always be finished: after any runs of the command, with whatever
  arguments and killed at whatever point, and anything the application did in between, one more run with the
  right account returns the marker of a completed retirement, no legacy database and no quarantine
  are left, and every row is accounted for.
\<close>

lemma retirement_can_be_finished:
  assumes "source_items L S = Inr (fp, items)" "distinct (source_file # companions)" "rightly L items a"
  shows "\<exists>m. snd (retire_legacy L S a (run_ops (retirement_step L S) (legacy_disk companions) events)) = Inr m
    \<and> field_or_null m ''status'' = JStr ''retired''
    \<and> (let d = after (retire_legacy L S a) (run_ops (retirement_step L S) (legacy_disk companions) events) in
        dk_marker d = Marker m \<and> source_file \<notin> set (dk_files d) \<and> dk_quarantine d = None \<and> accounted items (dk_memory d))"
proof -
  let ?d = "run_ops (retirement_step L S) (legacy_disk companions) events"
  have "unmarked (legacy_disk companions)"
    using assms(2) by (simp add: unmarked_def tidy_disk_def quarantined_def legacy_disk_def memory.inv_init)
  then have "resumable L items ?d" by (intro resumable_run [OF assms(1)] resumableI)
  from completes_run [OF retire_parts(2) [OF assms(1,3)] this] obtain m where
    m: "snd (retire_legacy L S a ?d) = Inr m" "retired L items (after (retire_legacy L S a) ?d)"
      "dk_marker (after (retire_legacy L S a) ?d) = Marker m" by blast
  have "kept L S (run_ops (retirement_step L S) (legacy_disk companions) (events @ [Retire a]))"
    by (rule retirement.inv_run) simp
  then have "kept L S (after (retire_legacy L S a) ?d)" by (simp add: run_ops_append)
  then have "accounted items (dk_memory (after (retire_legacy L S a) ?d))"
    using m(2) assms(1) by (auto simp: kept_def sealed_def retired_def)
  with m show ?thesis by (auto simp: Let_def retired_def tells_def)
qed

text \<open>
  A crash between the move of the database and the move of its write-ahead log leaves the log at the root for
  ever: the resumed run only looks for the database, reports success, and from then on the health check
  refuses the store.
\<close>

definition half_moved :: disk where
  "half_moved = crashed 14 (retire_legacy hex_memory one_source right_account) (legacy_disk [''chroma.sqlite3-wal''])"

lemma half_moved_files: "dk_files half_moved = [''chroma.sqlite3-wal'']" "dk_quarantine half_moved = Some [source_file]"
  by code_simp+

definition resumed_disk :: disk where
  "resumed_disk = after (retire_legacy hex_memory one_source right_account) half_moved"

lemma interrupted_move_strands_log:
  "field_or_null (case snd (retire_legacy hex_memory one_source right_account half_moved) of Inr m \<Rightarrow> m | Inl _ \<Rightarrow> JNull) ''status''
     = JStr ''retired''"
  "dk_files resumed_disk = [''chroma.sqlite3-wal'']"
  "snd (store_health hex_memory one_source right_account resumed_disk) = Inl (StoreRefused (LegacyMemoryError OrphanedArtifacts))"
  by code_simp+

lemma retirement_can_be_finished_witness:
  "\<exists>m. snd (retire_legacy hex_memory one_source right_account
        (run_ops (retirement_step hex_memory one_source) (legacy_disk []) [Killed 12 right_account])) = Inr m
    \<and> field_or_null m ''status'' = JStr ''retired''"
proof -
  have read: "source_items hex_memory one_source = Inr (''f'', [(''m'', ''likes parks'', [(''user_id'', JStr ''u'')])])"
    by code_simp
  have right: "rightly hex_memory [(''m'', ''likes parks'', [(''user_id'', JStr ''u'')])] right_account"
    unfolding rightly_def by (intro conjI; code_simp)
  have "distinct (source_file # [])" by simp
  from retirement_can_be_finished [OF read this right, of "[Killed 12 right_account]"] show ?thesis by blast
qed

end
