(* ===== verification/PendingWrites.thy ===== *)
theory PendingWrites
  imports Prelude
begin

text \<open>
  The ledger of \<open>app/core/memory_gate.py\<close>: memory writes that were denied are frozen, the user's next
  reply decides about them, and a conversation can be paused.  The reply is handled by
  \<open>_resolve_pending_memory\<close> of \<open>app/core/agent_loop.py\<close> in two atomic steps, the claim and, after the
  tool call, the restoration of a failed claim.  SHA-256 is the parameter \<open>sha\<close>; times are rationals, so a
  stored time is finite.
\<close>

record frozen_row =
  fz_session :: string
  fz_digest :: string
  fz_content :: string
  fz_kind :: string
  fz_created :: time
  fz_operation :: string
  fz_attempt :: int

record pause_row =
  pz_user :: string
  pz_conversation :: string
  pz_at :: time

record gate_db =
  gd_frozen :: "frozen_row list"
  gd_pauses :: "pause_row list"

definition empty_gate :: gate_db where
  "empty_gate = \<lparr>gd_frozen = [], gd_pauses = []\<rparr>"

section \<open>Frozen candidates\<close>

definition same_key :: "string \<Rightarrow> string \<Rightarrow> frozen_row \<Rightarrow> bool" where
  "same_key sid digest r \<longleftrightarrow> fz_session r = sid \<and> fz_digest r = digest"

text \<open>\<open>INSERT OR REPLACE\<close> moves the row to the end of the table.\<close>

definition freeze :: "(string \<Rightarrow> string) \<Rightarrow> string \<Rightarrow> string \<Rightarrow> string \<Rightarrow> time \<Rightarrow> string \<Rightarrow> gate_db \<Rightarrow> string \<times> gate_db" where
  "freeze sha sid content kind now operation db =
     (sha content, db\<lparr>gd_frozen := filter (\<lambda>r. \<not> same_key sid (sha content) r) (gd_frozen db) @
        [\<lparr>fz_session = sid, fz_digest = sha content, fz_content = content, fz_kind = kind, fz_created = now,
          fz_operation = operation, fz_attempt = 0\<rparr>]\<rparr>)"

text \<open>\<open>ORDER BY created DESC LIMIT 1\<close>; which of several rows with the latest time comes first is up to SQLite.\<close>

definition latest_rows :: "string \<Rightarrow> gate_db \<Rightarrow> frozen_row list" where
  "latest_rows sid db = (let mine = filter (\<lambda>r. fz_session r = sid) (gd_frozen db) in
     filter (\<lambda>r. list_all (\<lambda>q. fz_created q \<le> fz_created r) mine) mine)"

definition latest_digest :: "string \<Rightarrow> gate_db \<Rightarrow> string option" where
  "latest_digest sid db = (case latest_rows sid db of [] \<Rightarrow> None | r # _ \<Rightarrow> Some (fz_digest r))"

definition consume :: "string \<Rightarrow> string \<Rightarrow> gate_db \<Rightarrow> frozen_row option \<times> gate_db" where
  "consume sid digest db =
     (case find (same_key sid digest) (gd_frozen db) of
        None \<Rightarrow> (None, db)
      | Some r \<Rightarrow> (Some r, db\<lparr>gd_frozen := filter (\<lambda>q. \<not> same_key sid digest q) (gd_frozen db)\<rparr>))"

definition is_operation_id :: "string \<Rightarrow> bool" where
  "is_operation_id s \<longleftrightarrow> length s = 32 \<and> list_all is_hex_lower s"

text \<open>\<open>restore\<close>: \<open>INSERT OR IGNORE\<close>, then the row is read back.\<close>

definition restore :: "(string \<Rightarrow> string) \<Rightarrow> string \<Rightarrow> string \<Rightarrow> frozen_row \<Rightarrow> gate_db \<Rightarrow> bool \<times> gate_db" where
  "restore sha sid digest c db =
     (if \<not> is_operation_id (fz_operation c) \<or> fz_attempt c < 0 \<or> digest \<noteq> sha (fz_content c) then (False, db)
      else (let db1 = (if find (same_key sid digest) (gd_frozen db) = None
              then db\<lparr>gd_frozen := gd_frozen db @ [c\<lparr>fz_session := sid, fz_digest := digest\<rparr>]\<rparr> else db) in
        (case find (same_key sid digest) (gd_frozen db1) of None \<Rightarrow> False | Some r \<Rightarrow> fz_content r = fz_content c, db1)))"

section \<open>Pauses\<close>

definition memory_paused_at :: "string \<Rightarrow> string \<Rightarrow> gate_db \<Rightarrow> time option" where
  "memory_paused_at user conv db = map_option pz_at (find (\<lambda>p. pz_user p = user \<and> pz_conversation p = conv) (gd_pauses db))"

definition memory_paused :: "string \<Rightarrow> string \<Rightarrow> gate_db \<Rightarrow> bool" where
  "memory_paused user conv db \<longleftrightarrow> memory_paused_at user conv db \<noteq> None"

definition forget_memory_pauses :: "string \<Rightarrow> gate_db \<Rightarrow> nat \<times> gate_db" where
  "forget_memory_pauses user db =
     (length (filter (\<lambda>p. pz_user p = user) (gd_pauses db)), db\<lparr>gd_pauses := filter (\<lambda>p. pz_user p \<noteq> user) (gd_pauses db)\<rparr>)"

definition memory_pause_count :: "string \<Rightarrow> gate_db \<Rightarrow> nat" where
  "memory_pause_count user db = length (filter (\<lambda>p. pz_user p = user) (gd_pauses db))"

definition set_memory_paused :: "string \<Rightarrow> string \<Rightarrow> bool \<Rightarrow> time \<Rightarrow> gate_db \<Rightarrow> gate_db" where
  "set_memory_paused user conv paused now db =
     (if paused then
        (if memory_paused user conv db then db
         else db\<lparr>gd_pauses := gd_pauses db @ [\<lparr>pz_user = user, pz_conversation = conv, pz_at = now\<rparr>]\<rparr>)
      else db\<lparr>gd_pauses := filter (\<lambda>p. \<not> (pz_user p = user \<and> pz_conversation p = conv)) (gd_pauses db)\<rparr>)"

text \<open>The module functions above the store; identities may be any value, and a failing ledger answers \<open>None\<close>.\<close>

definition clean_text :: "json \<Rightarrow> string" where
  "clean_text v = (case v of JStr s \<Rightarrow> strip s | _ \<Rightarrow> [])"

definition pause_key :: "json \<Rightarrow> json \<Rightarrow> (string \<times> string) option" where
  "pause_key user conv =
     (if clean_text user = [] \<or> lower (clean_text user) = ''default'' \<or> clean_text conv = [] then None
      else Some (clean_text user, clean_text conv))"

definition conversation_memory_paused :: "json \<Rightarrow> json \<Rightarrow> bool \<Rightarrow> gate_db \<Rightarrow> bool option" where
  "conversation_memory_paused user conv works db =
     (case pause_key user conv of
        None \<Rightarrow> Some False
      | Some (u, c) \<Rightarrow> if works then Some (memory_paused u c db) else None)"

definition conversation_memory_paused_at :: "json \<Rightarrow> json \<Rightarrow> gate_db \<Rightarrow> time option" where
  "conversation_memory_paused_at user conv db =
     (case pause_key user conv of None \<Rightarrow> None | Some (u, c) \<Rightarrow> memory_paused_at u c db)"

definition set_conversation_memory_paused :: "json \<Rightarrow> json \<Rightarrow> bool \<Rightarrow> time \<Rightarrow> bool \<Rightarrow> gate_db \<Rightarrow> bool \<times> gate_db" where
  "set_conversation_memory_paused user conv paused now works db =
     (case pause_key user conv of
        None \<Rightarrow> (False, db)
      | Some (u, c) \<Rightarrow> if works then (True, set_memory_paused u c paused now db) else (False, db))"

definition forget_conversation_memory_pauses :: "json \<Rightarrow> gate_db \<Rightarrow> nat \<times> gate_db" where
  "forget_conversation_memory_pauses user db =
     (if clean_text user = [] then (0, db) else forget_memory_pauses (clean_text user) db)"

definition conversation_memory_pause_count :: "json \<Rightarrow> gate_db \<Rightarrow> nat" where
  "conversation_memory_pause_count user db = (if clean_text user = [] then 0 else memory_pause_count (clean_text user) db)"

section \<open>The reply of the user\<close>

text \<open>
  \<open>confirmation_intent\<close> on code points; the parameter \<open>low\<close> is \<open>str.strip().lower()\<close>.
\<close>

datatype intent = Yes | No | Unrelated

type_synonym codes = "int list"

definition ascii_text :: "string \<Rightarrow> codes" where
  "ascii_text s = map of_char s"

definition yes_cues :: "codes list" where
  "yes_cues = [[0x597D, 0x7684], [0x597D], [0x662F, 0x7684], [0x662F], [0x53EF, 0x4EE5], [0x55EF], [0x884C], [0x786E, 0x8BA4],
     [0x8BB0, 0x5427], [0x4FDD, 0x5B58, 0x5427], [0x5B58, 0x5427], [0x8981]]
   @ map ascii_text [''yes'', ''yep'', ''yeah'', ''ok'', ''okay'', ''sure'', ''confirm'', ''please do'', ''go ahead'', ''do it'',
       ''save it'', ''remember it'']"

definition no_cues :: "codes list" where
  "no_cues = [[0x4E0D, 0x7528], [0x4E0D, 0x8981], [0x522B], [0x7B97, 0x4E86], [0x4E0D, 0x5FC5], [0x53D6, 0x6D88],
     [0x5148, 0x4E0D, 0x8981], [0x4E0D]]
   @ map ascii_text [''no'', ''nope'', ''don'' @ [CHR 0x27] @ ''t'', ''do not'', ''cancel'', ''never mind'', ''not now'']"

definition final_marks :: codes where
  "final_marks = [0x3002, 0x2E, 0x21, 0xFF01, 0x7E]"

definition begins_with :: "codes \<Rightarrow> codes \<Rightarrow> bool" where
  "begins_with t p \<longleftrightarrow> take (length p) t = p"

definition confirmation_intent :: "(codes \<Rightarrow> codes) \<Rightarrow> codes \<Rightarrow> intent" where
  "confirmation_intent low message =
     (let t = rev (dropWhile (\<lambda>c. c \<in> set final_marks) (rev (low message))) in
      if t = [] \<or> 20 < length t then Unrelated
      else if list_ex (begins_with t) no_cues then No
      else if list_ex (begins_with t) yes_cues then Yes
      else Unrelated)"

text \<open>What the reply comes with: the intent, and whether the message itself asks to remember something.\<close>

record reply =
  rp_session :: string
  rp_intent :: intent
  rp_authorizes :: bool

datatype resolution =
    NothingPending
  | Declined
  | Replay string string frozen_row string

definition memory_kind :: "string \<Rightarrow> string" where
  "memory_kind kind = (if kind \<in> {''semantic'', ''episodic'', ''reflection''} then kind else ''semantic'')"

definition idempotency_key :: "string \<Rightarrow> string \<Rightarrow> frozen_row \<Rightarrow> string" where
  "idempotency_key sid digest c =
     (let op = strip (fz_operation c); base = ''memgate:'' @ sid @ '':'' @ digest in
      if op = [] then base else base @ '':'' @ op @ '':'' @ int_text (max 0 (fz_attempt c)))"

definition resolve_reply :: "reply \<Rightarrow> gate_db \<Rightarrow> resolution \<times> gate_db" where
  "resolve_reply r db =
     (case latest_digest (rp_session r) db of
        None \<Rightarrow> (NothingPending, db)
      | Some digest \<Rightarrow>
          if digest = [] then (NothingPending, db)
          else if rp_intent r = Unrelated \<and> \<not> rp_authorizes r then (NothingPending, db)
          else (case consume (rp_session r) digest db of
              (None, db1) \<Rightarrow> (NothingPending, db1)
            | (Some c, db1) \<Rightarrow>
                if rp_intent r = No then (Declined, db1)
                else (Replay (memory_kind (fz_kind c)) digest c (idempotency_key (rp_session r) digest c), db1)))"

text \<open>After the tool call: a failed write goes back under its old time with the next attempt number.\<close>

definition settle_replay :: "(string \<Rightarrow> string) \<Rightarrow> string \<Rightarrow> string \<Rightarrow> frozen_row \<Rightarrow> bool \<Rightarrow> gate_db \<Rightarrow> bool \<times> gate_db" where
  "settle_replay sha sid digest c saved db =
     (if saved then (True, db) else restore sha sid digest (c\<lparr>fz_attempt := max 0 (fz_attempt c) + 1\<rparr>) db)"

section \<open>The ledger under concurrent replies\<close>

text \<open>
  A claim in flight belongs to the process that made it until its tool call is settled; a process that
  dies leaves it unsettled.  The log remembers every claim with the key its tool call was made under.
\<close>

record gate_state =
  gs_db :: gate_db
  gs_flights :: "(string \<times> string \<times> frozen_row) list"
  gs_log :: "(string \<times> string \<times> frozen_row) list"

datatype gate_event =
    Freeze string string string time string
  | Answer reply
  | Settle nat bool
  | Died nat
  | Pause string string bool time
  | Forget string

definition empty_gate_state :: gate_state where
  "empty_gate_state = \<lparr>gs_db = empty_gate, gs_flights = [], gs_log = []\<rparr>"

definition remove_nth :: "nat \<Rightarrow> 'a list \<Rightarrow> 'a list" where
  "remove_nth n xs = take n xs @ drop (Suc n) xs"

definition answer_step :: "reply \<Rightarrow> gate_state \<Rightarrow> gate_state" where
  "answer_step r s =
     (case resolve_reply r (gs_db s) of
        (Replay kind digest c key, db) \<Rightarrow>
          \<lparr>gs_db = db, gs_flights = gs_flights s @ [(rp_session r, digest, c)], gs_log = gs_log s @ [(rp_session r, digest, c)]\<rparr>
      | (_, db) \<Rightarrow> s\<lparr>gs_db := db\<rparr>)"

definition settle_step :: "(string \<Rightarrow> string) \<Rightarrow> nat \<Rightarrow> bool \<Rightarrow> gate_state \<Rightarrow> gate_state" where
  "settle_step sha n saved s =
     (if n < length (gs_flights s)
      then (case gs_flights s ! n of (sid, digest, c) \<Rightarrow>
        s\<lparr>gs_db := snd (settle_replay sha sid digest c saved (gs_db s)), gs_flights := remove_nth n (gs_flights s)\<rparr>)
      else s)"

fun gate_step :: "(string \<Rightarrow> string) \<Rightarrow> gate_state \<Rightarrow> gate_event \<Rightarrow> gate_state" where
  "gate_step sha s (Freeze sid content kind now op) = s\<lparr>gs_db := snd (freeze sha sid content kind now op (gs_db s))\<rparr>"
| "gate_step sha s (Answer r) = answer_step r s"
| "gate_step sha s (Settle n saved) = settle_step sha n saved s"
| "gate_step sha s (Died n) = s\<lparr>gs_flights := remove_nth n (gs_flights s)\<rparr>"
| "gate_step sha s (Pause user conv paused now) = s\<lparr>gs_db := set_memory_paused user conv paused now (gs_db s)\<rparr>"
| "gate_step sha s (Forget user) = s\<lparr>gs_db := snd (forget_memory_pauses user (gs_db s))\<rparr>"

definition row_of :: "string \<times> string \<times> frozen_row \<Rightarrow> frozen_row" where
  "row_of f = snd (snd f)"

definition live_rows :: "gate_state \<Rightarrow> frozen_row list" where
  "live_rows s = gd_frozen (gs_db s) @ map row_of (gs_flights s)"

definition claims :: "gate_state \<Rightarrow> (string \<times> int) list" where
  "claims s = map (\<lambda>f. (fz_operation (row_of f), fz_attempt (row_of f))) (gs_log s)"

text \<open>\<open>uuid4\<close>: 32 hexadecimal digits that no candidate had before.\<close>

fun fresh_operation :: "gate_state \<Rightarrow> gate_event \<Rightarrow> bool" where
  "fresh_operation s (Freeze sid content kind now op) =
     (is_operation_id op \<and> op \<notin> fz_operation ` set (live_rows s) \<and> op \<notin> fst ` set (claims s))"
| "fresh_operation s _ = True"

definition row_ok :: "frozen_row \<Rightarrow> bool" where
  "row_ok r \<longleftrightarrow> is_operation_id (fz_operation r) \<and> 0 \<le> fz_attempt r"

definition claimed_before :: "(string \<times> int) list \<Rightarrow> frozen_row \<Rightarrow> bool" where
  "claimed_before cs r \<longleftrightarrow> (\<forall>c \<in> set cs. fst c = fz_operation r \<longrightarrow> snd c < fz_attempt r)"

definition claimed_until :: "(string \<times> int) list \<Rightarrow> frozen_row \<Rightarrow> bool" where
  "claimed_until cs r \<longleftrightarrow> (\<forall>c \<in> set cs. fst c = fz_operation r \<longrightarrow> snd c \<le> fz_attempt r)"

definition gate_ok :: "gate_state \<Rightarrow> bool" where
  "gate_ok s \<longleftrightarrow> distinct (map fz_operation (live_rows s)) \<and> distinct (claims s)
     \<and> (\<forall>r \<in> set (live_rows s). row_ok r) \<and> (\<forall>f \<in> set (gs_log s). row_ok (row_of f))
     \<and> (\<forall>r \<in> set (gd_frozen (gs_db s)). claimed_before (claims s) r)
     \<and> (\<forall>f \<in> set (gs_flights s). claimed_until (claims s) (row_of f))"

text \<open>What each operation does to the rows.\<close>

lemma frozen_rows:
  "gd_frozen (snd (freeze sha sid content kind now op db)) = filter (\<lambda>r. \<not> same_key sid (sha content) r) (gd_frozen db) @
     [\<lparr>fz_session = sid, fz_digest = sha content, fz_content = content, fz_kind = kind, fz_created = now, fz_operation = op, fz_attempt = 0\<rparr>]"
  by (simp add: freeze_def)

lemma consume_row:
  "consume sid digest db = (Some r, db1) \<Longrightarrow>
     r \<in> set (gd_frozen db) \<and> same_key sid digest r \<and> gd_frozen db1 = filter (\<lambda>q. \<not> same_key sid digest q) (gd_frozen db)"
  by (auto simp: consume_def dest: find_member split: option.splits)

lemma replay_claim:
  assumes "resolve_reply r db = (Replay kind digest c key, db1)"
  shows "consume (rp_session r) digest db = (Some c, db1)" "key = idempotency_key (rp_session r) digest c"
  using assms by (auto simp: resolve_reply_def split: option.splits if_splits prod.splits)

lemma no_claim_rows:
  assumes "resolve_reply r db = (q, db1)"
  shows "mset (gd_frozen db1) \<subseteq># mset (gd_frozen db)"
proof -
  have "gd_frozen db1 = gd_frozen db \<or> (\<exists>P. gd_frozen db1 = filter P (gd_frozen db))"
    using assms by (auto simp: resolve_reply_def consume_def split: option.splits if_splits prod.splits)
  then show ?thesis by (auto simp: multiset_filter_subset)
qed

lemma restored_rows:
  "gd_frozen (snd (restore sha sid digest c db)) = gd_frozen db
   \<or> gd_frozen (snd (restore sha sid digest c db)) = gd_frozen db @ [c\<lparr>fz_session := sid, fz_digest := digest\<rparr>]"
  by (simp add: restore_def Let_def)

lemma settled_rows:
  "gd_frozen (snd (settle_replay sha sid digest c saved db)) = gd_frozen db
   \<or> gd_frozen (snd (settle_replay sha sid digest c saved db))
       = gd_frozen db @ [c\<lparr>fz_attempt := max 0 (fz_attempt c) + 1, fz_session := sid, fz_digest := digest\<rparr>]"
  using restored_rows [of sha sid digest "c\<lparr>fz_attempt := max 0 (fz_attempt c) + 1\<rparr>" db] by (auto simp: settle_replay_def)

lemma remove_nth_parts:
  assumes "n < length xs"
  shows "set xs = insert (xs ! n) (set (remove_nth n xs))" "mset xs = add_mset (xs ! n) (mset (remove_nth n xs))"
proof -
  have "xs = take n xs @ xs ! n # drop (Suc n) xs" using assms by (rule id_take_nth_drop)
  then have "mset xs = mset (take n xs @ xs ! n # drop (Suc n) xs)" by simp
  then show m: "mset xs = add_mset (xs ! n) (mset (remove_nth n xs))" by (simp add: remove_nth_def)
  show "set xs = insert (xs ! n) (set (remove_nth n xs))" using arg_cong [OF m, of set_mset] by simp
qed

lemma remove_nth_subset: "set (remove_nth n xs) \<subseteq> set xs"
  by (auto simp: remove_nth_def dest: in_set_takeD in_set_dropD)

lemma remove_nth_mset: "mset (remove_nth n xs) \<subseteq># mset xs"
  by (cases "n < length xs") (simp_all add: remove_nth_parts(2) remove_nth_def)

text \<open>Dropping flights keeps the invariant; so does any change of the rows to a sublist.\<close>

lemma gate_ok_fewer:
  assumes "gate_ok s" "mset (gd_frozen db) \<subseteq># mset (gd_frozen (gs_db s))" "mset fs \<subseteq># mset (gs_flights s)"
  shows "gate_ok (s\<lparr>gs_db := db, gs_flights := fs\<rparr>)"
proof -
  have sets: "set (gd_frozen db) \<subseteq> set (gd_frozen (gs_db s))" "set fs \<subseteq> set (gs_flights s)"
    using assms(2,3) by (metis set_mset_mono set_mset_mset)+
  have "mset (gd_frozen db @ map row_of fs) \<subseteq># mset (live_rows s)"
    using assms(2,3) by (simp add: live_rows_def subset_mset.add_mono image_mset_subseteq_mono)
  then have "mset (map fz_operation (gd_frozen db @ map row_of fs)) \<subseteq># mset (map fz_operation (live_rows s))"
    using image_mset_subseteq_mono [of _ _ fz_operation] by (simp only: mset_map)
  then have "distinct (map fz_operation (gd_frozen db @ map row_of fs))"
    by (rule distinct_sub_mset) (use assms(1) in \<open>simp add: gate_ok_def\<close>)
  moreover have "\<forall>r \<in> set (gd_frozen db) \<union> row_of ` set fs. row_ok r" using assms(1) sets by (fastforce simp: gate_ok_def live_rows_def)
  moreover have "\<forall>r \<in> set (gd_frozen db). claimed_before (claims s) r" using assms(1) sets(1) unfolding gate_ok_def by blast
  moreover have "\<forall>f \<in> set fs. claimed_until (claims s) (row_of f)" using assms(1) sets(2) unfolding gate_ok_def by blast
  moreover have "distinct (claims s)" "\<forall>f \<in> set (gs_log s). row_ok (row_of f)" using assms(1) by (simp_all add: gate_ok_def)
  moreover have "claims (s\<lparr>gs_db := db, gs_flights := fs\<rparr>) = claims s" by (simp add: claims_def)
  ultimately show ?thesis
    unfolding gate_ok_def live_rows_def by simp
qed

lemma gate_ok_claimed:
  assumes ok: "gate_ok s" and r: "r \<in> set (gd_frozen (gs_db s))" "\<not> P r" and rows: "gd_frozen db = filter P (gd_frozen (gs_db s))"
  shows "gate_ok \<lparr>gs_db = db, gs_flights = gs_flights s @ [(sid, digest, r)], gs_log = gs_log s @ [(sid, digest, r)]\<rparr>"
proof -
  let ?t = "\<lparr>gs_db = db, gs_flights = gs_flights s @ [(sid, digest, r)], gs_log = gs_log s @ [(sid, digest, r)]\<rparr>"
  let ?own = "(fz_operation r, fz_attempt r)"
  have dist: "distinct (map fz_operation (gd_frozen (gs_db s)))" "distinct (map fz_operation (map row_of (gs_flights s)))"
    "\<And>q f. q \<in> set (gd_frozen (gs_db s)) \<Longrightarrow> f \<in> set (gs_flights s) \<Longrightarrow> fz_operation q \<noteq> fz_operation (row_of f)"
    using ok by (auto simp: gate_ok_def live_rows_def)
  have other: "fz_operation q \<noteq> fz_operation r" if "q \<in> set (gd_frozen db)" for q
  proof
    assume "fz_operation q = fz_operation r"
    moreover have "q \<in> set (gd_frozen (gs_db s))" "P q" using that by (simp_all add: rows)
    ultimately have "q = r" using dist(1) r(1) by (simp add: distinct_map inj_on_def)
    with \<open>P q\<close> r(2) show False by simp
  qed
  have cs: "claims ?t = claims s @ [?own]" by (simp add: claims_def row_of_def)
  have live: "live_rows ?t = gd_frozen db @ map row_of (gs_flights s) @ [r]" by (simp add: live_rows_def row_of_def)
  have "distinct (map fz_operation (live_rows ?t))"
  proof -
    have "fz_operation r \<notin> fz_operation ` set (gd_frozen db)" using other by force
    moreover have "fz_operation r \<notin> fz_operation ` row_of ` set (gs_flights s)" using dist(3) [OF r(1)] by force
    moreover have "fz_operation ` set (gd_frozen db) \<inter> fz_operation ` row_of ` set (gs_flights s) = {}"
      using dist(3) by (force simp: rows)
    ultimately show ?thesis using dist(1,2) unfolding live by (simp add: rows distinct_map_filter image_image)
  qed
  moreover have "distinct (claims ?t)"
    using ok r(1) unfolding cs by (fastforce simp: gate_ok_def claimed_before_def)
  moreover have "\<forall>q \<in> set (live_rows ?t). row_ok q" using ok r(1) unfolding live by (auto simp: gate_ok_def live_rows_def rows)
  moreover have "\<forall>f \<in> set (gs_log ?t). row_ok (row_of f)" using ok r(1) by (auto simp: gate_ok_def live_rows_def row_of_def)
  moreover have "\<forall>q \<in> set (gd_frozen db). claimed_before (claims ?t) q"
    using ok other unfolding cs by (fastforce simp: gate_ok_def rows claimed_before_def)
  moreover have "\<forall>f \<in> set (gs_flights ?t). claimed_until (claims ?t) (row_of f)"
  proof
    fix f assume "f \<in> set (gs_flights ?t)"
    then consider "f \<in> set (gs_flights s)" | "f = (sid, digest, r)" by auto
    then show "claimed_until (claims ?t) (row_of f)"
    proof cases
      case 1
      with ok have "claimed_until (claims s) (row_of f)" by (simp add: gate_ok_def)
      then show ?thesis using dist(3) [OF r(1) 1] unfolding cs by (simp add: claimed_until_def)
    next
      case 2
      have "claimed_before (claims s) r" using ok r(1) by (simp add: gate_ok_def)
      then show ?thesis unfolding cs 2 by (auto simp: claimed_until_def claimed_before_def row_of_def order.strict_implies_order)
    qed
  qed
  ultimately show ?thesis unfolding gate_ok_def by simp
qed

lemma gate_ok_frozen:
  assumes ok: "gate_ok s" and fresh: "fresh_operation s (Freeze sid content kind now op)"
  shows "gate_ok (gate_step sha s (Freeze sid content kind now op))"
proof -
  let ?new = "\<lparr>fz_session = sid, fz_digest = sha content, fz_content = content, fz_kind = kind, fz_created = now, fz_operation = op, fz_attempt = 0\<rparr>"
  let ?t = "gate_step sha s (Freeze sid content kind now op)"
  have rows: "gd_frozen (gs_db ?t) = filter (\<lambda>r. \<not> same_key sid (sha content) r) (gd_frozen (gs_db s)) @ [?new]" by (simp add: frozen_rows)
  have same: "gs_flights ?t = gs_flights s" "gs_log ?t = gs_log s" "claims ?t = claims s" by (simp_all add: claims_def)
  have "claimed_before (claims s) ?new" using fresh by (force simp: claimed_before_def)
  moreover have "row_ok ?new" using fresh by (simp add: row_ok_def)
  moreover have "distinct (map fz_operation (live_rows ?t))"
    using ok fresh unfolding live_rows_def rows same gate_ok_def by (auto simp: live_rows_def distinct_map_filter)
  ultimately show ?thesis using ok unfolding gate_ok_def live_rows_def rows same by auto
qed

lemma gate_ok_settled:
  assumes ok: "gate_ok s"
  shows "gate_ok (settle_step sha n saved s)"
proof (cases "n < length (gs_flights s)")
  case True
  obtain sid digest c where f: "gs_flights s ! n = (sid, digest, c)" by (cases "gs_flights s ! n")
  let ?db = "snd (settle_replay sha sid digest c saved (gs_db s))"
  let ?fs = "remove_nth n (gs_flights s)"
  let ?again = "c\<lparr>fz_attempt := max 0 (fz_attempt c) + 1, fz_session := sid, fz_digest := digest\<rparr>"
  let ?t = "settle_step sha n saved s"
  have t: "?t = s\<lparr>gs_db := ?db, gs_flights := ?fs\<rparr>" using True f by (simp add: settle_step_def)
  have smaller: "gate_ok (s\<lparr>gs_db := gs_db s, gs_flights := ?fs\<rparr>)"
    by (rule gate_ok_fewer [OF ok]) (simp_all add: remove_nth_mset)
  show ?thesis
  proof (cases "gd_frozen ?db = gd_frozen (gs_db s)")
    case True
    then show ?thesis unfolding t by (intro gate_ok_fewer [OF ok]) (simp_all add: remove_nth_mset)
  next
    case False
    then have rows: "gd_frozen ?db = gd_frozen (gs_db s) @ [?again]" using settled_rows [of sha sid digest c saved "gs_db s"] by blast
    have mem: "(sid, digest, c) \<in> set (gs_flights s)" using True f nth_mem [of n "gs_flights s"] by simp
    have "c \<in> set (live_rows s)" using imageI [OF mem, of row_of] by (simp add: live_rows_def row_of_def)
    then have c: "row_ok c" using ok by (simp add: gate_ok_def)
    have u: "claimed_until (claims s) c" using ok mem unfolding gate_ok_def by (auto simp: row_of_def)
    have "mset (gs_flights s) = add_mset (sid, digest, c) (mset ?fs)" using remove_nth_parts(2) [OF True] f by simp
    then have "mset (map fz_operation (live_rows s)) = mset (map fz_operation (gd_frozen (gs_db s) @ [?again] @ map row_of ?fs))"
      by (simp add: live_rows_def row_of_def)
    then have "distinct (map fz_operation (gd_frozen (gs_db s) @ [?again] @ map row_of ?fs))"
      using ok mset_eq_imp_distinct_iff unfolding gate_ok_def by blast
    moreover have "claimed_before (claims s) ?again" "row_ok ?again"
      using c u by (auto simp: claimed_until_def claimed_before_def row_ok_def)
    ultimately show ?thesis
      using smaller unfolding t gate_ok_def live_rows_def by (auto simp: rows claims_def)
  qed
qed (use ok in \<open>simp add: settle_step_def\<close>)

lemma gate_ok_answered: "gate_ok s \<Longrightarrow> gate_ok (answer_step r s)"
proof -
  assume ok: "gate_ok s"
  obtain q db where run: "resolve_reply r (gs_db s) = (q, db)" by (cases "resolve_reply r (gs_db s)")
  show ?thesis
  proof (cases q)
    case (Replay kind digest c key)
    then have row: "c \<in> set (gd_frozen (gs_db s))" "same_key (rp_session r) digest c"
      "gd_frozen db = filter (\<lambda>q. \<not> same_key (rp_session r) digest q) (gd_frozen (gs_db s))"
      using consume_row [OF replay_claim(1)] run by auto
    from gate_ok_claimed [OF ok row(1) _ row(3)] row(2) Replay run show ?thesis by (simp add: answer_step_def)
  qed (use run gate_ok_fewer [OF ok no_claim_rows [OF run], of "gs_flights s"] in \<open>simp_all add: answer_step_def\<close>)
qed

lemma gate_step_ok:
  assumes "gate_ok s" "fresh_operation s ev"
  shows "gate_ok (gate_step sha s ev)"
proof (cases ev)
  case (Freeze sid content kind now op)
  then show ?thesis using gate_ok_frozen assms by blast
next
  case (Answer r)
  then show ?thesis using gate_ok_answered [OF assms(1)] by simp
next
  case (Settle n saved)
  then show ?thesis using gate_ok_settled [OF assms(1)] by simp
next
  case (Died n)
  then show ?thesis using gate_ok_fewer [OF assms(1), of "gs_db s" "remove_nth n (gs_flights s)"] by (simp add: remove_nth_mset)
next
  case (Pause user conv paused now)
  have "gd_frozen (set_memory_paused user conv paused now (gs_db s)) = gd_frozen (gs_db s)" by (simp add: set_memory_paused_def)
  with Pause show ?thesis
    using gate_ok_fewer [OF assms(1), of "set_memory_paused user conv paused now (gs_db s)" "gs_flights s"] by simp
next
  case (Forget user)
  then show ?thesis
    using gate_ok_fewer [OF assms(1), of "snd (forget_memory_pauses user (gs_db s))" "gs_flights s"] by (simp add: forget_memory_pauses_def)
qed

interpretation gate: invariant_machine empty_gate_state fresh_operation "gate_step sha" gate_ok for sha
  by unfold_locales (simp add: gate_ok_def empty_gate_state_def empty_gate_def live_rows_def claims_def, rule gate_step_ok)

text \<open>The key of a tool call tells the operation and the attempt.\<close>

lemma key_tail:
  assumes "xs @ ys = xs' @ ys'" "CHR 0x3A \<notin> set ys" "CHR 0x3A \<notin> set ys'" "xs \<noteq> []" "xs' \<noteq> []" "last xs = CHR 0x3A" "last xs' = CHR 0x3A"
  shows "xs = xs' \<and> ys = ys'"
proof -
  have tail: "takeWhile (\<lambda>c. c \<noteq> CHR 0x3A) (rev (zs @ vs)) = rev vs" if "CHR 0x3A \<notin> set vs" "zs \<noteq> []" "last zs = CHR 0x3A" for zs vs :: string
  proof -
    have "zs = butlast zs @ [CHR 0x3A]" using that(3) append_butlast_last_id [OF that(2)] by simp
    then have "rev zs = CHR 0x3A # rev (butlast zs)" by (metis rev_append rev_singleton_conv append_Cons append_Nil)
    then show ?thesis using that(1) by (simp only: rev_append) (subst takeWhile_append2, auto)
  qed
  have "rev ys = rev ys'" using tail [OF assms(2,4,6)] tail [OF assms(3,5,7)] assms(1) by metis
  then show ?thesis using assms(1) by simp
qed

lemma key_identifies:
  assumes "row_ok c" "row_ok d" "idempotency_key sid digest c = idempotency_key sid' digest' d"
  shows "fz_operation c = fz_operation d \<and> fz_attempt c = fz_attempt d"
proof -
  have clean: "strip (fz_operation r) = fz_operation r" "length (fz_operation r) = 32" "fz_operation r \<noteq> []" if "row_ok r" for r
  proof -
    have hex: "list_all is_hex_lower (fz_operation r)" "length (fz_operation r) = 32" using that by (simp_all add: row_ok_def is_operation_id_def)
    then have "list_all (\<lambda>c. \<not> is_space c) (fz_operation r)"
      by (auto simp: list_all_iff is_hex_lower_def is_digit_def is_space_def)
    then show "strip (fz_operation r) = fz_operation r" by (rule strip_clean)
    show "length (fz_operation r) = 32" "fz_operation r \<noteq> []" using hex(2) by auto
  qed
  have digits: "CHR 0x3A \<notin> set (nat_text n)" for n
    using nat_text_digits [of n] by (auto simp: list_all_iff is_digit_def)
  let ?x = "\<lambda>sid digest r. (''memgate:'' @ sid @ '':'' @ digest @ '':'') @ (fz_operation r @ '':'')"
  have key: "idempotency_key s g r = ?x s g r @ nat_text (nat (fz_attempt r))" if "row_ok r" for s g r
    using clean [OF that] that by (simp add: idempotency_key_def int_text_def row_ok_def)
  have "?x sid digest c = ?x sid' digest' d \<and> nat_text (nat (fz_attempt c)) = nat_text (nat (fz_attempt d))"
    using assms(3) unfolding key [OF assms(1)] key [OF assms(2)] by (rule key_tail) (simp_all add: digits)
  moreover from this have "(sid @ '':'' @ digest @ '':'') @ fz_operation c = (sid' @ '':'' @ digest' @ '':'') @ fz_operation d" by simp
  then have "fz_operation c = fz_operation d"
    using append_eq_append_conv [of "sid @ '':'' @ digest @ '':''" "sid' @ '':'' @ digest' @ '':''" "fz_operation c" "fz_operation d"]
      clean(2) [OF assms(1)] clean(2) [OF assms(2)] by simp
  ultimately have "fz_operation c = fz_operation d" "nat (fz_attempt c) = nat (fz_attempt d)" using nat_text_inj by simp_all
  with assms(1,2) show ?thesis by (simp add: row_ok_def eq_nat_nat_iff)
qed

text \<open>What is claimed was frozen.\<close>

definition from_freeze :: "gate_event list \<Rightarrow> string \<Rightarrow> frozen_row \<Rightarrow> bool" where
  "from_freeze evs sid r \<longleftrightarrow> (\<exists>now. Freeze sid (fz_content r) (fz_kind r) now (fz_operation r) \<in> set evs)"

definition provenance :: "gate_event list \<Rightarrow> gate_state \<Rightarrow> bool" where
  "provenance evs s \<longleftrightarrow> (\<forall>r \<in> set (gd_frozen (gs_db s)). from_freeze evs (fz_session r) r)
     \<and> (\<forall>f \<in> set (gs_flights s) \<union> set (gs_log s). from_freeze evs (fst f) (row_of f))"

lemma provenance_step:
  assumes "provenance evs s" "ev \<in> set evs"
  shows "provenance evs (gate_step sha s ev)"
proof (cases ev)
  case (Freeze sid content kind now op)
  let ?new = "\<lparr>fz_session = sid, fz_digest = sha content, fz_content = content, fz_kind = kind, fz_created = now, fz_operation = op, fz_attempt = 0\<rparr>"
  have "from_freeze evs sid ?new" using assms(2) Freeze by (auto simp: from_freeze_def)
  then show ?thesis using assms(1) by (simp add: Freeze provenance_def frozen_rows)
next
  case (Answer r)
  obtain q db where run: "resolve_reply r (gs_db s) = (q, db)" by (cases "resolve_reply r (gs_db s)")
  have sub: "set (gd_frozen db) \<subseteq> set (gd_frozen (gs_db s))" using no_claim_rows [OF run] by (metis set_mset_mono set_mset_mset)
  show ?thesis
  proof (cases q)
    case (Replay kind digest c key)
    then have "c \<in> set (gd_frozen (gs_db s))" "fz_session c = rp_session r"
      using consume_row [OF replay_claim(1)] run by (auto simp: same_key_def)
    with assms(1) have "from_freeze evs (rp_session r) c" by (auto simp: provenance_def)
    then show ?thesis using assms(1) sub run Replay by (auto simp: Answer answer_step_def provenance_def row_of_def)
  qed (use assms(1) sub run in \<open>auto simp: Answer answer_step_def provenance_def\<close>)
next
  case (Settle n saved)
  show ?thesis
  proof (cases "n < length (gs_flights s)")
    case True
    obtain sid digest c where f: "gs_flights s ! n = (sid, digest, c)" by (cases "gs_flights s ! n")
    have "(sid, digest, c) \<in> set (gs_flights s)" using True f nth_mem [of n "gs_flights s"] by simp
    with assms(1) have "from_freeze evs sid c" by (force simp: provenance_def row_of_def)
    then have "from_freeze evs sid (c\<lparr>fz_attempt := k, fz_session := sid, fz_digest := digest\<rparr>)" for k by (simp add: from_freeze_def)
    moreover have "set (remove_nth n (gs_flights s)) \<subseteq> set (gs_flights s)" by (rule remove_nth_subset)
    ultimately show ?thesis
      using assms(1) settled_rows [of sha sid digest c saved "gs_db s"] True f
      unfolding Settle provenance_def by (auto simp: settle_step_def)
  qed (use assms(1) in \<open>simp add: Settle settle_step_def\<close>)
next
  case (Died n)
  then show ?thesis using assms(1) remove_nth_subset [of n "gs_flights s"] by (auto simp: provenance_def)
qed (use assms(1) in \<open>simp_all add: provenance_def set_memory_paused_def forget_memory_pauses_def\<close>)

lemma provenance_run:
  "provenance evs s \<Longrightarrow> set es \<subseteq> set evs \<Longrightarrow> provenance evs (run_ops (gate_step sha) s es)"
  by (induction es arbitrary: s) (simp_all add: provenance_step)

definition claim_key :: "string \<times> string \<times> frozen_row \<Rightarrow> string" where
  "claim_key f = idempotency_key (fst f) (fst (snd f)) (row_of f)"



end
