(* ===== verification/MemoryReads.thy ===== *)
theory MemoryReads
  imports MemoryStore
begin

text \<open>
  What the classes above the collection rely on when they read it: the filters by user and by two fields
  that \<open>app/rag/agent_memory.py\<close> passes to \<open>get\<close>, reads while no legacy file is left, and what a
  re-read that found nothing says about the rows.
\<close>

section \<open>Filters\<close>

text \<open>\<open>{"user_id": user_id}\<close>, and \<open>{"$and": [{a: x}, {b: y}]}\<close> on two texts.\<close>

definition of_user :: "string \<Rightarrow> json" where
  "of_user user = JObj [(''user_id'', JStr user)]"

definition where_both :: "string \<Rightarrow> string \<Rightarrow> string \<Rightarrow> string \<Rightarrow> json" where
  "where_both a x b y = JObj [(''$and'', JArr [JObj [(a, JStr x)], JObj [(b, JStr y)]])]"

lemma scalar_eq_text: "scalar_eq v (JStr t) \<longleftrightarrow> v = JStr t"
  by (cases v) (simp_all add: scalar_eq_def)

lemma matches_user: "matches_where md (of_user user) = Inr (meta_get md ''user_id'' = JStr user)"
  by (simp add: of_user_def and_then_def scalar_eq_text)

lemma matches_field:
  assumes "\<not> starts_with a ''$''"
  shows "matches_where md (JObj [(a, JStr x)]) = Inr (meta_get md a = JStr x)"
proof -
  have "a \<noteq> ''$and''" "a \<noteq> ''$or''" using assms by auto
  then show ?thesis using assms by (simp add: scalar_eq_text)
qed

lemma matches_both:
  assumes "\<not> starts_with a ''$''" "\<not> starts_with b ''$''"
  shows "matches_where md (where_both a x b y) = Inr (meta_get md a = JStr x \<and> meta_get md b = JStr y)"
  unfolding where_both_def matches_where.simps(1)
  by (simp add: matches_field [OF assms(1)] matches_field [OF assms(2)] del: matches_where.simps)

lemma keep_matches:
  assumes "\<And>md. matches_where md wh = Inr (P md)"
  shows "keep_matching wh xs = Inr (filter (\<lambda>x. P (snd (snd x))) xs)"
  by (induction xs) (simp_all add: assms)

lemmas keep_user = keep_matches [OF matches_user]

lemma keep_all: "keep_matching JNull xs = Inr xs"
  by (induction xs) simp_all

lemma stored_get: "meta_get (stored md) name = meta_get md name"
proof -
  have "map_of (insort_key fst x xs) = (map_of xs)(fst x \<mapsto> snd x)" for x :: "string \<times> json" and xs
    by (induction xs) (auto simp: fun_upd_twist)
  then have "map_of (foldr (insort_key fst) md []) = map_of md" for md :: fields
    by (induction md) (auto simp: fun_eq_iff)
  then show ?thesis by (simp add: stored_def sort_key_def meta_get_def)
qed

section \<open>Reads without a legacy file\<close>

text \<open>The legacy file is gone: never there, or retired.\<close>

definition at_rest :: "legacy_env \<Rightarrow> bool" where
  "at_rest e \<longleftrightarrow> \<not> le_exists e \<and> le_fingerprint e = None
     \<and> (case retirement_marker (le_marker e) of
          Inl _ \<Rightarrow> False
        | Inr None \<Rightarrow> True
        | Inr (Some m) \<Rightarrow> field_or_null m ''status'' \<noteq> JStr ''pending'' \<and> (\<exists>n. source_count m = Inr n))"

lemma sync_at_rest: "at_rest e \<Longrightarrow> \<exists>q. sync_legacy L force e db = (Inr q, db)"
  by (auto simp: at_rest_def sync_legacy_def split: sum.splits option.splits)

lemma get_at_rest:
  "at_rest e \<Longrightarrow> get_items L e ids wh db = (keep_matching wh (map item_of (select_rows ids db)), db)"
  using sync_at_rest [of e L False db] by (auto simp: get_items_def)

lemma get_rows_at_rest:
  assumes "at_rest e" "\<And>md. matches_where md wh = Inr (P md)"
  shows "get_items L e None wh db = (Inr (map item_of (filter (\<lambda>r. P (mr_metadata r)) (md_rows db))), db)"
  by (simp add: get_at_rest [OF assms(1)] keep_matches [of wh P, OF assms(2)] select_rows_def filter_map comp_def item_of_def)

lemmas get_user_at_rest = get_rows_at_rest [OF _ matches_user]

text \<open>Deleting by ids.\<close>

lemma delete_at_rest:
  assumes "at_rest e"
  shows "\<exists>doomed. set doomed = set ids \<inter> set (ids_of db)
    \<and> delete_items L e now (Some ids) JNull db = (Inr (), if doomed = [] then db else erase_rows now doomed db)"
proof -
  let ?found = "map fst (map item_of (select_rows (Some ids) db))"
  have "set ?found = set ids \<inter> set (ids_of db)"
    by (auto simp: select_rows_def item_of_def ids_of_def image_iff)
  moreover have "delete_items L e now (Some ids) JNull db = (Inr (), if ?found = [] then db else erase_rows now ?found db)"
    by (simp add: delete_items_def get_at_rest [OF assms] keep_all Let_def)
  ultimately show ?thesis by blast
qed

lemma deleted_at_rest:
  assumes "at_rest e" "delete_items L e now (Some ids) JNull db = (r, db1)"
  shows "r = Inr ()" "md_rows db1 = filter (\<lambda>r. mr_id r \<notin> set ids) (md_rows db)"
proof -
  obtain doomed where d: "set doomed = set ids \<inter> set (ids_of db)"
    "delete_items L e now (Some ids) JNull db = (Inr (), if doomed = [] then db else erase_rows now doomed db)"
    using delete_at_rest [OF assms(1)] by blast
  then show "r = Inr ()" using assms(2) by simp
  have "filter (\<lambda>r. mr_id r \<notin> set ids) (md_rows db) = filter (\<lambda>r. mr_id r \<notin> set doomed) (md_rows db)"
    by (rule filter_cong) (auto simp: d(1) ids_of_def)
  moreover have "db1 = (if doomed = [] then db else erase_rows now doomed db)" using d(2) assms(2) by simp
  ultimately show "md_rows db1 = filter (\<lambda>r. mr_id r \<notin> set ids) (md_rows db)" by (auto simp: erase_rows_def)
qed

section \<open>A read that found nothing\<close>

text \<open>A property of rows that a synchronisation can only bring in from the legacy file.\<close>

definition no_row :: "(string \<Rightarrow> fields \<Rightarrow> bool) \<Rightarrow> memory_db \<Rightarrow> bool" where
  "no_row Q db \<longleftrightarrow> (\<forall>r \<in> set (md_rows db). \<not> Q (mr_document r) (mr_metadata r))"

definition no_item :: "(string \<Rightarrow> fields \<Rightarrow> bool) \<Rightarrow> memory_item list \<Rightarrow> bool" where
  "no_item Q items \<longleftrightarrow> (\<forall>x \<in> set items. \<not> Q (fst (snd x)) (snd (snd x)))"

lemma imported_row:
  "r \<in> set (md_rows (import_record now ts x db)) \<Longrightarrow> r \<in> set (md_rows db) \<or> r = memory_row_of x False"
  by (auto simp: import_record_def Let_def split: if_splits)

lemma imported_rows:
  "r \<in> set (md_rows (fold (import_record now ts) items db)) \<Longrightarrow> r \<in> set (md_rows db) \<or> (\<exists>x \<in> set items. r = memory_row_of x False)"
proof (induction items arbitrary: db)
  case (Cons x items)
  from Cons.IH [of "import_record now ts x db"] Cons.prems imported_row [of r now ts x db] show ?case by auto
qed simp

lemma snapshot_no_row:
  assumes "no_row Q db" "no_item Q items" "\<And>d md. Q d (stored md) = Q d md"
  shows "no_row Q (import_snapshot L now fp items db)"
  unfolding no_row_def
proof
  fix r assume "r \<in> set (md_rows (import_snapshot L now fp items db))"
  then have "r \<in> set (md_rows (fold (import_record now (map fst (md_tombstones db))) items db))"
    by (simp add: import_snapshot_def Let_def)
  then consider "r \<in> set (md_rows db)" | x where "x \<in> set items" "r = memory_row_of x False"
    using imported_rows by blast
  then show "\<not> Q (mr_document r) (mr_metadata r)"
  proof cases
    case 2
    then show ?thesis using assms(2) by (auto simp: no_item_def memory_row_of_def assms(3) split: prod.split)
  qed (use assms(1) in \<open>simp add: no_row_def\<close>)
qed

lemma get_no_row:
  assumes "get_items L e None (of_user user) db = (Inr items, db1)" "no_item Q items"
  shows "no_row (\<lambda>d md. meta_get md ''user_id'' = JStr user \<and> Q d md) db1"
proof -
  have items: "items = filter (\<lambda>x. meta_get (snd (snd x)) ''user_id'' = JStr user) (map item_of (md_rows db1))"
    using assms(1) by (auto simp: get_items_def keep_user select_rows_def split: prod.splits sum.splits)
  have "item_of r \<in> set items" if "r \<in> set (md_rows db1)" "meta_get (mr_metadata r) ''user_id'' = JStr user" for r
    using that unfolding items by (auto simp: item_of_def)
  then show ?thesis using assms(2) by (force simp: no_row_def no_item_def item_of_def)
qed

text \<open>The legacy file does not change between the synchronisation and the direct read of one call.\<close>

definition still_legacy :: "memory_lib \<Rightarrow> legacy_env \<Rightarrow> bool \<Rightarrow> legacy_try list \<Rightarrow> bool" where
  "still_legacy L e present tries \<longleftrightarrow>
     (if present then read_stable_legacy L tries = read_stable_legacy L (le_tries e) else le_fingerprint e = None)"

lemma residual_no_row:
  assumes "legacy_residual_records L e present tries (of_user user) db = (Inr old, db1)" "no_item Q old"
    and "no_row (\<lambda>d md. meta_get md ''user_id'' = JStr user \<and> Q d md) db" "still_legacy L e present tries"
    and "\<And>d md. Q d (stored md) = Q d md"
  shows "no_row (\<lambda>d md. meta_get md ''user_id'' = JStr user \<and> Q d md) db1"
proof -
  let ?Q = "\<lambda>d md. meta_get md ''user_id'' = JStr user \<and> Q d md"
  obtain q where q: "sync_legacy L False e db = (q, db1)"
    using assms(1) by (auto simp: legacy_residual_records_def split: prod.splits sum.splits if_splits)
  from sync_cases [OF this] show ?thesis
  proof (elim disjE exE conjE)
    fix fp items assume read: "read_stable_legacy L (le_tries e) = Inr (fp, items)"
      and db1: "db1 = import_snapshot L (le_now e) fp items db"
    show ?thesis
    proof (cases present)
      case True
      with assms(1,4) read have "old = filter (\<lambda>x. meta_get (snd (snd x)) ''user_id'' = JStr user) items"
        by (auto simp: legacy_residual_records_def still_legacy_def and_then_def keep_user split: prod.splits sum.splits)
      with assms(2) have "no_item ?Q items" by (auto simp: no_item_def)
      from snapshot_no_row [OF assms(3) this] assms(5) show ?thesis by (simp add: db1 stored_get)
    next
      case False
      with assms(4) have "le_fingerprint e = None" by (simp add: still_legacy_def)
      with q have "db1 = db" by (auto simp: sync_legacy_def split: sum.splits option.splits if_splits)
      with assms(3) show ?thesis by simp
    qed
  qed (use assms(3) in simp)
qed

section \<open>Whose rows a change touches\<close>

definition user_of :: "memory_row \<Rightarrow> json" where
  "user_of r = meta_get (mr_metadata r) ''user_id''"

definition rows_of_user :: "string \<Rightarrow> memory_db \<Rightarrow> memory_row list" where
  "rows_of_user user db = filter (\<lambda>r. user_of r = JStr user) (md_rows db)"

text \<open>A change that only adds, rewrites or removes rows of one user.\<close>

definition own_change :: "string \<Rightarrow> memory_db \<Rightarrow> memory_db \<Rightarrow> bool" where
  "own_change user db db' \<longleftrightarrow> (memory_ok db \<longrightarrow> memory_ok db') \<and> (\<forall>v. v \<noteq> user \<longrightarrow> rows_of_user v db' = rows_of_user v db)
     \<and> (\<forall>r \<in> set (md_rows db'). r \<in> set (md_rows db) \<or> user_of r = JStr user)"

definition owned :: "string \<Rightarrow> string list \<Rightarrow> memory_db \<Rightarrow> bool" where
  "owned user ids db \<longleftrightarrow> (\<forall>r \<in> set (md_rows db). mr_id r \<in> set ids \<longrightarrow> user_of r = JStr user)"

lemma own_refl [simp]: "own_change user db db"
  by (simp add: own_change_def)

lemma own_trans [trans]: "own_change user db db1 \<Longrightarrow> own_change user db1 db2 \<Longrightarrow> own_change user db db2"
  unfolding own_change_def by (metis (no_types))

lemma owned_later: "own_change user db db1 \<Longrightarrow> owned user ids db \<Longrightarrow> owned user ids db1"
  unfolding own_change_def owned_def by blast

lemma owned_mono: "owned user ids db \<Longrightarrow> set ids' \<subseteq> set ids \<Longrightarrow> owned user ids' db"
  unfolding owned_def by blast

lemma owned_rows:
  assumes "memory_ok db" "set ids \<subseteq> mr_id ` set (rows_of_user user db)"
  shows "owned user ids db"
  unfolding owned_def
proof (intro ballI impI)
  fix r assume r: "r \<in> set (md_rows db)" "mr_id r \<in> set ids"
  then obtain r' where r': "r' \<in> set (md_rows db)" "user_of r' = JStr user" "mr_id r' = mr_id r"
    using assms(2) by (auto simp: rows_of_user_def image_iff)
  have "distinct (map mr_id (md_rows db))" using assms(1) by (simp add: memory_ok_def ids_of_def)
  then have "r' = r" using r(1) r'(1,3) by (simp add: distinct_map inj_on_def)
  with r'(2) show "user_of r = JStr user" by simp
qed

lemma own_erase:
  assumes "owned user ids db"
  shows "own_change user db (erase_rows now ids db)"
proof -
  have "filter (\<lambda>r. user_of r = JStr v) (filter (\<lambda>r. mr_id r \<notin> set ids) (md_rows db)) = filter (\<lambda>r. user_of r = JStr v) (md_rows db)"
    if "v \<noteq> user" for v
    using assms that by (auto simp: owned_def intro!: filter_cong)
  then show ?thesis
    using erase_rows_ok [of db now ids] by (auto simp: own_change_def rows_of_user_def erase_rows_def)
qed

lemma own_delete:
  assumes "at_rest e" "owned user ids db" "delete_items L e now (Some ids) JNull db = (r, db1)"
  shows "own_change user db db1"
proof -
  obtain doomed where d: "set doomed = set ids \<inter> set (ids_of db)"
    "delete_items L e now (Some ids) JNull db = (Inr (), if doomed = [] then db else erase_rows now doomed db)"
    using delete_at_rest [OF assms(1)] by blast
  have "owned user doomed db" by (rule owned_mono [OF assms(2)]) (simp add: d(1))
  with d(2) assms(3) own_erase [of user doomed db now] show ?thesis by (auto split: if_splits)
qed

lemma canonical_get:
  assumes "canonical_metadata L (JObj md) = Inr md'" "map_of md name = Some (JStr t)"
  shows "map_of md' name = Some (JStr t)"
proof -
  have "map_of (map (\<lambda>(k, x). (k, if is_scalar x then x else JStr (ml_str L x))) (filter (\<lambda>(_, x). x \<noteq> JNull) md)) name = Some (JStr t)"
    using assms(2) by (induction md) (auto split: if_splits)
  with assms(1) show ?thesis by (auto simp: canonical_metadata_def split: if_splits)
qed

lemma meta_get_text: "meta_get md name = JStr t \<longleftrightarrow> map_of md name = Some (JStr t)"
  by (auto simp: meta_get_def split: option.splits)

lemma canonical_text:
  "canonical_metadata L (JObj md) = Inr md' \<Longrightarrow> meta_get md name = JStr t \<Longrightarrow> meta_get md' name = JStr t"
  unfolding meta_get_text by (rule canonical_get)

lemma row_of_user: "user_of (memory_row_of (i, d, md) b) = meta_get md ''user_id''"
  by (simp add: user_of_def memory_row_of_def stored_get)

lemma own_insert:
  assumes "insert_item L (i, doc, JObj md) db = Inr db'" "meta_get md ''user_id'' = JStr user"
  shows "own_change user db db'"
proof -
  obtain md' where md': "canonical_metadata L (JObj md) = Inr md'"
    and db': "md_rows db' = md_rows db @ [memory_row_of (i, doc, md') True]"
    using assms(1) by (rule insert_item_Inr) simp
  have "user_of (memory_row_of (i, doc, md') True) = JStr user"
    using canonical_text [OF md' assms(2)] by (simp add: row_of_user)
  then show ?thesis
    using insert_item_ok [OF _ assms(1)] by (auto simp: own_change_def rows_of_user_def db')
qed

text \<open>A row keeps its user when it is changed.\<close>

definition keeps_user :: "string \<Rightarrow> json option \<Rightarrow> bool" where
  "keeps_user user meta \<longleftrightarrow> (case meta of None \<Rightarrow> True | Some v \<Rightarrow> (\<exists>md. v = JObj md \<and> meta_get md ''user_id'' = JStr user))"

lemma changed_item_rows:
  assumes "change_item L (i, doc, meta) db = Inr db'"
  shows "db' = db \<or> (\<exists>r d md. find_row db i = Some r
    \<and> canonical_metadata L (case meta of None \<Rightarrow> JObj (mr_metadata r) | Some m \<Rightarrow> m) = Inr md
    \<and> d = (case doc of None \<Rightarrow> mr_document r | Some d \<Rightarrow> d)
    \<and> md_rows db' = map (\<lambda>x. if mr_id x = i then memory_row_of (i, d, md) True else x) (md_rows db))"
  using assms by (cases "find_row db i") (auto simp: change_item_def and_then_Inr Let_def)

lemma own_change_item:
  assumes "change_item L (i, doc, meta) db = Inr db'" "owned user [i] db" "keeps_user user meta"
  shows "own_change user db db'"
  using changed_item_rows [OF assms(1)]
proof (elim disjE exE conjE)
  fix r d md assume r: "find_row db i = Some r"
    and md: "canonical_metadata L (case meta of None \<Rightarrow> JObj (mr_metadata r) | Some m \<Rightarrow> m) = Inr md"
    and rows: "md_rows db' = map (\<lambda>x. if mr_id x = i then memory_row_of (i, d, md) True else x) (md_rows db)"
  have "user_of r = JStr user"
    using r assms(2) find_member [of "\<lambda>r. mr_id r = i" "md_rows db" r] by (auto simp: find_row_def owned_def)
  with md assms(3) have "meta_get md ''user_id'' = JStr user"
    by (auto simp: keeps_user_def user_of_def split: option.splits intro: canonical_text)
  then have new: "user_of (memory_row_of (i, d, md) True) = JStr user" by (simp add: row_of_user)
  have "filter (\<lambda>r. user_of r = JStr v) (map (\<lambda>x. if mr_id x = i then memory_row_of (i, d, md) True else x) xs)
      = filter (\<lambda>r. user_of r = JStr v) xs" if "v \<noteq> user" "\<forall>r \<in> set xs. mr_id r = i \<longrightarrow> user_of r = JStr user" for v xs
    using that(2) by (induction xs) (use that(1) new in auto)
  then show ?thesis
    using change_item_ok [OF _ assms(1)] assms(2) new by (auto simp: own_change_def rows_of_user_def rows owned_def)
qed simp

lemma own_change_items:
  "change_items L xs db = Inr db' \<Longrightarrow> owned user (map fst xs) db \<Longrightarrow> (\<forall>x \<in> set xs. keeps_user user (snd (snd x)))
   \<Longrightarrow> own_change user db db'"
proof (induction xs arbitrary: db)
  case (Cons x xs)
  obtain i doc meta where x: "x = (i, doc, meta)" by (cases x)
  from Cons.prems(1) obtain db1 where step: "change_item L (i, doc, meta) db = Inr db1" "change_items L xs db1 = Inr db'"
    by (auto simp: x and_then_Inr)
  have one: "own_change user db db1"
    by (rule own_change_item [OF step(1)]) (use Cons.prems in \<open>auto simp: x intro: owned_mono\<close>)
  have "owned user (map fst xs) db1" by (rule owned_later [OF one owned_mono [OF Cons.prems(2)]]) auto
  from own_trans [OF one Cons.IH [OF step(2) this]] Cons.prems(3) show ?case by simp
qed simp

lemma own_update:
  assumes "at_rest e" "update_items L e ids docs metas db = (r, db')" "owned user ids db"
    and "case metas of None \<Rightarrow> True | Some ms \<Rightarrow> (\<forall>m \<in> set ms. keeps_user user (Some m))"
  shows "own_change user db db'"
proof -
  let ?xs = "zip ids (zip (optional (length ids) docs) (optional (length ids) metas))"
  have "db' = db \<or> change_items L ?xs db = Inr db'"
    using assms(2) sync_at_rest [OF assms(1), of L False db] by (auto simp: update_items_def split: if_splits sum.splits)
  moreover have "keeps_user user (snd (snd x))" if "x \<in> set ?xs" for x
  proof -
    have "snd (snd x) \<in> set (optional (length ids) metas)" using that by (metis in_set_zipE prod.collapse)
    then show ?thesis using assms(4) by (auto simp: optional_def keeps_user_def split: option.splits)
  qed
  moreover have "owned user (map fst ?xs) db" by (rule owned_mono [OF assms(3)]) (auto dest: set_zip_leftD)
  ultimately show ?thesis using own_change_items [of L ?xs db db' user] by auto
qed

lemma own_add:
  assumes "at_rest e" "add_items L e [i] [body] [JObj md] db = (r, db')" "meta_get md ''user_id'' = JStr user"
  shows "own_change user db db'"
  using assms(2) sync_at_rest [OF assms(1), of L False db] own_insert [OF _ assms(3), of L i body db]
  by (auto simp: add_items_def and_then_Inr split: if_splits sum.splits)

end
