(* ===== verification/Erasure.thy ===== *)
theory Erasure
  imports StoreInvariant MemoryReads PendingWrites AuthStore Caches
begin

text \<open>
  The erasure of a user: the route \<open>/api/forget_me\<close> of \<open>app/app.py\<close> with \<open>AgentMemory.forget\<close> and
  \<open>AgentMemory.privacy_inventory\<close> of \<open>app/rag/agent_memory.py\<close>.  It runs through five layers, the
  long-term memory, the checkpoint threads of the graph, the conversation store, the accounts and the
  hot cache, and reads each of them back.  The checkpoint saver is a library: it is the parameter
  \<open>saver\<close> over its own state.  What a call of the memory finds of the legacy file, and whether the ledger of
  pauses answers, are observations of that call.
\<close>

section \<open>The layers\<close>

record 'c world =
  wd_store :: store
  wd_memory :: memory_db
  wd_buffers :: "((string \<times> string) \<times> int) list"
  wd_gate :: gate_db
  wd_checkpoints :: 'c
  wd_auth :: auth_db
  wd_hot :: session_store

text \<open>The saver: whether it is switched on and opens, a deletion (false: it raised) and a read (\<open>None\<close>: it raised).\<close>

record 'c saver =
  sv_enabled :: bool
  sv_opens :: bool
  sv_delete :: "string \<Rightarrow> 'c \<Rightarrow> bool \<times> 'c"
  sv_has :: "string \<Rightarrow> 'c \<Rightarrow> bool option"

record memory_moment =
  mm_get :: legacy_env
  mm_delete :: legacy_env
  mm_residual :: legacy_env
  mm_present :: bool
  mm_tries :: "legacy_try list"
  mm_now :: int
  mm_ledger :: bool

datatype erasure_error = NoUser | MemoryUnavailable | MemoryRefused memory_error | LedgerFailed | AccountsRefused auth_error | RowsRefused store_error

record memory_inventory =
  mi_records :: nat
  mi_buffers :: nat
  mi_legacy :: nat
  mi_pauses :: nat

definition memory_total :: "memory_inventory \<Rightarrow> nat" where
  "memory_total i = mi_records i + mi_buffers i + mi_legacy i + mi_pauses i"

section \<open>The long-term memory\<close>

definition forget_buffers :: "string \<Rightarrow> ((string \<times> string) \<times> int) list \<Rightarrow> ((string \<times> string) \<times> int) list" where
  "forget_buffers user bs = filter (\<lambda>b. fst (fst b) \<noteq> user) bs"

definition memory_forget :: "memory_lib \<Rightarrow> memory_moment \<Rightarrow> string \<Rightarrow> 'c world \<Rightarrow> (erasure_error + nat) \<times> 'c world" where
  "memory_forget L k user_id w =
     (let user = strip user_id in
      if user = [] then (Inl NoUser, w)
      else case get_items L (mm_get k) None (of_user user) (wd_memory w) of
        (Inl e, db) \<Rightarrow> (Inl (MemoryRefused e), w\<lparr>wd_memory := db\<rparr>)
      | (Inr items, db) \<Rightarrow>
          (let ids = map fst items in
           case (if ids = [] then (Inr (), db) else delete_items L (mm_delete k) (mm_now k) (Some ids) JNull db) of
             (Inl e, db1) \<Rightarrow> (Inl (MemoryRefused e), w\<lparr>wd_memory := db1\<rparr>)
           | (Inr _, db1) \<Rightarrow>
               (let w1 = w\<lparr>wd_memory := db1, wd_buffers := forget_buffers user (wd_buffers w)\<rparr> in
                if mm_ledger k
                then (Inr (length ids), w1\<lparr>wd_gate := snd (forget_conversation_memory_pauses (JStr user) (wd_gate w))\<rparr>)
                else (Inl LedgerFailed, w1))))"

definition memory_residue ::
  "memory_lib \<Rightarrow> memory_moment \<Rightarrow> string \<Rightarrow> 'c world \<Rightarrow> (erasure_error + memory_inventory) \<times> 'c world" where
  "memory_residue L k user_id w =
     (let user = strip user_id in
      if user = [] then (Inl NoUser, w)
      else case get_items L (mm_get k) None (of_user user) (wd_memory w) of
        (Inl e, db) \<Rightarrow> (Inl (MemoryRefused e), w\<lparr>wd_memory := db\<rparr>)
      | (Inr items, db) \<Rightarrow>
          (case legacy_residual_records L (mm_residual k) (mm_present k) (mm_tries k) (of_user user) db of
             (Inl e, db1) \<Rightarrow> (Inl (MemoryRefused e), w\<lparr>wd_memory := db1\<rparr>)
           | (Inr old, db1) \<Rightarrow>
               (let w1 = w\<lparr>wd_memory := db1\<rparr> in
                if mm_ledger k
                then (Inr \<lparr>mi_records = length items, mi_buffers = length (filter (\<lambda>b. fst (fst b) = user) (wd_buffers w)),
                        mi_legacy = length old, mi_pauses = conversation_memory_pause_count (JStr user) (wd_gate w)\<rparr>, w1)
                else (Inl LedgerFailed, w1))))"

section \<open>The report\<close>

text \<open>A layer is deleted, still holds rows, failed with an exception, or was kept for a retry.\<close>

datatype 'a layer = Erased 'a | Residual 'a | Raised erasure_error | Kept "'a option"

definition layer_ok :: "'a layer \<Rightarrow> bool" where
  "layer_ok l = (case l of Erased _ \<Rightarrow> True | _ \<Rightarrow> False)"

datatype thread_status = Disabled | ThreadDeleted | ThreadFailed "bool option"

record memory_layer =
  ml_deleted :: nat
  ml_before :: memory_inventory
  ml_after :: memory_inventory

type_synonym row_counts = "(string \<times> nat) list"
type_synonym account_counts = "nat \<times> nat \<times> nat"

record erasure_report =
  er_memory :: "memory_layer layer"
  er_threads :: "thread_status list layer"
  er_rows :: "(row_counts option \<times> row_counts) layer"
  er_accounts :: "(nat \<times> account_counts \<times> account_counts) layer"
  er_hot :: "nat layer"

datatype erasure_reply = Busy store_error | Forgotten bool erasure_report

definition erase_memory :: "memory_lib \<Rightarrow> bool \<Rightarrow> memory_moment \<times> memory_moment \<times> memory_moment \<Rightarrow> string \<Rightarrow> 'c world
    \<Rightarrow> memory_layer layer \<times> 'c world" where
  "erase_memory L available moments user w = (case moments of (k1, k2, k3) \<Rightarrow>
     if \<not> available then (Raised MemoryUnavailable, w)
     else case memory_residue L k1 user w of
       (Inl e, w1) \<Rightarrow> (Raised e, w1)
     | (Inr before, w1) \<Rightarrow>
         (case memory_forget L k2 user w1 of
            (Inl e, w2) \<Rightarrow> (Raised e, w2)
          | (Inr n, w2) \<Rightarrow>
              (case memory_residue L k3 user w2 of
                 (Inl e, w3) \<Rightarrow> (Raised e, w3)
               | (Inr rest, w3) \<Rightarrow>
                   (let l = \<lparr>ml_deleted = n, ml_before = before, ml_after = rest\<rparr> in
                    (if memory_total rest = 0 then Erased l else Residual l, w3)))))"

text \<open>\<open>thread_id\<close> and \<open>_delete_checkpoint_thread\<close>.\<close>

definition thread_of :: "string \<Rightarrow> string \<Rightarrow> string" where
  "thread_of user cid = user @ '':'' @ cid"

definition delete_checkpoint_thread :: "'c saver \<Rightarrow> string \<Rightarrow> string \<Rightarrow> 'c \<Rightarrow> thread_status \<times> 'c" where
  "delete_checkpoint_thread V user cid c =
     (if \<not> sv_enabled V then (Disabled, c)
      else if \<not> sv_opens V then (ThreadFailed None, c)
      else case sv_delete V (thread_of user cid) c of
        (False, c1) \<Rightarrow> (ThreadFailed None, c1)
      | (True, c1) \<Rightarrow>
          (case sv_has V (thread_of user cid) c1 of
             None \<Rightarrow> (ThreadFailed None, c1)
           | Some True \<Rightarrow> (ThreadFailed (Some True), c1)
           | Some False \<Rightarrow> (ThreadDeleted, c1)))"

fun delete_threads :: "'c saver \<Rightarrow> string \<Rightarrow> string list \<Rightarrow> 'c \<Rightarrow> thread_status list \<times> 'c" where
  "delete_threads V user [] c = ([], c)"
| "delete_threads V user (cid # cids) c =
     (let (st, c1) = delete_checkpoint_thread V user cid c; (sts, c2) = delete_threads V user cids c1 in (st # sts, c2))"

definition thread_ok :: "thread_status \<Rightarrow> bool" where
  "thread_ok st \<longleftrightarrow> st = Disabled \<or> st = ThreadDeleted"

definition erase_threads :: "'c saver \<Rightarrow> string \<Rightarrow> string list \<Rightarrow> 'c world \<Rightarrow> thread_status list layer \<times> 'c world" where
  "erase_threads V user cids w =
     (let (sts, c) = delete_threads V user cids (wd_checkpoints w) in
      (if list_all thread_ok sts then Erased sts else Residual sts, w\<lparr>wd_checkpoints := c\<rparr>))"

definition erase_store_rows :: "bool \<Rightarrow> string \<Rightarrow> 'c world \<Rightarrow> (row_counts option \<times> row_counts) layer \<times> 'c world" where
  "erase_store_rows go user w =
     (if \<not> go then (Kept (Some (None, privacy_inventory (wd_store w) user)), w)
      else case delete_all_user_data user (wd_store w) of
        (Inl e, s) \<Rightarrow> (Raised (RowsRefused e), w\<lparr>wd_store := s\<rparr>)
      | (Inr (cids, before, rest), s) \<Rightarrow>
          (if inventory_total rest = 0 then Erased (Some before, rest) else Residual (Some before, rest), w\<lparr>wd_store := s\<rparr>))"

definition erase_accounts :: "bool \<Rightarrow> string \<Rightarrow> 'c world \<Rightarrow> (nat \<times> account_counts \<times> account_counts) layer \<times> 'c world" where
  "erase_accounts go user w =
     (if \<not> go then (Kept None, w)
      else case delete_user_id (wd_auth w) user of
        (Inl e, db) \<Rightarrow> (Raised (AccountsRefused e), w\<lparr>wd_auth := db\<rparr>)
      | (Inr n, db) \<Rightarrow>
          (let l = (n, auth_inventory (wd_auth w) user, auth_inventory db user) in
           (if snd (snd (auth_inventory db user)) = 0 then Erased l else Residual l, w\<lparr>wd_auth := db\<rparr>)))"

definition erase_hot :: "bool \<Rightarrow> string \<Rightarrow> 'c world \<Rightarrow> nat layer \<times> 'c world" where
  "erase_hot go user w =
     (if \<not> go then (Kept None, w)
      else (let h = clear_user (wd_hot w) (Some user); n = session_slices h (Some user) in
        (if n = 0 then Erased n else Residual n, w\<lparr>wd_hot := h\<rparr>)))"

section \<open>The route\<close>

record 'c erasure_call =
  ec_lib :: memory_lib
  ec_saver :: "'c saver"
  ec_process :: process
  ec_now :: time
  ec_available :: bool
  ec_moments :: "memory_moment \<times> memory_moment \<times> memory_moment"

definition erase_layers :: "'c erasure_call \<Rightarrow> string \<Rightarrow> 'c world \<Rightarrow> erasure_report \<times> 'c world" where
  "erase_layers E user w0 =
     (let cids = map (cv_id \<circ> fst) (list_conversations (wd_store w0) user);
          (m, w1) = erase_memory (ec_lib E) (ec_available E) (ec_moments E) user w0;
          (t, w2) = erase_threads (ec_saver E) user cids w1;
          (r, w3) = erase_store_rows (layer_ok m \<and> layer_ok t) user w2;
          (a, w4) = erase_accounts (layer_ok m \<and> layer_ok t \<and> layer_ok r) user w3;
          (h, w5) = erase_hot (layer_ok m \<and> layer_ok t \<and> layer_ok r \<and> layer_ok a) user w4 in
      (\<lparr>er_memory = m, er_threads = t, er_rows = r, er_accounts = a, er_hot = h\<rparr>, w5))"

definition report_ok :: "erasure_report \<Rightarrow> bool" where
  "report_ok R \<longleftrightarrow> layer_ok (er_memory R) \<and> layer_ok (er_threads R) \<and> layer_ok (er_rows R) \<and> layer_ok (er_accounts R)
     \<and> layer_ok (er_hot R)"

definition forget_me :: "'c erasure_call \<Rightarrow> string \<Rightarrow> 'c world \<Rightarrow> erasure_reply \<times> 'c world" where
  "forget_me E user w =
     (case begin_privacy_erasure (ec_process E) user (ec_now E) (wd_store w) of
        (Inl e, s) \<Rightarrow> (Busy e, w\<lparr>wd_store := s\<rparr>)
      | (Inr _, s) \<Rightarrow>
          (let (R, w1) = erase_layers E user (w\<lparr>wd_store := s\<rparr>) in
           (Forgotten (report_ok R) R, w1\<lparr>wd_store := end_privacy_erasure user (wd_store w1)\<rparr>)))"

section \<open>Deleting conversations\<close>

text \<open>
  \<open>DELETE /api/conversations/<cid>\<close> and \<open>/api/clear_history\<close>: the result of the checkpoint thread is ignored.
\<close>

datatype clearing = Cleared | NotFound | TurnRunning store_error

definition forget_thread :: "'c erasure_call \<Rightarrow> string \<Rightarrow> string \<Rightarrow> 'c world \<Rightarrow> 'c world" where
  "forget_thread E user cid w =
     w\<lparr>wd_checkpoints := snd (delete_checkpoint_thread (ec_saver E) user cid (wd_checkpoints w))\<rparr>"

definition delete_conversation_route :: "'c erasure_call \<Rightarrow> string \<Rightarrow> string \<Rightarrow> 'c world \<Rightarrow> clearing \<times> 'c world" where
  "delete_conversation_route E user cid w =
     (case delete_conversation (ec_process E) user cid (ec_now E) (wd_store w) of
        (Inl e, s) \<Rightarrow> (TurnRunning e, w\<lparr>wd_store := s\<rparr>)
      | (Inr False, s) \<Rightarrow> (NotFound, w\<lparr>wd_store := s\<rparr>)
      | (Inr True, s) \<Rightarrow>
          (Cleared, forget_thread E user cid (w\<lparr>wd_store := s, wd_hot := clear_session (wd_hot w) (Some user) (Some cid)\<rparr>)))"

definition clear_history_route ::
  "'c erasure_call \<Rightarrow> time \<Rightarrow> string \<Rightarrow> string option \<Rightarrow> 'c world \<Rightarrow> clearing \<times> 'c world" where
  "clear_history_route E later user conv w =
     (case nonempty conv of
        Some cid \<Rightarrow>
          if get_conversation (wd_store w) user cid = None then (NotFound, w)
          else (case clear_conversation_messages (ec_process E) user cid (ec_now E) later (wd_store w) of
             (Inl e, s) \<Rightarrow> (TurnRunning e, w\<lparr>wd_store := s\<rparr>)
           | (Inr _, s) \<Rightarrow>
               (Cleared, forget_thread E user cid (w\<lparr>wd_store := s, wd_hot := clear_session (wd_hot w) (Some user) (Some cid)\<rparr>)))
      | None \<Rightarrow>
          (case delete_all_conversations (ec_process E) user (ec_now E) (wd_store w) of
             (Inl e, s) \<Rightarrow> (TurnRunning e, w\<lparr>wd_store := s\<rparr>)
           | (Inr cids, s) \<Rightarrow>
               (let w1 = fold (forget_thread E user) cids (w\<lparr>wd_store := s\<rparr>) in
                (Cleared, w1\<lparr>wd_hot := clear_user (wd_hot w1) (Some user)\<rparr>))))"

section \<open>What an inventory of zero means\<close>

text \<open>The legacy file does not change while the inventory reads it.\<close>

definition quiet :: "memory_lib \<Rightarrow> memory_moment \<Rightarrow> bool" where
  "quiet L k \<longleftrightarrow> still_legacy L (mm_residual k) (mm_present k) (mm_tries k)"

abbreviation of_others :: "string \<Rightarrow> memory_db \<Rightarrow> bool" where
  "of_others user \<equiv> no_row (\<lambda>d md. meta_get md ''user_id'' = JStr user \<and> True)"

definition memory_empty :: "string \<Rightarrow> 'c world \<Rightarrow> bool" where
  "memory_empty user w \<longleftrightarrow> of_others (strip user) (wd_memory w) \<and> (\<forall>b \<in> set (wd_buffers w). fst (fst b) \<noteq> strip user)
     \<and> (\<forall>p \<in> set (gd_pauses (wd_gate w)). pz_user p \<noteq> strip user)"

lemma residue_zero:
  assumes "memory_residue L k user w = (Inr i, w1)" "memory_total i = 0" "quiet L k"
  shows "memory_empty user w1"
proof -
  let ?u = "strip user"
  obtain items db old db1 where u: "?u \<noteq> []" and get: "get_items L (mm_get k) None (of_user ?u) (wd_memory w) = (Inr items, db)"
    and old: "legacy_residual_records L (mm_residual k) (mm_present k) (mm_tries k) (of_user ?u) db = (Inr old, db1)"
    and w1: "w1 = w\<lparr>wd_memory := db1\<rparr>"
    and i: "mi_records i = length items" "mi_buffers i = length (filter (\<lambda>b. fst (fst b) = ?u) (wd_buffers w))"
      "mi_legacy i = length old" "mi_pauses i = conversation_memory_pause_count (JStr ?u) (wd_gate w)"
    using assms(1) by (auto simp: memory_residue_def Let_def split: if_splits prod.splits sum.splits)
  from assms(2) i have nil: "items = []" "old = []" "filter (\<lambda>b. fst (fst b) = ?u) (wd_buffers w) = []"
    "conversation_memory_pause_count (JStr ?u) (wd_gate w) = 0" by (auto simp: memory_total_def)
  have "of_others ?u db" by (rule get_no_row [OF get]) (simp add: nil(1) no_item_def)
  then have "of_others ?u db1" using residual_no_row [OF old, where Q = "\<lambda>_ _. True"] nil(2) assms(3) by (simp add: no_item_def quiet_def)
  moreover have "clean_text (JStr ?u) = ?u" by (simp add: clean_text_def strip_strip)
  with nil(4) u have "filter (\<lambda>p. pz_user p = ?u) (gd_pauses (wd_gate w)) = []"
    by (simp add: conversation_memory_pause_count_def memory_pause_count_def)
  ultimately show ?thesis using nil(3) by (simp add: memory_empty_def w1 filter_empty_conv)
qed

section \<open>One layer after the other\<close>

text \<open>What the memory layer leaves alone.\<close>

definition beside_memory :: "string \<Rightarrow> 'c world \<Rightarrow> 'c world \<Rightarrow> bool" where
  "beside_memory user w w1 \<longleftrightarrow> wd_store w1 = wd_store w \<and> wd_checkpoints w1 = wd_checkpoints w \<and> wd_auth w1 = wd_auth w
     \<and> wd_hot w1 = wd_hot w \<and> gd_frozen (wd_gate w1) = gd_frozen (wd_gate w)
     \<and> (\<forall>v. v \<noteq> strip user \<longrightarrow> filter (\<lambda>b. fst (fst b) = v) (wd_buffers w1) = filter (\<lambda>b. fst (fst b) = v) (wd_buffers w)
          \<and> filter (\<lambda>p. pz_user p = v) (gd_pauses (wd_gate w1)) = filter (\<lambda>p. pz_user p = v) (gd_pauses (wd_gate w)))"

lemma beside_refl: "beside_memory user w w"
  by (simp add: beside_memory_def)

lemma beside_trans: "beside_memory user w w1 \<Longrightarrow> beside_memory user w1 w2 \<Longrightarrow> beside_memory user w w2"
  by (simp add: beside_memory_def)

lemma filter_others: "v \<noteq> u \<Longrightarrow> filter (\<lambda>x. g x \<noteq> u \<and> g x = v) xs = filter (\<lambda>x. g x = v) xs"
  by (auto intro: filter_cong)

lemma beside_forget:
  assumes "memory_forget L k user w = (r, w1)"
  shows "beside_memory user w w1"
proof -
  have clean: "clean_text (JStr (strip user)) = strip user" by (simp add: clean_text_def strip_strip)
  show ?thesis
    using assms
    by (auto simp: memory_forget_def forget_buffers_def forget_conversation_memory_pauses_def forget_memory_pauses_def Let_def clean
        beside_memory_def filter_others split: if_splits prod.splits sum.splits)
qed

lemma beside_residue: "memory_residue L k user w = (r, w1) \<Longrightarrow> beside_memory user w w1"
  by (auto simp: memory_residue_def Let_def beside_memory_def split: if_splits prod.splits sum.splits)

lemma beside_erase: "erase_memory L av ks user w = (l, w1) \<Longrightarrow> beside_memory user w w1"
  by (auto simp: erase_memory_def Let_def beside_refl split: prod.splits sum.splits if_splits
      intro: beside_residue beside_forget beside_trans dest!: beside_residue beside_forget)

lemma erased_memory:
  assumes "erase_memory L av (k1, k2, k3) user w = (l, w1)" "layer_ok l" "quiet L k3"
  shows "memory_empty user w1"
proof -
  obtain rest w2 where "memory_residue L k3 user w2 = (Inr rest, w1)" "memory_total rest = 0"
    using assms(1,2) by (auto simp: erase_memory_def Let_def layer_ok_def split: prod.splits sum.splits if_splits)
  then show ?thesis using assms(3) by (rule residue_zero)
qed

text \<open>The saver, as far as the erasure relies on it: a deleted thread is not brought back by the deletion of another.\<close>

definition stays_deleted :: "'c saver \<Rightarrow> bool" where
  "stays_deleted V \<longleftrightarrow> (\<forall>t u c. sv_has V t c = Some False \<longrightarrow> sv_has V t (snd (sv_delete V u c)) = Some False)"

lemma deletion_keeps_deleted:
  assumes "stays_deleted V" "sv_has V t c = Some False"
  shows "sv_has V t (snd (delete_threads V user cids c)) = Some False"
  using assms(2)
proof (induction cids arbitrary: c)
  case (Cons cid cids)
  have "sv_has V t (snd (delete_checkpoint_thread V user cid c)) = Some False"
    using assms(1) Cons.prems unfolding stays_deleted_def
    by (auto simp: delete_checkpoint_thread_def split: prod.split bool.split option.split) (metis snd_conv)+
  with Cons.IH show ?case by (simp add: case_prod_unfold Let_def)
qed simp

lemma deleted_threads:
  assumes "stays_deleted V" "sv_enabled V"
  shows "list_all thread_ok (fst (delete_threads V user cids c)) \<Longrightarrow> cid \<in> set cids
    \<Longrightarrow> sv_has V (thread_of user cid) (snd (delete_threads V user cids c)) = Some False"
proof (induction cids arbitrary: c)
  case (Cons x cids)
  show ?case
  proof (cases "cid = x")
    case True
    from Cons.prems have "thread_ok (fst (delete_checkpoint_thread V user x c))" by (simp add: case_prod_unfold Let_def)
    then have "sv_has V (thread_of user x) (snd (delete_checkpoint_thread V user x c)) = Some False"
      using assms(2) by (auto simp: thread_ok_def delete_checkpoint_thread_def split: if_splits prod.splits bool.splits option.splits)
    from deletion_keeps_deleted [OF assms(1) this] True show ?thesis by (simp add: case_prod_unfold Let_def)
  next
    case False
    with Cons show ?thesis by (simp add: case_prod_unfold Let_def)
  qed
qed simp

text \<open>The barrier touches the turns, leases and jobs of its user only.\<close>

definition same_content :: "store \<Rightarrow> store \<Rightarrow> bool" where
  "same_content s s1 \<longleftrightarrow> st_conversations s1 = st_conversations s \<and> st_messages s1 = st_messages s \<and> st_snapshots s1 = st_snapshots s
     \<and> st_requests s1 = st_requests s \<and> st_favorites s1 = st_favorites s \<and> st_forks s1 = st_forks s
     \<and> map tn_id (st_turns s1) = map tn_id (st_turns s)"

definition same_for :: "string \<Rightarrow> store \<Rightarrow> store \<Rightarrow> bool" where
  "same_for v s s1 \<longleftrightarrow> privacy_inventory s1 v = privacy_inventory s v \<and> conversation_ids s1 v = conversation_ids s v
     \<and> filter (\<lambda>t. tn_user t = v) (st_turns s1) = filter (\<lambda>t. tn_user t = v) (st_turns s)
     \<and> filter (\<lambda>m. ms_user m = v) (st_messages s1) = filter (\<lambda>m. ms_user m = v) (st_messages s)"

lemma filter_update_where:
  assumes "\<And>x. P x \<Longrightarrow> g x = user" "\<And>x. g (f x) = g x" "v \<noteq> user"
  shows "filter (\<lambda>x. g x = v) (update_where P f xs) = filter (\<lambda>x. g x = v) xs"
  using assms by (induction xs) (auto simp: update_where_def)

lemma filter_delete_where: "v \<noteq> user \<Longrightarrow> filter (\<lambda>x. g x = v) (delete_where (\<lambda>x. g x = user) xs) = filter (\<lambda>x. g x = v) xs"
  by (auto simp: delete_where_def intro: filter_cong)

lemma fail_running_same:
  "same_content s (fail_running user tid now s)"
  "v \<noteq> user \<Longrightarrow> same_for v s (fail_running user tid now s)"
proof -
  have "filter (\<lambda>t. tn_user t = v) (st_turns (fail_running user tid now s)) = filter (\<lambda>t. tn_user t = v) (st_turns s)" if "v \<noteq> user"
    unfolding turns_fail_running by (rule filter_update_where [OF _ _ that]) auto
  moreover have "map tn_id (st_turns (fail_running user tid now s)) = map tn_id (st_turns s)"
    unfolding turns_fail_running by (simp add: map_update_where)
  ultimately show "same_content s (fail_running user tid now s)" "v \<noteq> user \<Longrightarrow> same_for v s (fail_running user tid now s)"
    by (simp_all add: same_content_def same_for_def privacy_inventory_def conversation_ids_def fail_running_def)
qed

lemma reap_same:
  assumes "reap_user_leases p user now ls s = Inr s1"
  shows "same_content s s1" "v \<noteq> user \<Longrightarrow> same_for v s s1"
  using assms
proof (induction p user now ls s rule: reap_user_leases.induct)
  case (2 p user now l status ls s)
  {
    case 1
    then show ?case using 2(1) fail_running_same(1) [of s user "lz_turn l" now] by (auto simp: same_content_def split: if_splits)
  next
    case 2
    then show ?case using "2.IH"(2) fail_running_same(2) [of v user s "lz_turn l" now] by (auto simp: same_for_def split: if_splits)
  }
qed (simp_all add: same_content_def same_for_def)

lemma begin_same:
  assumes "begin_privacy_erasure p user now s = (Inr u, s1)"
  shows "same_content s s1" "v \<noteq> user \<Longrightarrow> same_for v s s1" "user \<in> fst ` set (st_erasures s1)"
proof -
  obtain s0 where reap: "reap_user_leases p user now
        (map (\<lambda>l. (l, lease_status s l)) (filter (\<lambda>l. lz_user l = user) (st_leases s))) s = Inr s0"
    and s1: "st_conversations s1 = st_conversations s0" "st_messages s1 = st_messages s0" "st_snapshots s1 = st_snapshots s0"
      "st_requests s1 = st_requests s0" "st_favorites s1 = st_favorites s0" "st_forks s1 = st_forks s0" "st_turns s1 = st_turns s0"
      "st_leases s1 = delete_where (\<lambda>l. lz_user l = user) (st_leases s0)" "st_erasures s1 = st_erasures s0 @ [(user, now)]"
    and jobs: "st_jobs s1 = st_jobs s0 \<or> st_jobs s1 = update_where (\<lambda>j. jb_user j = user \<and> jb_status j = JRunning)
        (\<lambda>j. j\<lparr>jb_status := JPending, jb_claimed := None, jb_lease := None, jb_updated := now\<rparr>) (st_jobs s0)"
    using assms
    by (auto simp: begin_privacy_erasure_def transact_Inr and_then_Inr split: if_splits option.splits)
  from reap_same(1) [OF reap] s1 show "same_content s s1" by (simp add: same_content_def)
  show "user \<in> fst ` set (st_erasures s1)" by (simp add: s1(9))
  assume v: "v \<noteq> user"
  have "filter (\<lambda>j. jb_user j = v) (st_jobs s1) = filter (\<lambda>j. jb_user j = v) (st_jobs s0)"
    using jobs by (elim disjE) (simp, erule ssubst, rule filter_update_where [OF _ _ v], auto)
  with reap_same(2) [OF reap v] s1 show "same_for v s s1"
    by (simp add: same_for_def privacy_inventory_def conversation_ids_def filter_delete_where [OF v])
qed

lemma erase_layers_parts:
  assumes "erase_layers E user w0 = (R, w5)"
  obtains w1 w2 w3 w4 where
    "erase_memory (ec_lib E) (ec_available E) (ec_moments E) user w0 = (er_memory R, w1)"
    "erase_threads (ec_saver E) user (map (cv_id \<circ> fst) (list_conversations (wd_store w0) user)) w1 = (er_threads R, w2)"
    "erase_store_rows (layer_ok (er_memory R) \<and> layer_ok (er_threads R)) user w2 = (er_rows R, w3)"
    "erase_accounts (layer_ok (er_memory R) \<and> layer_ok (er_threads R) \<and> layer_ok (er_rows R)) user w3 = (er_accounts R, w4)"
    "erase_hot (layer_ok (er_memory R) \<and> layer_ok (er_threads R) \<and> layer_ok (er_rows R) \<and> layer_ok (er_accounts R)) user w4
       = (er_hot R, w5)"
  using assms unfolding erase_layers_def Let_def by (auto split: prod.splits)

text \<open>Each layer as an equation of the world.\<close>

lemma rows_layer:
  assumes "erase_store_rows go user w = (l, w1)"
  shows "w1 = (if go then w\<lparr>wd_store := erased_rows user (wd_store w)\<rparr> else w)" "layer_ok l \<longleftrightarrow> go"
  using assms erased_rows_total [of user "wd_store w"]
  by (auto simp: erase_store_rows_def delete_all_user_data_eq layer_ok_def split: if_splits)

lemma accounts_layer:
  assumes "erase_accounts go user w = (l, w1)"
  shows "w1 = (if go then w\<lparr>wd_auth := snd (delete_user_id (wd_auth w) user)\<rparr> else w)" "layer_ok l \<longleftrightarrow> go"
proof -
  have "delete_user_id (wd_auth w) user = (Inr (length (ad_users (wd_auth w)) - length (filter (\<lambda>a. ac_user a \<noteq> user) (ad_users (wd_auth w)))),
      snd (delete_user_id (wd_auth w) user))"
    by (simp add: delete_user_id_def Let_def list_ex_iff)
  moreover have "snd (snd (auth_inventory (snd (delete_user_id (wd_auth w) user)) user)) = 0"
    by (simp add: auth_inventory_def delete_user_eq Let_def)
  ultimately show "w1 = (if go then w\<lparr>wd_auth := snd (delete_user_id (wd_auth w) user)\<rparr> else w)" "layer_ok l \<longleftrightarrow> go"
    using assms by (auto simp: erase_accounts_def layer_ok_def Let_def split: if_splits prod.splits sum.splits)
qed

lemma hot_layer:
  assumes "erase_hot go user w = (l, w1)"
  shows "w1 = (if go then w\<lparr>wd_hot := clear_user (wd_hot w) (Some user)\<rparr> else w)" "layer_ok l \<longleftrightarrow> go"
proof -
  have "session_slices (clear_user (wd_hot w) (Some user)) (Some user) = 0"
    using clear_user_slices [of "wd_hot w" "Some user"] by (simp add: clear_session_def)
  then show "w1 = (if go then w\<lparr>wd_hot := clear_user (wd_hot w) (Some user)\<rparr> else w)" "layer_ok l \<longleftrightarrow> go"
    using assms by (auto simp: erase_hot_def layer_ok_def Let_def split: if_splits)
qed

lemma threads_layer:
  assumes "erase_threads V user cids w = (l, w1)"
  shows "w1 = w\<lparr>wd_checkpoints := snd (delete_threads V user cids (wd_checkpoints w))\<rparr>"
    "layer_ok l \<longleftrightarrow> list_all thread_ok (fst (delete_threads V user cids (wd_checkpoints w)))"
  using assms by (auto simp: erase_threads_def layer_ok_def split: prod.splits if_splits)

lemma listed_ids: "set (map (cv_id \<circ> fst) (list_conversations s user)) = set (conversation_ids s user)"
  by (auto simp: list_conversations_def conversation_ids_def)

text \<open>All layers at once: the memory and the threads decide, and the rest follows them.\<close>

lemma erase_layers_outcome:
  assumes "erase_layers E user w0 = (R, w5)"
  obtains w1 where
    "erase_memory (ec_lib E) (ec_available E) (ec_moments E) user w0 = (er_memory R, w1)" "beside_memory user w0 w1"
    "layer_ok (er_threads R) \<longleftrightarrow> list_all thread_ok (fst (delete_threads (ec_saver E) user
       (map (cv_id \<circ> fst) (list_conversations (wd_store w0) user)) (wd_checkpoints w0)))"
    "wd_checkpoints w5 = snd (delete_threads (ec_saver E) user (map (cv_id \<circ> fst) (list_conversations (wd_store w0) user)) (wd_checkpoints w0))"
    "wd_memory w5 = wd_memory w1" "wd_buffers w5 = wd_buffers w1" "wd_gate w5 = wd_gate w1"
    "report_ok R \<longleftrightarrow> layer_ok (er_memory R) \<and> layer_ok (er_threads R)"
    "wd_store w5 = (if report_ok R then erased_rows user (wd_store w0) else wd_store w0)"
    "wd_auth w5 = (if report_ok R then snd (delete_user_id (wd_auth w0) user) else wd_auth w0)"
    "wd_hot w5 = (if report_ok R then clear_user (wd_hot w0) (Some user) else wd_hot w0)"
proof -
  from erase_layers_parts [OF assms] obtain w1 w2 w3 w4 where
    m: "erase_memory (ec_lib E) (ec_available E) (ec_moments E) user w0 = (er_memory R, w1)"
    and t: "erase_threads (ec_saver E) user (map (cv_id \<circ> fst) (list_conversations (wd_store w0) user)) w1 = (er_threads R, w2)"
    and r: "erase_store_rows (layer_ok (er_memory R) \<and> layer_ok (er_threads R)) user w2 = (er_rows R, w3)"
    and a: "erase_accounts (layer_ok (er_memory R) \<and> layer_ok (er_threads R) \<and> layer_ok (er_rows R)) user w3 = (er_accounts R, w4)"
    and h: "erase_hot (layer_ok (er_memory R) \<and> layer_ok (er_threads R) \<and> layer_ok (er_rows R) \<and> layer_ok (er_accounts R)) user w4
       = (er_hot R, w5)" .
  note beside = beside_erase [OF m]
  then have w1: "wd_store w1 = wd_store w0" "wd_checkpoints w1 = wd_checkpoints w0" "wd_auth w1 = wd_auth w0" "wd_hot w1 = wd_hot w0"
    by (simp_all add: beside_memory_def)
  note outs = threads_layer [OF t] rows_layer [OF r] accounts_layer [OF a] hot_layer [OF h]
  have ok: "report_ok R \<longleftrightarrow> layer_ok (er_memory R) \<and> layer_ok (er_threads R)"
    unfolding report_ok_def using outs(4,6,8) by blast
  show thesis
    by (rule that [OF m beside]) (use outs(2) in \<open>simp add: w1\<close>, simp_all only: ok simp_thms outs(1,3,4,5,6,7), simp_all add: w1)
qed

section \<open>What the erasure promises\<close>

text \<open>Nothing of the user is left in any layer.\<close>

definition nothing_left :: "string \<Rightarrow> 'c world \<Rightarrow> bool" where
  "nothing_left user w \<longleftrightarrow> memory_empty user w \<and> inventory_total (privacy_inventory (wd_store w) user) = 0
     \<and> (\<forall>a \<in> set (ad_users (wd_auth w)). ac_user a \<noteq> user) \<and> (\<forall>s \<in> set (ad_sessions (wd_auth w)). au_user s \<noteq> user)
     \<and> session_slices (wd_hot w) (Some user) = 0"

definition barred :: "string \<Rightarrow> 'c world \<Rightarrow> bool" where
  "barred user w \<longleftrightarrow> user \<in> fst ` set (st_erasures (wd_store w))"

lemma forget_me_cases:
  obtains e where "forget_me E user w = (Busy e, w)" "begin_privacy_erasure (ec_process E) user (ec_now E) (wd_store w) = (Inl e, wd_store w)"
  | s R w1 where "begin_privacy_erasure (ec_process E) user (ec_now E) (wd_store w) = (Inr (), s)"
      "erase_layers E user (w\<lparr>wd_store := s\<rparr>) = (R, w1)"
      "forget_me E user w = (Forgotten (report_ok R) R, w1\<lparr>wd_store := end_privacy_erasure user (wd_store w1)\<rparr>)"
proof (cases "begin_privacy_erasure (ec_process E) user (ec_now E) (wd_store w)")
  case (Pair r s)
  show thesis
  proof (cases r)
    case (Inl e)
    with Pair have "s = wd_store w" by (auto simp: begin_privacy_erasure_def transact_Inl)
    with Pair Inl that(1) [of e] show thesis by (simp add: forget_me_def)
  next
    case (Inr u)
    obtain R w1 where "erase_layers E user (w\<lparr>wd_store := s\<rparr>) = (R, w1)" by fastforce
    with Pair Inr that(2) [of s R w1] show thesis by (simp add: forget_me_def)
  qed
qed

lemma inventory_end [simp]: "privacy_inventory (end_privacy_erasure user s) v = privacy_inventory s v"
  "conversation_ids (end_privacy_erasure user s) v = conversation_ids s v"
  "st_turns (end_privacy_erasure user s) = st_turns s" "st_messages (end_privacy_erasure user s) = st_messages s"
  by (simp_all add: end_privacy_erasure_def privacy_inventory_def conversation_ids_def)

lemma not_barred [simp]: "\<not> barred user (w\<lparr>wd_store := end_privacy_erasure user s\<rparr>)"
  by (auto simp: barred_def end_privacy_erasure_def delete_where_def)

text \<open>A finished erasure, layer by layer.\<close>

lemma finished_layers:
  assumes "begin_privacy_erasure (ec_process E) user (ec_now E) (wd_store w) = (Inr (), s)"
    and layers: "erase_layers E user (w\<lparr>wd_store := s\<rparr>) = (R, w1)" and ok: "report_ok R"
    and "quiet (ec_lib E) (snd (snd (ec_moments E)))"
  shows "nothing_left user (w1\<lparr>wd_store := end_privacy_erasure user (wd_store w1)\<rparr>)"
    and "stays_deleted (ec_saver E) \<Longrightarrow> sv_enabled (ec_saver E) \<Longrightarrow> cid \<in> set (conversation_ids (wd_store w) user)
      \<Longrightarrow> sv_has (ec_saver E) (thread_of user cid) (wd_checkpoints w1) = Some False"
proof -
  obtain k1 k2 k3 where ks: "ec_moments E = (k1, k2, k3)" by (cases "ec_moments E")
  let ?w0 = "w\<lparr>wd_store := s\<rparr>"
  from erase_layers_outcome [OF layers] obtain v where
    m: "erase_memory (ec_lib E) (ec_available E) (ec_moments E) user ?w0 = (er_memory R, v)" and "beside_memory user ?w0 v"
    and t: "layer_ok (er_threads R) \<longleftrightarrow> list_all thread_ok (fst (delete_threads (ec_saver E) user
       (map (cv_id \<circ> fst) (list_conversations (wd_store ?w0) user)) (wd_checkpoints ?w0)))"
    and c: "wd_checkpoints w1 = snd (delete_threads (ec_saver E) user (map (cv_id \<circ> fst) (list_conversations (wd_store ?w0) user)) (wd_checkpoints ?w0))"
    and v: "wd_memory w1 = wd_memory v" "wd_buffers w1 = wd_buffers v" "wd_gate w1 = wd_gate v"
    and both: "report_ok R \<longleftrightarrow> layer_ok (er_memory R) \<and> layer_ok (er_threads R)"
    and rest: "wd_store w1 = (if report_ok R then erased_rows user (wd_store ?w0) else wd_store ?w0)"
      "wd_auth w1 = (if report_ok R then snd (delete_user_id (wd_auth ?w0) user) else wd_auth ?w0)"
      "wd_hot w1 = (if report_ok R then clear_user (wd_hot ?w0) (Some user) else wd_hot ?w0)" .
  have "memory_empty user v" using erased_memory [OF m [unfolded ks]] both ok assms(4) ks by simp
  then have "memory_empty user w1" by (simp add: memory_empty_def v)
  moreover have "session_slices (clear_user (wd_hot w) (Some user)) (Some user) = 0"
    using clear_user_slices [of "wd_hot w" "Some user"] by (simp add: clear_session_def)
  ultimately show "nothing_left user (w1\<lparr>wd_store := end_privacy_erasure user (wd_store w1)\<rparr>)"
    using ok by (simp add: nothing_left_def rest erased_rows_total delete_user_eq memory_empty_def)
  assume stays: "stays_deleted (ec_saver E)" and on: "sv_enabled (ec_saver E)" and cid: "cid \<in> set (conversation_ids (wd_store w) user)"
  have "conversation_ids s user = conversation_ids (wd_store w) user"
    using begin_same(1) [OF assms(1)] by (simp add: same_content_def conversation_ids_def)
  with cid have "cid \<in> set (map (cv_id \<circ> fst) (list_conversations (wd_store ?w0) user))" by (simp only: listed_ids) simp
  with deleted_threads [OF stays on] t both ok c
  show "sv_has (ec_saver E) (thread_of user cid) (wd_checkpoints w1) = Some False" by simp
qed



section \<open>An erasure that can finish does\<close>

definition settled_moment :: "memory_moment \<Rightarrow> bool" where
  "settled_moment k \<longleftrightarrow> at_rest (mm_get k) \<and> at_rest (mm_delete k) \<and> at_rest (mm_residual k) \<and> \<not> mm_present k \<and> mm_ledger k"

lemma settled_residue:
  assumes "settled_moment k" "strip user \<noteq> []"
  shows "\<exists>i. memory_residue L k user w = (Inr i, w) \<and> mi_legacy i = 0 \<and> mi_records i = length (rows_of_user (strip user) (wd_memory w))
    \<and> mi_buffers i = length (filter (\<lambda>b. fst (fst b) = strip user) (wd_buffers w))
    \<and> mi_pauses i = length (filter (\<lambda>p. pz_user p = strip user) (gd_pauses (wd_gate w)))"
proof -
  have "legacy_residual_records L (mm_residual k) (mm_present k) (mm_tries k) wh db = (Inr [], db)" for wh db
    using assms(1) sync_at_rest [of "mm_residual k" L False db] by (auto simp: settled_moment_def legacy_residual_records_def)
  then show ?thesis
    using assms
    by (simp add: memory_residue_def Let_def settled_moment_def get_user_at_rest rows_of_user_def user_of_def conversation_memory_pause_count_def memory_pause_count_def
        clean_text_def strip_strip)
qed

lemma settled_forget:
  assumes "settled_moment k" "strip user \<noteq> []"
  shows "\<exists>n w1. memory_forget L k user w = (Inr n, w1) \<and> rows_of_user (strip user) (wd_memory w1) = []
    \<and> (\<forall>b \<in> set (wd_buffers w1). fst (fst b) \<noteq> strip user) \<and> (\<forall>p \<in> set (gd_pauses (wd_gate w1)). pz_user p \<noteq> strip user)"
proof -
  let ?db = "wd_memory w" and ?ids = "map mr_id (rows_of_user (strip user) (wd_memory w))"
  have ids: "fst \<circ> item_of = mr_id" by (auto simp: item_of_def)
  obtain r db where del: "delete_items L (mm_delete k) (mm_now k) (Some ?ids) JNull ?db = (r, db)"
    by (cases "delete_items L (mm_delete k) (mm_now k) (Some ?ids) JNull ?db")
  then have parts: "r = Inr ()" "md_rows db = filter (\<lambda>r. mr_id r \<notin> set ?ids) (md_rows ?db)"
    using deleted_at_rest assms(1) by (auto simp: settled_moment_def)
  have clean: "rows_of_user (strip user) db = []" by (auto simp: rows_of_user_def parts(2) filter_empty_conv)
  show ?thesis
    using assms clean del
    by (auto simp: memory_forget_def Let_def settled_moment_def get_user_at_rest rows_of_user_def [symmetric] user_of_def [symmetric] ids parts(1) forget_buffers_def
        forget_conversation_memory_pauses_def forget_memory_pauses_def clean_text_def strip_strip)
qed

lemma settled_memory:
  assumes "settled_moment k1" "settled_moment k2" "settled_moment k3" "strip user \<noteq> []"
    and "erase_memory L True (k1, k2, k3) user w = (l, w3)"
  shows "layer_ok l"
proof -
  obtain i where i: "memory_residue L k1 user w = (Inr i, w)" using settled_residue [OF assms(1,4)] by blast
  obtain n w1 where f: "memory_forget L k2 user w = (Inr n, w1)" "rows_of_user (strip user) (wd_memory w1) = []"
    "\<forall>b \<in> set (wd_buffers w1). fst (fst b) \<noteq> strip user" "\<forall>p \<in> set (gd_pauses (wd_gate w1)). pz_user p \<noteq> strip user"
    using settled_forget [OF assms(2,4)] by blast
  obtain r where r: "memory_residue L k3 user w1 = (Inr r, w1)" "memory_total r = 0"
    using settled_residue [OF assms(3,4), of L w1] f(2-4) by (auto simp: memory_total_def filter_empty_conv)
  show ?thesis using assms(5) by (auto simp: erase_memory_def i f(1) r layer_ok_def Let_def)
qed

text \<open>A saver that is off, or that opens and deletes.\<close>

definition deletes :: "'c saver \<Rightarrow> bool" where
  "deletes V \<longleftrightarrow> (sv_enabled V \<longrightarrow> sv_opens V
     \<and> (\<forall>t c. fst (sv_delete V t c) \<and> sv_has V t (snd (sv_delete V t c)) = Some False))"

lemma deletes_threads: "deletes V \<Longrightarrow> list_all thread_ok (fst (delete_threads V user cids c))"
  by (induction cids arbitrary: c)
    (auto simp: deletes_def delete_checkpoint_thread_def thread_ok_def case_prod_unfold Let_def split: bool.split)


section \<open>Sample erasures\<close>

text \<open>A saver over the list of its threads, and a user with something in every layer.\<close>

definition list_saver :: "bool \<Rightarrow> string list saver" where
  "list_saver opens = \<lparr>sv_enabled = True, sv_opens = opens, sv_delete = (\<lambda>t c. (True, filter (\<lambda>x. x \<noteq> t) c)),
     sv_has = (\<lambda>t c. Some (t \<in> set c))\<rparr>"

definition calm_moment :: memory_moment where
  "calm_moment = \<lparr>mm_get = no_legacy, mm_delete = no_legacy, mm_residual = no_legacy, mm_present = False, mm_tries = [], mm_now = 9,
     mm_ledger = True\<rparr>"

definition sample_call :: "bool \<Rightarrow> string list erasure_call" where
  "sample_call opens = \<lparr>ec_lib = sample_memory, ec_saver = list_saver opens,
     ec_process = \<lparr>pr_owner = ''w1'', pr_host = ''h'', pr_pid = 7, pr_alive = (\<lambda>_. True)\<rparr>, ec_now = 100, ec_available = True,
     ec_moments = (calm_moment, calm_moment, calm_moment)\<rparr>"

definition sample_world :: "string list world" where
  "sample_world = \<lparr>wd_store = snd (create_conversation ''u'' None ''a'' ''1'' False ''c'' 1 empty_store),
     wd_memory = empty_memory\<lparr>md_rows := [memory_row_of (''m'', ''likes parks'', [(''user_id'', JStr ''u'')]) True]\<rparr>,
     wd_buffers = [((''u'', ''c''), 3), ((''v'', ''c''), 1)],
     wd_gate = \<lparr>gd_frozen = [\<lparr>fz_session = ''c'', fz_digest = ''d'', fz_content = ''near the river'', fz_kind = ''semantic'', fz_created = 2,
         fz_operation = replicate 32 CHR ''a'', fz_attempt = 0\<rparr>], gd_pauses = [\<lparr>pz_user = ''u'', pz_conversation = ''c'', pz_at = 2\<rparr>]\<rparr>,
     wd_checkpoints = [''u:c'', ''v:c''],
     wd_auth = \<lparr>ad_users = [\<lparr>ac_key = utf ''ann'', ac_name = utf ''Ann'', ac_user = ''u'', ac_display = [], ac_hash = ''h'', ac_created = 1\<rparr>],
         ad_sessions = [\<lparr>au_token = ''t'', au_user = ''u'', au_expires = 500\<rparr>]\<rparr>,
     wd_hot = \<lparr>sc_max = 4, sc_ttl = 60, sc_data = [((''u'', ''c''), new_session 1)]\<rparr>\<rparr>"

definition answers :: "bool \<Rightarrow> erasure_reply \<Rightarrow> bool" where
  "answers b r = (case r of Busy _ \<Rightarrow> False | Forgotten b' _ \<Rightarrow> b' = b)"

lemma sample_answers:
  "answers True (fst (forget_me (sample_call True) ''u'' sample_world))"
  "answers False (fst (forget_me (sample_call False) ''u'' sample_world))"
  by code_simp+

lemma answered: "answers b (fst x) \<Longrightarrow> \<exists>R. x = (Forgotten b R, snd x)"
  by (cases x; cases "fst x") (auto simp: answers_def)

lemma list_saver_lawful: "stays_deleted (list_saver b)" "b \<Longrightarrow> deletes (list_saver b)"
  by (simp_all add: stays_deleted_def deletes_def list_saver_def)

lemma calm_settled: "settled_moment calm_moment"
  by (simp add: settled_moment_def calm_moment_def at_rest_def no_legacy_def retirement_marker_def)




text \<open>
  What the erasure misses.  The candidates frozen in the ledger of pending writes, which quote the user, are not part
  of it.  When a conversation is deleted while its checkpoint thread cannot be, nobody is told, and the thread is
  out of the reach of a later erasure, which finishes.
\<close>

lemma erasure_keeps_frozen_candidates: "gd_frozen (wd_gate (snd (forget_me E user w))) = gd_frozen (wd_gate w)"
proof (cases rule: forget_me_cases [of E user w])
  case (2 s R w1)
  from erase_layers_parts [OF 2(2)] obtain w2 w3 w4 w5 where
    m: "erase_memory (ec_lib E) (ec_available E) (ec_moments E) user (w\<lparr>wd_store := s\<rparr>) = (er_memory R, w2)"
    and t: "erase_threads (ec_saver E) user (map (cv_id \<circ> fst) (list_conversations (wd_store (w\<lparr>wd_store := s\<rparr>)) user)) w2 = (er_threads R, w3)"
    and r: "erase_store_rows (layer_ok (er_memory R) \<and> layer_ok (er_threads R)) user w3 = (er_rows R, w4)"
    and a: "erase_accounts (layer_ok (er_memory R) \<and> layer_ok (er_threads R) \<and> layer_ok (er_rows R)) user w4 = (er_accounts R, w5)"
    and h: "erase_hot (layer_ok (er_memory R) \<and> layer_ok (er_threads R) \<and> layer_ok (er_rows R) \<and> layer_ok (er_accounts R)) user w5
       = (er_hot R, w1)" .
  have "wd_gate w1 = wd_gate w2"
    using threads_layer(1) [OF t] rows_layer(1) [OF r] accounts_layer(1) [OF a] hot_layer(1) [OF h] by simp
  then show ?thesis using beside_erase [OF m] by (simp add: 2(3) beside_memory_def)
qed simp

lemma erasure_misses_orphaned_thread:
  "let w = snd (delete_conversation_route (sample_call False) ''u'' ''c'' sample_world) in
     answers True (fst (forget_me (sample_call True) ''u'' w))
     \<and> ''u:c'' \<in> set (wd_checkpoints (snd (forget_me (sample_call True) ''u'' w)))"
  by code_simp

end
