(* ===== verification/UserMemory.thy ===== *)
theory UserMemory
  imports MemoryReads
begin

text \<open>
  \<open>AgentMemory\<close> of \<open>app/rag/agent_memory.py\<close>: what is remembered of a user, on top of the collection of
  \<open>MemoryStore\<close>.  The regular expressions over the texts (which secrets to redact, whether a text states a
  field's value, what is left of it without that field) are the record \<open>memory_rules\<close>: every theorem holds for
  whatever they answer.  Each call of the collection synchronises first; what it finds of the legacy
  file is \<open>mo_env\<close>, numbered by the calls of one operation.  Two processes share the collection; the rest of
  \<open>user_memory\<close> belongs to one process.
\<close>

section \<open>State and parameters\<close>

record memory_rules =
  ru_lib :: memory_lib
  ru_md5 :: "string \<Rightarrow> string"
  ru_secrets :: "string \<Rightarrow> string"
  ru_pii :: "string \<Rightarrow> string"
  ru_erases :: "string \<Rightarrow> string list"
  ru_states :: "string \<Rightarrow> string \<Rightarrow> string \<Rightarrow> bool"
  ru_mentions :: "string \<Rightarrow> string \<Rightarrow> bool"
  ru_without :: "string \<Rightarrow> string \<Rightarrow> string"

record moments =
  mo_env :: "nat \<Rightarrow> legacy_env"
  mo_present :: bool
  mo_tries :: "legacy_try list"
  mo_now :: int
  mo_iso :: string
  mo_stamp :: time
  mo_rating :: int

record user_memory =
  um_db :: memory_db
  um_accum :: "((string \<times> string) \<times> int) list"
  um_erased :: "((string \<times> string) \<times> time) list"
  um_retired :: "(string \<times> string) list"

definition no_memories :: user_memory where
  "no_memories = \<lparr>um_db = empty_memory, um_accum = [], um_erased = [], um_retired = []\<rparr>"

definition valid_user_id :: "json \<Rightarrow> string option" where
  "valid_user_id v =
     (case v of
        JStr s \<Rightarrow> (let uid = strip s in if uid = [] \<or> lower uid = ''default'' then None else Some uid)
      | _ \<Rightarrow> None)"

text \<open>A value as text in an f-string, and \<open>meta.get("mtype", "")\<close>; stored metadata holds no \<open>None\<close>.\<close>

definition meta_text :: "memory_rules \<Rightarrow> fields \<Rightarrow> string \<Rightarrow> string" where
  "meta_text R md name = (case meta_get md name of JNull \<Rightarrow> [] | v \<Rightarrow> str_of (ml_str (ru_lib R)) v)"

definition or_semantic :: "string \<Rightarrow> string" where
  "or_semantic t = (if t = [] then ''semantic'' else t)"

definition content_hash :: "memory_rules \<Rightarrow> string \<Rightarrow> string \<Rightarrow> string \<Rightarrow> string" where
  "content_hash R mtype user body = ru_md5 R (mtype @ ''|'' @ user @ ''|'' @ body)"

section \<open>Adding a record\<close>

record add_request =
  aq_text :: string
  aq_type :: string
  aq_session :: string
  aq_user :: json
  aq_role :: string
  aq_importance :: "int option"
  aq_key :: "string option"
  aq_extra :: fields

definition key_of :: "add_request \<Rightarrow> string option" where
  "key_of q = (case aq_key q of None \<Rightarrow> None | Some k \<Rightarrow> if k = [] then None else Some k)"

text \<open>A \<open>get\<close> whose first id is used and whose failure is passed over.\<close>

definition seek :: "memory_lib \<Rightarrow> legacy_env \<Rightarrow> json \<Rightarrow> memory_db \<Rightarrow> string option \<times> memory_db" where
  "seek L e wh db =
     (case get_items L e None wh db of
        (Inr (x # _), db1) \<Rightarrow> (Some (fst x), db1)
      | (_, db1) \<Rightarrow> (None, db1))"

definition importance_of :: "moments \<Rightarrow> add_request \<Rightarrow> int" where
  "importance_of M q =
     (case aq_importance q of
        Some n \<Rightarrow> n
      | None \<Rightarrow> if aq_type q = ''episodic'' then mo_rating M
                else if aq_type q = ''semantic'' then 7 else if aq_type q = ''reflection'' then 8 else 5)"

definition memory_id :: "memory_rules \<Rightarrow> string \<Rightarrow> string \<Rightarrow> add_request \<Rightarrow> string" where
  "memory_id R uid body q =
     (case key_of q of
        Some k \<Rightarrow> ''idem_'' @ ml_sha (ru_lib R) (uid @ ''|'' @ k)
      | None \<Rightarrow> aq_type q @ ''_'' @ content_hash R (aq_type q) uid body)"

text \<open>Provenance on top of the fields of the record: values are scalars or texts, and \<open>None\<close> is left out.\<close>

definition with_extra :: "memory_lib \<Rightarrow> fields \<Rightarrow> fields \<Rightarrow> fields" where
  "with_extra L md extra =
     fold (\<lambda>(k, v) acc. if v = JNull then acc else dict_set acc k (if is_scalar v then v else JStr (ml_str L v))) extra md"

definition memory_meta :: "memory_rules \<Rightarrow> moments \<Rightarrow> string \<Rightarrow> string \<Rightarrow> add_request \<Rightarrow> fields" where
  "memory_meta R M uid body q = with_extra (ru_lib R)
     ([(''mtype'', JStr (aq_type q)), (''session_id'', JStr (aq_session q)), (''user_id'', JStr uid), (''role'', JStr (aq_role q)),
       (''importance'', JInt (importance_of M q)), (''created_at'', JStr (mo_iso M)), (''last_access'', JStr (mo_iso M)),
       (''hash'', JStr (content_hash R (aq_type q) uid body)), (''pii_categories'', JStr (ru_pii R body))]
      @ (case key_of q of None \<Rightarrow> [] | Some k \<Rightarrow> [(''idempotency_key'', JStr k)])) (aq_extra q)"

definition same_memory :: "memory_rules \<Rightarrow> string \<Rightarrow> string \<Rightarrow> add_request \<Rightarrow> json" where
  "same_memory R uid body q =
     (case key_of q of
        Some k \<Rightarrow> where_both ''idempotency_key'' k ''user_id'' uid
      | None \<Rightarrow> where_both ''hash'' (content_hash R (aq_type q) uid body) ''user_id'' uid)"

text \<open>The insertion, and what its loser of a race reads back.\<close>

definition insert_record :: "memory_rules \<Rightarrow> moments \<Rightarrow> string \<Rightarrow> string \<Rightarrow> add_request \<Rightarrow> user_memory \<Rightarrow> string option \<times> user_memory" where
  "insert_record R M uid body q s =
     (case add_items (ru_lib R) (mo_env M 2) [memory_id R uid body q] [body] [JObj (memory_meta R M uid body q)] (um_db s) of
        (Inr _, db) \<Rightarrow>
          (Some (memory_id R uid body q),
           s\<lparr>um_db := db, um_accum := (let key = (uid, aq_session q); old = (case map_of (um_accum s) key of None \<Rightarrow> 0 | Some n \<Rightarrow> n) in
                 filter (\<lambda>b. fst b \<noteq> key) (um_accum s) @ [(key, old + importance_of M q)])\<rparr>)
      | (Inl _, db) \<Rightarrow>
          (let (won, db1) = seek (ru_lib R) (mo_env M 3) (same_memory R uid body q) db in (won, s\<lparr>um_db := db1\<rparr>)))"

definition kept_text :: "memory_rules \<Rightarrow> string \<Rightarrow> string" where
  "kept_text R t = strip (ru_secrets R (strip t))"

definition add_record :: "memory_rules \<Rightarrow> moments \<Rightarrow> add_request \<Rightarrow> user_memory \<Rightarrow> string option \<times> user_memory" where
  "add_record R M q s =
     (case valid_user_id (aq_user q) of
        None \<Rightarrow> (None, s)
      | Some uid \<Rightarrow>
          (let body = kept_text R (aq_text q) in
           if body = [] then (None, s)
           else (case (case key_of q of None \<Rightarrow> (None, um_db s)
                       | Some k \<Rightarrow> seek (ru_lib R) (mo_env M 0) (where_both ''idempotency_key'' k ''user_id'' uid) (um_db s)) of
               (Some i, db) \<Rightarrow> (Some i, s\<lparr>um_db := db\<rparr>)
             | (None, db) \<Rightarrow>
                 (case seek (ru_lib R) (mo_env M 1) (where_both ''hash'' (content_hash R (aq_type q) uid body) ''user_id'' uid) db of
                    (Some i, db1) \<Rightarrow> (Some i, s\<lparr>um_db := db1\<rparr>)
                  | (None, db1) \<Rightarrow> insert_record R M uid body q (s\<lparr>um_db := db1\<rparr>)))))"

section \<open>Erasing a field\<close>

text \<open>The keys of \<open>_FIELD_TERMS\<close>.\<close>

definition field_terms :: "string list" where
  "field_terms = [''budget'']"

datatype verdict = Drop | Rewrite string | Mention | Leave

definition states_any :: "memory_rules \<Rightarrow> string list \<Rightarrow> string \<Rightarrow> fields \<Rightarrow> bool" where
  "states_any R wanted doc md = list_ex (\<lambda>f. ru_states R doc f (meta_text R md ''mtype'')) wanted"

definition judge :: "memory_rules \<Rightarrow> string list \<Rightarrow> bool \<Rightarrow> memory_item \<Rightarrow> verdict" where
  "judge R wanted rewriting = (\<lambda>(i, doc, md).
     if states_any R wanted doc md
     then (let rest = fold (\<lambda>f t. if t = [] then t else ru_without R t f) wanted doc in
           if rewriting \<and> rest \<noteq> [] \<and> truthy (meta_get md ''user_id'') then Rewrite rest else Drop)
     else if list_ex (ru_mentions R doc) wanted then Mention else Leave)"

definition doomed_ids :: "memory_rules \<Rightarrow> string list \<Rightarrow> bool \<Rightarrow> memory_item list \<Rightarrow> string list" where
  "doomed_ids R wanted rewriting items = map fst (filter (\<lambda>x. judge R wanted rewriting x = Drop) items)"

definition rows_rewritten :: "memory_rules \<Rightarrow> string list \<Rightarrow> memory_item list \<Rightarrow> (string \<times> string \<times> fields) list" where
  "rows_rewritten R wanted items =
     concat (map (\<lambda>x. case judge R wanted True x of Rewrite rest \<Rightarrow> [(fst x, rest, snd (snd x))] | _ \<Rightarrow> []) items)"

definition retained_count :: "memory_rules \<Rightarrow> string list \<Rightarrow> memory_item list \<Rightarrow> nat" where
  "retained_count R wanted items = length (filter (\<lambda>x. judge R wanted False x = Mention) items)"

definition layer_counts :: "memory_rules \<Rightarrow> string list \<Rightarrow> memory_item list \<Rightarrow> (string \<times> nat) list" where
  "layer_counts R wanted items =
     fold (\<lambda>x acc. let t = meta_text R (snd (snd x)) ''mtype''; name = (if t = [] then ''unknown'' else t) in
             dict_set acc name ((case map_of acc name of None \<Rightarrow> 0 | Some n \<Rightarrow> n) + 1))
       (filter (\<lambda>x. states_any R wanted (fst (snd x)) (snd (snd x))) items) []"

definition rewritten_meta :: "memory_rules \<Rightarrow> string \<Rightarrow> fields \<Rightarrow> string \<Rightarrow> fields" where
  "rewritten_meta R stamp md rest =
     (let md1 = dict_set md ''updated_at'' (JStr stamp) in
      if meta_get md1 ''hash'' = JNull then md1
      else dict_set md1 ''hash'' (JStr (content_hash R (or_semantic (meta_text R md ''mtype'')) (meta_text R md ''user_id'') rest)))"

fun rewrite_rows :: "memory_rules \<Rightarrow> moments \<Rightarrow> nat \<Rightarrow> (string \<times> string \<times> fields) list \<Rightarrow> memory_db \<Rightarrow> (memory_error + unit) \<times> memory_db" where
  "rewrite_rows R M n [] db = (Inr (), db)"
| "rewrite_rows R M n ((i, rest, md) # xs) db =
     (case update_items (ru_lib R) (mo_env M n) [i] (Some [rest]) (Some [JObj (rewritten_meta R (mo_iso M) md rest)]) db of
        (Inl e, db1) \<Rightarrow> (Inl e, db1)
      | (Inr _, db1) \<Rightarrow> rewrite_rows R M (Suc n) xs db1)"

record field_report =
  fr_user :: "string option"
  fr_fields :: "string list"
  fr_deleted :: "string list"
  fr_layers :: "(string \<times> nat) list"
  fr_rewritten :: "string list"
  fr_retained :: nat
  fr_residual :: "string list"
  fr_legacy :: "string list"
  fr_complete :: bool

definition blank_report :: "string option \<Rightarrow> bool \<Rightarrow> field_report" where
  "blank_report user ok = \<lparr>fr_user = user, fr_fields = [], fr_deleted = [], fr_layers = [], fr_rewritten = [], fr_retained = 0,
     fr_residual = [], fr_legacy = [], fr_complete = ok\<rparr>"

definition unverified :: "string list" where
  "unverified = [''<unverified>'']"

text \<open>The field times of one user: \<open>erased[f] = stamp\<close>.\<close>

definition stamp_fields :: "string \<Rightarrow> string list \<Rightarrow> time \<Rightarrow> ((string \<times> string) \<times> time) list \<Rightarrow> ((string \<times> string) \<times> time) list" where
  "stamp_fields uid wanted now ts = filter (\<lambda>x. \<not> (fst (fst x) = uid \<and> snd (fst x) \<in> set wanted)) ts @ map (\<lambda>f. ((uid, f), now)) wanted"

text \<open>The verification pass: what still states a value, in the collection and in the legacy file.\<close>

definition verify_scrub :: "memory_rules \<Rightarrow> moments \<Rightarrow> nat \<Rightarrow> string \<Rightarrow> string list \<Rightarrow> field_report \<Rightarrow> memory_db \<Rightarrow> field_report \<times> memory_db" where
  "verify_scrub R M n uid wanted rep db =
     (case get_items (ru_lib R) (mo_env M n) None (of_user uid) db of
        (Inl _, db1) \<Rightarrow> (rep\<lparr>fr_residual := unverified\<rparr>, db1)
      | (Inr items, db1) \<Rightarrow>
          (let res = doomed_ids R wanted False items; rep1 = rep\<lparr>fr_residual := res, fr_retained := retained_count R wanted items\<rparr> in
           case legacy_residual_records (ru_lib R) (mo_env M (Suc n)) (mo_present M) (mo_tries M) (of_user uid) db1 of
             (Inl _, db2) \<Rightarrow> (rep1\<lparr>fr_residual := if res = [] then unverified else res\<rparr>, db2)
           | (Inr old, db2) \<Rightarrow>
               (let left = map fst (filter (\<lambda>x. states_any R wanted (fst (snd x)) (snd (snd x))) old) in
                (rep1\<lparr>fr_legacy := left, fr_complete := res = [] \<and> left = []\<rparr>, db2))))"

definition erase_ids :: "memory_lib \<Rightarrow> legacy_env \<Rightarrow> int \<Rightarrow> string list \<Rightarrow> memory_db \<Rightarrow> (memory_error + unit) \<times> memory_db" where
  "erase_ids L e now ids db = (if ids = [] then (Inr (), db) else delete_items L e now (Some ids) JNull db)"

definition forget_fact :: "memory_rules \<Rightarrow> moments \<Rightarrow> json \<Rightarrow> string list \<Rightarrow> user_memory \<Rightarrow> field_report \<times> user_memory" where
  "forget_fact R M user named s =
     (case valid_user_id user of
        None \<Rightarrow> (blank_report None False, s)
      | Some uid \<Rightarrow>
          (let wanted = filter (\<lambda>f. f \<in> set field_terms) named; start = (blank_report (Some uid) False)\<lparr>fr_fields := wanted\<rparr> in
           if wanted = [] then (blank_report (Some uid) True, s)
           else (case get_items (ru_lib R) (mo_env M 0) None (of_user uid) (um_db s) of
               (Inl _, db) \<Rightarrow> (start\<lparr>fr_residual := unverified\<rparr>, s\<lparr>um_db := db\<rparr>)
             | (Inr items, db) \<Rightarrow>
                 (let doomed = doomed_ids R wanted True items; again = rows_rewritten R wanted items;
                      rep = start\<lparr>fr_deleted := doomed, fr_layers := layer_counts R wanted items, fr_rewritten := map fst again,
                        fr_retained := retained_count R wanted items\<rparr> in
                  case erase_ids (ru_lib R) (mo_env M 1) (mo_now M) doomed db of
                    (Inl _, db1) \<Rightarrow> (rep\<lparr>fr_residual := unverified\<rparr>, s\<lparr>um_db := db1\<rparr>)
                  | (Inr _, db1) \<Rightarrow>
                      (case rewrite_rows R M 2 again db1 of
                         (Inl _, db2) \<Rightarrow> (rep\<lparr>fr_residual := unverified\<rparr>, s\<lparr>um_db := db2\<rparr>)
                       | (Inr _, db2) \<Rightarrow>
                           (let (rep1, db3) = verify_scrub R M (2 + length again) uid wanted rep db2 in
                            (rep1, s\<lparr>um_db := db3, um_erased := stamp_fields uid wanted (mo_stamp M) (um_erased s)\<rparr>)))))))"

definition add_memory :: "memory_rules \<Rightarrow> moments \<times> moments \<Rightarrow> add_request \<Rightarrow> user_memory \<Rightarrow> string option \<times> user_memory" where
  "add_memory R = (\<lambda>(M, M') q s.
     let (i, s1) = add_record R M q s in
     if valid_user_id (aq_user q) = None \<or> aq_type q \<noteq> ''episodic'' \<or> aq_role q \<noteq> ''user'' then (i, s1)
     else (let named = ru_erases R (aq_text q) in
       if named = [] then (i, s1)
       else (let (rep, s2) = forget_fact R M' (aq_user q) named s1 in
         (case i of None \<Rightarrow> None | Some m \<Rightarrow> if m \<in> set (fr_deleted rep) then None else Some m, s2))))"

section \<open>Rows of the background jobs\<close>

definition source_auto :: json where "source_auto = JStr ''auto_extracted''"
definition source_explicit :: json where "source_explicit = JStr ''explicit_remember''"

text \<open>\<open>_update_semantic\<close>: the metadata is read first, and a row without a user keeps what it has.\<close>

definition revised_meta :: "memory_rules \<Rightarrow> string \<Rightarrow> string option \<Rightarrow> fields \<Rightarrow> string \<Rightarrow> fields" where
  "revised_meta R stamp turn md body =
     (let md1 = dict_set md ''updated_at'' (JStr stamp);
          md2 = (case turn of None \<Rightarrow> md1 | Some t \<Rightarrow> if t = [] then md1 else dict_set md1 ''updated_turn_id'' (JStr (take 80 t))) in
      if meta_get md2 ''hash'' \<noteq> JNull \<and> truthy (meta_get md2 ''user_id'')
      then dict_set md2 ''hash'' (JStr (content_hash R (or_semantic (meta_text R md2 ''mtype'')) (meta_text R md2 ''user_id'') body))
      else md2)"

definition row_meta :: "memory_lib \<Rightarrow> legacy_env \<Rightarrow> string \<Rightarrow> memory_db \<Rightarrow> fields \<times> memory_db" where
  "row_meta L e oid db =
     (case get_items L e (Some [oid]) JNull db of
        (Inr (x # _), db1) \<Rightarrow> (snd (snd x), db1)
      | (_, db1) \<Rightarrow> ([], db1))"

definition update_semantic ::
  "memory_rules \<Rightarrow> moments \<Rightarrow> string \<Rightarrow> string \<Rightarrow> string option \<Rightarrow> memory_db \<Rightarrow> bool \<times> memory_db" where
  "update_semantic R M oid body turn db =
     (let (md, db1) = row_meta (ru_lib R) (mo_env M 0) oid db;
          body = ru_secrets R body; md1 = revised_meta R (mo_iso M) turn md body in
      case update_items (ru_lib R) (mo_env M 1) [oid] (Some [body])
             (if truthy (meta_get md1 ''user_id'') then Some [JObj md1] else None) db1 of
        (Inl _, db2) \<Rightarrow> (False, db2) | (Inr _, db2) \<Rightarrow> (True, db2))"

text \<open>Rows that turns taken out by an edit left behind.\<close>

definition of_turns :: "string \<Rightarrow> string list \<Rightarrow> string \<Rightarrow> string \<Rightarrow> fields \<Rightarrow> bool" where
  "of_turns conv turns conv_key turn_key md \<longleftrightarrow> meta_get md conv_key = JStr conv \<and> meta_get md turn_key \<in> JStr ` set turns"

definition retired_row :: "string \<Rightarrow> string list \<Rightarrow> fields \<Rightarrow> bool" where
  "retired_row conv turns md \<longleftrightarrow>
     (meta_get md ''mtype'' = JStr ''semantic'' \<and> meta_get md ''source'' = source_auto
        \<and> (of_turns conv turns ''origin_conversation_id'' ''origin_turn_id'' md \<or> of_turns conv turns ''origin_conversation_id'' ''updated_turn_id'' md))
   \<or> (meta_get md ''mtype'' = JStr ''episodic'' \<and> of_turns conv turns ''conversation_id'' ''turn_id'' md)
   \<or> (meta_get md ''mtype'' = JStr ''reflection'' \<and> of_turns conv turns ''origin_conversation_id'' ''origin_turn_id'' md)"

definition rows_of_kind :: "string \<Rightarrow> string \<Rightarrow> json" where
  "rows_of_kind uid kind = where_both ''user_id'' uid ''mtype'' kind"

definition retire_turn_rows ::
  "memory_rules \<Rightarrow> moments \<Rightarrow> json \<Rightarrow> string \<Rightarrow> string list \<Rightarrow> user_memory \<Rightarrow> nat \<times> user_memory" where
  "retire_turn_rows R M user conv turn_ids s =
     (let turns = filter (\<lambda>t. t \<noteq> []) turn_ids in
      case valid_user_id user of
        None \<Rightarrow> (0, s)
      | Some uid \<Rightarrow>
          if conv = [] \<or> turns = [] then (0, s)
          else (let s1 = s\<lparr>um_retired := um_retired s @ map (\<lambda>t. (uid, t)) turns\<rparr>;
                    dead = (\<lambda>items. map fst (filter (\<lambda>x. retired_row conv turns (snd (snd x))) items)) in
            case get_items (ru_lib R) (mo_env M 0) None (rows_of_kind uid ''semantic'') (um_db s) of
              (Inl _, db) \<Rightarrow> (0, s1\<lparr>um_db := db\<rparr>)
            | (Inr facts, db) \<Rightarrow>
                (case get_items (ru_lib R) (mo_env M 1) None (rows_of_kind uid ''episodic'') db of
                   (Inl _, db1) \<Rightarrow> (0, s1\<lparr>um_db := db1\<rparr>)
                 | (Inr entries, db1) \<Rightarrow>
                     (case get_items (ru_lib R) (mo_env M 2) None (rows_of_kind uid ''reflection'') db1 of
                        (Inl _, db2) \<Rightarrow> (0, s1\<lparr>um_db := db2\<rparr>)
                      | (Inr inferred, db2) \<Rightarrow>
                          (let doomed = dead facts @ dead entries @ dead inferred in
                           if doomed = [] then (0, s1\<lparr>um_db := db2\<rparr>)
                           else (case delete_items (ru_lib R) (mo_env M 3) (mo_now M) (Some doomed) JNull db2 of
                              (Inl _, db3) \<Rightarrow> (0, s1\<lparr>um_db := db3\<rparr>)
                            | (Inr _, db3) \<Rightarrow> (length doomed, s1\<lparr>um_db := db3\<rparr>)))))))"

definition turn_was_retired :: "string \<Rightarrow> string option \<Rightarrow> user_memory \<Rightarrow> bool" where
  "turn_was_retired uid turn s = (case turn of None \<Rightarrow> False | Some t \<Rightarrow> t \<noteq> [] \<and> (uid, t) \<in> set (um_retired s))"

text \<open>Only the newest \<open>cap\<close> records of the turn log stay; Python's sort is stable, also in reverse.\<close>

definition newest_first :: "memory_rules \<Rightarrow> memory_item list \<Rightarrow> memory_item list" where
  "newest_first R items = rev (sort_key (\<lambda>x. meta_text R (snd (snd x)) ''created_at'') (rev items))"

definition enforce_episodic_cap :: "memory_rules \<Rightarrow> moments \<Rightarrow> string \<Rightarrow> nat \<Rightarrow> memory_db \<Rightarrow> memory_db" where
  "enforce_episodic_cap R M uid cap db =
     (case get_items (ru_lib R) (mo_env M 0) None (rows_of_kind uid ''episodic'') db of
        (Inl _, db1) \<Rightarrow> db1
      | (Inr items, db1) \<Rightarrow>
          if length items \<le> cap then db1
          else snd (delete_items (ru_lib R) (mo_env M 1) (mo_now M) (Some (map fst (drop cap (newest_first R items)))) JNull db1))"

section \<open>Reading\<close>

definition fields_of :: "json \<Rightarrow> fields" where
  "fields_of v = (case v of JObj fs \<Rightarrow> fs | _ \<Rightarrow> [])"

text \<open>\<open>_visible_in_lineage\<close>; an entry is the conversation and its cutoff.\<close>

definition visible_in_lineage :: "memory_rules \<Rightarrow> json list \<Rightarrow> fields \<Rightarrow> bool" where
  "visible_in_lineage R lineage md \<longleftrightarrow>
     meta_get md ''mtype'' \<noteq> JStr ''episodic'' \<or> \<not> truthy (meta_get md ''conversation_id'')
     \<or> list_ex (\<lambda>entry. is_dict entry \<and> field_or_null entry ''conversation_id'' = meta_get md ''conversation_id''
          \<and> (field_or_null entry ''before'' = JNull \<or> \<not> truthy (meta_get md ''turn_started_at'')
             \<or> meta_text R md ''turn_started_at'' \<le> meta_text R (fields_of entry) ''before'')) lineage"

definition minmax :: "real list \<Rightarrow> real list" where
  "minmax vs =
     (if vs = [] then []
      else let lo = Min (set vs); hi = Max (set vs) in
        if hi - lo < 1 / 10 ^ 9 then map (\<lambda>_. 1) vs else map (\<lambda>v. (v - lo) / (hi - lo)) vs)"

text \<open>
  The score: relevance, recency (\<open>0.995\<close> to the hours since the last access) and importance, each spread
  over \<open>[0, 1]\<close> among the candidates.  \<open>hours\<close> reads the age of a time stamp off the clock.
\<close>

definition last_seen :: "memory_rules \<Rightarrow> moments \<Rightarrow> fields \<Rightarrow> string" where
  "last_seen R M md = (let a = meta_text R md ''last_access''; c = meta_text R md ''created_at'' in
     if a \<noteq> [] then a else if c \<noteq> [] then c else mo_iso M)"

definition importance_part :: "fields \<Rightarrow> real" where
  "importance_part md = (case meta_get md ''importance'' of JNull \<Rightarrow> 5 / 10 | v \<Rightarrow> of_int (case json_int v of Some n \<Rightarrow> n | None \<Rightarrow> 0) / 10)"

definition scores :: "memory_rules \<Rightarrow> moments \<Rightarrow> (string \<Rightarrow> real) \<Rightarrow> (real \<times> memory_item) list \<Rightarrow> real list" where
  "scores R M hours found =
     (let metas = map (\<lambda>x. snd (snd (snd x))) found;
          rel = minmax (map (\<lambda>x. 1 - fst x) found);
          rec = minmax (map (\<lambda>md. (995 / 1000) powr hours (last_seen R M md)) metas);
          imp = minmax (map importance_part metas) in
      map (\<lambda>i. rel ! i + rec ! i + imp ! i) [0..<length found])"

definition best_first :: "(real \<times> memory_item) list \<Rightarrow> (real \<times> memory_item) list" where
  "best_first xs = sort_key (\<lambda>x. - fst x) xs"

definition touched :: "string \<Rightarrow> memory_item \<Rightarrow> json" where
  "touched stamp x = JObj (dict_set (snd (snd x)) ''last_access'' (JStr stamp))"

definition touch :: "memory_rules \<Rightarrow> moments \<Rightarrow> string list \<Rightarrow> memory_db \<Rightarrow> memory_db" where
  "touch R M ids db =
     (if ids = [] then db
      else case get_items (ru_lib R) (mo_env M 1) (Some ids) JNull db of
        (Inl _, db1) \<Rightarrow> db1
      | (Inr items, db1) \<Rightarrow>
          if items = [] then db1
          else snd (update_items (ru_lib R) (mo_env M 2) (map fst items) None (Some (map (touched (mo_iso M)) items)) db1))"

definition retrieve_candidates :: nat where "retrieve_candidates = 25"

definition seen_of :: "memory_rules \<Rightarrow> json list option \<Rightarrow> (real \<times> memory_item) list \<Rightarrow> (real \<times> memory_item) list" where
  "seen_of R lineage found =
     (case lineage of None \<Rightarrow> found | Some l \<Rightarrow> filter (\<lambda>x. visible_in_lineage R l (snd (snd (snd x)))) found)"

definition best_of :: "memory_rules \<Rightarrow> moments \<Rightarrow> (string \<Rightarrow> real) \<Rightarrow> nat \<Rightarrow> (real \<times> memory_item) list \<Rightarrow> (real \<times> memory_item) list" where
  "best_of R M hours n seen = take n (best_first (zip (scores R M hours seen) (map snd seen)))"

definition retrieve ::
  "memory_rules \<Rightarrow> lexicon \<Rightarrow> moments \<Rightarrow> (string \<Rightarrow> real) \<Rightarrow> string \<Rightarrow> json \<Rightarrow> nat \<Rightarrow> json list option \<Rightarrow> memory_db
   \<Rightarrow> (real \<times> memory_item) list \<times> memory_db" where
  "retrieve R X M hours query user n lineage db =
     (case valid_user_id user of
        None \<Rightarrow> ([], db)
      | Some uid \<Rightarrow>
          if strip query = [] then ([], db)
          else (case query_items (ru_lib R) X (mo_env M 0) [strip query] retrieve_candidates (of_user uid) db of
             (Inr (found # _), db1) \<Rightarrow>
               (let best = best_of R M hours n (seen_of R lineage found) in
                (best, touch R M (map (\<lambda>x. fst (snd x)) best) db1))
           | (_, db1) \<Rightarrow> ([], db1)))"

text \<open>The saved facts of a user, newest first.\<close>

definition semantic_records :: "memory_rules \<Rightarrow> moments \<Rightarrow> json \<Rightarrow> memory_db \<Rightarrow> memory_item list \<times> memory_db" where
  "semantic_records R M user db =
     (case valid_user_id user of
        None \<Rightarrow> ([], db)
      | Some uid \<Rightarrow>
          (case get_items (ru_lib R) (mo_env M 0) None (rows_of_kind uid ''semantic'') db of
             (Inl _, db1) \<Rightarrow> ([], db1)
           | (Inr items, db1) \<Rightarrow>
               (newest_first R (filter (\<lambda>x. meta_get (snd (snd x)) ''user_id'' = JStr uid \<and> meta_get (snd (snd x)) ''mtype'' = JStr ''semantic'') items), db1)))"

text \<open>Fields erased at or after the start of a turn.\<close>

definition erased_fields_since :: "json \<Rightarrow> time option \<Rightarrow> user_memory \<Rightarrow> string list" where
  "erased_fields_since user started s =
     (case (valid_user_id user, started) of
        (Some uid, Some t) \<Rightarrow> map (snd \<circ> fst) (filter (\<lambda>x. fst (fst x) = uid \<and> t \<le> snd x) (um_erased s))
      | _ \<Rightarrow> [])"

section \<open>Whose rows an operation touches\<close>

text \<open>No legacy file is left for any call of an operation.\<close>

definition calm :: "moments \<Rightarrow> bool" where
  "calm M \<longleftrightarrow> (\<forall>n. at_rest (mo_env M n))"

lemma calm_env: "calm M \<Longrightarrow> at_rest (mo_env M n)"
  by (simp add: calm_def)

text \<open>The fields a record is found by are its own, not part of the provenance.\<close>

definition identity_fields :: "string list" where
  "identity_fields = [''user_id'', ''mtype'', ''hash'', ''idempotency_key'']"

definition plain_extra :: "add_request \<Rightarrow> bool" where
  "plain_extra q \<longleftrightarrow> (\<forall>x \<in> set (aq_extra q). fst x \<notin> set identity_fields)"

lemma extra_get:
  "(\<forall>x \<in> set extra. fst x \<noteq> name) \<Longrightarrow> meta_get (with_extra L md extra) name = meta_get md name"
  by (induction extra arbitrary: md) (auto simp: with_extra_def meta_get_def)

lemma memory_meta_get:
  assumes "plain_extra q"
  shows "meta_get (memory_meta R M uid body q) ''user_id'' = JStr uid"
    "meta_get (memory_meta R M uid body q) ''mtype'' = JStr (aq_type q)"
    "meta_get (memory_meta R M uid body q) ''hash'' = JStr (content_hash R (aq_type q) uid body)"
    "meta_get (memory_meta R M uid body q) ''idempotency_key'' = (case key_of q of None \<Rightarrow> JNull | Some k \<Rightarrow> JStr k)"
proof -
  have no: "\<forall>x \<in> set (aq_extra q). fst x \<noteq> name" if "name \<in> set identity_fields" for name
    using assms that by (auto simp: plain_extra_def)
  show "meta_get (memory_meta R M uid body q) ''user_id'' = JStr uid"
    "meta_get (memory_meta R M uid body q) ''mtype'' = JStr (aq_type q)"
    "meta_get (memory_meta R M uid body q) ''hash'' = JStr (content_hash R (aq_type q) uid body)"
    "meta_get (memory_meta R M uid body q) ''idempotency_key'' = (case key_of q of None \<Rightarrow> JNull | Some k \<Rightarrow> JStr k)"
    unfolding memory_meta_def by (subst extra_get, rule no, simp add: identity_fields_def, simp add: meta_get_def split: option.split)+
qed

lemma seek_at_rest:
  assumes "at_rest e" "\<not> starts_with a ''$''" "\<not> starts_with b ''$''"
  shows "snd (seek L e (where_both a x b y) db) = db"
    "fst (seek L e (where_both a x b y) db) = (case filter (\<lambda>r. meta_get (mr_metadata r) a = JStr x \<and> meta_get (mr_metadata r) b = JStr y) (md_rows db)
       of [] \<Rightarrow> None | r # _ \<Rightarrow> Some (mr_id r))"
  by (simp_all add: seek_def get_rows_at_rest [OF assms(1) matches_both [OF assms(2,3)]] item_of_def split: list.split)

lemmas seek_key = seek_at_rest [of _ "''idempotency_key''" "''user_id''", simplified]
lemmas seek_hash = seek_at_rest [of _ "''hash''" "''user_id''", simplified]

lemma seek_same:
  "at_rest e \<Longrightarrow> snd (seek L e (same_memory R uid body q) db) = db"
  by (auto simp: same_memory_def seek_key(1) seek_hash(1) split: option.split)

lemma own_insert_record:
  assumes "calm M" "plain_extra q"
  shows "own_change uid (um_db s) (um_db (snd (insert_record R M uid body q s)))"
proof -
  obtain r db where add: "add_items (ru_lib R) (mo_env M 2) [memory_id R uid body q] [body] [JObj (memory_meta R M uid body q)] (um_db s) = (r, db)"
    by (cases "add_items (ru_lib R) (mo_env M 2) [memory_id R uid body q] [body] [JObj (memory_meta R M uid body q)] (um_db s)")
  have "own_change uid (um_db s) db"
    by (rule own_add [OF calm_env [OF assms(1)] add]) (rule memory_meta_get(1) [OF assms(2)])
  moreover have "um_db (snd (insert_record R M uid body q s)) = db"
    using seek_same [OF calm_env [OF assms(1), of 3], of "ru_lib R" R uid body q db]
    by (simp add: insert_record_def add case_prod_unfold Let_def split: sum.split)
  ultimately show ?thesis by simp
qed

lemma own_add_record:
  assumes "calm M" "plain_extra q" "valid_user_id (aq_user q) = Some uid"
  shows "own_change uid (um_db s) (um_db (snd (add_record R M q s)))"
proof -
  let ?body = "kept_text R (aq_text q)"
  define first where "first = (case key_of q of None \<Rightarrow> (None, um_db s)
      | Some k \<Rightarrow> seek (ru_lib R) (mo_env M 0) (where_both ''idempotency_key'' k ''user_id'' uid) (um_db s))"
  have "snd first = um_db s" by (simp add: first_def seek_key(1) calm_env [OF assms(1)] split: option.split)
  moreover have "snd (seek (ru_lib R) (mo_env M 1) (where_both ''hash'' (content_hash R (aq_type q) uid ?body) ''user_id'' uid) db) = db" for db
    by (rule seek_hash(1) [OF calm_env [OF assms(1)]])
  ultimately show ?thesis
    using own_insert_record [OF assms(1,2), of uid s R ?body]
    by (auto simp: add_record_def assms(3) Let_def first_def [symmetric] prod_eq_iff split: prod.split option.split)
qed

text \<open>Reads of one user's rows.\<close>

lemma user_items:
  assumes "at_rest e"
  shows "get_items L e None (of_user uid) db = (Inr (map item_of (rows_of_user uid db)), db)"
  using get_user_at_rest [OF assms] by (simp add: rows_of_user_def user_of_def)

lemma kind_items:
  assumes "at_rest e"
  shows "get_items L e None (rows_of_kind uid kind) db
    = (Inr (map item_of (filter (\<lambda>r. meta_get (mr_metadata r) ''mtype'' = JStr kind) (rows_of_user uid db))), db)"
proof -
  have "\<not> starts_with ''user_id'' ''$''" "\<not> starts_with ''mtype'' ''$''" by simp_all
  note get_rows_at_rest [OF assms matches_both [OF this]]
  then show ?thesis by (simp add: rows_of_kind_def rows_of_user_def user_of_def filter_filter conj_commute)
qed

lemma item_ids: "fst ` set (map item_of rows) = mr_id ` set rows"
  by (auto simp: item_of_def image_iff)

lemma residual_at_rest:
  "at_rest e \<Longrightarrow> snd (legacy_residual_records L e present tries wh db) = db"
  using sync_at_rest [of e L False db] by (auto simp: legacy_residual_records_def)

lemma verify_at_rest: "calm M \<Longrightarrow> snd (verify_scrub R M n uid wanted rep db) = db"
  by (simp add: verify_scrub_def user_items calm_env Let_def case_prod_unfold residual_at_rest split: sum.split)

lemma own_deletion:
  assumes "at_rest e" "owned uid ids db"
  shows "own_change uid db (snd (delete_items L e now (Some ids) JNull db))"
  by (rule own_delete [OF assms]) (rule prod.collapse [symmetric])

lemma own_erase_ids: "at_rest e \<Longrightarrow> owned uid ids db \<Longrightarrow> erase_ids L e now ids db = (r, db1) \<Longrightarrow> own_change uid db db1"
  by (auto simp: erase_ids_def intro: own_delete split: if_splits)

lemma verify_snd: "verify_scrub R M n uid wanted rep db = (rep1, db1) \<Longrightarrow> calm M \<Longrightarrow> db1 = db"
  using verify_at_rest [of M R n uid wanted rep db] by simp

lemma rewritten_user: "meta_get md ''user_id'' = JStr uid \<Longrightarrow> meta_get (rewritten_meta R stamp md rest) ''user_id'' = JStr uid"
  by (simp add: rewritten_meta_def Let_def meta_get_def)

lemma own_rewrite_rows:
  "rewrite_rows R M n xs db = (r, db') \<Longrightarrow> calm M \<Longrightarrow> owned uid (map fst xs) db
   \<Longrightarrow> (\<forall>x \<in> set xs. meta_get (snd (snd x)) ''user_id'' = JStr uid) \<Longrightarrow> own_change uid db db'"
proof (induction xs arbitrary: n db)
  case (Cons x xs)
  obtain i rest md where x: "x = (i, rest, md)" by (cases x)
  obtain u db1 where up: "update_items (ru_lib R) (mo_env M n) [i] (Some [rest]) (Some [JObj (rewritten_meta R (mo_iso M) md rest)]) db = (u, db1)"
    by (cases "update_items (ru_lib R) (mo_env M n) [i] (Some [rest]) (Some [JObj (rewritten_meta R (mo_iso M) md rest)]) db")
  have one: "own_change uid db db1"
    by (rule own_update [OF calm_env [OF Cons.prems(2)] up])
      (use Cons.prems(3,4) in \<open>auto simp: x keeps_user_def rewritten_user intro: owned_mono\<close>)
  show ?case
  proof (cases u)
    case (Inl e)
    with Cons.prems(1) up one show ?thesis by (simp add: x)
  next
    case (Inr v)
    have "owned uid (map fst xs) db1" by (rule owned_later [OF one owned_mono [OF Cons.prems(3)]]) auto
    from Cons.IH [OF _ Cons.prems(2) this] Cons.prems(1,4) up Inr have "own_change uid db1 db'" by (simp add: x)
    with one show ?thesis by (rule own_trans)
  qed
qed simp

lemma rewrites_from:
  assumes "x \<in> set (rows_rewritten R wanted items)"
  shows "\<exists>y \<in> set items. fst y = fst x \<and> snd (snd y) = snd (snd x)"
  using assms by (force simp: rows_rewritten_def split: verdict.splits)

lemma forget_fact_db:
  assumes "calm M" "valid_user_id user = Some uid"
    and "erase_ids (ru_lib R) (mo_env M 1) (mo_now M)
      (doomed_ids R (filter (\<lambda>f. f \<in> set field_terms) named) True (map item_of (rows_of_user uid (um_db s)))) (um_db s) = (r, db1)"
    and "rewrite_rows R M 2 (rows_rewritten R (filter (\<lambda>f. f \<in> set field_terms) named) (map item_of (rows_of_user uid (um_db s)))) db1 = (u, db2)"
  shows "um_db (snd (forget_fact R M user named s)) \<in> {um_db s, db1, db2}"
  using assms(3,4)
  by (auto simp: forget_fact_def assms(2) user_items calm_env [OF assms(1)] Let_def dest: verify_snd [OF _ assms(1)] split: sum.split prod.split)

lemma own_forget_fact:
  assumes "calm M" "valid_user_id user = Some uid" "memory_ok (um_db s)"
  shows "own_change uid (um_db s) (um_db (snd (forget_fact R M user named s)))"
proof -
  let ?items = "map item_of (rows_of_user uid (um_db s))" and ?wanted = "filter (\<lambda>f. f \<in> set field_terms) named"
  let ?doomed = "doomed_ids R ?wanted True ?items" and ?again = "rows_rewritten R ?wanted ?items"
  have own: "owned uid ids (um_db s)" if "set ids \<subseteq> fst ` set ?items" for ids
    by (rule owned_rows [OF assms(3)]) (use that in \<open>simp only: item_ids\<close>)
  obtain r db1 where del: "erase_ids (ru_lib R) (mo_env M 1) (mo_now M) ?doomed (um_db s) = (r, db1)"
    by (cases "erase_ids (ru_lib R) (mo_env M 1) (mo_now M) ?doomed (um_db s)")
  have "set ?doomed \<subseteq> fst ` set ?items" by (auto simp: doomed_ids_def)
  with own have "owned uid ?doomed (um_db s)" by blast
  then have one: "own_change uid (um_db s) db1"
    using own_erase_ids [OF calm_env [OF assms(1)] _ del] by blast
  obtain u db2 where again: "rewrite_rows R M 2 ?again db1 = (u, db2)" by (cases "rewrite_rows R M 2 ?again db1")
  have "set (map fst ?again) \<subseteq> fst ` set ?items" using rewrites_from [of _ R ?wanted ?items] by force
  with own have "owned uid (map fst ?again) (um_db s)" by blast
  moreover have "meta_get (snd (snd x)) ''user_id'' = JStr uid" if "x \<in> set ?again" for x
    using rewrites_from [OF that] by (auto simp: item_of_def rows_of_user_def user_of_def)
  ultimately have two: "own_change uid db1 db2"
    by (intro own_rewrite_rows [OF again assms(1)] owned_later [OF one]) auto
  have three: "own_change uid (um_db s) db2" using one two by (rule own_trans)
  show ?thesis using forget_fact_db [OF assms(1,2) del again] one three by auto
qed

lemma own_add_memory:
  assumes "calm M" "calm M'" "plain_extra q" "valid_user_id (aq_user q) = Some uid" "memory_ok (um_db s)"
  shows "own_change uid (um_db s) (um_db (snd (add_memory R (M, M') q s)))"
proof -
  let ?s1 = "snd (add_record R M q s)"
  note one = own_add_record [OF assms(1,3,4), of s R]
  then have "memory_ok (um_db ?s1)" using assms(5) by (simp add: own_change_def)
  note two = own_forget_fact [OF assms(2,4) this, of R "ru_erases R (aq_text q)"]
  show ?thesis using one own_trans [OF one two] by (simp add: add_memory_def case_prod_unfold Let_def)
qed

lemma own_retire:
  assumes "calm M" "valid_user_id user = Some uid" "memory_ok (um_db s)"
  shows "own_change uid (um_db s) (um_db (snd (retire_turn_rows R M user conv turns s)))"
proof -
  let ?rows = "\<lambda>kind. map item_of (filter (\<lambda>r. meta_get (mr_metadata r) ''mtype'' = JStr kind) (rows_of_user uid (um_db s)))"
  let ?dead = "\<lambda>items. map fst (filter (\<lambda>x. retired_row conv (filter (\<lambda>t. t \<noteq> []) turns) (snd (snd x))) items)"
  let ?doomed = "?dead (?rows ''semantic'') @ ?dead (?rows ''episodic'') @ ?dead (?rows ''reflection'')"
  have "owned uid ?doomed (um_db s)"
    by (rule owned_rows [OF assms(3)]) (auto simp: item_of_def)
  then have "own_change uid (um_db s) (snd (delete_items (ru_lib R) (mo_env M 3) (mo_now M) (Some ?doomed) JNull (um_db s)))"
    by (rule own_deletion [OF calm_env [OF assms(1)]])
  then show ?thesis
    by (simp add: retire_turn_rows_def assms(2) kind_items calm_env [OF assms(1)] Let_def case_prod_unfold split: sum.split)
qed

lemma own_cap:
  assumes "calm M" "memory_ok db"
  shows "own_change uid db (enforce_episodic_cap R M uid cap db)"
proof -
  let ?items = "map item_of (filter (\<lambda>r. meta_get (mr_metadata r) ''mtype'' = JStr ''episodic'') (rows_of_user uid db))"
  let ?doomed = "map fst (drop cap (newest_first R ?items))"
  have "set ?doomed \<subseteq> fst ` set ?items" using set_drop_subset [of cap "newest_first R ?items"] by (auto simp: newest_first_def)
  then have "owned uid ?doomed db"
    by (intro owned_rows [OF assms(2)]) (auto simp: item_of_def)
  then have "own_change uid db (snd (delete_items (ru_lib R) (mo_env M 1) (mo_now M) (Some ?doomed) JNull db))"
    by (rule own_deletion [OF calm_env [OF assms(1)]])
  then show ?thesis by (simp add: enforce_episodic_cap_def kind_items calm_env [OF assms(1)])
qed

lemma own_touch:
  assumes "calm M" "owned uid ids db"
  shows "own_change uid db (touch R M ids db)"
proof (cases "ids = []")
  case False
  let ?items = "map item_of (select_rows (Some ids) db)"
  have rows: "set (select_rows (Some ids) db) = {r \<in> set (md_rows db). mr_id r \<in> set ids}" by (auto simp: select_rows_def)
  have "owned uid (map fst ?items) db" by (rule owned_mono [OF assms(2)]) (auto simp: item_of_def rows)
  moreover have "keeps_user uid (Some (touched (mo_iso M) x))" if "x \<in> set ?items" for x
    using that assms(2) rows by (auto simp: keeps_user_def touched_def item_of_def owned_def user_of_def meta_get_def)
  ultimately have "own_change uid db (snd (update_items (ru_lib R) (mo_env M 2) (map fst ?items) None (Some (map (touched (mo_iso M)) ?items)) db))"
    by (intro own_update [OF calm_env [OF assms(1)] prod.collapse [symmetric]]) auto
  then show ?thesis using False by (simp add: touch_def get_at_rest [OF calm_env [OF assms(1)]] keep_all)
qed (simp add: touch_def)

lemma rank_subset: "set (map snd (rank_items X n items q)) \<subseteq> set items"
  unfolding rank_items_def using set_take_subset by (fastforce simp: set_sort)

lemma best_of_parts:
  "snd ` set (best_of R M hours n seen) \<subseteq> snd ` set seen" "length (best_of R M hours n seen) \<le> n"
  "sorted (map (\<lambda>x. - fst x) (best_of R M hours n seen))"
proof -
  show "snd ` set (best_of R M hours n seen) \<subseteq> snd ` set seen"
    using set_take_subset [of n "best_first (zip (scores R M hours seen) (map snd seen))"]
    by (force simp: best_of_def best_first_def dest: set_zip_rightD in_set_takeD)
  show "length (best_of R M hours n seen) \<le> n" by (simp add: best_of_def)
  show "sorted (map (\<lambda>x. - fst x) (best_of R M hours n seen))"
    by (simp add: best_of_def best_first_def take_map [symmetric] sorted_wrt_take)
qed

lemma retrieve_at_rest:
  assumes "calm M" "valid_user_id user = Some uid" "strip query \<noteq> []"
  shows "retrieve R X M hours query user n lineage db =
    (let best = best_of R M hours n (seen_of R lineage (rank_items X retrieve_candidates (map item_of (rows_of_user uid db)) (strip query))) in
     (best, touch R M (map (\<lambda>x. fst (snd x)) best) db))"
  by (simp add: retrieve_def assms(2,3) query_items_def user_items calm_env [OF assms(1)] retrieve_candidates_def)

text \<open>A retrieval hands out rows of its user only, and touches no others.\<close>

lemma retrieve_own:
  assumes "calm M" "valid_user_id user = Some uid" "memory_ok db" "retrieve R X M hours query user n lineage db = (best, db1)"
  shows "snd ` set best \<subseteq> item_of ` set (rows_of_user uid db)" "own_change uid db db1"
    "lineage = Some l \<Longrightarrow> x \<in> set best \<Longrightarrow> visible_in_lineage R l (snd (snd (snd x)))"
    "length best \<le> n" "sorted (map (\<lambda>x. - fst x) best)"
proof -
  let ?found = "rank_items X retrieve_candidates (map item_of (rows_of_user uid db)) (strip query)"
  let ?best = "best_of R M hours n (seen_of R lineage ?found)"
  have all: "best = [] \<and> db1 = db \<or> best = ?best \<and> db1 = touch R M (map (\<lambda>x. fst (snd x)) ?best) db"
    using assms(4) retrieve_at_rest [OF assms(1,2), of query R X hours n lineage db]
    by (cases "strip query = []") (auto simp: retrieve_def assms(2) Let_def)
  have "snd ` set (seen_of R lineage ?found) \<subseteq> snd ` set ?found" by (auto simp: seen_of_def split: option.split)
  with best_of_parts(1) [of R M hours n "seen_of R lineage ?found"] rank_subset [of X retrieve_candidates "map item_of (rows_of_user uid db)" "strip query"]
  have sub: "snd ` set ?best \<subseteq> item_of ` set (rows_of_user uid db)" by auto
  with all show "snd ` set best \<subseteq> item_of ` set (rows_of_user uid db)" by auto
  have "fst ` snd ` set ?best \<subseteq> mr_id ` set (rows_of_user uid db)" using sub by (force simp: item_of_def)
  then have "owned uid (map (\<lambda>x. fst (snd x)) ?best) db" by (intro owned_rows [OF assms(3)]) auto
  with all own_touch [OF assms(1)] show "own_change uid db db1" by auto
  show "lineage = Some l \<Longrightarrow> x \<in> set best \<Longrightarrow> visible_in_lineage R l (snd (snd (snd x)))"
    using all best_of_parts(1) [of R M hours n "seen_of R lineage ?found"] by (force simp: seen_of_def)
  show "length best \<le> n" "sorted (map (\<lambda>x. - fst x) best)" using all best_of_parts(2,3) by auto
qed

section \<open>Users do not reach each other\<close>

text \<open>\<open>LateInsert\<close> is the insertion of another process whose look-ups came before the calls in between.\<close>

datatype memory_call =
    AddCall "moments \<times> moments" add_request
  | ForgetCall moments json "string list"
  | RetireCall moments json string "string list"
  | CapCall moments string nat
  | RetrieveCall moments "string \<Rightarrow> real" string json nat "json list option"
  | LateInsert moments string string add_request

fun call_user :: "memory_call \<Rightarrow> string option" where
  "call_user (AddCall Ms q) = valid_user_id (aq_user q)"
| "call_user (ForgetCall M user named) = valid_user_id user"
| "call_user (RetireCall M user conv turns) = valid_user_id user"
| "call_user (CapCall M uid cap) = Some uid"
| "call_user (RetrieveCall M hours query user n lineage) = valid_user_id user"
| "call_user (LateInsert M uid body q) = Some uid"

fun call_calm :: "memory_call \<Rightarrow> bool" where
  "call_calm (AddCall Ms q) = (calm (fst Ms) \<and> calm (snd Ms) \<and> plain_extra q)"
| "call_calm (ForgetCall M user named) = calm M"
| "call_calm (RetireCall M user conv turns) = calm M"
| "call_calm (CapCall M uid cap) = calm M"
| "call_calm (RetrieveCall M hours query user n lineage) = calm M"
| "call_calm (LateInsert M uid body q) = (calm M \<and> plain_extra q)"

fun memory_call_step :: "memory_rules \<Rightarrow> lexicon \<Rightarrow> user_memory \<Rightarrow> memory_call \<Rightarrow> user_memory" where
  "memory_call_step R X s (AddCall Ms q) = snd (add_memory R Ms q s)"
| "memory_call_step R X s (ForgetCall M user named) = snd (forget_fact R M user named s)"
| "memory_call_step R X s (RetireCall M user conv turns) = snd (retire_turn_rows R M user conv turns s)"
| "memory_call_step R X s (CapCall M uid cap) = s\<lparr>um_db := enforce_episodic_cap R M uid cap (um_db s)\<rparr>"
| "memory_call_step R X s (RetrieveCall M hours query user n lineage) =
     s\<lparr>um_db := snd (retrieve R X M hours query user n lineage (um_db s))\<rparr>"
| "memory_call_step R X s (LateInsert M uid body q) = snd (insert_record R M uid body q s)"

lemma no_user_no_call: "call_user c = None \<Longrightarrow> memory_call_step R X s c = s"
  by (cases c)
    (auto simp: add_memory_def add_record_def forget_fact_def retire_turn_rows_def retrieve_def Let_def split: prod.split)

lemma own_call:
  assumes "call_calm c" "call_user c = Some uid" "memory_ok (um_db s)"
  shows "own_change uid (um_db s) (um_db (memory_call_step R X s c))"
proof (cases c)
  case (AddCall Ms q)
  then show ?thesis using assms own_add_memory [of "fst Ms" "snd Ms" q uid s R] by simp
next
  case (RetrieveCall M hours query user n lineage)
  then show ?thesis
    using assms retrieve_own(2) [OF _ _ assms(3) prod.collapse [symmetric], of M user uid R X hours query n lineage] by simp
qed (use assms own_forget_fact own_retire own_cap own_insert_record in auto)

lemma call_ok:
  assumes "call_calm c" "memory_ok (um_db s)"
  shows "memory_ok (um_db (memory_call_step R X s c))"
proof (cases "call_user c")
  case None
  then show ?thesis using assms(2) by (simp add: no_user_no_call)
next
  case (Some uid)
  from own_call [OF assms(1) this assms(2)] assms(2) show ?thesis by (simp add: own_change_def)
qed

interpretation agent_memory: invariant_machine no_memories
  "\<lambda>_ c. call_calm c" "memory_call_step R X" "\<lambda>s. memory_ok (um_db s)" for R X
  by unfold_locales (simp_all add: no_memories_def memory.inv_init call_ok)


text \<open>Sample rules: nothing is secret, and a text states the budget exactly when it has a digit.\<close>

definition sample_rules :: memory_rules where
  "sample_rules = \<lparr>ru_lib = sample_memory\<lparr>ml_sha := (\<lambda>t. t)\<rparr>, ru_md5 = (\<lambda>t. t), ru_secrets = (\<lambda>t. t), ru_pii = (\<lambda>_. ''none''),
     ru_erases = (\<lambda>t. if starts_with t ''forget'' then [''budget''] else []),
     ru_states = (\<lambda>t f m. list_ex is_digit t), ru_mentions = (\<lambda>t f. contains_text t f), ru_without = (\<lambda>t f. [])\<rparr>"

definition sample_moments :: moments where
  "sample_moments = \<lparr>mo_env = (\<lambda>_. no_legacy), mo_present = False, mo_tries = [], mo_now = 9, mo_iso = ''2026'', mo_stamp = 9, mo_rating = 4\<rparr>"

definition sample_request :: "string \<Rightarrow> string \<Rightarrow> string option \<Rightarrow> add_request" where
  "sample_request user body key = \<lparr>aq_text = body, aq_type = ''semantic'', aq_session = ''c'', aq_user = JStr user, aq_role = [],
     aq_importance = Some 7, aq_key = key, aq_extra = []\<rparr>"

lemma sample_calm: "calm sample_moments"
  by (simp add: calm_def sample_moments_def at_rest_def no_legacy_def retirement_marker_def)

definition sample_lexicon :: lexicon where
  "sample_lexicon = \<lparr>lx_fold = map of_char, lx_alnum = (\<lambda>_. True)\<rparr>"

definition sample_stored :: user_memory where
  "sample_stored = snd (add_memory sample_rules (sample_moments, sample_moments) (sample_request ''v'' ''budget 900'' None) no_memories)"

lemma sample_stored_rows: "map mr_document (rows_of_user ''v'' (um_db sample_stored)) = [''budget 900'']"
  by code_simp

lemma sample_stored_ok: "memory_ok (um_db sample_stored)"
  by code_simp


end
