(* ===== verification/MemoryKeys.thy ===== *)
theory MemoryKeys
  imports UserMemory
begin

text \<open>
  What the ids of \<open>AgentMemory._add_record\<close> are for: the id of a record with an idempotency key is made of its
  user and key, so that of two processes that add it at once only one inserts it and the other reads it back.
\<close>

section \<open>Rows whose id is their key\<close>

definition keyed_id :: "memory_rules \<Rightarrow> string \<Rightarrow> string \<Rightarrow> string" where
  "keyed_id R u k = ''idem_'' @ ml_sha (ru_lib R) (u @ ''|'' @ k)"

definition scalar_meta :: "fields \<Rightarrow> bool" where
  "scalar_meta md \<longleftrightarrow> (\<forall>x \<in> set md. is_scalar (snd x) \<and> snd x \<noteq> JNull)"

definition clean_meta :: "fields \<Rightarrow> bool" where
  "clean_meta md \<longleftrightarrow> scalar_meta md \<and> [] \<notin> fst ` set md"

definition row_tidy :: "memory_rules \<Rightarrow> string \<Rightarrow> fields \<Rightarrow> bool" where
  "row_tidy R i md \<longleftrightarrow> clean_meta md
     \<and> (\<forall>k. meta_get md ''idempotency_key'' = JStr k \<longrightarrow> (\<exists>u. meta_get md ''user_id'' = JStr u \<and> i = keyed_id R u k))"

definition tidy :: "memory_rules \<Rightarrow> memory_db \<Rightarrow> bool" where
  "tidy R db \<longleftrightarrow> (\<forall>r \<in> set (md_rows db). row_tidy R (mr_id r) (mr_metadata r))"

lemma canonical_scalar:
  assumes "scalar_meta md"
  shows "canonical_metadata L (JObj md) = (if [] \<in> fst ` set md then Inl (Wrong ValueError) else Inr md)"
proof -
  have "filter (\<lambda>(_, x). x \<noteq> JNull) md = md" using assms by (auto simp: scalar_meta_def intro!: filter_True)
  moreover have "map (\<lambda>(k, x). (k, if is_scalar x then x else JStr (ml_str L x))) md = md"
    using assms by (auto simp: scalar_meta_def intro!: map_idI)
  ultimately show ?thesis by (force simp: canonical_metadata_def list_ex_iff)
qed

lemma canonical_clean: "clean_meta md \<Longrightarrow> canonical_metadata L (JObj md) = Inr md"
  by (simp add: clean_meta_def canonical_scalar)

lemma scalar_set: "scalar_meta md \<Longrightarrow> is_scalar v \<Longrightarrow> v \<noteq> JNull \<Longrightarrow> scalar_meta (dict_set md name v)"
  by (induction md name v rule: dict_set.induct) (auto simp: scalar_meta_def)

lemma clean_dict_set: "clean_meta md \<Longrightarrow> name \<noteq> [] \<Longrightarrow> clean_meta (dict_set md name (JStr t))"
  by (simp add: clean_meta_def scalar_set)

lemma scalar_extra: "scalar_meta md \<Longrightarrow> scalar_meta (with_extra L md extra)"
  by (induction extra arbitrary: md) (simp_all add: with_extra_def scalar_set split: prod.split)

lemma row_tidy_set:
  "row_tidy R i md \<Longrightarrow> name \<notin> {[], ''idempotency_key'', ''user_id''} \<Longrightarrow> row_tidy R i (dict_set md name (JStr t))"
  by (auto simp: row_tidy_def clean_dict_set meta_get_def)

lemma tidy_stored: "row_tidy R i md \<Longrightarrow> row_tidy R i (stored md)"
  by (simp add: row_tidy_def stored_get) (simp add: clean_meta_def scalar_meta_def stored_def)

lemma tidy_new_row: "row_tidy R i md \<Longrightarrow> row_tidy R (mr_id (memory_row_of (i, d, md) b)) (mr_metadata (memory_row_of (i, d, md) b))"
  by (simp add: memory_row_of_def tidy_stored)

lemma tidy_item: "tidy R db \<Longrightarrow> x \<in> item_of ` set (md_rows db) \<Longrightarrow> row_tidy R (fst x) (snd (snd x))"
  by (auto simp: tidy_def item_of_def)

section \<open>Every call keeps the rows tidy\<close>

lemma tidy_erased: "tidy R db \<Longrightarrow> at_rest e \<Longrightarrow> tidy R (snd (delete_items L e now (Some ids) JNull db))"
  using deleted_at_rest(2) [OF _ prod.collapse [symmetric], of e L now ids db] by (simp add: tidy_def)

lemma tidy_erase_ids: "tidy R db \<Longrightarrow> at_rest e \<Longrightarrow> erase_ids L e now ids db = (r, db1) \<Longrightarrow> tidy R db1"
  using tidy_erased [of R db e L now ids] by (auto simp: erase_ids_def split: if_splits)

lemma tidy_insert:
  assumes "tidy R db" "at_rest e" "add_items L e [i] [body] [JObj md] db = (r, db1)" "scalar_meta md" "clean_meta md \<Longrightarrow> row_tidy R i md"
  shows "tidy R db1"
proof -
  have "db1 = db \<or> insert_item L (i, body, JObj md) db = Inr db1"
    using assms(3) sync_at_rest [OF assms(2), of L False db] by (auto simp: add_items_def and_then_Inr split: if_splits sum.splits)
  then show ?thesis
  proof
    assume "insert_item L (i, body, JObj md) db = Inr db1"
    then obtain md' where md': "canonical_metadata L (JObj md) = Inr md'" and rows: "md_rows db1 = md_rows db @ [memory_row_of (i, body, md') True]"
      by (rule insert_item_Inr) simp
    then have "md' = md" "clean_meta md" using assms(4) by (simp_all add: canonical_scalar clean_meta_def split: if_splits)
    then show ?thesis using assms(1,5) by (auto simp: tidy_def rows tidy_new_row simp del: mr_id_row)
  qed (use assms(1) in simp)
qed

definition tidy_update :: "memory_rules \<Rightarrow> string \<Rightarrow> json option \<Rightarrow> bool" where
  "tidy_update R i meta \<longleftrightarrow> (case meta of None \<Rightarrow> True | Some v \<Rightarrow> (\<exists>md. v = JObj md \<and> row_tidy R i md))"

lemma tidy_change_item:
  assumes "tidy R db" "change_item L (i, doc, meta) db = Inr db1" "tidy_update R i meta"
  shows "tidy R db1"
  using changed_item_rows [OF assms(2)]
proof (elim disjE exE conjE)
  fix r d md assume r: "find_row db i = Some r"
    and md: "canonical_metadata L (case meta of None \<Rightarrow> JObj (mr_metadata r) | Some m \<Rightarrow> m) = Inr md"
    and rows: "md_rows db1 = map (\<lambda>x. if mr_id x = i then memory_row_of (i, d, md) True else x) (md_rows db)"
  have "row_tidy R i (mr_metadata r)"
    using assms(1) r find_member [of "\<lambda>r. mr_id r = i" "md_rows db" r] by (auto simp: find_row_def tidy_def)
  with assms(3) md have "row_tidy R i md"
    by (auto simp: tidy_update_def row_tidy_def canonical_clean split: option.splits)
  then show ?thesis using assms(1) by (auto simp: tidy_def rows tidy_new_row simp del: mr_id_row)
qed (use assms(1) in simp)

lemma tidy_change_items:
  "tidy R db \<Longrightarrow> change_items L xs db = Inr db1 \<Longrightarrow> (\<forall>x \<in> set xs. tidy_update R (fst x) (snd (snd x))) \<Longrightarrow> tidy R db1"
proof (induction xs arbitrary: db)
  case (Cons x xs)
  obtain i doc meta where x: "x = (i, doc, meta)" by (cases x)
  from Cons.prems(2) obtain db2 where step: "change_item L (i, doc, meta) db = Inr db2" "change_items L xs db2 = Inr db1"
    by (auto simp: x and_then_Inr)
  have "tidy R db2" by (rule tidy_change_item [OF Cons.prems(1) step(1)]) (use Cons.prems(3) in \<open>simp add: x\<close>)
  with Cons step(2) show ?case by simp
qed simp

text \<open>Updates by position, as \<open>zip\<close> pairs them.\<close>

lemma tidy_updated:
  assumes "tidy R db" "at_rest e"
    and "case metas of None \<Rightarrow> True | Some ms \<Rightarrow> list_all2 (\<lambda>i m. tidy_update R i (Some m)) ids ms"
  shows "tidy R (snd (update_items L e ids docs metas db))"
proof -
  let ?xs = "zip ids (zip (optional (length ids) docs) (optional (length ids) metas))"
  have "snd (update_items L e ids docs metas db) = db \<or> change_items L ?xs db = Inr (snd (update_items L e ids docs metas db))"
    using sync_at_rest [OF assms(2), of L False db] by (auto simp: update_items_def split: if_splits sum.splits)
  moreover have "tidy_update R (fst x) (snd (snd x))" if x: "x \<in> set ?xs" for x
  proof -
    from x obtain n where n: "n < length ids" "n < length (optional (length ids) metas)" "fst x = ids ! n"
      "snd (snd x) = optional (length ids) metas ! n" by (auto simp: in_set_zip) (metis snd_conv)
    show ?thesis
    proof (cases metas)
      case None
      then show ?thesis using n by (simp add: tidy_update_def optional_def)
    next
      case (Some ms)
      then have "n < length ms" "snd (snd x) = Some (ms ! n)" using n by (simp_all add: optional_def)
      with assms(3) n(1,3) Some show ?thesis by (simp add: list_all2_conv_all_nth)
    qed
  qed
  ultimately show ?thesis using tidy_change_items [OF assms(1)] assms(1) by fastforce
qed

lemma tidy_insert_record:
  assumes "tidy R (um_db s)" "calm M" "plain_extra q"
  shows "tidy R (um_db (snd (insert_record R M uid body q s)))"
proof -
  obtain r db where add: "add_items (ru_lib R) (mo_env M 2) [memory_id R uid body q] [body] [JObj (memory_meta R M uid body q)] (um_db s) = (r, db)"
    by (cases "add_items (ru_lib R) (mo_env M 2) [memory_id R uid body q] [body] [JObj (memory_meta R M uid body q)] (um_db s)")
  have scalar: "scalar_meta (memory_meta R M uid body q)"
    unfolding memory_meta_def by (rule scalar_extra) (auto simp: scalar_meta_def split: option.split)
  have "tidy R db"
    by (rule tidy_insert [OF assms(1) calm_env [OF assms(2)] add scalar])
      (simp add: row_tidy_def memory_meta_get [OF assms(3)] memory_id_def keyed_id_def split: option.split)
  moreover have "um_db (snd (insert_record R M uid body q s)) = db"
    using seek_same [OF calm_env [OF assms(2), of 3], of "ru_lib R" R uid body q db]
    by (simp add: insert_record_def add case_prod_unfold Let_def split: sum.split)
  ultimately show ?thesis by simp
qed

lemma tidy_add_record:
  assumes "tidy R (um_db s)" "calm M" "plain_extra q"
  shows "tidy R (um_db (snd (add_record R M q s)))"
proof (cases "valid_user_id (aq_user q)")
  case None
  then show ?thesis using assms(1) by (simp add: add_record_def)
next
  case (Some uid)
  let ?body = "kept_text R (aq_text q)"
  define first where "first = (case key_of q of None \<Rightarrow> (None, um_db s)
      | Some k \<Rightarrow> seek (ru_lib R) (mo_env M 0) (where_both ''idempotency_key'' k ''user_id'' uid) (um_db s))"
  have "snd first = um_db s" by (simp add: first_def seek_key(1) calm_env [OF assms(2)] split: option.split)
  moreover have "snd (seek (ru_lib R) (mo_env M 1) (where_both ''hash'' (content_hash R (aq_type q) uid ?body) ''user_id'' uid) db) = db" for db
    by (rule seek_hash(1) [OF calm_env [OF assms(2)]])
  ultimately show ?thesis
    using tidy_insert_record [OF assms, of uid ?body] assms(1)
    by (auto simp: add_record_def Some Let_def first_def [symmetric] prod_eq_iff split: prod.split option.split)
qed

lemma row_tidy_rewritten: "row_tidy R i md \<Longrightarrow> row_tidy R i (rewritten_meta R stamp md rest)"
  by (simp add: rewritten_meta_def Let_def row_tidy_set)

lemma tidy_rewrite_rows:
  "rewrite_rows R M n xs db = (r, db') \<Longrightarrow> calm M \<Longrightarrow> tidy R db \<Longrightarrow> (\<forall>x \<in> set xs. row_tidy R (fst x) (snd (snd x))) \<Longrightarrow> tidy R db'"
proof (induction xs arbitrary: n db)
  case (Cons x xs)
  obtain i rest md where x: "x = (i, rest, md)" by (cases x)
  let ?up = "update_items (ru_lib R) (mo_env M n) [i] (Some [rest]) (Some [JObj (rewritten_meta R (mo_iso M) md rest)]) db"
  obtain u db1 where up: "?up = (u, db1)" by (cases ?up)
  have "tidy R (snd ?up)"
    by (rule tidy_updated [OF Cons.prems(3) calm_env [OF Cons.prems(2)]])
      (use Cons.prems(4) in \<open>simp add: x tidy_update_def row_tidy_rewritten\<close>)
  then have "tidy R db1" by (simp add: up)
  with Cons up show ?case by (cases u) (auto simp: x)
qed simp

lemma tidy_forget_fact:
  assumes "tidy R (um_db s)" "calm M"
  shows "tidy R (um_db (snd (forget_fact R M user named s)))"
proof (cases "valid_user_id user")
  case None
  then show ?thesis using assms(1) by (simp add: forget_fact_def)
next
  case (Some uid)
  let ?items = "map item_of (rows_of_user uid (um_db s))" and ?wanted = "filter (\<lambda>f. f \<in> set field_terms) named"
  obtain r db1 where del: "erase_ids (ru_lib R) (mo_env M 1) (mo_now M) (doomed_ids R ?wanted True ?items) (um_db s) = (r, db1)"
    by (cases "erase_ids (ru_lib R) (mo_env M 1) (mo_now M) (doomed_ids R ?wanted True ?items) (um_db s)")
  obtain u db2 where again: "rewrite_rows R M 2 (rows_rewritten R ?wanted ?items) db1 = (u, db2)"
    by (cases "rewrite_rows R M 2 (rows_rewritten R ?wanted ?items) db1")
  have one: "tidy R db1" by (rule tidy_erase_ids [OF assms(1) calm_env [OF assms(2)] del])
  have "row_tidy R (fst x) (snd (snd x))" if "x \<in> set (rows_rewritten R ?wanted ?items)" for x
    using rewrites_from [OF that] tidy_item [OF assms(1)] by (fastforce simp: rows_of_user_def)
  then have "tidy R db2" using tidy_rewrite_rows [OF again assms(2) one] by blast
  with one assms(1) forget_fact_db [OF assms(2) Some del again] show ?thesis by auto
qed

lemma tidy_add_memory:
  assumes "tidy R (um_db s)" "calm M" "calm M'" "plain_extra q"
  shows "tidy R (um_db (snd (add_memory R (M, M') q s)))"
  using tidy_add_record [OF assms(1,2,4)] tidy_forget_fact [OF tidy_add_record [OF assms(1,2,4)] assms(3)]
  by (simp add: add_memory_def case_prod_unfold Let_def)

lemma tidy_retire:
  assumes "tidy R (um_db s)" "calm M"
  shows "tidy R (um_db (snd (retire_turn_rows R M user conv turns s)))"
  using assms(1) tidy_erased [OF assms(1) calm_env [OF assms(2)]]
  by (simp add: retire_turn_rows_def kind_items calm_env [OF assms(2)] Let_def case_prod_unfold split: sum.split option.split)

lemma tidy_cap: "tidy R db \<Longrightarrow> calm M \<Longrightarrow> tidy R (enforce_episodic_cap R M uid cap db)"
  by (simp add: enforce_episodic_cap_def kind_items calm_env tidy_erased)

lemma tidy_touch:
  assumes "tidy R db" "calm M"
  shows "tidy R (touch R M ids db)"
proof -
  let ?items = "map item_of (select_rows (Some ids) db)"
  have "row_tidy R (fst x) (snd (snd x))" if "x \<in> set ?items" for x
    using tidy_item [OF assms(1), of x] that by (auto simp: select_rows_def)
  then have "tidy R (snd (update_items (ru_lib R) (mo_env M 2) (map fst ?items) None (Some (map (touched (mo_iso M)) ?items)) db))"
    by (intro tidy_updated [OF assms(1) calm_env [OF assms(2)]])
      (auto simp: list_all2_conv_all_nth tidy_update_def touched_def row_tidy_set)
  with assms(1) show ?thesis by (simp add: touch_def get_at_rest [OF calm_env [OF assms(2)]] keep_all)
qed

lemma tidy_retrieve:
  assumes "tidy R db" "calm M"
  shows "tidy R (snd (retrieve R X M hours query user n lineage db))"
proof (cases "valid_user_id user = None \<or> strip query = []")
  case True
  then show ?thesis using assms(1) by (auto simp: retrieve_def split: option.split)
next
  case False
  then obtain uid where "valid_user_id user = Some uid" "strip query \<noteq> []" by auto
  then show ?thesis using retrieve_at_rest [OF assms(2)] tidy_touch [OF assms] by (simp add: Let_def)
qed

lemma tidy_call: "tidy R (um_db s) \<Longrightarrow> call_calm c \<Longrightarrow> tidy R (um_db (memory_call_step R X s c))"
  using tidy_add_memory tidy_forget_fact tidy_retire tidy_cap tidy_retrieve tidy_insert_record by (cases c) auto

lemma tidy_empty: "tidy R empty_memory"
  by (simp add: tidy_def empty_memory_def)

interpretation keyed_memory: invariant_machine no_memories
  "\<lambda>_ c. call_calm c" "memory_call_step R X" "\<lambda>s. memory_ok (um_db s) \<and> tidy R (um_db s)" for R X
  by unfold_locales (simp_all add: no_memories_def memory.inv_init call_ok tidy_call tidy_empty)

section \<open>One row per key\<close>

definition has_key :: "string \<Rightarrow> memory_row \<Rightarrow> bool" where
  "has_key k r \<longleftrightarrow> meta_get (mr_metadata r) ''idempotency_key'' = JStr k"

lemma keyed_row_id: "tidy R db \<Longrightarrow> r \<in> set (rows_of_user uid db) \<Longrightarrow> has_key k r \<Longrightarrow> mr_id r = keyed_id R uid k"
  by (auto simp: tidy_def row_tidy_def rows_of_user_def has_key_def user_of_def)

lemma one_keyed_row:
  assumes "tidy R db" "memory_ok db" "r \<in> set (rows_of_user uid db)" "has_key k r"
  shows "filter (has_key k) (rows_of_user uid db) = [r]"
proof -
  let ?same = "\<lambda>r. user_of r = JStr uid \<and> has_key k r"
  have r: "r \<in> set (md_rows db)" "?same r" using assms(3,4) by (simp_all add: rows_of_user_def)
  have id: "mr_id x = mr_id r" if "x \<in> set (md_rows db)" "?same x" for x
    using keyed_row_id [OF assms(1,3,4)] keyed_row_id [OF assms(1), of x uid k] that by (simp add: rows_of_user_def)
  have "filter ?same (md_rows db) = filter (\<lambda>x. mr_id x = mr_id r) (md_rows db)"
  proof (rule filter_cong)
    fix x assume x: "x \<in> set (md_rows db)"
    have "x = r" if "mr_id x = mr_id r"
      using assms(2) x r(1) that by (simp add: memory_ok_def ids_of_def distinct_map inj_on_def)
    then show "?same x \<longleftrightarrow> mr_id x = mr_id r" using id [OF x] r(2) by blast
  qed simp
  moreover have "filter (\<lambda>x. mr_id x = mr_id r) (md_rows db) = [r]"
    using assms(2) r(1) by (intro filter_unique [where f = mr_id]) (simp_all add: memory_ok_def ids_of_def)
  ultimately show ?thesis by (simp add: rows_of_user_def conj_commute)
qed

text \<open>The look-up by key reads the rows of the user.\<close>

lemma seek_keyed:
  assumes "at_rest e"
  shows "seek L e (where_both ''idempotency_key'' k ''user_id'' uid) db
    = (case filter (has_key k) (rows_of_user uid db) of [] \<Rightarrow> None | r # _ \<Rightarrow> Some (mr_id r), db)"
  using seek_key [OF assms, of L k uid db] by (simp add: prod_eq_iff rows_of_user_def user_of_def has_key_def conj_commute)

lemma insertion_fails:
  assumes "at_rest e" "i \<in> set (ids_of db)"
  shows "\<exists>x. add_items L e [i] [body] [meta] db = (Inl x, db)"
  using sync_at_rest [OF assms(1), of L False db] assms(2)
  by (auto simp: add_items_def insert_item_def and_then_def find_row_None split: if_splits sum.splits)

lemma keyed_loser:
  assumes "tidy R (um_db s)" "memory_ok (um_db s)" "r \<in> set (rows_of_user uid (um_db s))" "has_key k r"
    and "key_of q = Some k" "calm M"
  shows "fst (insert_record R M uid body q s) = Some (mr_id r)" "um_db (snd (insert_record R M uid body q s)) = um_db s"
proof -
  have "memory_id R uid body q = mr_id r" using keyed_row_id [OF assms(1,3,4)] by (simp add: memory_id_def assms(5) keyed_id_def)
  moreover have "mr_id r \<in> set (ids_of (um_db s))" using assms(3) by (simp add: ids_of_def rows_of_user_def)
  ultimately obtain x where "add_items (ru_lib R) (mo_env M 2) [memory_id R uid body q] [body] [JObj (memory_meta R M uid body q)] (um_db s) = (Inl x, um_db s)"
    using insertion_fails [OF calm_env [OF assms(6)]] by metis
  then show "fst (insert_record R M uid body q s) = Some (mr_id r)" "um_db (snd (insert_record R M uid body q s)) = um_db s"
    by (simp_all add: insert_record_def same_memory_def assms(5) seek_keyed [OF calm_env [OF assms(6)]] one_keyed_row [OF assms(1-4)])
qed

lemma keyed_found:
  assumes "tidy R (um_db s)" "memory_ok (um_db s)" "r \<in> set (rows_of_user uid (um_db s))" "has_key k r"
    and "key_of q = Some k" "calm M" "valid_user_id (aq_user q) = Some uid" "kept_text R (aq_text q) \<noteq> []"
  shows "add_record R M q s = (Some (mr_id r), s)"
  by (simp add: add_record_def assms(5,7,8) seek_keyed [OF calm_env [OF assms(6)]] one_keyed_row [OF assms(1-4)])

lemma reached_memory:
  assumes "\<forall>c \<in> set calls. call_calm c"
  shows "memory_ok (um_db (run_ops (memory_call_step R X) no_memories calls))"
    "tidy R (um_db (run_ops (memory_call_step R X) no_memories calls))"
proof -
  have "ops_ok (\<lambda>_ c. call_calm c) (memory_call_step R X) s calls" for s
    using assms by (induction calls arbitrary: s) auto
  from keyed_memory.inv_run [OF this] show "memory_ok (um_db (run_ops (memory_call_step R X) no_memories calls))"
    "tidy R (um_db (run_ops (memory_call_step R X) no_memories calls))"
    by simp_all
qed

text \<open>
  C33. An idempotency key stands for one memory of its user.  After any calls of any users, interleaved with insertions
  whose look-ups came long before them, no two rows of a user carry the same key; and while a row
  carries it, adding under that key hands out that row and writes nothing, however different the text, also
  when the caller had looked before the row was there.
\<close>

lemma one_memory_per_key:
  assumes "\<forall>c \<in> set calls. call_calm c" "s = run_ops (memory_call_step R X) no_memories calls"
    and "r \<in> set (rows_of_user uid (um_db s))" "has_key k r" "key_of q = Some k" "calm M"
    and "valid_user_id (aq_user q) = Some uid" "kept_text R (aq_text q) \<noteq> []"
  shows "filter (has_key k) (rows_of_user uid (um_db s)) = [r] \<and> add_record R M q s = (Some (mr_id r), s)
    \<and> fst (insert_record R M uid body q s) = Some (mr_id r) \<and> um_db (snd (insert_record R M uid body q s)) = um_db s"
proof -
  have "tidy R (um_db s)" "memory_ok (um_db s)" using reached_memory [OF assms(1)] by (simp_all add: assms(2))
  note row = this assms(3,4)
  show ?thesis
    using one_keyed_row [OF row] keyed_found [OF row assms(5-8)] keyed_loser [OF row assms(5,6), of body] by simp
qed

definition sample_keyed :: user_memory where
  "sample_keyed = snd (add_memory sample_rules (sample_moments, sample_moments) (sample_request ''v'' ''likes parks'' (Some ''k'')) no_memories)"

lemma one_memory_per_key_witness:
  "add_record sample_rules sample_moments (sample_request ''v'' ''hates stairs'' (Some ''k'')) sample_keyed = (Some ''idem_v|k'', sample_keyed)
   \<and> fst (insert_record sample_rules sample_moments ''v'' ''hates stairs'' (sample_request ''v'' ''hates stairs'' (Some ''k'')) sample_keyed)
     = Some ''idem_v|k''"
proof -
  have calls: "\<forall>c \<in> set [AddCall (sample_moments, sample_moments) (sample_request ''v'' ''likes parks'' (Some ''k''))]. call_calm c"
    by (simp add: sample_calm plain_extra_def sample_request_def)
  have s: "sample_keyed = run_ops (memory_call_step sample_rules sample_lexicon) no_memories
      [AddCall (sample_moments, sample_moments) (sample_request ''v'' ''likes parks'' (Some ''k''))]" by (simp add: sample_keyed_def)
  have row: "hd (rows_of_user ''v'' (um_db sample_keyed)) \<in> set (rows_of_user ''v'' (um_db sample_keyed))" by code_simp
  have key: "has_key ''k'' (hd (rows_of_user ''v'' (um_db sample_keyed)))" by code_simp
  have id: "mr_id (hd (rows_of_user ''v'' (um_db sample_keyed))) = ''idem_v|k''" by code_simp
  have "key_of (sample_request ''v'' ''hates stairs'' (Some ''k'')) = Some ''k''" by code_simp
  moreover have "valid_user_id (aq_user (sample_request ''v'' ''hates stairs'' (Some ''k''))) = Some ''v''" by code_simp
  moreover have "kept_text sample_rules (aq_text (sample_request ''v'' ''hates stairs'' (Some ''k''))) \<noteq> []" by code_simp
  ultimately show ?thesis
    using one_memory_per_key [OF calls s row key _ sample_calm] by (simp add: id)
qed

end
