(* ===== verification/FieldErasure.thy ===== *)
theory FieldErasure
  imports MemoryKeys
begin

text \<open>
  What \<open>add\<close>, \<open>forget_fact\<close> and \<open>retrieve\<close> of \<open>app/rag/agent_memory.py\<close> promise their callers: a report that
  says complete, an id that is handed out, the rows a recall shows, and the wordings that can no longer be stored.
\<close>

section \<open>A complete report\<close>

lemma states_stored: "states_any R wanted d (stored md) = states_any R wanted d md"
  by (simp add: states_any_def meta_text_def stored_get)

lemma no_doomed: "doomed_ids R wanted False items = [] \<longleftrightarrow> no_item (states_any R wanted) items"
  by (force simp: doomed_ids_def no_item_def judge_def filter_empty_conv Let_def split: prod.splits)

lemma verified_complete:
  assumes "verify_scrub R M n uid wanted rep db = (rep1, db1)" "fr_complete rep1" "\<not> fr_complete rep"
    and "still_legacy (ru_lib R) (mo_env M (Suc n)) (mo_present M) (mo_tries M)"
  shows "no_row (\<lambda>d md. meta_get md ''user_id'' = JStr uid \<and> states_any R wanted d md) db1"
proof -
  obtain items dba where read: "get_items (ru_lib R) (mo_env M n) None (of_user uid) db = (Inr items, dba)"
    using assms(1-3) by (auto simp: verify_scrub_def split: prod.splits sum.splits)
  then obtain old where old: "legacy_residual_records (ru_lib R) (mo_env M (Suc n)) (mo_present M) (mo_tries M) (of_user uid) dba = (Inr old, db1)"
    and none: "doomed_ids R wanted False items = []" "map fst (filter (\<lambda>x. states_any R wanted (fst (snd x)) (snd (snd x))) old) = []"
    using assms(1-3) by (auto simp: verify_scrub_def Let_def split: prod.splits sum.splits)
  have "no_item (states_any R wanted) old" using none(2) by (auto simp: no_item_def filter_empty_conv)
  from residual_no_row [OF old this get_no_row [OF read] assms(4)] none(1) states_stored
  show ?thesis by (simp add: no_doomed)
qed

lemma scrub_done:
  assumes "forget_fact R M user named s = (rep, s')" "fr_complete rep" "valid_user_id user = Some uid"
    and "wanted = filter (\<lambda>f. f \<in> set field_terms) named" "wanted \<noteq> []"
  shows "\<exists>n rep0 db. \<not> fr_complete rep0 \<and> verify_scrub R M n uid wanted rep0 db = (rep, um_db s')
    \<and> um_erased s' = stamp_fields uid wanted (mo_stamp M) (um_erased s)"
  using assms(1,2)
  by (auto simp: forget_fact_def assms(3) assms(4) [symmetric] assms(5) Let_def blank_report_def split: prod.splits sum.splits)
    (intro exI, rule conjI [rotated], rule exI, assumption, simp)

text \<open>
  C34. A field that \<open>forget_fact\<close> reports as completely forgotten is gone: no row of the user states its value, whatever
  the legacy file brought in on the way; and a background job of a turn that started before the erasure is
  told to leave the field out.
\<close>

lemma forgotten_field_is_gone:
  assumes "forget_fact R M user named s = (rep, s')" "fr_complete rep" "valid_user_id user = Some uid"
    and "f \<in> set named" "f \<in> set field_terms" "\<And>n. still_legacy (ru_lib R) (mo_env M n) (mo_present M) (mo_tries M)"
    and "t \<le> mo_stamp M"
  shows "list_all (\<lambda>r. \<not> ru_states R (mr_document r) f (meta_text R (mr_metadata r) ''mtype'')) (rows_of_user uid (um_db s'))
    \<and> f \<in> set (erased_fields_since user (Some t) s')"
proof -
  define wanted where "wanted = filter (\<lambda>f. f \<in> set field_terms) named"
  have f: "f \<in> set wanted" using assms(4,5) by (simp add: wanted_def)
  then obtain n rep0 db where fin: "\<not> fr_complete rep0" "verify_scrub R M n uid wanted rep0 db = (rep, um_db s')"
    and stamps: "um_erased s' = stamp_fields uid wanted (mo_stamp M) (um_erased s)"
    using scrub_done [OF assms(1-3) wanted_def] by fastforce
  from verified_complete [OF fin(2) assms(2) fin(1) assms(6)] f
  have "list_all (\<lambda>r. \<not> ru_states R (mr_document r) f (meta_text R (mr_metadata r) ''mtype'')) (rows_of_user uid (um_db s'))"
    by (auto simp: list_all_iff no_row_def rows_of_user_def user_of_def states_any_def list_ex_iff)
  moreover have "f \<in> set (erased_fields_since user (Some t) s')"
    using f assms(7) by (force simp: erased_fields_since_def assms(3) stamps stamp_fields_def)
  ultimately show ?thesis by simp
qed

section \<open>When the report is complete\<close>

definition is_rewrite :: "(string \<times> string \<times> fields) list \<Rightarrow> memory_row \<Rightarrow> bool" where
  "is_rewrite xs r \<longleftrightarrow> (\<exists>x \<in> set xs. mr_id r = fst x \<and> mr_document r = fst (snd x)
     \<and> meta_get (mr_metadata r) ''mtype'' = meta_get (snd (snd x)) ''mtype'')"

lemma rewritten_type: "meta_get (rewritten_meta R stamp md rest) ''mtype'' = meta_get md ''mtype''"
  by (simp add: rewritten_meta_def Let_def meta_get_def)

lemma rewrite_one:
  assumes "at_rest e" "clean_meta md"
  shows "\<exists>db1. update_items L e [i] (Some [rest]) (Some [JObj md]) db = (Inr (), db1)
    \<and> md_rows db1 = map (\<lambda>x. if mr_id x = i then memory_row_of (i, rest, md) True else x) (md_rows db)"
proof (cases "find_row db i")
  case None
  then have "map (\<lambda>x. if mr_id x = i then memory_row_of (i, rest, md) True else x) (md_rows db) = md_rows db"
    by (auto simp: find_row_None ids_of_def intro!: map_idI)
  with None show ?thesis using sync_at_rest [OF assms(1), of L False db]
    by (auto simp: update_items_def validate_batch_def optional_def change_item_def and_then_def)
next
  case (Some r)
  then show ?thesis using sync_at_rest [OF assms(1), of L False db]
    by (auto simp: update_items_def validate_batch_def optional_def change_item_def and_then_def canonical_clean [OF assms(2)])
qed

lemma rewrites_at_rest:
  "calm M \<Longrightarrow> (\<forall>x \<in> set xs. clean_meta (snd (snd x))) \<Longrightarrow> \<exists>db'. rewrite_rows R M n xs db = (Inr (), db')
     \<and> (\<forall>r \<in> set (md_rows db'). r \<in> set (md_rows db) \<and> mr_id r \<notin> fst ` set xs \<or> is_rewrite xs r)"
proof (induction xs arbitrary: n db)
  case (Cons x xs)
  obtain i rest md where x: "x = (i, rest, md)" by (cases x)
  have "clean_meta (rewritten_meta R (mo_iso M) md rest)"
    using Cons.prems(2) by (simp add: x rewritten_meta_def Let_def clean_dict_set)
  from rewrite_one [OF calm_env [OF Cons.prems(1)] this]
  obtain db1 where one: "update_items (ru_lib R) (mo_env M n) [i] (Some [rest]) (Some [JObj (rewritten_meta R (mo_iso M) md rest)]) db = (Inr (), db1)"
    and rows: "md_rows db1 = map (\<lambda>y. if mr_id y = i then memory_row_of (i, rest, rewritten_meta R (mo_iso M) md rest) True else y) (md_rows db)"
    by blast
  have new: "is_rewrite (x # xs) (memory_row_of (i, rest, rewritten_meta R (mo_iso M) md rest) True)"
    by (simp add: is_rewrite_def x memory_row_of_def stored_get rewritten_type)
  from Cons.IH [OF Cons.prems(1), of "Suc n" db1] Cons.prems(2)
  obtain db' where rest: "rewrite_rows R M (Suc n) xs db1 = (Inr (), db')"
    and after: "\<forall>r \<in> set (md_rows db'). r \<in> set (md_rows db1) \<and> mr_id r \<notin> fst ` set xs \<or> is_rewrite xs r" by auto
  have "r \<in> set (md_rows db) \<and> mr_id r \<notin> fst ` set (x # xs) \<or> is_rewrite (x # xs) r" if r: "r \<in> set (md_rows db')" for r
    using after [rule_format, OF r]
  proof (elim disjE conjE)
    assume "r \<in> set (md_rows db1)" "mr_id r \<notin> fst ` set xs"
    then show ?thesis using new by (auto simp: rows x)
  qed (auto simp: is_rewrite_def)
  with rest one show ?case by (auto simp: x)
qed simp

lemma judge_split:
  "judge R wanted True x = Rewrite rest \<Longrightarrow> rest = fold (\<lambda>f t. if t = [] then t else ru_without R t f) wanted (fst (snd x)) \<and> rest \<noteq> []"
  "judge R wanted True x \<in> {Mention, Leave} \<Longrightarrow> \<not> states_any R wanted (fst (snd x)) (snd (snd x))"
  by (auto simp: judge_def Let_def split: prod.splits if_splits)

text \<open>\<open>_without_field_clauses\<close>: "The value cannot survive".\<close>

definition cuts_value :: "memory_rules \<Rightarrow> bool" where
  "cuts_value R \<longleftrightarrow> (\<forall>t f m. f \<in> set field_terms \<longrightarrow> \<not> ru_states R (ru_without R t f) f m)"

lemma cut_states_nothing:
  assumes "cuts_value R" "set wanted \<subseteq> set field_terms" "wanted \<noteq> []"
    and "rest = fold (\<lambda>f t. if t = [] then t else ru_without R t f) wanted doc" "rest \<noteq> []"
  shows "\<not> states_any R wanted rest md"
proof -
  obtain ws w where wanted: "wanted = ws @ [w]" using assms(3) by (cases wanted rule: rev_cases) auto
  then have w: "w = ''budget''" "set wanted = {''budget''}" using assms(2) by (auto simp: field_terms_def)
  define t where "t = fold (\<lambda>f t. if t = [] then t else ru_without R t f) ws doc"
  have "rest = (if t = [] then t else ru_without R t w)" by (simp add: assms(4) wanted t_def)
  with assms(5) have "rest = ru_without R t ''budget''" by (simp add: w(1) split: if_splits)
  with assms(1) have "\<not> ru_states R rest ''budget'' m" for m by (simp add: cuts_value_def field_terms_def)
  then show ?thesis using w(2) by (auto simp: states_any_def list_ex_iff)
qed

lemma erase_at_rest:
  assumes "at_rest e"
  shows "\<exists>db1. erase_ids L e now ids db = (Inr (), db1) \<and> md_rows db1 = filter (\<lambda>r. mr_id r \<notin> set ids) (md_rows db)"
proof (cases "ids = []")
  case False
  obtain r db1 where del: "delete_items L e now (Some ids) JNull db = (r, db1)" by (cases "delete_items L e now (Some ids) JNull db")
  from deleted_at_rest [OF assms del] del False show ?thesis by (auto simp: erase_ids_def)
qed (simp add: erase_ids_def)

lemma rewrite_judged:
  assumes "x \<in> set (rows_rewritten R wanted items)"
  shows "\<exists>y \<in> set items. judge R wanted True y = Rewrite (fst (snd x))"
  using assms by (force simp: rows_rewritten_def split: verdict.splits)

lemma judged_rewritten:
  "x \<in> set items \<Longrightarrow> judge R wanted True x = Rewrite rest \<Longrightarrow> (fst x, rest, snd (snd x)) \<in> set (rows_rewritten R wanted items)"
  by (induction items) (auto simp: rows_rewritten_def)

lemma residual_absent:
  "at_rest e \<Longrightarrow> \<not> present \<Longrightarrow> legacy_residual_records L e present tries wh db = (Inr [], db)"
  using sync_at_rest [of e L False db] by (auto simp: legacy_residual_records_def)

lemma scrubbed_rows:
  assumes "rows = rows_of_user uid db" "wanted \<noteq> []" "set wanted \<subseteq> set field_terms" "cuts_value R"
    and "user_of r = JStr uid"
    and "r \<in> set (md_rows db) \<and> mr_id r \<notin> set (doomed_ids R wanted True (map item_of rows))
      \<and> mr_id r \<notin> fst ` set (rows_rewritten R wanted (map item_of rows)) \<or> is_rewrite (rows_rewritten R wanted (map item_of rows)) r"
  shows "\<not> states_any R wanted (mr_document r) (mr_metadata r)"
  using assms(6)
proof
  assume r: "r \<in> set (md_rows db) \<and> mr_id r \<notin> set (doomed_ids R wanted True (map item_of rows))
      \<and> mr_id r \<notin> fst ` set (rows_rewritten R wanted (map item_of rows))"
  then have mine: "item_of r \<in> set (map item_of rows)" using assms(1,5) by (simp add: rows_of_user_def)
  have "judge R wanted True (item_of r) \<noteq> Drop"
  proof
    assume "judge R wanted True (item_of r) = Drop"
    then have "fst (item_of r) \<in> set (doomed_ids R wanted True (map item_of rows))" using mine by (auto simp: doomed_ids_def)
    with r show False by (simp add: item_of_def)
  qed
  moreover have "judge R wanted True (item_of r) \<noteq> Rewrite rest" for rest
  proof
    assume again: "judge R wanted True (item_of r) = Rewrite rest"
    have "fst (item_of r) \<in> fst ` set (rows_rewritten R wanted (map item_of rows))"
      by (rule image_eqI [OF _ judged_rewritten [OF mine again]]) simp
    with r show False by (simp add: item_of_def)
  qed
  ultimately have "judge R wanted True (item_of r) \<in> {Mention, Leave}"
    by (cases "judge R wanted True (item_of r)") blast+
  from judge_split(2) [OF this] show ?thesis by (simp add: item_of_def)
next
  assume "is_rewrite (rows_rewritten R wanted (map item_of rows)) r"
  then obtain y where y: "y \<in> set (rows_rewritten R wanted (map item_of rows))" and doc: "mr_document r = fst (snd y)"
    unfolding is_rewrite_def by blast
  from rewrite_judged [OF y] obtain x where x: "judge R wanted True x = Rewrite (fst (snd y))" by blast
  note rest = judge_split(1) [OF x]
  show ?thesis unfolding doc by (rule cut_states_nothing [OF assms(4,3,2) conjunct1 [OF rest] conjunct2 [OF rest]])
qed

lemma forget_completes:
  assumes "calm M" "\<not> mo_present M" "tidy R (um_db s)" "memory_ok (um_db s)" "cuts_value R" "valid_user_id user = Some uid"
  shows "fr_complete (fst (forget_fact R M user named s))"
proof (cases "filter (\<lambda>f. f \<in> set field_terms) named = []")
  case True
  then show ?thesis by (simp add: forget_fact_def assms(6) blank_report_def Let_def)
next
  case False
  define wanted where "wanted = filter (\<lambda>f. f \<in> set field_terms) named"
  define rows where "rows = rows_of_user uid (um_db s)"
  define doomed where "doomed = doomed_ids R wanted True (map item_of rows)"
  define again where "again = rows_rewritten R wanted (map item_of rows)"
  have wanted: "wanted \<noteq> []" "set wanted \<subseteq> set field_terms" using False by (auto simp: wanted_def)
  obtain db1 where del: "erase_ids (ru_lib R) (mo_env M 1) (mo_now M) doomed (um_db s) = (Inr (), db1)"
    and rows1: "md_rows db1 = filter (\<lambda>r. mr_id r \<notin> set doomed) (md_rows (um_db s))"
    using erase_at_rest [OF calm_env [OF assms(1)]] by blast
  have "clean_meta (snd (snd x))" if x: "x \<in> set again" for x
    using rewrites_from [OF x [unfolded again_def]] tidy_item [OF assms(3)]
    by (fastforce simp: rows_def rows_of_user_def row_tidy_def)
  then obtain db2 where re: "rewrite_rows R M 2 again db1 = (Inr (), db2)"
    and rows2: "\<forall>r \<in> set (md_rows db2). r \<in> set (md_rows db1) \<and> mr_id r \<notin> fst ` set again \<or> is_rewrite again r"
    using rewrites_at_rest [OF assms(1)] by blast
  have "\<not> states_any R wanted (mr_document r) (mr_metadata r)" if "r \<in> set (rows_of_user uid db2)" for r
    using scrubbed_rows [OF rows_def wanted assms(5), of r] rows2 rows1 that
    by (auto simp: rows_of_user_def doomed_def again_def)
  then have "doomed_ids R wanted False (map item_of (rows_of_user uid db2)) = []"
    by (auto simp: no_doomed no_item_def item_of_def)
  then show ?thesis
    using wanted(1) del re residual_absent [OF calm_env [OF assms(1)] assms(2)]
    by (simp add: forget_fact_def assms(6) wanted_def [symmetric] user_items calm_env [OF assms(1)] rows_def [symmetric] doomed_def [symmetric] again_def [symmetric] Let_def
      verify_scrub_def case_prod_unfold)
qed


lemma sample_cuts: "cuts_value sample_rules"
  by (simp add: cuts_value_def sample_rules_def)

lemma sample_user: "valid_user_id (JStr ''v'') = Some ''v''"
  by code_simp

definition sample_forget :: "field_report \<times> user_memory" where
  "sample_forget = forget_fact sample_rules sample_moments (JStr ''v'') [''budget''] sample_stored"


lemma forgotten_field_is_gone_witness:
  "list_all (\<lambda>r. \<not> list_ex is_digit (mr_document r)) (rows_of_user ''v'' (um_db (snd sample_forget)))
   \<and> ''budget'' \<in> set (erased_fields_since (JStr ''v'') (Some 4) (snd sample_forget))"
proof -
  have quiet: "still_legacy (ru_lib sample_rules) (mo_env sample_moments n) (mo_present sample_moments) (mo_tries sample_moments)" for n
    by (simp add: still_legacy_def sample_moments_def no_legacy_def)
  have fin: "fr_complete (fst sample_forget)" by code_simp
  have "forget_fact sample_rules sample_moments (JStr ''v'') [''budget''] sample_stored = (fst sample_forget, snd sample_forget)"
    by (simp add: sample_forget_def)
  from forgotten_field_is_gone [OF this fin sample_user _ _ quiet, of "''budget''" 4]
  show ?thesis by (simp add: field_terms_def sample_rules_def sample_moments_def)
qed

section \<open>An id that is handed out\<close>

definition held :: "string \<Rightarrow> string \<Rightarrow> memory_db \<Rightarrow> bool" where
  "held uid i db \<longleftrightarrow> (\<exists>r \<in> set (rows_of_user uid db). mr_id r = i)"

lemma held_sought:
  assumes "at_rest e" "seek L e (where_both a x ''user_id'' uid) db = (Some i, db1)" "\<not> starts_with a ''$''"
  shows "held uid i db1"
proof -
  have "\<not> starts_with ''user_id'' ''$''" by simp
  note found = seek_at_rest [OF assms(1,3) this, of L x uid db]
  then have "db1 = db" using assms(2) by simp
  have "(case filter (\<lambda>r. meta_get (mr_metadata r) a = JStr x \<and> meta_get (mr_metadata r) ''user_id'' = JStr uid) (md_rows db)
       of [] \<Rightarrow> None | r # _ \<Rightarrow> Some (mr_id r)) = Some i"
    using found(2) assms(2) by simp
  then obtain r rs where "filter (\<lambda>r. meta_get (mr_metadata r) a = JStr x \<and> meta_get (mr_metadata r) ''user_id'' = JStr uid) (md_rows db) = r # rs"
    "mr_id r = i" by (auto split: list.splits)
  then have "r \<in> set (md_rows db)" "user_of r = JStr uid" by (auto simp: user_of_def dest: filter_eq_ConsD)
  then show ?thesis using \<open>db1 = db\<close> \<open>mr_id r = i\<close> by (auto simp: held_def rows_of_user_def)
qed

lemma held_inserted:
  assumes "at_rest e" "add_items L e [i] [body] [JObj md] db = (Inr u, db1)" "meta_get md ''user_id'' = JStr uid"
  shows "held uid i db1"
proof -
  have "insert_item L (i, body, JObj md) db = Inr db1"
    using assms(2) sync_at_rest [OF assms(1), of L False db] by (auto simp: add_items_def and_then_Inr split: if_splits sum.splits)
  then obtain md' where md': "canonical_metadata L (JObj md) = Inr md'" and rows: "md_rows db1 = md_rows db @ [memory_row_of (i, body, md') True]"
    by (rule insert_item_Inr) simp
  have "user_of (memory_row_of (i, body, md') True) = JStr uid"
    using canonical_text [OF md' assms(3)] by (simp add: row_of_user)
  then show ?thesis by (simp add: held_def rows_of_user_def rows)
qed

lemma held_update:
  assumes "at_rest e" "update_items L e [i] (Some [d]) (Some [JObj md]) db = (u, db1)" "meta_get md ''user_id'' = JStr uid" "held uid j db"
  shows "held uid j db1"
proof -
  have "db1 = db \<or> change_item L (i, Some d, Some (JObj md)) db = Inr db1"
    using assms(2) sync_at_rest [OF assms(1), of L False db] by (auto simp: update_items_def optional_def and_then_Inr split: if_splits sum.splits)
  then show ?thesis
  proof
    assume "change_item L (i, Some d, Some (JObj md)) db = Inr db1"
    from changed_item_rows [OF this] show ?thesis
    proof (elim disjE exE conjE)
      fix r d' md' assume md': "canonical_metadata L (case Some (JObj md) of None \<Rightarrow> JObj (mr_metadata r) | Some m \<Rightarrow> m) = Inr md'"
        and rows: "md_rows db1 = map (\<lambda>x. if mr_id x = i then memory_row_of (i, d', md') True else x) (md_rows db)"
      have new: "user_of (memory_row_of (i, d', md') True) = JStr uid"
        using canonical_text [OF _ assms(3)] md' by (simp add: row_of_user)
      obtain x where x: "x \<in> set (md_rows db)" "user_of x = JStr uid" "mr_id x = j" using assms(4) by (auto simp: held_def rows_of_user_def)
      let ?x = "if mr_id x = i then memory_row_of (i, d', md') True else x"
      have "?x \<in> set (md_rows db1)" "user_of ?x = JStr uid" "mr_id ?x = j" using x new by (auto simp: rows)
      then show ?thesis by (auto simp: held_def rows_of_user_def)
    qed (use assms(4) in simp)
  qed (use assms(4) in simp)
qed

lemma held_insert_record:
  assumes "calm M" "plain_extra q" "insert_record R M uid body q s = (Some i, s1)"
  shows "held uid i (um_db s1)"
proof -
  obtain r db where add: "add_items (ru_lib R) (mo_env M 2) [memory_id R uid body q] [body] [JObj (memory_meta R M uid body q)] (um_db s) = (r, db)"
    by (cases "add_items (ru_lib R) (mo_env M 2) [memory_id R uid body q] [body] [JObj (memory_meta R M uid body q)] (um_db s)")
  show ?thesis
  proof (cases r)
    case (Inl e)
    obtain won db1 where won: "seek (ru_lib R) (mo_env M 3) (same_memory R uid body q) db = (won, db1)"
      by (cases "seek (ru_lib R) (mo_env M 3) (same_memory R uid body q) db")
    with assms(3) add Inl have "won = Some i" "um_db s1 = db1" by (auto simp: insert_record_def)
    with won held_sought [OF calm_env [OF assms(1)]] show ?thesis by (auto simp: same_memory_def split: option.splits)
  next
    case (Inr u)
    with assms(3) add have "i = memory_id R uid body q" "um_db s1 = db" by (auto simp: insert_record_def Let_def)
    with held_inserted [OF calm_env [OF assms(1)] add [unfolded Inr] memory_meta_get(1) [OF assms(2)]] show ?thesis by simp
  qed
qed

lemma held_add_record:
  assumes "calm M" "plain_extra q" "valid_user_id (aq_user q) = Some uid" "add_record R M q s = (Some i, s1)"
  shows "held uid i (um_db s1)"
proof -
  let ?body = "kept_text R (aq_text q)"
  define first where "first = (case key_of q of None \<Rightarrow> (None, um_db s)
      | Some k \<Rightarrow> seek (ru_lib R) (mo_env M 0) (where_both ''idempotency_key'' k ''user_id'' uid) (um_db s))"
  obtain a db where a: "first = (a, db)" by (cases first)
  define second where "second = seek (ru_lib R) (mo_env M 1) (where_both ''hash'' (content_hash R (aq_type q) uid ?body) ''user_id'' uid) db"
  obtain b db1 where b: "second = (b, db1)" by (cases second)
  have body: "?body \<noteq> []" using assms(3,4) by (auto simp: add_record_def Let_def)
  have all: "(case a of Some j \<Rightarrow> (Some j, s\<lparr>um_db := db\<rparr>)
      | None \<Rightarrow> (case b of Some j \<Rightarrow> (Some j, s\<lparr>um_db := db1\<rparr>) | None \<Rightarrow> insert_record R M uid ?body q (s\<lparr>um_db := db1\<rparr>))) = (Some i, s1)"
    using assms(4) body a b by (simp add: add_record_def assms(3) first_def [symmetric] second_def Let_def split: option.splits)
  show ?thesis
  proof (cases a)
    case (Some j)
    then obtain k where "seek (ru_lib R) (mo_env M 0) (where_both ''idempotency_key'' k ''user_id'' uid) (um_db s) = (Some j, db)"
      using a by (auto simp: first_def split: option.splits)
    from held_sought [OF calm_env [OF assms(1)] this] all Some show ?thesis by auto
  next
    case None
    show ?thesis
    proof (cases b)
      case (Some j)
      with b have "seek (ru_lib R) (mo_env M 1) (where_both ''hash'' (content_hash R (aq_type q) uid ?body) ''user_id'' uid) db = (Some j, db1)"
        by (simp add: second_def)
      from held_sought [OF calm_env [OF assms(1)] this] all None Some show ?thesis by auto
    qed (use all None held_insert_record [OF assms(1,2)] in simp)
  qed
qed

lemma held_rewrite_rows:
  "rewrite_rows R M n xs db = (u, db') \<Longrightarrow> calm M \<Longrightarrow> (\<forall>x \<in> set xs. meta_get (snd (snd x)) ''user_id'' = JStr uid)
   \<Longrightarrow> held uid j db \<Longrightarrow> held uid j db'"
proof (induction xs arbitrary: n db)
  case (Cons x xs)
  obtain i rest md where x: "x = (i, rest, md)" by (cases x)
  let ?up = "update_items (ru_lib R) (mo_env M n) [i] (Some [rest]) (Some [JObj (rewritten_meta R (mo_iso M) md rest)]) db"
  obtain v db1 where up: "?up = (v, db1)" by (cases ?up)
  have "meta_get (rewritten_meta R (mo_iso M) md rest) ''user_id'' = JStr uid"
    using Cons.prems(3) by (simp add: x rewritten_user)
  from held_update [OF calm_env [OF Cons.prems(2)] up this Cons.prems(4)] Cons up show ?case by (cases v) (auto simp: x)
qed simp

lemma verify_deleted: "fr_deleted (fst (verify_scrub R M n uid wanted rep db)) = fr_deleted rep"
  by (simp add: verify_scrub_def Let_def split: prod.split sum.split)

lemma held_forget_fact:
  assumes "calm M" "valid_user_id user = Some uid" "held uid i (um_db s)" "i \<notin> set (fr_deleted (fst (forget_fact R M user named s)))"
  shows "held uid i (um_db (snd (forget_fact R M user named s)))"
proof (cases "filter (\<lambda>f. f \<in> set field_terms) named = []")
  case True
  then show ?thesis using assms(3) by (simp add: forget_fact_def assms(2))
next
  case False
  define wanted where "wanted = filter (\<lambda>f. f \<in> set field_terms) named"
  define items where "items = map item_of (rows_of_user uid (um_db s))"
  define doomed where "doomed = doomed_ids R wanted True items"
  define again where "again = rows_rewritten R wanted items"
  obtain db1 where del: "erase_ids (ru_lib R) (mo_env M 1) (mo_now M) doomed (um_db s) = (Inr (), db1)"
    and rows1: "md_rows db1 = filter (\<lambda>r. mr_id r \<notin> set doomed) (md_rows (um_db s))"
    using erase_at_rest [OF calm_env [OF assms(1)]] by blast
  obtain u db2 where re: "rewrite_rows R M 2 again db1 = (u, db2)" by (cases "rewrite_rows R M 2 again db1")
  have whole: "forget_fact R M user named s =
      (let rep = (blank_report (Some uid) False)\<lparr>fr_fields := wanted, fr_deleted := doomed, fr_layers := layer_counts R wanted items,
          fr_rewritten := map fst again, fr_retained := retained_count R wanted items\<rparr> in
       case u of Inl _ \<Rightarrow> (rep\<lparr>fr_residual := unverified\<rparr>, s\<lparr>um_db := db2\<rparr>)
       | Inr _ \<Rightarrow> (fst (verify_scrub R M (2 + length again) uid wanted rep db2),
           s\<lparr>um_db := snd (verify_scrub R M (2 + length again) uid wanted rep db2), um_erased := stamp_fields uid wanted (mo_stamp M) (um_erased s)\<rparr>))"
    using False del re
    by (simp add: forget_fact_def assms(2) wanted_def [symmetric] user_items calm_env [OF assms(1)] items_def [symmetric] doomed_def [symmetric]
      again_def [symmetric] Let_def case_prod_unfold split: sum.split)
  have deleted: "fr_deleted (fst (forget_fact R M user named s)) = doomed" and db: "um_db (snd (forget_fact R M user named s)) = db2"
    unfolding whole by (simp_all add: Let_def verify_deleted verify_at_rest [OF assms(1)] split: sum.split)
  have "held uid i db1" using assms(3,4) by (auto simp: held_def rows_of_user_def rows1 deleted)
  moreover have "meta_get (snd (snd x)) ''user_id'' = JStr uid" if "x \<in> set again" for x
    using rewrites_from [OF that [unfolded again_def]] by (auto simp: items_def item_of_def rows_of_user_def user_of_def)
  ultimately show ?thesis unfolding db by (intro held_rewrite_rows [OF re assms(1)]) auto
qed

text \<open>
  C36. \<open>add\<close> never claims a memory it does not hold: when it hands out an id, a row with that id belongs to the user
  afterwards, also when the text itself asked to forget a field and the erasure went through the rows that
  were just written.
\<close>

lemma added_memory_is_held:
  assumes "calm M" "calm M'" "plain_extra q" "valid_user_id (aq_user q) = Some uid" "add_memory R (M, M') q s = (Some i, s')"
  shows "held uid i (um_db s')"
proof -
  obtain j s1 where one: "add_record R M q s = (j, s1)" by (cases "add_record R M q s")
  have j: "j = Some i" using assms(5) one by (auto simp: add_memory_def Let_def split: if_splits option.splits prod.splits)
  note kept = held_add_record [OF assms(1,3,4) one [unfolded j]]
  consider "s' = s1" | "s' = snd (forget_fact R M' (aq_user q) (ru_erases R (aq_text q)) s1)"
      "i \<notin> set (fr_deleted (fst (forget_fact R M' (aq_user q) (ru_erases R (aq_text q)) s1)))"
    using assms(5) one j by (auto simp: add_memory_def Let_def split: if_splits prod.splits)
  then show ?thesis
  proof cases
    case 2
    with held_forget_fact [OF assms(2,4) kept] show ?thesis by simp
  qed (use kept in simp)
qed

lemma added_memory_is_held_witness: "held ''v'' ''idem_v|k'' (um_db sample_keyed)"
proof -
  let ?q = "sample_request ''v'' ''likes parks'' (Some ''k'')"
  have added: "add_memory sample_rules (sample_moments, sample_moments) ?q no_memories = (Some ''idem_v|k'', sample_keyed)"
    unfolding sample_keyed_def prod_eq_iff fst_conv snd_conv by (rule conjI, code_simp, rule refl)
  have "valid_user_id (aq_user ?q) = Some ''v''" by code_simp
  moreover have "plain_extra ?q" by (simp add: plain_extra_def sample_request_def)
  ultimately show ?thesis using added_memory_is_held [OF sample_calm sample_calm _ _ added] by blast
qed

section \<open>What a recall shows\<close>

lemma minmax_range: "x \<in> set (minmax vs) \<Longrightarrow> 0 \<le> x \<and> x \<le> 1"
proof -
  assume x: "x \<in> set (minmax vs)"
  have between: "Min (set vs) \<le> v" "v \<le> Max (set vs)" if "v \<in> set vs" for v using that by simp_all
  show ?thesis
  proof (cases "Max (set vs) - Min (set vs) < 1 / 10 ^ 9")
    case False
    then have pos: "0 < Max (set vs) - Min (set vs)" by (smt (verit) zero_less_divide_1_iff zero_less_power)
    from x False obtain v where v: "v \<in> set vs" "x = (v - Min (set vs)) / (Max (set vs) - Min (set vs))"
      by (auto simp: minmax_def Let_def split: if_splits)
    with between [OF v(1)] pos show ?thesis by (simp add: divide_le_eq)
  qed (use x in \<open>auto simp: minmax_def Let_def split: if_splits\<close>)
qed

lemma length_minmax [simp]: "length (minmax vs) = length vs"
  by (simp add: minmax_def Let_def)

lemma scores_range: "x \<in> set (scores R M hours found) \<Longrightarrow> 0 \<le> x \<and> x \<le> 3"
proof -
  let ?rel = "minmax (map (\<lambda>x. 1 - fst x) found)" and ?imp = "minmax (map importance_part (map (\<lambda>x. snd (snd (snd x))) found))"
  let ?rec = "minmax (map (\<lambda>md. (995 / 1000) powr hours (last_seen R M md)) (map (\<lambda>x. snd (snd (snd x))) found))"
  assume "x \<in> set (scores R M hours found)"
  then obtain i where i: "i < length found" "x = ?rel ! i + ?rec ! i + ?imp ! i" by (auto simp: scores_def Let_def)
  have "0 \<le> ?rel ! i \<and> ?rel ! i \<le> 1" "0 \<le> ?rec ! i \<and> ?rec ! i \<le> 1" "0 \<le> ?imp ! i \<and> ?imp ! i \<le> 1"
    using i(1) by (auto intro!: minmax_range nth_mem)
  with i(2) show ?thesis by linarith
qed

lemma best_of_range: "x \<in> set (best_of R M hours n seen) \<Longrightarrow> 0 \<le> fst x \<and> fst x \<le> 3"
proof -
  assume "x \<in> set (best_of R M hours n seen)"
  then have "x \<in> set (zip (scores R M hours seen) (map snd seen))" by (auto simp: best_of_def best_first_def dest: in_set_takeD)
  then have "fst x \<in> set (scores R M hours seen)" by (metis in_set_zipE prod.collapse)
  then show ?thesis by (rule scores_range)
qed

lemma distinct_sorted: "distinct (map f (sort_key k xs)) = distinct (map f xs)"
  by (rule mset_eq_imp_distinct_iff) simp

lemma best_of_distinct:
  assumes "distinct (map (fst \<circ> snd) seen)"
  shows "distinct (map (fst \<circ> snd) (best_of R M hours n seen))"
proof -
  let ?zs = "zip (scores R M hours seen) (map snd seen)"
  have "length (scores R M hours seen) = length seen" by (simp add: scores_def Let_def)
  then have "map snd ?zs = map snd seen" by simp
  then have "map (fst \<circ> snd) ?zs = map (fst \<circ> snd) seen" by (metis map_map)
  then have "distinct (map (fst \<circ> snd) (best_first ?zs))"
    unfolding best_first_def distinct_sorted using assms by (simp only:)
  then show ?thesis by (simp add: best_of_def take_map [symmetric])
qed

lemma rank_distinct:
  assumes "distinct (map fst items)"
  shows "distinct (map (fst \<circ> snd) (rank_items X n items q))"
proof -
  let ?zs = "map (\<lambda>item. (1 - cosine (features X q) (features X (fst (snd item))), item)) items"
  have "map (fst \<circ> snd) ?zs = map fst items" by simp
  then have "distinct (map (fst \<circ> snd) (sort_key fst (sort_key (\<lambda>x. fst (snd x)) ?zs)))"
    unfolding distinct_sorted using assms by (simp only:)
  then show ?thesis by (simp add: rank_items_def take_map [symmetric])
qed

lemma seen_distinct:
  assumes "distinct (map (fst \<circ> snd) found)"
  shows "distinct (map (fst \<circ> snd) (seen_of R lineage found))"
  using assms by (simp add: seen_of_def distinct_map_filter split: option.split)

text \<open>What a touch leaves of a row.\<close>

definition face :: "memory_row \<Rightarrow> string \<times> string \<times> json" where
  "face r = (mr_id r, mr_document r, user_of r)"

lemma faces_change_item:
  assumes "change_item L (i, None, Some (JObj md)) db = Inr db1" "memory_ok db" "owned uid [i] db" "meta_get md ''user_id'' = JStr uid"
  shows "map face (md_rows db1) = map face (md_rows db)"
  using changed_item_rows [OF assms(1)]
proof (elim disjE exE conjE)
  fix r d md' assume r: "find_row db i = Some r"
    and md': "canonical_metadata L (case Some (JObj md) of None \<Rightarrow> JObj (mr_metadata r) | Some m \<Rightarrow> m) = Inr md'"
    and d: "d = (case None of None \<Rightarrow> mr_document r | Some d \<Rightarrow> d)"
    and rows: "md_rows db1 = map (\<lambda>x. if mr_id x = i then memory_row_of (i, d, md') True else x) (md_rows db)"
  have found: "r \<in> set (md_rows db)" "mr_id r = i"
    using r find_member [of "\<lambda>r. mr_id r = i" "md_rows db" r] by (simp_all add: find_row_def)
  have "face (memory_row_of (i, d, md') True) = face x" if "x \<in> set (md_rows db)" "mr_id x = i" for x
  proof -
    have "x = r" using assms(2) found that by (simp add: memory_ok_def ids_of_def distinct_map inj_on_def)
    moreover have "user_of x = JStr uid" using assms(3) that by (simp add: owned_def)
    moreover have "user_of (memory_row_of (i, d, md') True) = JStr uid"
      using canonical_text [OF _ assms(4)] md' by (simp add: row_of_user)
    ultimately show ?thesis using that d by (simp add: face_def memory_row_of_def)
  qed
  then show ?thesis by (simp add: rows)
qed simp

lemma faces_change_items:
  "change_items L xs db = Inr db1 \<Longrightarrow> memory_ok db \<Longrightarrow> owned uid (map fst xs) db
   \<Longrightarrow> (\<forall>x \<in> set xs. fst (snd x) = None \<and> (\<exists>md. snd (snd x) = Some (JObj md) \<and> meta_get md ''user_id'' = JStr uid))
   \<Longrightarrow> map face (md_rows db1) = map face (md_rows db)"
proof (induction xs arbitrary: db)
  case (Cons x xs)
  obtain i md where x: "x = (i, None, Some (JObj md))" and md: "meta_get md ''user_id'' = JStr uid"
    using Cons.prems(4) by (cases x) auto
  from Cons.prems(1) obtain db2 where step: "change_item L (i, None, Some (JObj md)) db = Inr db2" "change_items L xs db2 = Inr db1"
    by (auto simp: x and_then_Inr)
  have "owned uid [i] db" by (rule owned_mono [OF Cons.prems(3)]) (simp add: x)
  note one = faces_change_item [OF step(1) Cons.prems(2) this md]
  have "own_change uid db db2" by (rule own_change_item [OF step(1) \<open>owned uid [i] db\<close>]) (simp add: keeps_user_def md)
  then have "memory_ok db2" "owned uid (map fst xs) db2"
    using Cons.prems(2) owned_later [OF _ owned_mono [OF Cons.prems(3), of "map fst xs"]] by (auto simp: own_change_def)
  from Cons.IH [OF step(2) this] Cons.prems(4) one show ?case by simp
qed simp

lemma faces_touch:
  assumes "calm M" "memory_ok db" "owned uid ids db"
  shows "map face (md_rows (touch R M ids db)) = map face (md_rows db)"
proof (cases "ids = []")
  case False
  let ?items = "map item_of (select_rows (Some ids) db)"
  let ?xs = "zip (map fst ?items) (zip (optional (length ?items) None) (optional (length ?items) (Some (map (touched (mo_iso M)) ?items))))"
  let ?up = "update_items (ru_lib R) (mo_env M 2) (map fst ?items) None (Some (map (touched (mo_iso M)) ?items)) db"
  have rows: "set (select_rows (Some ids) db) = {r \<in> set (md_rows db). mr_id r \<in> set ids}" by (auto simp: select_rows_def)
  have "snd ?up = db \<or> change_items (ru_lib R) ?xs db = Inr (snd ?up)"
    using sync_at_rest [OF calm_env [OF assms(1), of 2], of "ru_lib R" False db]
    by (auto simp: update_items_def split: if_splits sum.splits)
  moreover have "map face (md_rows db1) = map face (md_rows db)" if "change_items (ru_lib R) ?xs db = Inr db1" for db1
  proof (rule faces_change_items [OF that assms(2)])
    show "owned uid (map fst ?xs) db"
      by (rule owned_mono [OF assms(3)]) (auto simp: item_of_def rows dest!: set_zip_leftD)
    have "fst (snd x) = None \<and> (\<exists>md. snd (snd x) = Some (JObj md) \<and> meta_get md ''user_id'' = JStr uid)" if x: "x \<in> set ?xs" for x
    proof -
      define items where "items = ?items"
      from x [folded items_def] obtain n where n: "n < length items" and parts: "fst (snd x) = None" "snd (snd x) = Some (touched (mo_iso M) (items ! n))"
        by (auto simp: set_zip optional_def)
      note n = n [unfolded items_def] and parts = parts [unfolded items_def]
      have "?items ! n \<in> set ?items" using n by (rule nth_mem)
      then obtain r where r: "r \<in> set (md_rows db)" "mr_id r \<in> set ids" "?items ! n = item_of r" using rows by auto
      then have "meta_get (snd (snd (?items ! n))) ''user_id'' = JStr uid"
        using assms(3) by (simp add: owned_def user_of_def item_of_def)
      with parts show ?thesis by (auto simp: touched_def meta_get_def)
    qed
    then show "\<forall>x \<in> set ?xs. fst (snd x) = None \<and> (\<exists>md. snd (snd x) = Some (JObj md) \<and> meta_get md ''user_id'' = JStr uid)" by blast
  qed
  ultimately have "map face (md_rows (snd ?up)) = map face (md_rows db)" by (elim disjE) simp_all
  moreover have "touch R M ids db = (if ?items = [] then db else snd ?up)"
    using False by (simp add: touch_def get_at_rest [OF calm_env [OF assms(1)]] keep_all)
  ultimately show ?thesis by (cases "?items = []") (simp_all only: if_True if_False simp_thms)
qed (simp add: touch_def)

lemma faces_of_user: "map face (md_rows db1) = map face (md_rows db) \<Longrightarrow> map face (rows_of_user uid db1) = map face (rows_of_user uid db)"
proof -
  have "map face (filter (\<lambda>r. user_of r = JStr uid) rs) = filter (\<lambda>x. snd (snd x) = JStr uid) (map face rs)" for rs
    by (induction rs) (simp_all add: face_def)
  then show "map face (md_rows db1) = map face (md_rows db) \<Longrightarrow> map face (rows_of_user uid db1) = map face (rows_of_user uid db)"
    by (simp add: rows_of_user_def)
qed

lemma retrieve_good:
  assumes "calm M" "valid_user_id user = Some uid" "memory_ok db" "retrieve R X M hours query user n lineage db = (best, db1)"
  shows "distinct (map (fst \<circ> snd) best)" "x \<in> set best \<Longrightarrow> 0 \<le> fst x \<and> fst x \<le> 3"
    "map face (rows_of_user uid db1) = map face (rows_of_user uid db)"
proof -
  let ?found = "rank_items X retrieve_candidates (map item_of (rows_of_user uid db)) (strip query)"
  let ?best = "best_of R M hours n (seen_of R lineage ?found)"
  have all: "best = [] \<and> db1 = db \<or> best = ?best \<and> db1 = touch R M (map (\<lambda>x. fst (snd x)) ?best) db"
    using assms(4) retrieve_at_rest [OF assms(1,2), of query R X hours n lineage db]
    by (cases "strip query = []") (auto simp: retrieve_def assms(2) Let_def)
  have "distinct (map mr_id (rows_of_user uid db))"
    using assms(3) by (simp add: memory_ok_def ids_of_def rows_of_user_def distinct_map_filter)
  moreover have "map fst (map item_of (rows_of_user uid db)) = map mr_id (rows_of_user uid db)" by (simp add: item_of_def)
  ultimately have "distinct (map fst (map item_of (rows_of_user uid db)))" by (simp only:)
  with all show "distinct (map (fst \<circ> snd) best)"
    by (auto simp del: map_map intro!: best_of_distinct seen_distinct rank_distinct)
  show "x \<in> set best \<Longrightarrow> 0 \<le> fst x \<and> fst x \<le> 3"
    using all best_of_range [of x R M hours n "seen_of R lineage ?found"] by (elim disjE conjE) simp_all
  have "map face (md_rows db1) = map face (md_rows db)"
    using all
  proof
    assume db1: "best = ?best \<and> db1 = touch R M (map (\<lambda>x. fst (snd x)) ?best) db"
    have "snd ` set best \<subseteq> item_of ` set (rows_of_user uid db)" by (rule retrieve_own(1) [OF assms])
    then have "owned uid (map (\<lambda>x. fst (snd x)) best) db"
      by (intro owned_rows [OF assms(3)]) (force simp: item_of_def)
    with faces_touch [OF assms(1,3)] db1 show ?thesis by simp
  qed simp
  then show "map face (rows_of_user uid db1) = map face (rows_of_user uid db)" by (rule faces_of_user)
qed


section \<open>A wording that can no longer be stored\<close>


text \<open>The consolidation replaces a wording, and the user says the first one again: nothing is stored.\<close>

definition sample_replaced :: user_memory where
  "sample_replaced = sample_stored\<lparr>um_db := snd (update_semantic sample_rules sample_moments ''semantic_semantic|v|budget 900'' ''budget 800'' None
     (um_db sample_stored))\<rparr>"



end
