(* ===== verification/Consolidation.thy ===== *)
theory Consolidation
  imports FieldErasure
begin

text \<open>
  The part of \<open>AgentMemory.remember_turn\<close> (\<open>app/rag/agent_memory.py\<close>) that lets the language model rewrite what is
  remembered: \<open>_consolidate\<close> with the guards around its operations, \<open>_supersede_slot_facts\<close> and
  \<open>retire_withdrawn_requirements\<close>.  The answer of the model is any JSON value.  The regular expressions are the
  record \<open>job_rules\<close>; the rules above them (which bound counts, when a row is loosened, what a firm statement is)
  are modelled.
\<close>

section \<open>Parameters\<close>

record job_rules =
  jr_rules :: memory_rules
  jr_instruction :: "string \<Rightarrow> bool"
  jr_criteria :: "string \<Rightarrow> bool"
  jr_third :: "string \<Rightarrow> bool"
  jr_head :: "string \<Rightarrow> string"
  jr_money :: "string \<Rightarrow> rat list"
  jr_minutes :: "string \<Rightarrow> rat list"
  jr_bare :: "string \<Rightarrow> rat list"
  jr_commute :: "string \<Rightarrow> bool"
  jr_budget :: "string \<Rightarrow> bool"
  jr_soft :: "string \<Rightarrow> bool"
  jr_removed :: "string \<Rightarrow> bool"
  jr_clauses :: "string \<Rightarrow> string list"
  jr_superseded :: "json \<Rightarrow> string \<Rightarrow> string option"
  jr_topics :: "string list"
  jr_requires :: "string \<Rightarrow> string \<Rightarrow> bool"
  jr_without :: "string list \<Rightarrow> string \<Rightarrow> string"
  jr_bound_id :: "json \<Rightarrow> string"

text \<open>The turn a job works for: its user, session, and what \<open>_turn_local\<close> holds.\<close>

record turn_job =
  tj_user :: string
  tj_session :: string
  tj_conversation :: "string option"
  tj_turn :: "string option"

section \<open>Bounds the user stated\<close>

text \<open>The keys \<open>"money"\<close> and \<open>"minutes"\<close>.\<close>

datatype bound_kind = Money | Minutes

definition row_bounds :: "job_rules \<Rightarrow> string \<Rightarrow> (bound_kind \<times> rat) list" where
  "row_bounds J t =
     (let v = jr_head J t; money = jr_money J v; minutes = jr_minutes J v in
      (if money = [] then [] else [(Money, Max (set money))])
      @ (if jr_commute J v \<and> minutes \<noteq> [] then [(Minutes, Max (set minutes))] else []))"

definition loosened_bound :: "job_rules \<Rightarrow> string \<Rightarrow> string \<Rightarrow> bound_kind option" where
  "loosened_bound J old new = map_option fst
     (find (\<lambda>(k, v). case map_of (row_bounds J new) k of
        None \<Rightarrow> True
      | Some w \<Rightarrow> v < w \<or> (jr_soft J new \<and> \<not> jr_soft J old)) (row_bounds J old))"

definition clause_amounts :: "job_rules \<Rightarrow> bound_kind \<Rightarrow> string \<Rightarrow> rat list" where
  "clause_amounts J kind c =
     (case kind of
        Money \<Rightarrow> (let amounts = jr_money J c in if amounts = [] \<and> jr_budget J c then jr_bare J c else amounts)
      | Minutes \<Rightarrow> jr_minutes J c)"

definition firm_bound_stated :: "job_rules \<Rightarrow> string \<Rightarrow> bound_kind \<Rightarrow> rat option \<Rightarrow> bool" where
  "firm_bound_stated J msg kind value \<longleftrightarrow>
     (value = None \<and> jr_removed J msg \<and> \<not> jr_soft J msg)
     \<or> list_ex (\<lambda>c. let amounts = clause_amounts J kind c in amounts \<noteq> [] \<and> \<not> jr_soft J c
          \<and> (case value of None \<Rightarrow> True | Some v \<Rightarrow> list_ex (\<lambda>a. \<bar>a - v\<bar> < 1) amounts)) (jr_clauses J msg)"

section \<open>Operations of the language model\<close>

text \<open>
  A job makes its calls of the memory one after another; \<open>ms\<close> numbers their readings and \<open>cursor\<close> is the next one.
\<close>

type_synonym cursor = "nat \<times> user_memory"

definition maybe_text :: "string option \<Rightarrow> json" where
  "maybe_text t = (case t of None \<Rightarrow> JNull | Some t \<Rightarrow> JStr t)"

definition auto_row_meta :: "turn_job \<Rightarrow> fields" where
  "auto_row_meta T = [(''source'', source_auto), (''origin_conversation_id'', maybe_text (tj_conversation T)),
     (''origin_turn_id'', maybe_text (tj_turn T))]"

definition auto_request :: "turn_job \<Rightarrow> string \<Rightarrow> add_request" where
  "auto_request T body = \<lparr>aq_text = body, aq_type = ''semantic'', aq_session = tj_session T, aq_user = JStr (tj_user T), aq_role = [],
     aq_importance = Some 7, aq_key = None, aq_extra = auto_row_meta T\<rparr>"

definition put :: "job_rules \<Rightarrow> turn_job \<Rightarrow> (nat \<Rightarrow> moments) \<Rightarrow> string \<Rightarrow> cursor \<Rightarrow> cursor" where
  "put J T ms body = (\<lambda>(n, s). (Suc n, snd (add_memory (jr_rules J) (ms n, ms n) (auto_request T body) s)))"

definition with_db :: "(memory_db \<Rightarrow> 'a \<times> memory_db) \<Rightarrow> cursor \<Rightarrow> 'a \<times> cursor" where
  "with_db f = (\<lambda>(n, s). let (x, db) = f (um_db s) in (x, Suc n, s\<lparr>um_db := db\<rparr>))"

definition revise :: "job_rules \<Rightarrow> (nat \<Rightarrow> moments) \<Rightarrow> string \<Rightarrow> string \<Rightarrow> string option \<Rightarrow> cursor \<Rightarrow> bool \<times> cursor" where
  "revise J ms oid body turn c = with_db (update_semantic (jr_rules J) (ms (fst c)) oid body turn) c"

definition drop_row :: "job_rules \<Rightarrow> (nat \<Rightarrow> moments) \<Rightarrow> string \<Rightarrow> cursor \<Rightarrow> (memory_error + unit) \<times> cursor" where
  "drop_row J ms oid c = with_db (delete_items (ru_lib (jr_rules J)) (mo_env (ms (fst c)) 0) (mo_now (ms (fst c))) (Some [oid]) JNull) c"

text \<open>\<open>(op.get(name) or "")\<close> with a method of texts called on it; anything else that is truthy raises.\<close>

definition op_text :: "json \<Rightarrow> string \<Rightarrow> string option" where
  "op_text v name = (let x = field_or_null v name in if truthy x then (case x of JStr t \<Rightarrow> Some t | _ \<Rightarrow> None) else Some [])"

text \<open>An id that is no text, as SQLite compares it with a text column.\<close>

definition id_text :: "job_rules \<Rightarrow> json \<Rightarrow> string" where
  "id_text J v = (case v of JStr t \<Rightarrow> t | _ \<Rightarrow> jr_bound_id J v)"

fun first_rows :: "memory_item list \<Rightarrow> memory_item list" where
  "first_rows [] = []"
| "first_rows (x # xs) = x # filter (\<lambda>y. fst y \<noteq> fst x) (first_rows xs)"

definition protected_ids :: "job_rules \<Rightarrow> bool \<Rightarrow> memory_item list \<Rightarrow> string list" where
  "protected_ids J changing shown = map fst (filter (\<lambda>x.
     meta_get (snd (snd x)) ''source'' = source_explicit
     \<or> (changing \<and> (meta_get (snd (snd x)) ''source'' \<noteq> source_auto \<or> \<not> jr_criteria J (fst (snd x))))) shown)"

definition text_shown :: "memory_item list \<Rightarrow> json \<Rightarrow> string option" where
  "text_shown shown oid = (case oid of JStr i \<Rightarrow> map_option fst (map_of shown i) | _ \<Rightarrow> None)"

text \<open>The bound that keeps a row as it is: loosened by the operation and not stated firmly.\<close>

definition kept_bound :: "job_rules \<Rightarrow> string \<Rightarrow> memory_item list \<Rightarrow> string \<Rightarrow> json \<Rightarrow> string \<Rightarrow> bound_kind option" where
  "kept_bound J msg shown event oid body =
     (if event \<noteq> ''update'' \<and> event \<noteq> ''delete'' then None
      else case text_shown shown oid of
        None \<Rightarrow> None
      | Some old \<Rightarrow>
          (case loosened_bound J old (if event = ''update'' then body else []) of
             None \<Rightarrow> None
           | Some kind \<Rightarrow>
               if firm_bound_stated J msg kind (if event = ''update'' then map_of (row_bounds J body) kind else None) then None else Some kind))"

definition apply_op :: "job_rules \<Rightarrow> turn_job \<Rightarrow> (nat \<Rightarrow> moments) \<Rightarrow> string \<Rightarrow> json \<Rightarrow> string \<Rightarrow> cursor \<Rightarrow> cursor" where
  "apply_op J T ms event oid body c =
     (if event = ''add'' \<and> body \<noteq> [] then put J T ms body c
      else if event = ''update'' \<and> truthy oid \<and> body \<noteq> []
      then (let (ok, c1) = revise J ms (id_text J oid) body (tj_turn T) c in if ok then c1 else put J T ms body c1)
      else if event = ''delete'' \<and> truthy oid then snd (drop_row J ms (id_text J oid) c)
      else c)"

text \<open>One operation; \<open>None\<close> is an exception, which ends the job: here an id that cannot be hashed.\<close>

definition guarded_op ::
  "job_rules \<Rightarrow> turn_job \<Rightarrow> (nat \<Rightarrow> moments) \<Rightarrow> string \<Rightarrow> string list \<Rightarrow> bool \<Rightarrow> memory_item list \<Rightarrow> string \<Rightarrow> json \<Rightarrow> string \<Rightarrow> cursor \<Rightarrow> cursor option" where
  "guarded_op J T ms msg facts changing shown event oid body c =
     (let changes_row = (event = ''update'' \<or> event = ''delete'') in
      if changes_row \<and> \<not> is_scalar oid \<and> oid \<noteq> JNull then None
      else if changes_row \<and> oid \<in> JStr ` set (protected_ids J changing shown)
      then Some (if event = ''update'' \<and> body \<in> set facts then put J T ms body c else c)
      else case kept_bound J msg shown event oid body of
        Some kind \<Rightarrow> Some (fold (put J T ms) (filter (\<lambda>f. kind \<in> fst ` set (row_bounds J f)) facts) c)
      | None \<Rightarrow> Some (apply_op J T ms event oid body c))"

definition consolidate_op ::
  "job_rules \<Rightarrow> turn_job \<Rightarrow> (nat \<Rightarrow> moments) \<Rightarrow> string \<Rightarrow> string list \<Rightarrow> bool \<Rightarrow> memory_item list \<Rightarrow> json \<Rightarrow> cursor \<Rightarrow> cursor option" where
  "consolidate_op J T ms msg facts changing shown op c =
     (if \<not> is_dict op then None
      else case (op_text op ''event'', op_text op ''text'') of
        (Some name, Some raw) \<Rightarrow> guarded_op J T ms msg facts changing shown (lower name) (field_or_null op ''id'') (strip raw) c
      | _ \<Rightarrow> None)"

fun consolidate_ops ::
  "job_rules \<Rightarrow> turn_job \<Rightarrow> (nat \<Rightarrow> moments) \<Rightarrow> string \<Rightarrow> string list \<Rightarrow> bool \<Rightarrow> memory_item list \<Rightarrow> json list \<Rightarrow> cursor \<Rightarrow> cursor" where
  "consolidate_ops J T ms msg facts changing shown [] c = c"
| "consolidate_ops J T ms msg facts changing shown (op # ops) c =
     (case consolidate_op J T ms msg facts changing shown op c of
        None \<Rightarrow> c
      | Some c1 \<Rightarrow> consolidate_ops J T ms msg facts changing shown ops c1)"

text \<open>\<open>data.get("ops", [])\<close>; iterating over anything but a list raises at once or at the first element.\<close>

definition ops_of :: "json \<Rightarrow> json list" where
  "ops_of answer = (case answer of JObj fs \<Rightarrow> (case map_of fs ''ops'' of Some (JArr xs) \<Rightarrow> xs | _ \<Rightarrow> []) | _ \<Rightarrow> [])"

definition rows_shown :: "job_rules \<Rightarrow> lexicon \<Rightarrow> turn_job \<Rightarrow> moments \<Rightarrow> string list \<Rightarrow> memory_db \<Rightarrow> memory_item list \<times> memory_db" where
  "rows_shown J X T M facts db =
     (case query_items (ru_lib (jr_rules J)) X (mo_env M 0) facts 4 (rows_of_kind (tj_user T) ''semantic'') db of
        (Inl _, db1) \<Rightarrow> ([], db1)
      | (Inr found, db1) \<Rightarrow> (first_rows (map snd (concat found)), db1))"

definition consolidate ::
  "job_rules \<Rightarrow> lexicon \<Rightarrow> turn_job \<Rightarrow> (nat \<Rightarrow> moments) \<Rightarrow> bool \<Rightarrow> string \<Rightarrow> string list \<Rightarrow> json \<Rightarrow> cursor \<Rightarrow> cursor" where
  "consolidate J X T ms changing msg candidates answer c =
     (let facts = filter (\<lambda>f. \<not> jr_instruction J f) candidates in
      if facts = [] then c
      else (let (shown, c1) = with_db (rows_shown J X T (ms (fst c)) facts) c in
        consolidate_ops J T ms msg facts changing shown (ops_of answer) c1))"

section \<open>Rewrites without the language model\<close>

fun rewrite_each :: "(string \<Rightarrow> string \<Rightarrow> cursor \<Rightarrow> cursor) \<Rightarrow> memory_item list \<Rightarrow> cursor \<Rightarrow> cursor" where
  "rewrite_each f [] c = c"
| "rewrite_each f (x # xs) c = rewrite_each f xs (f (fst x) (fst (snd x)) c)"

definition supersede_slot_facts :: "job_rules \<Rightarrow> turn_job \<Rightarrow> (nat \<Rightarrow> moments) \<Rightarrow> json \<Rightarrow> cursor \<Rightarrow> cursor" where
  "supersede_slot_facts J T ms changes c =
     (if \<not> truthy changes then c
      else case with_db (get_items (ru_lib (jr_rules J)) (mo_env (ms (fst c)) 0) None (rows_of_kind (tj_user T) ''semantic'')) c of
        (Inl _, c1) \<Rightarrow> c1
      | (Inr items, c1) \<Rightarrow>
          rewrite_each (\<lambda>i doc c. case jr_superseded J changes doc of
               None \<Rightarrow> c
             | Some t \<Rightarrow> if t = [] then c else snd (revise J ms i t (tj_turn T) c))
            (filter (\<lambda>x. meta_get (snd (snd x)) ''source'' = source_auto \<and> jr_criteria J (fst (snd x))) items) c1)"

definition withdraw_row :: "job_rules \<Rightarrow> (nat \<Rightarrow> moments) \<Rightarrow> bool \<Rightarrow> string list \<Rightarrow> string \<Rightarrow> string \<Rightarrow> cursor \<Rightarrow> cursor" where
  "withdraw_row J ms semantic topics i doc c =
     (let kept = jr_without J topics doc in
      if kept \<noteq> [] \<and> semantic
      then (let (ok, c1) = revise J ms i kept None c in if ok then c1 else snd (drop_row J ms i c1))
      else snd (drop_row J ms i c))"

definition states_withdrawn :: "job_rules \<Rightarrow> bool \<Rightarrow> string list \<Rightarrow> memory_item \<Rightarrow> bool" where
  "states_withdrawn J semantic topics x \<longleftrightarrow>
     (semantic \<longrightarrow> meta_get (snd (snd x)) ''source'' = source_auto)
     \<and> \<not> jr_third J (fst (snd x)) \<and> list_ex (\<lambda>p. jr_requires J p (fst (snd x))) topics"

definition withdraw_kind :: "job_rules \<Rightarrow> (nat \<Rightarrow> moments) \<Rightarrow> string \<Rightarrow> string \<Rightarrow> string list \<Rightarrow> cursor \<Rightarrow> cursor" where
  "withdraw_kind J ms uid kind topics c =
     (case with_db (get_items (ru_lib (jr_rules J)) (mo_env (ms (fst c)) 0) None (rows_of_kind uid kind)) c of
        (Inl _, c1) \<Rightarrow> c1
      | (Inr items, c1) \<Rightarrow>
          rewrite_each (withdraw_row J ms (kind = ''semantic'') topics) (filter (states_withdrawn J (kind = ''semantic'') topics) items) c1)"

definition retire_withdrawn_requirements :: "job_rules \<Rightarrow> (nat \<Rightarrow> moments) \<Rightarrow> json \<Rightarrow> string list \<Rightarrow> cursor \<Rightarrow> cursor" where
  "retire_withdrawn_requirements J ms user labels c =
     (let topics = filter (\<lambda>l. l \<in> set (jr_topics J)) labels in
      case valid_user_id user of
        None \<Rightarrow> c
      | Some uid \<Rightarrow> if topics = [] then c else withdraw_kind J ms uid ''reflection'' topics (withdraw_kind J ms uid ''semantic'' topics c))"

section \<open>What an operation does to a row\<close>

lemma insert_record_keeps:
  assumes "calm M"
  shows "set (md_rows (um_db s)) \<subseteq> set (md_rows (um_db (snd (insert_record R M uid body q s))))"
proof -
  obtain r db where add: "add_items (ru_lib R) (mo_env M 2) [memory_id R uid body q] [body] [JObj (memory_meta R M uid body q)] (um_db s) = (r, db)"
    by (cases "add_items (ru_lib R) (mo_env M 2) [memory_id R uid body q] [body] [JObj (memory_meta R M uid body q)] (um_db s)")
  have "um_db (snd (insert_record R M uid body q s)) = db"
    using seek_same [OF calm_env [OF assms, of 3], of "ru_lib R" R uid body q db]
    by (simp add: insert_record_def add case_prod_unfold Let_def split: sum.split)
  moreover have "db = um_db s \<or> insert_items (ru_lib R) [(memory_id R uid body q, body, JObj (memory_meta R M uid body q))] (um_db s) = Inr db"
    using add sync_at_rest [OF calm_env [OF assms, of 2], of "ru_lib R" False "um_db s"]
    by (auto simp: add_items_def split: if_splits sum.splits)
  ultimately show ?thesis by (elim disjE) (simp, drule insert_items_keep, simp)
qed

lemma add_record_keeps:
  assumes "calm M" "valid_user_id (aq_user q) = Some uid"
  shows "set (md_rows (um_db s)) \<subseteq> set (md_rows (um_db (snd (add_record R M q s))))"
proof -
  let ?body = "kept_text R (aq_text q)"
  define first where "first = (case key_of q of None \<Rightarrow> (None, um_db s)
      | Some k \<Rightarrow> seek (ru_lib R) (mo_env M 0) (where_both ''idempotency_key'' k ''user_id'' uid) (um_db s))"
  have "snd first = um_db s" by (simp add: first_def seek_key(1) calm_env [OF assms(1)] split: option.split)
  moreover have "snd (seek (ru_lib R) (mo_env M 1) (where_both ''hash'' (content_hash R (aq_type q) uid ?body) ''user_id'' uid) db) = db" for db
    by (rule seek_hash(1) [OF calm_env [OF assms(1)]])
  moreover have "set (md_rows (um_db s)) \<subseteq> set (md_rows (um_db (snd (insert_record R M uid ?body q s))))"
    by (rule insert_record_keeps [OF assms(1)])
  ultimately show ?thesis
    by (auto simp: add_record_def assms(2) Let_def first_def [symmetric] prod_eq_iff split: prod.split option.split)
qed

lemma update_one_at_rest:
  assumes "at_rest e" "metas = None \<or> (\<exists>m. metas = Some [m])"
  shows "\<exists>meta. snd (update_items L e [i] (Some [d]) metas db) = (case change_item L (i, Some d, meta) db of Inl _ \<Rightarrow> db | Inr db1 \<Rightarrow> db1)"
proof -
  obtain q where q: "sync_legacy L False e db = (Inr q, db)" using sync_at_rest [OF assms(1), of L False db] by blast
  show ?thesis
  proof (cases metas)
    case None
    show ?thesis
      by (rule exI [of _ None]) (auto simp: None update_items_def q validate_batch_def optional_def and_then_def split: sum.split)
  next
    case (Some ms)
    then obtain m where m: "metas = Some [m]" using assms(2) by auto
    show ?thesis
      by (rule exI [of _ "Some m"]) (auto simp: m update_items_def q validate_batch_def optional_def and_then_def split: sum.split)
  qed
qed

lemma update_semantic_at_rest:
  assumes "calm M"
  shows "\<exists>metas. (metas = None \<or> (\<exists>m. metas = Some [m]))
    \<and> snd (update_semantic R M oid body turn db) = snd (update_items (ru_lib R) (mo_env M 1) [oid] (Some [ru_secrets R body]) metas db)"
proof -
  have "snd (row_meta (ru_lib R) (mo_env M 0) oid db) = db"
    by (simp add: row_meta_def get_at_rest [OF calm_env [OF assms]] split: list.split sum.split)
  then show ?thesis
    by (auto simp: update_semantic_def Let_def case_prod_unfold split: sum.split)
qed

lemma update_semantic_rows:
  assumes "calm M"
  shows "snd (update_semantic R M oid body turn db) = db
    \<or> (\<exists>new. mr_id new = oid \<and> mr_document new = ru_secrets R body
        \<and> md_rows (snd (update_semantic R M oid body turn db)) = map (\<lambda>x. if mr_id x = oid then new else x) (md_rows db))"
proof -
  obtain metas where one: "metas = None \<or> (\<exists>m. metas = Some [m])"
    and up: "snd (update_semantic R M oid body turn db) = snd (update_items (ru_lib R) (mo_env M 1) [oid] (Some [ru_secrets R body]) metas db)"
    using update_semantic_at_rest [OF assms, of R oid body turn db] by (elim exE conjE)
  obtain meta where res: "snd (update_semantic R M oid body turn db)
      = (case change_item (ru_lib R) (oid, Some (ru_secrets R body), meta) db of Inl _ \<Rightarrow> db | Inr db2 \<Rightarrow> db2)"
    using update_one_at_rest [where L = "ru_lib R" and i = oid and d = "ru_secrets R body" and db = db, OF calm_env [OF assms, of 1] one] unfolding up by (elim exE)
  show ?thesis
  proof (cases "change_item (ru_lib R) (oid, Some (ru_secrets R body), meta) db")
    case (Inl e)
    then show ?thesis by (simp add: res)
  next
    case (Inr db1)
    from changed_item_rows [OF this] show ?thesis
    proof (elim disjE exE conjE)
      fix r d md assume d: "d = (case Some (ru_secrets R body) of None \<Rightarrow> mr_document r | Some d \<Rightarrow> d)"
        and rows: "md_rows db1 = map (\<lambda>x. if mr_id x = oid then memory_row_of (oid, d, md) True else x) (md_rows db)"
      have "mr_id (memory_row_of (oid, d, md) True) = oid" "mr_document (memory_row_of (oid, d, md) True) = ru_secrets R body"
        by (simp_all add: memory_row_of_def d)
      moreover have "snd (update_semantic R M oid body turn db) = db1" by (simp add: res Inr)
      ultimately show ?thesis by (intro disjI2 exI [of _ "memory_row_of (oid, d, md) True"]) (simp add: rows)
    qed (simp add: res Inr)
  qed
qed

text \<open>A row of which \<open>Q\<close> holds, under its id.\<close>

definition kept :: "string \<Rightarrow> (memory_row \<Rightarrow> bool) \<Rightarrow> cursor \<Rightarrow> bool" where
  "kept i Q c \<longleftrightarrow> (\<exists>r \<in> set (md_rows (um_db (snd c))). mr_id r = i \<and> Q r)"

lemma kept_put:
  assumes "kept i Q c" "\<And>n. calm (ms n)"
  shows "kept i Q (put J T ms body c)"
proof -
  obtain n s where c: "c = (n, s)" by (cases c)
  have "um_db (snd (put J T ms body c)) = um_db (snd (add_record (jr_rules J) (ms n) (auto_request T body) s))"
    by (simp add: put_def c add_memory_def auto_request_def case_prod_unfold Let_def)
  moreover have "set (md_rows (um_db s)) \<subseteq> set (md_rows (um_db (snd (add_record (jr_rules J) (ms n) (auto_request T body) s))))"
  proof (cases "valid_user_id (aq_user (auto_request T body))")
    case None
    then show ?thesis by (simp add: add_record_def)
  qed (use add_record_keeps assms(2) in blast)
  ultimately show ?thesis using assms(1) by (auto simp: kept_def c)
qed

lemma kept_puts: "kept i Q c \<Longrightarrow> (\<And>n. calm (ms n)) \<Longrightarrow> kept i Q (fold (put J T ms) bodies c)"
  by (induction bodies arbitrary: c) (simp_all add: kept_put)

lemma with_db_db: "um_db (snd (snd (with_db f c))) = snd (f (um_db (snd c)))"
  by (simp add: with_db_def case_prod_unfold Let_def)

lemma kept_revise:
  assumes "kept i Q c" "\<And>n. calm (ms n)" "oid = i \<Longrightarrow> (\<And>r. mr_id r = i \<Longrightarrow> mr_document r = ru_secrets (jr_rules J) body \<Longrightarrow> Q r)"
  shows "kept i Q (snd (revise J ms oid body turn c))"
proof -
  let ?db = "um_db (snd c)"
  let ?db1 = "snd (update_semantic (jr_rules J) (ms (fst c)) oid body turn ?db)"
  obtain r where r: "r \<in> set (md_rows ?db)" "mr_id r = i" "Q r" using assms(1) by (auto simp: kept_def)
  have "\<exists>r \<in> set (md_rows ?db1). mr_id r = i \<and> Q r"
    using update_semantic_rows [OF assms(2), of "jr_rules J" "fst c" oid body turn ?db]
  proof (elim disjE exE conjE)
    fix new assume new: "mr_id new = oid" "mr_document new = ru_secrets (jr_rules J) body"
      and rows: "md_rows ?db1 = map (\<lambda>x. if mr_id x = oid then new else x) (md_rows ?db)"
    show ?thesis
    proof (cases "oid = i")
      case True
      then have "new \<in> set (md_rows ?db1)" unfolding rows using r by force
      with True new assms(3) show ?thesis by blast
    next
      case False
      then have "r \<in> set (md_rows ?db1)" using r by (auto simp: rows)
      with r show ?thesis by blast
    qed
  qed (use r in auto)
  then show ?thesis by (simp add: kept_def revise_def with_db_db)
qed

lemma kept_drop:
  assumes "kept i Q c" "\<And>n. calm (ms n)" "oid \<noteq> i"
  shows "kept i Q (snd (drop_row J ms oid c))"
proof -
  note rows = deleted_at_rest(2) [OF calm_env [OF assms(2)] prod.collapse [symmetric]]
  show ?thesis using assms(1,3) by (auto simp: kept_def drop_row_def with_db_db rows)
qed

section \<open>What the language model cannot do\<close>

definition tighter_bounds :: "job_rules \<Rightarrow> string \<Rightarrow> string \<Rightarrow> bool" where
  "tighter_bounds J old new \<longleftrightarrow>
     list_all (\<lambda>(k, v). case map_of (row_bounds J new) k of None \<Rightarrow> False | Some w \<Rightarrow> w \<le> v) (row_bounds J old)"

lemma not_loosened:
  assumes "loosened_bound J old new = None"
  shows "tighter_bounds J old new"
proof -
  have "case map_of (row_bounds J new) k of None \<Rightarrow> False | Some w \<Rightarrow> w \<le> v" if "(k, v) \<in> set (row_bounds J old)" for k v
  proof -
    from assms that have "\<not> (case map_of (row_bounds J new) k of None \<Rightarrow> True | Some w \<Rightarrow> v < w \<or> (jr_soft J new \<and> \<not> jr_soft J old))"
      by (auto simp: loosened_bound_def find_None_iff)
    then show ?thesis by (auto split: option.splits)
  qed
  then show ?thesis unfolding tighter_bounds_def list_all_iff by blast
qed

lemma loosened_kind: "loosened_bound J old new = Some k \<Longrightarrow> k \<in> fst ` set (row_bounds J old)"
  by (force simp: loosened_bound_def dest!: find_member)

lemma dropping_loosens: "row_bounds J [] = [] \<Longrightarrow> row_bounds J old \<noteq> [] \<Longrightarrow> loosened_bound J old [] \<noteq> None"
  by (cases "row_bounds J old") (auto simp: loosened_bound_def)

lemma firm_any: "firm_bound_stated J msg k v \<Longrightarrow> firm_bound_stated J msg k None"
  by (auto simp: firm_bound_stated_def list_ex_iff Let_def)

lemma consolidate_ops_inv:
  "P c \<Longrightarrow> (\<And>op c c1. P c \<Longrightarrow> consolidate_op J T ms msg facts changing shown op c = Some c1 \<Longrightarrow> P c1)
   \<Longrightarrow> P (consolidate_ops J T ms msg facts changing shown ops c)"
  by (induction ops arbitrary: c) (auto split: option.split)

lemma kept_apply:
  assumes "kept i Q c" "\<And>n. calm (ms n)"
    and "\<And>r. event = ''update'' \<Longrightarrow> id_text J oid = i \<Longrightarrow> mr_id r = i \<Longrightarrow> mr_document r = ru_secrets (jr_rules J) body \<Longrightarrow> Q r"
    and "event = ''delete'' \<Longrightarrow> id_text J oid \<noteq> i"
  shows "kept i Q (apply_op J T ms event oid body c)"
proof -
  have one: "kept i Q (snd (revise J ms (id_text J oid) body (tj_turn T) c))" if "event = ''update''"
    by (rule kept_revise [OF assms(1,2) assms(3) [OF that]])
  have two: "kept i Q (snd (drop_row J ms (id_text J oid) c))" if "event = ''delete''"
    by (rule kept_drop [OF assms(1,2) assms(4) [OF that]])
  have three: "kept i Q (put J T ms body c')" if "kept i Q c'" for c' by (rule kept_put [OF that assms(2)])
  consider "event = ''update''" | "event = ''delete''" | "event \<noteq> ''update''" "event \<noteq> ''delete''" by blast
  then show ?thesis
    by cases (use one two three assms(1) in \<open>auto simp: apply_op_def Let_def split: prod.split\<close>)
qed

lemma named_row:
  assumes "id_text J oid = i" "\<And>v. (\<forall>t. v \<noteq> JStr t) \<Longrightarrow> jr_bound_id J v \<noteq> i"
  shows "oid = JStr i"
  using assms(1) assms(2) [of oid] by (cases oid) (auto simp: id_text_def)

lemma consolidate_op_cases:
  assumes "consolidate_op J T ms msg facts changing shown op c = Some c1"
  shows "\<exists>event oid body. (event = ''update'' \<or> event = ''delete'' \<longrightarrow> oid \<notin> JStr ` set (protected_ids J changing shown))
      \<and> kept_bound J msg shown event oid body = None \<and> c1 = apply_op J T ms event oid body c
    \<or> (\<exists>bodies. c1 = fold (put J T ms) bodies c)"
proof -
  obtain event oid body where res: "guarded_op J T ms msg facts changing shown event oid body c = Some c1"
    using assms by (auto simp: consolidate_op_def split: if_splits option.splits)
  have some: "put J T ms body c = fold (put J T ms) [body] c" "c = fold (put J T ms) [] c" by simp_all
  show ?thesis
  proof (cases "(event = ''update'' \<or> event = ''delete'') \<and> oid \<in> JStr ` set (protected_ids J changing shown)")
    case True
    with res have "c1 = put J T ms body c \<or> c1 = c" by (auto simp: guarded_op_def Let_def split: if_splits)
    with some show ?thesis by metis
  next
    case False
    show ?thesis
    proof (cases "kept_bound J msg shown event oid body")
      case None
      with res False have "c1 = apply_op J T ms event oid body c" by (auto simp: guarded_op_def Let_def split: if_splits)
      with None False show ?thesis by blast
    next
      case (Some kind)
      with res False have "c1 = fold (put J T ms) (filter (\<lambda>f. kind \<in> fst ` set (row_bounds J f)) facts) c"
        by (auto simp: guarded_op_def Let_def split: if_splits)
      then show ?thesis by blast
    qed
  qed
qed

lemma first_rows_parts: "set (first_rows xs) \<subseteq> set xs" "distinct (map fst (first_rows xs))"
proof (induction xs)
  case (Cons x xs)
  { case 1 show ?case using Cons(1) by auto }
  { case 2 show ?case using Cons(2) by (auto simp: distinct_map_filter) }
qed simp_all

lemma shown_parts:
  assumes "calm M" "rows_shown J X T M facts db = (shown, db1)"
  shows "db1 = db" "distinct (map fst shown)" "x \<in> set shown \<Longrightarrow> \<exists>r \<in> set (rows_of_user (tj_user T) db). item_of r = x"
proof -
  let ?rows = "filter (\<lambda>r. meta_get (mr_metadata r) ''mtype'' = JStr ''semantic'') (rows_of_user (tj_user T) db)"
  have res: "shown = first_rows (map snd (concat (map (rank_items X 4 (map item_of ?rows)) facts)))" "db1 = db"
    using assms(2) by (auto simp: rows_shown_def query_items_def kind_items [OF calm_env [OF assms(1)]])
  show "db1 = db" by (rule res(2))
  show "distinct (map fst shown)" unfolding res(1) by (rule first_rows_parts(2))
  show "\<exists>r \<in> set (rows_of_user (tj_user T) db). item_of r = x" if x: "x \<in> set shown"
  proof -
    have "x \<in> set (map snd (concat (map (rank_items X 4 (map item_of ?rows)) facts)))"
      using x first_rows_parts(1) unfolding res(1) by blast
    then obtain f where "x \<in> set (map snd (rank_items X 4 (map item_of ?rows) f))" by auto
    then have "x \<in> set (map item_of ?rows)" using rank_subset by blast
    then show ?thesis by auto
  qed
qed

lemma shown_text: "distinct (map fst shown) \<Longrightarrow> (i, d, md) \<in> set shown \<Longrightarrow> text_shown shown (JStr i) = Some d"
  by (simp add: text_shown_def)

text \<open>The user's message states no unconditional ceiling of a kind that the text bounds.\<close>

definition unstated :: "job_rules \<Rightarrow> string \<Rightarrow> string \<Rightarrow> bool" where
  "unstated J msg old \<longleftrightarrow> (\<forall>k \<in> fst ` set (row_bounds J old). \<not> firm_bound_stated J msg k None)"

lemma not_kept:
  assumes "kept_bound J msg shown event oid body = None" "event = ''update'' \<or> event = ''delete''"
    and "text_shown shown oid = Some old" "unstated J msg old"
  shows "loosened_bound J old (if event = ''update'' then body else []) = None"
proof (rule ccontr)
  assume "loosened_bound J old (if event = ''update'' then body else []) \<noteq> None"
  then obtain k where k: "loosened_bound J old (if event = ''update'' then body else []) = Some k" by blast
  with assms(4) have "\<not> firm_bound_stated J msg k None" by (auto simp: unstated_def dest: loosened_kind)
  then have "\<not> firm_bound_stated J msg k (if event = ''update'' then map_of (row_bounds J body) k else None)"
    using firm_any by blast
  then show False using assms(1-3) k by (auto simp: kept_bound_def)
qed

definition bounded_as :: "job_rules \<Rightarrow> string \<Rightarrow> memory_row \<Rightarrow> bool" where
  "bounded_as J old r \<longleftrightarrow> mr_document r = old \<or> (\<exists>t. mr_document r = ru_secrets (jr_rules J) t \<and> tighter_bounds J old t)"

text \<open>SQLite compares an id that is no text as some other text than \<open>i\<close>; the ids of the code begin with a word.\<close>

definition no_alias :: "job_rules \<Rightarrow> string \<Rightarrow> bool" where
  "no_alias J i \<longleftrightarrow> (\<forall>v. (\<forall>t. v \<noteq> JStr t) \<longrightarrow> jr_bound_id J v \<noteq> i)"

lemma op_keeps_bound:
  assumes "consolidate_op J T ms msg facts changing shown op c = Some c1" "kept i (bounded_as J old) c" "\<And>n. calm (ms n)"
    and "text_shown shown (JStr i) = Some old" "unstated J msg old" "row_bounds J old \<noteq> []" "row_bounds J [] = []" "no_alias J i"
  shows "kept i (bounded_as J old) c1"
  using consolidate_op_cases [OF assms(1)]
proof (elim disjE exE conjE)
  fix event oid body assume none: "kept_bound J msg shown event oid body = None" and c1: "c1 = apply_op J T ms event oid body c"
  have oid: "oid = JStr i" if "id_text J oid = i" using named_row [OF that] assms(8) by (simp add: no_alias_def)
  show ?thesis
    unfolding c1
  proof (rule kept_apply [OF assms(2,3)])
    fix r :: memory_row assume u: "event = ''update''" "id_text J oid = i" and doc: "mr_document r = ru_secrets (jr_rules J) body"
    have "loosened_bound J old body = None"
      using not_kept [OF none _ _ assms(5)] assms(4) oid [OF u(2)] u(1) by simp
    from not_loosened [OF this] doc show "bounded_as J old r" by (auto simp: bounded_as_def)
  next
    assume d: "event = ''delete''"
    show "id_text J oid \<noteq> i"
    proof
      assume "id_text J oid = i"
      then have "loosened_bound J old [] = None"
        using not_kept [OF none _ _ assms(5)] assms(4) oid d by simp
      with dropping_loosens [OF assms(7,6)] show False by simp
    qed
  qed
qed (use kept_puts [OF assms(2,3)] in simp)

lemma consolidate_shown:
  assumes "calm (ms n)" "rows_shown J X T (ms n) facts (um_db s) = (shown, db)"
    and "facts = filter (\<lambda>f. \<not> jr_instruction J f) candidates" "facts \<noteq> []"
  shows "consolidate J X T ms changing msg candidates answer (n, s)
    = consolidate_ops J T ms msg facts changing shown (ops_of answer) (Suc n, s)"
  using shown_parts(1) [OF assms(1,2)] assms(2,4)
  by (simp add: consolidate_def assms(3) [symmetric] with_db_def Let_def)

lemma shown_kept:
  assumes "calm M" "rows_shown J X T M facts (um_db s) = (shown, db)" "(i, d, md) \<in> set shown"
    and "\<And>r. r \<in> set (rows_of_user (tj_user T) (um_db s)) \<Longrightarrow> item_of r = (i, d, md) \<Longrightarrow> Q r"
  shows "kept i Q (m, s)"
proof -
  obtain r where r: "r \<in> set (rows_of_user (tj_user T) (um_db s))" "item_of r = (i, d, md)"
    using shown_parts(3) [OF assms(1,2,3)] by blast
  then have "r \<in> set (md_rows (um_db s))" "mr_id r = i" by (simp_all add: rows_of_user_def item_of_def)
  with assms(4) [OF r] show ?thesis by (auto simp: kept_def)
qed


text \<open>
  C40. What the user asked to be saved is not touched by the background job: whatever the language model answers, a row
  with the provenance \<open>explicit_remember\<close> that was shown to it is exactly the same row afterwards.
\<close>

lemma saved_row_is_kept:
  assumes "\<And>n. calm (ms n)" "facts = filter (\<lambda>f. \<not> jr_instruction J f) candidates" "facts \<noteq> []" "memory_ok (um_db s)"
    and "r \<in> set (rows_of_user (tj_user T) (um_db s))" "item_of r \<in> set (fst (rows_shown J X T (ms n) facts (um_db s)))"
    and "meta_get (mr_metadata r) ''source'' = source_explicit" "no_alias J (mr_id r)"
  shows "r \<in> set (md_rows (um_db (snd (consolidate J X T ms changing msg candidates answer (n, s)))))"
proof -
  obtain shown db where shown: "rows_shown J X T (ms n) facts (um_db s) = (shown, db)" by (cases "rows_shown J X T (ms n) facts (um_db s)")
  have prot: "mr_id r \<in> set (protected_ids J changing shown)"
    using assms(6,7) by (force simp: shown protected_ids_def item_of_def)
  have start: "kept (mr_id r) (\<lambda>x. x = r) (Suc n, s)" using assms(5) by (auto simp: kept_def rows_of_user_def)
  have step: "kept (mr_id r) (\<lambda>x. x = r) c1"
    if k: "kept (mr_id r) (\<lambda>x. x = r) c" and op: "consolidate_op J T ms msg facts changing shown op c = Some c1" for op c c1
    using consolidate_op_cases [OF op]
  proof (elim disjE exE conjE)
    fix event oid body assume free: "event = ''update'' \<or> event = ''delete'' \<longrightarrow> oid \<notin> JStr ` set (protected_ids J changing shown)"
      and c1: "c1 = apply_op J T ms event oid body c"
    have oid: "id_text J oid \<noteq> mr_id r" if "event = ''update'' \<or> event = ''delete''"
      using named_row [of J oid "mr_id r"] assms(8) free that prot by (auto simp: no_alias_def)
    show ?thesis unfolding c1 by (rule kept_apply [OF k assms(1)]) (use oid in auto)
  qed (use kept_puts [OF k assms(1)] in simp)
  have "kept (mr_id r) (\<lambda>x. x = r) (consolidate J X T ms changing msg candidates answer (n, s))"
    unfolding consolidate_shown [where ms = ms and n = n, OF assms(1) shown assms(2,3)]
    by (rule consolidate_ops_inv [where P = "kept (mr_id r) (\<lambda>x. x = r)", OF start step])
  then show ?thesis by (auto simp: kept_def)
qed

text \<open>Sample rules: the figures of a text are its digits read as one number, and only a message with a figure is firm.\<close>

definition sample_jobs :: job_rules where
  "sample_jobs = \<lparr>jr_rules = sample_rules, jr_instruction = (\<lambda>_. False), jr_criteria = (\<lambda>_. True), jr_third = (\<lambda>_. False), jr_head = (\<lambda>t. t),
     jr_money = (\<lambda>t. let ds = filter is_digit t in if ds = [] then [] else [foldl (\<lambda>n c. 10 * n + of_char c - 48) 0 ds]),
     jr_minutes = (\<lambda>_. []), jr_bare = (\<lambda>_. []), jr_commute = (\<lambda>_. False), jr_budget = (\<lambda>_. False), jr_soft = (\<lambda>_. False), jr_removed = (\<lambda>_. False),
     jr_clauses = (\<lambda>t. [t]), jr_superseded = (\<lambda>_ _. None), jr_topics = [], jr_requires = (\<lambda>_ _. False), jr_without = (\<lambda>_ t. t), jr_bound_id = (\<lambda>_. [])\<rparr>"

definition sample_turn :: "string \<Rightarrow> turn_job" where
  "sample_turn user = \<lparr>tj_user = user, tj_session = ''c'', tj_conversation = Some ''c'', tj_turn = Some ''t''\<rparr>"

definition sample_op :: "string \<Rightarrow> string \<Rightarrow> json" where
  "sample_op event body = JObj [(''event'', JStr event), (''id'', JStr ''semantic_semantic|v|budget 900''), (''text'', JStr body)]"

definition sample_row :: memory_row where
  "sample_row = hd (rows_of_user ''v'' (um_db sample_stored))"

lemma sample_row_parts:
  "filter (\<lambda>r. meta_get (mr_metadata r) ''mtype'' = JStr ''semantic'') (rows_of_user ''v'' (um_db sample_stored)) = [sample_row]"
  "mr_id sample_row = ''semantic_semantic|v|budget 900''" "mr_document sample_row = ''budget 900''"
  by code_simp+

lemma sample_shown:
  "fst (rows_shown sample_jobs sample_lexicon (sample_turn ''v'') sample_moments [f] (um_db sample_stored)) = [item_of sample_row]"
  by (simp add: rows_shown_def query_items_def kind_items [OF calm_env [OF sample_calm]] sample_turn_def sample_row_parts(1) rank_items_def
    insort_key_def)


definition sample_saved :: user_memory where
  "sample_saved = snd (add_memory sample_rules (sample_moments, sample_moments)
     ((sample_request ''v'' ''likes parks'' None)\<lparr>aq_extra := [(''source'', source_explicit)]\<rparr>) no_memories)"

definition saved_row :: memory_row where
  "saved_row = hd (rows_of_user ''v'' (um_db sample_saved))"

lemma saved_row_parts:
  "filter (\<lambda>r. meta_get (mr_metadata r) ''mtype'' = JStr ''semantic'') (rows_of_user ''v'' (um_db sample_saved)) = [saved_row]"
  "meta_get (mr_metadata saved_row) ''source'' = source_explicit" "mr_id saved_row = ''semantic_semantic|v|likes parks''"
  "saved_row \<in> set (rows_of_user ''v'' (um_db sample_saved))" "memory_ok (um_db sample_saved)"
  by code_simp+

lemma saved_row_is_kept_witness:
  "saved_row \<in> set (md_rows (um_db (snd (consolidate sample_jobs sample_lexicon (sample_turn ''v'') (\<lambda>_. sample_moments) False [] [''hates parks'']
     (JObj [(''ops'', JArr [JObj [(''event'', JStr ''DELETE''), (''id'', JStr ''semantic_semantic|v|likes parks'')]])]) (0, sample_saved)))))"
proof -
  have facts: "[''hates parks''] = filter (\<lambda>f. \<not> jr_instruction sample_jobs f) [''hates parks'']" by (simp add: sample_jobs_def)
  have mine: "saved_row \<in> set (rows_of_user (tj_user (sample_turn ''v'')) (um_db sample_saved))"
    using saved_row_parts(4) by (simp add: sample_turn_def)
  have ids: "no_alias sample_jobs (mr_id saved_row)" by (simp add: no_alias_def sample_jobs_def saved_row_parts(3))
  have "item_of saved_row \<in> set (fst (rows_shown sample_jobs sample_lexicon (sample_turn ''v'') sample_moments [''hates parks''] (um_db sample_saved)))"
    by (simp add: rows_shown_def query_items_def kind_items [OF calm_env [OF sample_calm]] sample_turn_def saved_row_parts(1) rank_items_def
      insort_key_def)
  from saved_row_is_kept [OF sample_calm facts _ saved_row_parts(5) mine this saved_row_parts(2) ids] show ?thesis by simp
qed

section \<open>What it can do\<close>

text \<open>
  An id that was not shown is not checked at all: an operation that names it is obeyed, whichever user the row
  belongs to.
\<close>

definition delete_op :: "string \<Rightarrow> json" where
  "delete_op i = JObj [(''event'', JStr ''DELETE''), (''id'', JStr i)]"

lemma unshown_row_is_dropped:
  assumes "calm (ms n)" "calm (ms (Suc n))" "facts = filter (\<lambda>f. \<not> jr_instruction J f) candidates" "facts \<noteq> []"
    and "rows_shown J X T (ms n) facts (um_db s) = (shown, db)" "i \<notin> fst ` set shown" "i \<noteq> []"
  shows "i \<notin> set (ids_of (um_db (snd (consolidate J X T ms changing msg candidates (JObj [(''ops'', JArr [delete_op i])]) (n, s)))))"
proof -
  have name: "lower ''DELETE'' = ''delete''" by code_simp
  have parts: "op_text (delete_op i) ''event'' = Some ''DELETE''" "op_text (delete_op i) ''text'' = Some []" "field_or_null (delete_op i) ''id'' = JStr i"
    by (simp_all add: delete_op_def op_text_def field_or_null_def)
  have unseen: "JStr i \<notin> JStr ` set (protected_ids J changing shown)" using assms(6) by (auto simp: protected_ids_def)
  have "map_of shown i = None" using assms(6) by (simp add: map_of_eq_None_iff)
  then have free: "kept_bound J msg shown ''delete'' (JStr i) body = None" for body by (simp add: kept_bound_def text_shown_def)
  have "consolidate J X T ms changing msg candidates (JObj [(''ops'', JArr [delete_op i])]) (n, s) = snd (drop_row J ms i (Suc n, s))"
    unfolding consolidate_shown [where ms = ms and n = n, OF assms(1,5,3,4)]
    using assms(7) unseen
    by (simp add: ops_of_def consolidate_op_def parts name guarded_op_def free apply_op_def id_text_def) (simp add: delete_op_def)
  moreover have "i \<notin> set (ids_of (um_db (snd (snd (drop_row J ms i (Suc n, s))))))"
    using deleted_at_rest(2) [OF calm_env [OF assms(2)] prod.collapse [symmetric]]
    by (auto simp: drop_row_def with_db_db ids_of_def)
  ultimately show ?thesis by simp
qed

lemma consolidation_reaches_other_users:
  "rows_of_user ''v'' (um_db sample_stored) \<noteq> []
   \<and> rows_of_user ''v'' (um_db (snd (consolidate sample_jobs sample_lexicon (sample_turn ''u'') (\<lambda>_. sample_moments) False [] [''likes parks'']
        (JObj [(''ops'', JArr [delete_op ''semantic_semantic|v|budget 900''])]) (0, sample_stored)))) = []"
proof -
  let ?i = "''semantic_semantic|v|budget 900''"
  have none: "filter (\<lambda>r. meta_get (mr_metadata r) ''mtype'' = JStr ''semantic'') (rows_of_user ''u'' (um_db sample_stored)) = []" by code_simp
  have shown: "rows_shown sample_jobs sample_lexicon (sample_turn ''u'') sample_moments [''likes parks''] (um_db sample_stored) = ([], um_db sample_stored)"
    by (simp add: rows_shown_def query_items_def kind_items [OF calm_env [OF sample_calm]] sample_turn_def none rank_items_def)
  have facts: "[''likes parks''] = filter (\<lambda>f. \<not> jr_instruction sample_jobs f) [''likes parks'']" by (simp add: sample_jobs_def)
  have "consolidate sample_jobs sample_lexicon (sample_turn ''u'') (\<lambda>_. sample_moments) False [] [''likes parks'']
      (JObj [(''ops'', JArr [delete_op ?i])]) (0, sample_stored)
    = consolidate_ops sample_jobs (sample_turn ''u'') (\<lambda>_. sample_moments) [] [''likes parks''] False [] [delete_op ?i] (Suc 0, sample_stored)"
    using consolidate_shown [where ms = "\<lambda>_. sample_moments" and n = 0, OF sample_calm shown facts] by (simp add: ops_of_def)
  moreover have "rows_of_user ''v'' (um_db (snd (consolidate_ops sample_jobs (sample_turn ''u'') (\<lambda>_. sample_moments) [] [''likes parks''] False []
      [delete_op ?i] (Suc 0, sample_stored)))) = []" by code_simp
  moreover have "rows_of_user ''v'' (um_db sample_stored) \<noteq> []" by code_simp
  ultimately show ?thesis by simp
qed

end
