(* ===== verification/Spec2Isabelle.thy ===== *)
theory Spec2Isabelle
  imports RateLimit ToolExecution StoreGuarantees Ranking Caches EvidenceDigest AuthStore OtmAccess StrictSchema OutboxWorker MemoryStore Retirement PendingWrites Erasure Consolidation
begin

text \<open>
  Verification development of RentCompass, a rental-search assistant: a Flask web application
  (\<open>src/app/app.py\<close>) in front of a language-model agent (\<open>src/app/core\<close>) with a framework-free
  library below both (\<open>src/src/uk_rent_agent\<close>).  The theories model the deterministic core that
  everything else relies on: what is stored and who may change it, which tools run and how often,
  what specialists may return, how pages are ranked, and how the listing source is approached.
  File names below are relative to \<open>src/\<close>.

  The path of a request.  A client logs in (\<open>AuthStore\<close>) and sends a chat request, which the
  rate limiter admits or refuses (\<open>RateLimit\<close>).  The conversation store opens a turn under the
  lease of the conversation and under the request id of the client (\<open>RequestTurns\<close>); its hot
  state lies in the session cache (\<open>Caches\<close>).  The agent binds its tools with strict schemas
  (\<open>StrictSchema\<close>) and runs each call through the tool pipeline (\<open>ToolExecution\<close>), where writes
  pass the idempotency ledger (\<open>IdempotencyLedger\<close>) and slow reads the persistent cache
  (\<open>Caches\<close>).  Read-only calls can be planned for specialists (\<open>SpecialistBatch\<close>, on the contracts
  of \<open>SpecialistContracts\<close>), whose ledger entries become typed results (\<open>SpecialistResults\<close>), the
  evidence note for the writer of the answer and the answer contract (\<open>EvidenceDigest\<close>).  Searches
  fetch pages of the listing source through \<open>OtmAccess\<close> and rank them with \<open>Ranking\<close>.  The turn is
  finalised together with its snapshot and its outbox jobs (\<open>RequestTurns\<close>, \<open>BackgroundOutbox\<close>).
  The worker takes the jobs one by one, folds old turns into the rolling summary and hands the turn
  to the long-term memory (\<open>OutboxWorker\<close>), whose rows are kept by the memory store (\<open>MemoryStore\<close>).
  Above the rows, \<open>AgentMemory\<close> adds, forgets and recalls (\<open>UserMemory\<close>) and lets the language model merge new
  facts into old ones (\<open>Consolidation\<close>).  A memory write that was denied waits in a ledger for the user's next reply (\<open>PendingWrites\<close>).  A user can ask
  to be forgotten in all of these layers (\<open>Erasure\<close>), and an operator retires the files of the
  legacy memory (\<open>Retirement\<close>).

  Theories, sources and definitions.

    \<^item> \<open>Prelude\<close>: exact rationals for floats, the JSON values with their Python truthiness, error
      values, text functions, rows as lists with \<open>UPDATE\<close> and \<open>DELETE\<close>, and the locale
      \<open>invariant_machine\<close> (a step function that keeps an invariant; runs and reachability once).
    \<^item> \<open>RateLimit\<close>: \<open>uk_rent_agent/web/rate_limit.py\<close> and the two hooks of \<open>app/app.py\<close> that charge and
      refund.  A deque per key and a SQLite table, both shown to implement one ledger of net charges
      (the locale \<open>window_limiter\<close> is interpreted on both).
    \<^item> \<open>IdempotencyLedger\<close>: \<open>uk_rent_agent/tools/idempotency.py\<close>, table \<open>tool_invocations\<close> as a map;
      claims, leases, completion, failure and the freezing of expired writes.
    \<^item> \<open>ToolExecution\<close>: \<open>app/core/tool_system.py\<close>, one call through validation, write gate, retries
      and settlement; the registry; the pinned capabilities of specialists.
    \<^item> \<open>SpecialistContracts\<close>: \<open>uk_rent_agent/agent/specialist_contracts.py\<close>, each contract model with its
      constraints, canonical JSON and digests, plans with Kahn's algorithm for acyclicity, grants.
    \<^item> \<open>SpecialistBatch\<close>, \<open>SpecialistResults\<close>, \<open>EvidenceDigest\<close>: \<open>app/core/specialist_runtime.py\<close> in
      three parts, planning and revalidation, results from the artifact ledger, and the consumers.
    \<^item> \<open>StoreTables\<close>, \<open>RequestTurns\<close>, \<open>ConversationRows\<close>, \<open>BackgroundOutbox\<close>, \<open>Branches\<close>:
      \<open>uk_rent_agent/web/conversation_store.py\<close>, one record of tables and one definition per method;
      \<open>StoreInvariant\<close> makes it one state machine with its invariant, \<open>StoreGuarantees\<close> holds what
      the store promises.
    \<^item> \<open>Ranking\<close>: \<open>app/core/ranking.py\<close>, the six utilities, the renormalised score, the greedy page.
    \<^item> \<open>Caches\<close>: \<open>uk_rent_agent/web/session_store.py\<close> and \<open>uk_rent_agent/data/cache.py\<close>.
    \<^item> \<open>AuthStore\<close>: \<open>uk_rent_agent/web/auth_store.py\<close>, accounts, login sessions and the migration of a
      legacy file.
    \<^item> \<open>OtmAccess\<close>: \<open>app/core/scraping/otm_access.py\<close>, the shared access row, robots rules, the one
      permitted GET.
    \<^item> \<open>StrictSchema\<close>: \<open>app/core/strict_schema.py\<close>, the schema transform, its checker and the two
      inverses on the executor side.
    \<^item> \<open>OutboxWorker\<close>: \<open>uk_rent_agent/web/background_jobs.py\<close>, the two job handlers of \<open>app/app.py\<close> and the
      rolling summary of \<open>app/core/context_assembler.py\<close>; one run of a worker from claim to release,
      with arbitrary store operations of others in between.
    \<^item> \<open>MemoryStore\<close>: \<open>app/rag/sqlite_memory_store.py\<close>, the collection of memories, its synchronisation
      with a legacy database under tombstones and lineage, its lexical ranking, the verification.
    \<^item> \<open>CrashRuns\<close>: runs as sequences of visible states, any prefix of which a crash can leave behind, with the
      triples \<open>guards\<close>, \<open>completes\<close> and \<open>secures\<close> and their rules; it models no file of its own.
    \<^item> \<open>Retirement\<close>: \<open>scripts/migrate_agent_memory.py\<close>, inspection and retirement of the legacy files over
      the disk, on \<open>MemoryStore\<close> and \<open>CrashRuns\<close>.
    \<^item> \<open>PendingWrites\<close>: the ledger of \<open>app/core/memory_gate.py\<close> and \<open>_resolve_pending_memory\<close> of
      \<open>app/core/agent_loop.py\<close>; concurrent replies as events over claims in flight.
    \<^item> \<open>Erasure\<close>: \<open>forget_me\<close>, \<open>delete_conversation\<close> and \<open>clear_history\<close> of \<open>app/app.py\<close> with the erasure of
      \<open>app/rag/agent_memory.py\<close>, composed of the stores above.
    \<^item> \<open>MemoryReads\<close>: what the classes above the collection rely on when they read it, and changes that stay
      within the rows of one user; it models the filters of \<open>app/rag/agent_memory.py\<close>.
    \<^item> \<open>UserMemory\<close>: \<open>AgentMemory\<close> of that file, adding, forgetting a field, revising and retiring rows, the cap,
      scored retrieval, with the calls of all users as one state machine; \<open>MemoryKeys\<close> proves what idempotency
      keys are for and \<open>FieldErasure\<close> what \<open>add\<close>, \<open>forget_fact\<close> and \<open>retrieve\<close> promise their callers.
    \<^item> \<open>Consolidation\<close>: \<open>_consolidate\<close>, \<open>_supersede_slot_facts\<close>, \<open>retire_withdrawn_requirements\<close> and the rules on
      stated bounds, for any answer of the language model.

  What the lemmas show.  Safety over interleavings: one claim per write key and one entry of a
  write function; one running turn per conversation; no activity for a user under erasure; no
  request to the listing source without permission, without its pause or before its slot; a token
  works exactly while its session lives.  Functional behaviour: both limiters decide alike and admit
  at most the limit; a retry returns the stored answer; a fork copies exactly the inherited
  turns; a batch settles every call; results follow the ledger alone; an adapted schema passes its
  checker; a deleted memory stays deleted and the verification of a migration accounts for every row;
  saved work of a background job is never asked for again; a retirement killed anywhere loses no
  row and can be finished; a replayed memory write has its own idempotency key and the frozen text; a
  forgotten user is gone from every layer, and an unfinished erasure keeps what the next try needs; users do
  not reach each other's memories, a key stands for one memory, a forgotten field is gone and forgetting it
  succeeds, an id handed out is held, and the language model can neither raise a stated ceiling nor touch a saved
  row among the rows it is shown.
  Round trips: a batch's plan through its JSON snapshot, a cache entry through its
  envelope, a registration through login, a memory through the collection.  Bounds and termination: attempts, lineage walks, scores,
  the evidence note.

  How the code is represented.  Operations take clock readings, uuids, salts and the answers of
  other systems as arguments and return the new state; methods that run in one SQLite transaction
  are one step.  Errors are values of sums or options.  Texts are the bytes of their UTF-8
  encoding; user text that the code bounds by characters is a list of code points.  Floats are
  exact rationals: rounding errors, NaN and infinities are outside the model.  Python integers are
  \<open>int\<close>; no fixed-width integer occurs in the modelled code.  Parameters stand for code outside the
  repository: SHA-256 (\<open>sha\<close>, \<open>digest\<close>), the text of a float (\<open>ftext\<close>) or of a value that is no
  string (\<open>pstr\<close>), pydantic's validation and the tools' own functions (\<open>world\<close>), password
  hashing and \<open>str.lower\<close> (\<open>auth_lib\<close>), process liveness (\<open>process\<close>), HTTP responses and locks
  (\<open>request_env\<close>, \<open>robots_env\<close>), the language model and the memory behind the worker (\<open>worker_env\<close>),
  the files of the legacy database (\<open>legacy_env\<close>, \<open>legacy_source\<close>), Unicode normalisation (\<open>lexicon\<close>) and the
  checkpoint saver (\<open>saver\<close>).  The regular expressions over remembered texts are the records \<open>memory_rules\<close>
  and \<open>job_rules\<close>; what a theorem needs of them (\<open>cuts_value\<close>) is what their docstrings promise.
  A digest is assumed injective only where a theorem says so.

  Loops.  Kahn's algorithm removes a vertex per round; \<open>walk_lineage\<close> carries the depth of the
  code (50) as fuel, and the walk is proved to end before it on every reachable store;
  \<open>select_page\<close> and \<open>fit_note\<close> shorten their lists; \<open>check_native\<close> is measured by the size of its
  stack; \<open>transform\<close> and \<open>walk\<close> by the size of the schema; \<open>wait_for_slot\<close> consumes one clock reading
  per turn, so that waiting for ever is the value \<open>None\<close>.

  Not modelled, and why.  Of the background job of the memory the extraction of facts, the reflections and the
  opt-out rules are left out: prompts and regular expressions over free text.  Flask routes, ASGI, server-sent events and the logging around them are
  glue.  The agent loop, the LangGraph agent, the candidate validator, the constraint updater and
  the search tool decide through large families of regular expressions over free English text, and
  the language-model and embedding clients depend on a remote model.  HTML scraping and the maps,
  weather, transport and web-search tools read documents of other sites.  The evaluation
  harness, the deployment scripts, the fine-tuning code and the tests are no part of the running
  program.  Threads and weak references of the session locks are left out: every modelled step
  is atomic, as the code's own locks and transactions make it.
\<close>

end
